(* ===== verification/Prelude.thy ===== *)
theory Prelude
  imports Main "HOL-Library.Word"
begin

text \<open>
  Shared vocabulary of the development: fixed-width integers under the names the C code
  uses, kernel error numbers, the C arithmetic macros (\<open>ALIGN\<close>, \<open>DIV_ROUND_UP\<close>, \<open>clamp\<close>,
  truncating division), bytes of a word, decimal digits, association lists for heap objects, and
  the locales \<open>step_invariant\<close> and \<open>simulation\<close> that the components' state machines interpret.
\<close>

unbundle bit_operations_syntax

type_synonym u8 = "8 word"
type_synonym u16 = "16 word"
type_synonym u32 = "32 word"
type_synonym u64 = "64 word"

named_theorems accessor_simps \<open>read-after-write equations of registers and state fields\<close>
named_theorems inv_intros \<open>an operation keeps its component's invariant\<close>

section \<open>Errors\<close>

text \<open>
  The kernel's error numbers that the modelled functions return, plus \<open>Errno\<close> for a code
  that an external call produced and the function only passes on. A function that returns
  0 or a negative number returns \<open>Inr ()\<close> or \<open>Inl e\<close>.
\<close>

datatype errno = EPERM | ENOMEM | EFAULT | ENODEV | EINVAL | ENOTTY | ENOSYS
  | EPROBE_DEFER | Errno nat

type_synonym 'a res = "errno + 'a"

section \<open>C arithmetic\<close>

text \<open>\<open>ALIGN(x, a)\<close> for a power of two \<open>a = 2 ^ k\<close>, at the width of \<open>x\<close>: it wraps.\<close>

definition align_up :: "nat \<Rightarrow> 'a::len word \<Rightarrow> 'a word" where
  "align_up k x = (x + mask k) AND NOT (mask k)"

text \<open>C's integer division truncates towards zero.\<close>

definition cdiv :: "int \<Rightarrow> int \<Rightarrow> int" where
  "cdiv a b = sgn a * sgn b * (\<bar>a\<bar> div \<bar>b\<bar>)"

definition clamp :: "int \<Rightarrow> int \<Rightarrow> int \<Rightarrow> int" where
  "clamp x lo hi = (if x < lo then lo else if hi < x then hi else x)"

lemma clamp_range: "lo \<le> hi \<Longrightarrow> lo \<le> clamp x lo hi \<and> clamp x lo hi \<le> hi"
  by (simp add: clamp_def)

lemma cdiv_nonneg: "0 \<le> a \<Longrightarrow> 0 < b \<Longrightarrow> cdiv a b = a div b"
  by (cases "a = 0") (simp_all add: cdiv_def)

lemma cdiv_neg: "a < 0 \<Longrightarrow> 0 < b \<Longrightarrow> cdiv a b = - ((- a) div b)"
  by (simp add: cdiv_def)

lemma align_up_unat:
  fixes x :: "'a::len word"
  assumes k: "k < LENGTH('a)" and fits: "unat x + 2 ^ k \<le> 2 ^ LENGTH('a)"
  shows "unat (align_up k x) = (unat x + (2 ^ k - 1)) div 2 ^ k * 2 ^ k"
proof -
  have m: "unat (mask k :: 'a word) = 2 ^ k - 1"
  proof -
    have "unat (mask k :: 'a word) = nat (mask k)"
      using k by (simp add: uint_mask_eq min_def flip: nat_uint_eq)
    then show ?thesis by (simp add: nat_mask_eq mask_nat_def)
  qed
  have s: "unat (x + mask k) = unat x + (2 ^ k - 1)"
  proof -
    have "unat x + (2 ^ k - 1) < 2 ^ LENGTH('a)"
      using fits zero_less_power [of "2 :: nat" k] by linarith
    with m show ?thesis by (metis unat_add_lem)
  qed
  have "align_up k x = (x + mask k) - ((x + mask k) AND mask k)"
    unfolding align_up_def
    by (subst disjunctive_diff_eq_and_not) (auto simp: bit_eq_iff bit_simps)
  moreover have "(x + mask k) AND mask k \<le> x + mask k"
    by (rule word_and_le2)
  ultimately have "unat (align_up k x) = unat (x + mask k) - unat ((x + mask k) AND mask k)"
    by (simp add: unat_sub)
  also have "unat ((x + mask k) AND mask k) = unat (x + mask k) mod 2 ^ k"
    by (metis take_bit_eq_mask unsigned_take_bit_eq take_bit_eq_mod)
  finally show ?thesis
    by (simp add: s minus_mod_eq_div_mult)
qed

lemma u8_unat_less: "unat (b :: u8) < 256"
  using unsigned_less [where ?'a = nat and w = b] by simp

lemma uint_ucast_up:
  "LENGTH('a) \<le> LENGTH('b) \<Longrightarrow> uint (ucast (w :: 'a::len word) :: 'b::len word) = uint w"
  by (metis uint_up_ucast is_up)

lemma unat_ucast_up:
  "LENGTH('a) \<le> LENGTH('b) \<Longrightarrow> unat (ucast (w :: 'a::len word) :: 'b::len word) = unat w"
  by (metis uint_ucast_up unat_eq_nat_uint)

lemma unat_word_of_nat: "n < 2 ^ LENGTH('a) \<Longrightarrow> unat (word_of_nat n :: 'a::len word) = n"
  by (simp add: unsigned_of_nat take_bit_nat_eq_self)

lemma uint_less_of_unat: "unat w < k \<Longrightarrow> uint w < int k"
  by (metis of_nat_less_iff uint_nat)

lemma u8_bit_high: "8 \<le> n \<Longrightarrow> \<not> bit (b :: u8) n"
  by (auto dest: bit_imp_le_length)

text \<open>Bytes of an integer, and a 32-bit integer from its bytes.\<close>

lemma byte_of_uint: "word_of_int (drop_bit k (uint w) AND 255) = (ucast (drop_bit k w) :: u8)"
proof (rule bit_word_eqI)
  fix n assume "n < LENGTH(8)"
  then have n: "n < 8" by simp
  have m: "(255 :: int) = mask 8" by (simp add: mask_eq_exp_minus_1)
  show "bit (word_of_int (drop_bit k (uint w) AND 255) :: u8) n = bit (ucast (drop_bit k w) :: u8) n"
    unfolding m using n by (simp add: bit_simps)
qed

lemma u32_bytes:
  fixes a b c d :: u8
  defines "w \<equiv> ucast a OR push_bit 8 (ucast b) OR push_bit 16 (ucast c) OR push_bit 24 (ucast d) :: u32"
  shows "ucast w = a" "ucast (drop_bit 8 w) = b" "ucast (drop_bit 16 w) = c" "ucast (drop_bit 24 w) = d"
  unfolding w_def by (rule bit_word_eqI; auto simp: bit_simps u8_bit_high)+

lemma u32_of_bytes:
  fixes v :: u32
  shows "ucast (ucast v :: u8) OR push_bit 8 (ucast (ucast (drop_bit 8 v) :: u8)) OR
    push_bit 16 (ucast (ucast (drop_bit 16 v) :: u8)) OR push_bit 24 (ucast (ucast (drop_bit 24 v) :: u8)) = v" (is "?l = v")
proof (rule bit_word_eqI)
  fix n
  assume "n < LENGTH(32)"
  then consider "n < 8" | "8 \<le> n" "n < 16" | "16 \<le> n" "n < 24" | "24 \<le> n" "n < 32"
    by force
  then show "bit ?l n = bit v n"
    by cases (auto simp: bit_simps)
qed

section \<open>Decimal numbers in text\<close>

definition digit :: "char \<Rightarrow> bool" where
  "digit c \<longleftrightarrow> 48 \<le> (of_char c :: nat) \<and> (of_char c :: nat) \<le> 57"

definition blank :: "char \<Rightarrow> bool" where
  "blank c \<longleftrightarrow> (of_char c :: nat) = 32 \<or> 9 \<le> (of_char c :: nat) \<and> (of_char c :: nat) \<le> 13"

definition digits_value :: "string \<Rightarrow> int" where
  "digits_value s = foldl (\<lambda>v c. v * 10 + (of_char c - 48)) 0 s"

section \<open>State machines\<close>

inductive reach :: "'s \<Rightarrow> ('s \<Rightarrow> 's \<Rightarrow> bool) \<Rightarrow> 's \<Rightarrow> bool" for i R where
  start: "reach i R i"
| step: "reach i R s \<Longrightarrow> R s t \<Longrightarrow> reach i R t"

text \<open>
  The contract every component's operations share: they start in a state that satisfies
  the invariant and each step keeps it.
\<close>

locale step_invariant =
  fixes init :: 's and step :: "'s \<Rightarrow> 's \<Rightarrow> bool" and inv :: "'s \<Rightarrow> bool"
  assumes inv_init: "inv init"
    and inv_step: "inv s \<Longrightarrow> step s t \<Longrightarrow> inv t"
begin

lemma reach_inv: "reach init step s \<Longrightarrow> inv s"
  by (induction rule: reach.induct) (auto intro: inv_init inv_step)

end

text \<open>
  A concrete machine implements an abstract one: an abstraction function maps the initial
  state to the initial state and each concrete step, taken where the invariant holds, to
  an abstract step or to no change.
\<close>

locale simulation = step_invariant init step inv
  for init :: 's and step :: "'s \<Rightarrow> 's \<Rightarrow> bool" and inv :: "'s \<Rightarrow> bool" +
  fixes abs :: "'s \<Rightarrow> 'a" and ainit :: 'a and astep :: "'a \<Rightarrow> 'a \<Rightarrow> bool"
  assumes abs_init: "abs init = ainit"
    and abs_step: "inv s \<Longrightarrow> step s t \<Longrightarrow> abs t = abs s \<or> astep (abs s) (abs t)"
begin

lemma reach_abs: "reach init step s \<Longrightarrow> reach ainit astep (abs s)"
proof (induction rule: reach.induct)
  case start
  show ?case by (simp add: abs_init reach.start)
next
  case (step s t)
  from step.hyps(1) have "inv s" by (rule reach_inv)
  with step.hyps(2) abs_step [of s t] step.IH show ?case
    by (auto intro: reach.step)
qed

end

section \<open>Association lists as stores\<close>

declare map_of_eq_Some_iff [simp del] Some_eq_map_of_iff [simp del]

definition al_upd :: "'k \<Rightarrow> ('v \<Rightarrow> 'v) \<Rightarrow> ('k \<times> 'v) list \<Rightarrow> ('k \<times> 'v) list" where
  "al_upd k f xs = map (\<lambda>(k', v). (k', if k' = k then f v else v)) xs"

definition al_del :: "'k \<Rightarrow> ('k \<times> 'v) list \<Rightarrow> ('k \<times> 'v) list" where
  "al_del k xs = filter (\<lambda>(k', v). k' \<noteq> k) xs"

lemma al_upd_Nil [simp]: "al_upd k f [] = []"
  and al_upd_Cons [simp]: "al_upd k f ((k', v) # xs) = (k', if k' = k then f v else v) # al_upd k f xs"
  and al_del_Nil [simp]: "al_del k [] = []"
  and al_del_Cons [simp]: "al_del k ((k', v) # xs) = (if k' = k then al_del k xs else (k', v) # al_del k xs)"
  by (simp_all add: al_upd_def al_del_def)

lemma al_upd_keys [simp]: "map fst (al_upd k f xs) = map fst xs"
  by (induction xs) auto

lemma al_upd_set_keys [simp]: "fst ` set (al_upd k f xs) = fst ` set xs"
  by (metis al_upd_keys list.set_map)

lemma al_upd_lookup [simp]:
  "map_of (al_upd k f xs) x = (if x = k then map_option f (map_of xs x) else map_of xs x)"
  by (induction xs) auto

lemma al_del_lookup [simp]: "map_of (al_del k xs) x = (if x = k then None else map_of xs x)"
  by (induction xs) auto

lemma al_del_set_keys [simp]: "fst ` set (al_del k xs) = fst ` set xs - {k}"
  by (force simp: al_del_def)

lemma al_del_distinct: "distinct (map fst xs) \<Longrightarrow> distinct (map fst (al_del k xs))"
  by (induction xs) auto

lemma al_del_absent: "k \<notin> fst ` set xs \<Longrightarrow> al_del k xs = xs"
  by (induction xs) auto

lemma map_of_Some_in: "map_of xs k = Some v \<Longrightarrow> k \<in> fst ` set xs"
  by (metis domI dom_map_of_conv_image_fst)

text \<open>A sum over a store, after the entry of one key is removed or changed.\<close>

lemma al_del_sum:
  "distinct (map fst xs) \<Longrightarrow> map_of xs k = Some v \<Longrightarrow>
   sum_list (map g xs) = (g (k, v) :: nat) + sum_list (map g (al_del k xs))"
proof (induction xs)
  case (Cons p xs)
  show ?case
  proof (cases "fst p = k")
    case True
    with Cons.prems have "al_del k xs = xs" by (auto intro: al_del_absent)
    with Cons.prems True show ?thesis by (cases p) auto
  next
    case False
    with Cons show ?thesis by (cases p) auto
  qed
qed simp

lemma al_upd_sum_same:
  "(\<And>v. g (k, f v) = g (k, v)) \<Longrightarrow> sum_list (map g (al_upd k f xs)) = sum_list (map g xs)"
  by (induction xs) auto

lemma length_filter_al_del:
  assumes "distinct (map fst xs)" and "map_of xs k = Some v"
  shows "length (filter P xs) = (if P (k, v) then 1 else 0) + length (filter P (al_del k xs))"
  using al_del_sum [OF assms, of "\<lambda>p. if P p then 1 else 0"]
  by (simp add: sum_list_map_filter' [symmetric] length_filter_conv_card sum_list_triv)

end
