(* ===== verification/Ion.thy ===== *)
theory Ion
  imports Prelude
begin

text \<open>
  The ION compatibility shim (\<open>soph-display/compat/soph_ion_compat.c\<close>, \<open>compat/ion/ion.h\<close>,
  \<open>soph-ion-uapi/soph_ion.h\<close>): the allocator the vendor display stack calls, its budget, the
  reference counts that let an exported dma-buf outlive the allocation's owner, and the cached
  and write-combined mappings of a dma-buf.

  The module's globals are the record \<open>ion\<close>. Objects that \<open>kzalloc\<close> returns live in the
  association list \<open>heap\<close> under their address; a call on an object that is not there (a use
  after free) sets \<open>ion_ub\<close>. What the kernel answers (an allocation, a copy from user space, a
  registration) is an argument of the operation.
\<close>

section \<open>Data\<close>

datatype ion_heap_type = ION_HEAP_TYPE_SYSTEM | ION_HEAP_TYPE_DMA | ION_HEAP_TYPE_CARVEOUT
  | ION_HEAP_TYPE_CUSTOM

record ion_buffer =
  b_name :: string
  b_paddr :: u64
  b_vaddr :: u64
  b_size :: u64
  b_dma :: u64
  b_ref :: nat
  b_cached_maps :: int

text \<open>A dma-buf of a buffer: \<open>exp.priv\<close>, \<open>exp.size\<close> and \<open>exp.flags\<close> (\<open>O_RDWR\<close> or \<open>O_RDONLY\<close>).\<close>

record dma_buf =
  db_priv :: nat
  db_size :: u64
  db_rdwr :: bool

text \<open>A user mapping of a dma-buf: its flags, and for a cached one its private data and range.\<close>

record vma =
  v_db :: nat
  v_write :: bool
  v_maywrite :: bool
  v_cached :: bool
  v_priv :: nat
  v_pfn :: u64
  v_len :: u64

datatype dma_call =
    Dma_free_coherent u64 u64 u64
  | Dma_sync_for_cpu u64 u64
  | Dma_sync_for_device u64 u64
  | Platform_device_unregister

datatype pdev_ptr = PdevNull | PdevErr errno | Pdev

record ion =
  ion_pdev :: pdev_ptr
  ion_bufs :: "nat list"
  ion_in_use :: u64
  cached_mmap :: bool
  ion_coherent :: bool
  ion_misc :: bool
  heap :: "(nat \<times> ion_buffer) list"
  dmabufs :: "(nat \<times> dma_buf) list"
  vmas :: "(nat \<times> vma) list"
  fds :: "(int \<times> nat) list"
  ion_trace :: "dma_call list"
  ion_ub :: bool

text \<open>\<open>ION_BUDGET\<close> is \<open>96u << 20\<close>; a page is 4096 bytes.\<close>

definition ION_BUDGET :: u64 where
  "ION_BUDGET = push_bit 20 96"

definition PAGE_ALIGN :: "u64 \<Rightarrow> u64" where
  "PAGE_ALIGN len = align_up 12 len"

definition PHYS_PFN :: "u64 \<Rightarrow> u64" where
  "PHYS_PFN pa = drop_bit 12 pa"

definition ion_load :: "bool \<Rightarrow> ion" where
  "ion_load arm64 = \<lparr>ion_pdev = PdevNull, ion_bufs = [], ion_in_use = 0, cached_mmap = arm64,
     ion_coherent = False, ion_misc = False, heap = [], dmabufs = [], vmas = [], fds = [],
     ion_trace = [], ion_ub = False\<rparr>"

section \<open>Module parameters\<close>

definition used_bytes_get :: "ion \<Rightarrow> u64" where
  "used_bytes_get s = ion_in_use s"

definition used_bytes_set :: "string \<Rightarrow> ion \<Rightarrow> unit res \<times> ion" where
  "used_bytes_set val s = (Inl EPERM, s)"

text \<open>\<open>kstrtobool\<close> is the kernel's parser; a parameter given without a value reads as \<open>1\<close>.\<close>

definition cached_mmap_set :: "(string \<Rightarrow> bool res) \<Rightarrow> string option \<Rightarrow> ion \<Rightarrow> unit res \<times> ion" where
  "cached_mmap_set kstrtobool val s =
     (case kstrtobool (case val of Some v \<Rightarrow> v | None \<Rightarrow> ''1'') of
        Inl e \<Rightarrow> (Inl e, s)
      | Inr on \<Rightarrow> if on \<and> ion_coherent s then (Inl EINVAL, s)
                 else (Inr (), s\<lparr>cached_mmap := on\<rparr>))"

section \<open>Allocation and reference counts\<close>

definition ion_over_budget :: "u64 \<Rightarrow> ion \<Rightarrow> bool" where
  "ion_over_budget len s \<longleftrightarrow> ion_in_use s + len > ION_BUDGET"

text \<open>The second critical section of the allocation: the object is complete, then it is listed.\<close>

definition ion_alloc_commit :: "nat \<Rightarrow> u64 \<Rightarrow> u64 \<Rightarrow> u64 \<Rightarrow> ion \<Rightarrow> ion" where
  "ion_alloc_commit b va da len s =
     s\<lparr>heap := (b, \<lparr>b_name = ''soph'', b_paddr = da, b_vaddr = va, b_size = len, b_dma = da,
                     b_ref = 1, b_cached_maps = 0\<rparr>) # heap s,
       ion_bufs := b # ion_bufs s,
       ion_in_use := ion_in_use s + len\<rparr>"

text \<open>\<open>kz\<close> is what \<open>kzalloc\<close> returns, \<open>dma_alloc\<close> what \<open>dma_alloc_coherent\<close> does for a length.\<close>

definition cvi_ion_alloc_nofd ::
  "nat option \<Rightarrow> (u64 \<Rightarrow> (u64 \<times> u64) option) \<Rightarrow> ion_heap_type \<Rightarrow> u64 \<Rightarrow> bool \<Rightarrow> ion \<Rightarrow> nat res \<times> ion"
where
  "cvi_ion_alloc_nofd kz dma_alloc type len cached s =
     (if ion_pdev s = PdevNull \<or> len = 0 then (Inl EINVAL, s)
      else case kz of
        None \<Rightarrow> (Inl ENOMEM, s)
      | Some b \<Rightarrow>
          (let len = PAGE_ALIGN len in
           if ion_over_budget len s then (Inl ENOMEM, s)
           else case dma_alloc len of
             None \<Rightarrow> (Inl ENOMEM, s)
           | Some (va, da) \<Rightarrow> (Inr b, ion_alloc_commit b va da len s)))"

text \<open>
  The allocation as the thread runs it: \<open>ion_lock\<close> is taken for the check, dropped for
  \<open>dma_alloc_coherent\<close> and taken again to list and charge the buffer, so another thread can run
  in between. \<open>b\<close> and \<open>da\<close> are the object and the region this thread's allocators return.
\<close>

datatype alloc_pc = Checking nat u64 u64 | Unlocked nat u64 u64 | Granted nat | Refused

fun ion_alloc_section :: "alloc_pc \<Rightarrow> ion \<Rightarrow> alloc_pc \<times> ion" where
  "ion_alloc_section (Checking b da len) s =
     (if ion_over_budget len s then (Refused, s) else (Unlocked b da len, s))"
| "ion_alloc_section (Unlocked b da len) s = (Granted b, ion_alloc_commit b da da len s)"
| "ion_alloc_section pc s = (pc, s)"

fun ion_schedule :: "nat list \<Rightarrow> alloc_pc list \<times> ion \<Rightarrow> alloc_pc list \<times> ion" where
  "ion_schedule [] (pcs, s) = (pcs, s)"
| "ion_schedule (i # is) (pcs, s) =
     (let (pc, s) = ion_alloc_section (pcs ! i) s in ion_schedule is (pcs[i := pc], s))"

definition ion_buf_release :: "nat \<Rightarrow> ion \<Rightarrow> ion" where
  "ion_buf_release b s =
     (case map_of (heap s) b of
        None \<Rightarrow> s\<lparr>ion_ub := True\<rparr>
      | Some v \<Rightarrow> s\<lparr>ion_trace := ion_trace s @ [Dma_free_coherent (b_size v) (b_vaddr v) (b_dma v)],
                    ion_in_use := ion_in_use s - b_size v,
                    heap := al_del b (heap s)\<rparr>)"

definition ion_kref_get :: "nat \<Rightarrow> ion \<Rightarrow> ion" where
  "ion_kref_get b s =
     (case map_of (heap s) b of
        None \<Rightarrow> s\<lparr>ion_ub := True\<rparr>
      | Some v \<Rightarrow> s\<lparr>heap := al_upd b (\<lambda>v. v\<lparr>b_ref := b_ref v + 1\<rparr>) (heap s)\<rparr>)"

definition ion_kref_put :: "nat \<Rightarrow> ion \<Rightarrow> ion" where
  "ion_kref_put b s =
     (case map_of (heap s) b of
        None \<Rightarrow> s\<lparr>ion_ub := True\<rparr>
      | Some v \<Rightarrow> if b_ref v = 1 then ion_buf_release b s
                  else s\<lparr>heap := al_upd b (\<lambda>v. v\<lparr>b_ref := b_ref v - 1\<rparr>) (heap s)\<rparr>)"

datatype buf_ptr = BNull | BErr errno | BPtr nat

text \<open>\<open>list_del\<close> of a buffer that is not on the list corrupts it.\<close>

definition cvi_ion_free_nofd :: "buf_ptr \<Rightarrow> ion \<Rightarrow> unit res \<times> ion" where
  "cvi_ion_free_nofd p s =
     (case p of
        BPtr b \<Rightarrow>
          (if b \<in> set (ion_bufs s)
           then (Inr (), ion_kref_put b (s\<lparr>ion_bufs := remove1 b (ion_bufs s)\<rparr>))
           else (Inr (), s\<lparr>ion_ub := True\<rparr>))
      | _ \<Rightarrow> (Inl EINVAL, s))"

definition cvi_ion_alloc :: "ion_heap_type \<Rightarrow> u64 \<Rightarrow> bool \<Rightarrow> ion \<Rightarrow> unit res \<times> ion" where
  "cvi_ion_alloc type len cached s = (Inl ENOSYS, s)"

definition cvi_ion_free :: "int \<Rightarrow> int \<Rightarrow> ion \<Rightarrow> unit res \<times> ion" where
  "cvi_ion_free pid fd s = (Inl ENOSYS, s)"

record ion_memory_state =
  total :: u64
  free :: u64
  max_avail :: u64

definition cvi_ion_get_memory_state :: "ion \<Rightarrow> ion_memory_state" where
  "cvi_ion_get_memory_state s =
     \<lparr>total = ION_BUDGET, free = ION_BUDGET - ion_in_use s, max_avail = ION_BUDGET - ion_in_use s\<rparr>"

section \<open>The dma-buf exporter\<close>

datatype sg_call = Sg_kzalloc | Sg_get_sgtable | Sg_map | Sg_unmap | Sg_free_table | Sg_kfree

text \<open>The result and the calls made, with what \<open>kzalloc\<close>, \<open>dma_get_sgtable\<close> and
  \<open>dma_map_sgtable\<close> answer.\<close>

definition soph_ion_map_dma_buf :: "bool \<Rightarrow> unit res \<Rightarrow> unit res \<Rightarrow> unit res \<times> sg_call list" where
  "soph_ion_map_dma_buf kz get_ret map_ret =
     (if \<not> kz then (Inl ENOMEM, [Sg_kzalloc])
      else case get_ret of
        Inl e \<Rightarrow> (Inl e, [Sg_kzalloc, Sg_get_sgtable, Sg_kfree])
      | Inr _ \<Rightarrow>
          (case map_ret of
             Inl e \<Rightarrow> (Inl e, [Sg_kzalloc, Sg_get_sgtable, Sg_map, Sg_free_table, Sg_kfree])
           | Inr _ \<Rightarrow> (Inr (), [Sg_kzalloc, Sg_get_sgtable, Sg_map])))"

definition soph_ion_unmap_dma_buf :: "sg_call list" where
  "soph_ion_unmap_dma_buf = [Sg_unmap, Sg_free_table, Sg_kfree]"

definition ion_cached_maps_upd :: "nat \<Rightarrow> (int \<Rightarrow> int) \<Rightarrow> ion \<Rightarrow> ion" where
  "ion_cached_maps_upd b f s =
     (case map_of (heap s) b of
        None \<Rightarrow> s\<lparr>ion_ub := True\<rparr>
      | Some v \<Rightarrow> s\<lparr>heap := al_upd b (\<lambda>v. v\<lparr>b_cached_maps := f (b_cached_maps v)\<rparr>) (heap s)\<rparr>)"

text \<open>\<open>vm_open\<close> runs for the copy \<open>k'\<close> that a fork or a split makes of the mapping \<open>k\<close>.\<close>

definition soph_ion_vm_open :: "nat \<Rightarrow> nat \<Rightarrow> ion \<Rightarrow> ion" where
  "soph_ion_vm_open k k' s =
     (case map_of (vmas s) k of
        None \<Rightarrow> s
      | Some v \<Rightarrow>
          (let s = s\<lparr>vmas := (k', v) # vmas s\<rparr> in
           if v_cached v then ion_cached_maps_upd (v_priv v) (\<lambda>n. n + 1) s else s))"

definition soph_ion_vm_close :: "nat \<Rightarrow> ion \<Rightarrow> ion" where
  "soph_ion_vm_close k s =
     (case map_of (vmas s) k of
        None \<Rightarrow> s
      | Some v \<Rightarrow>
          (let s = s\<lparr>vmas := al_del k (vmas s)\<rparr> in
           if v_cached v then ion_cached_maps_upd (v_priv v) (\<lambda>n. n - 1) s else s))"

definition ion_sync_for_cpu :: "nat \<Rightarrow> ion \<Rightarrow> ion" where
  "ion_sync_for_cpu b s =
     (case map_of (heap s) b of
        None \<Rightarrow> s\<lparr>ion_ub := True\<rparr>
      | Some v \<Rightarrow> s\<lparr>ion_trace := ion_trace s @ [Dma_sync_for_cpu (b_dma v) (b_size v)]\<rparr>)"

text \<open>
  \<open>d\<close> is the dma-buf, \<open>k\<close> the mapping, \<open>write\<close> and \<open>maywrite\<close> its \<open>VM_WRITE\<close>
  and \<open>VM_MAYWRITE\<close> flags, \<open>pgoff\<close> and \<open>len\<close> its page
  offset and length; \<open>remap\<close> and \<open>coh\<close> are the answers of \<open>remap_pfn_range\<close> and
  \<open>dma_mmap_coherent\<close>.
\<close>

definition soph_ion_mmap ::
  "nat \<Rightarrow> nat \<Rightarrow> bool \<Rightarrow> bool \<Rightarrow> u64 \<Rightarrow> u64 \<Rightarrow> unit res \<Rightarrow> unit res \<Rightarrow> ion \<Rightarrow> unit res \<times> ion"
where
  "soph_ion_mmap d k write maywrite pgoff len remap coh s =
     (case map_of (dmabufs s) d of
        None \<Rightarrow> (Inr (), s\<lparr>ion_ub := True\<rparr>)
      | Some db \<Rightarrow>
          (case map_of (heap s) (db_priv db) of
             None \<Rightarrow> (Inr (), s\<lparr>ion_ub := True\<rparr>)
           | Some b \<Rightarrow>
               if cached_mmap s \<and> \<not> write then
                 (case remap of
                    Inl e \<Rightarrow> (Inl e, s)
                  | Inr _ \<Rightarrow>
                      (let s = s\<lparr>vmas := (k, \<lparr>v_db = d, v_write = False, v_maywrite = False,
                                   v_cached = True, v_priv = db_priv db,
                                   v_pfn = PHYS_PFN (b_paddr b) + pgoff, v_len = len\<rparr>) # vmas s\<rparr>;
                           s = ion_cached_maps_upd (db_priv db) (\<lambda>n. n + 1) s
                       in (Inr (), ion_sync_for_cpu (db_priv db) s)))
               else
                 (case coh of
                    Inl e \<Rightarrow> (Inl e, s)
                  | Inr _ \<Rightarrow>
                      (Inr (), s\<lparr>vmas := (k, \<lparr>v_db = d, v_write = write, v_maywrite = maywrite,
                                   v_cached = False, v_priv = db_priv db,
                                   v_pfn = PHYS_PFN (b_paddr b) + pgoff, v_len = len\<rparr>) # vmas s\<rparr>))))"

definition soph_ion_vmap :: "nat \<Rightarrow> ion \<Rightarrow> u64 option" where
  "soph_ion_vmap d s =
     (case map_of (dmabufs s) d of
        None \<Rightarrow> None
      | Some db \<Rightarrow> map_option b_vaddr (map_of (heap s) (db_priv db)))"

definition soph_ion_begin_cpu_access :: "nat \<Rightarrow> ion \<Rightarrow> ion" where
  "soph_ion_begin_cpu_access d s =
     (case map_of (dmabufs s) d of
        None \<Rightarrow> s\<lparr>ion_ub := True\<rparr>
      | Some db \<Rightarrow>
          (case map_of (heap s) (db_priv db) of
             None \<Rightarrow> s\<lparr>ion_ub := True\<rparr>
           | Some b \<Rightarrow> if b_cached_maps b \<noteq> 0 then ion_sync_for_cpu (db_priv db) s else s))"

text \<open>The dma-buf core calls \<open>release\<close> when the last reference to the dma-buf goes.\<close>

definition soph_ion_dmabuf_release :: "nat \<Rightarrow> ion \<Rightarrow> ion" where
  "soph_ion_dmabuf_release d s =
     (case map_of (dmabufs s) d of
        None \<Rightarrow> s\<lparr>ion_ub := True\<rparr>
      | Some db \<Rightarrow> ion_kref_put (db_priv db) (s\<lparr>dmabufs := al_del d (dmabufs s)\<rparr>))"

section \<open>/dev/soph-ion\<close>

fun ion_find :: "(nat \<times> ion_buffer) list \<Rightarrow> u64 \<Rightarrow> nat list \<Rightarrow> nat option" where
  "ion_find h pa [] = None"
| "ion_find h pa (b # bs) =
     (case map_of h b of
        None \<Rightarrow> ion_find h pa bs
      | Some v \<Rightarrow> if b_paddr v \<le> pa \<and> pa - b_paddr v < b_size v then Some b
                  else ion_find h pa bs)"

definition ion_buf_get :: "u64 \<Rightarrow> ion \<Rightarrow> nat option \<times> ion" where
  "ion_buf_get pa s =
     (case ion_find (heap s) pa (ion_bufs s) of
        None \<Rightarrow> (None, s)
      | Some b \<Rightarrow> (Some b, ion_kref_get b s))"

definition O_CLOEXEC :: u32 where
  "O_CLOEXEC = 0x80000"

definition SOPH_ION_EXPORT_RDONLY :: u32 where
  "SOPH_ION_EXPORT_RDONLY = push_bit 31 1"

record soph_ion_export_arg =
  x_phys :: u64
  x_flags :: u32
  x_fd :: int
  x_offset :: u64
  x_size :: u64

text \<open>
  \<open>uarg\<close> is what \<open>copy_from_user\<close> read (\<open>None\<close>: it faulted), \<open>exp\<close> what \<open>dma_buf_export\<close>
  returned (a new dma-buf's handle), \<open>fd\<close> what \<open>get_unused_fd_flags\<close> did and \<open>copied\<close> whether
  \<open>copy_to_user\<close> wrote the answer back.
\<close>

definition soph_ion_export ::
  "soph_ion_export_arg option \<Rightarrow> nat res \<Rightarrow> int res \<Rightarrow> bool \<Rightarrow> ion \<Rightarrow> soph_ion_export_arg res \<times> ion"
where
  "soph_ion_export uarg exp fd copied s =
     (case uarg of
        None \<Rightarrow> (Inl EFAULT, s)
      | Some arg \<Rightarrow>
          if x_flags arg AND NOT (O_CLOEXEC OR SOPH_ION_EXPORT_RDONLY) \<noteq> 0 then (Inl EINVAL, s)
          else case ion_buf_get (x_phys arg) s of
            (None, s) \<Rightarrow> (Inl EINVAL, s)
          | (Some b, s) \<Rightarrow>
              (case map_of (heap s) b of
                 None \<Rightarrow> (Inl EINVAL, s\<lparr>ion_ub := True\<rparr>)
               | Some v \<Rightarrow>
                   (case exp of
                      Inl e \<Rightarrow> (Inl e, ion_kref_put b s)
                    | Inr d \<Rightarrow>
                        (let s = s\<lparr>dmabufs := (d, \<lparr>db_priv = b, db_size = b_size v,
                               db_rdwr = (x_flags arg AND SOPH_ION_EXPORT_RDONLY = 0)\<rparr>) # dmabufs s\<rparr>
                         in case fd of
                           Inl e \<Rightarrow> (Inl e, soph_ion_dmabuf_release d s)
                         | Inr n \<Rightarrow>
                             if \<not> copied then (Inl EFAULT, soph_ion_dmabuf_release d s)
                             else (Inr (arg\<lparr>x_fd := n, x_offset := x_phys arg - b_paddr v,
                                           x_size := b_size v\<rparr>),
                                   s\<lparr>fds := (n, d) # fds s\<rparr>)))))"

definition soph_ion_open :: "bool \<Rightarrow> unit res \<Rightarrow> unit res" where
  "soph_ion_open cap_sys_rawio locked_down =
     (if \<not> cap_sys_rawio then Inl EPERM else locked_down)"

text \<open>\<open>_IOWR(0xB9, 0x01, struct soph_ion_export)\<close>, a 32-byte structure.\<close>

definition SOPH_ION_IOC_EXPORT :: u32 where
  "SOPH_ION_IOC_EXPORT = push_bit 30 3 OR push_bit 16 32 OR push_bit 8 0xB9 OR 1"

definition soph_ion_ioctl ::
  "u32 \<Rightarrow> soph_ion_export_arg option \<Rightarrow> nat res \<Rightarrow> int res \<Rightarrow> bool \<Rightarrow> ion \<Rightarrow> soph_ion_export_arg res \<times> ion"
where
  "soph_ion_ioctl cmd uarg exp fd copied s =
     (if cmd = SOPH_ION_IOC_EXPORT then soph_ion_export uarg exp fd copied s else (Inl ENOTTY, s))"

section \<open>Load and unload\<close>

definition ion_err_pdev :: "ion \<Rightarrow> ion" where
  "ion_err_pdev s = s\<lparr>ion_trace := ion_trace s @ [Platform_device_unregister], ion_pdev := PdevNull\<rparr>"

text \<open>The answers of \<open>platform_device_register_simple\<close>, \<open>dma_coerce_mask_and_coherent\<close>,
  \<open>dev_is_dma_coherent\<close> and \<open>misc_register\<close>.\<close>

definition soph_ion_init :: "unit res \<Rightarrow> unit res \<Rightarrow> bool \<Rightarrow> unit res \<Rightarrow> ion \<Rightarrow> unit res \<times> ion" where
  "soph_ion_init register coerce coherent misc s =
     (case register of
        Inl e \<Rightarrow> (Inl e, s\<lparr>ion_pdev := PdevErr e\<rparr>)
      | Inr _ \<Rightarrow>
          (let s = s\<lparr>ion_pdev := Pdev\<rparr> in
           case coerce of
             Inl e \<Rightarrow> (Inl e, ion_err_pdev s)
           | Inr _ \<Rightarrow>
               (let s = s\<lparr>ion_coherent := coherent\<rparr>;
                    s = (if ion_coherent s \<and> cached_mmap s then s\<lparr>cached_mmap := False\<rparr> else s)
                in case misc of
                  Inl e \<Rightarrow> (Inl e, ion_err_pdev s)
                | Inr _ \<Rightarrow> (Inr (), s\<lparr>ion_misc := True\<rparr>))))"

fun ion_exit_bufs :: "nat list \<Rightarrow> ion \<Rightarrow> ion" where
  "ion_exit_bufs [] s = s"
| "ion_exit_bufs (b # bs) s =
     (case map_of (heap s) b of
        None \<Rightarrow> ion_exit_bufs bs (s\<lparr>ion_ub := True\<rparr>)
      | Some v \<Rightarrow>
          ion_exit_bufs bs
            (s\<lparr>ion_bufs := remove1 b (ion_bufs s),
               ion_trace := ion_trace s @ [Dma_free_coherent (b_size v) (b_vaddr v) (b_dma v)],
               heap := al_del b (heap s)\<rparr>))"

definition soph_ion_exit :: "ion \<Rightarrow> ion" where
  "soph_ion_exit s =
     (let s = ion_exit_bufs (ion_bufs s) (s\<lparr>ion_misc := False\<rparr>) in
      if ion_pdev s \<noteq> PdevNull then s\<lparr>ion_trace := ion_trace s @ [Platform_device_unregister]\<rparr> else s)"

definition soph_cache_flush_phys :: "u64 \<Rightarrow> u64 \<Rightarrow> ion \<Rightarrow> ion" where
  "soph_cache_flush_phys pa len s =
     (if ion_pdev s \<noteq> PdevNull then s\<lparr>ion_trace := ion_trace s @ [Dma_sync_for_device pa len]\<rparr> else s)"

definition soph_cache_invalidate_phys :: "u64 \<Rightarrow> u64 \<Rightarrow> ion \<Rightarrow> ion" where
  "soph_cache_invalidate_phys pa len s =
     (if ion_pdev s \<noteq> PdevNull then s\<lparr>ion_trace := ion_trace s @ [Dma_sync_for_cpu pa len]\<rparr> else s)"

text \<open>The inline stubs of \<open>ion.h\<close>: a buffer pointer or \<open>NULL\<close>.\<close>

definition ion_buf_begin_cpu_access :: "buf_ptr \<Rightarrow> unit res" where
  "ion_buf_begin_cpu_access b = (if b \<noteq> BNull then Inr () else Inl EINVAL)"

definition ion_buf_end_cpu_access :: "buf_ptr \<Rightarrow> unit res" where
  "ion_buf_end_cpu_access b = (if b \<noteq> BNull then Inr () else Inl EINVAL)"

section \<open>The calls the system can make\<close>

text \<open>
  One call at a time. The guards are the callers' obligations: the kernel's allocators return
  fresh objects and fresh DMA regions below the 32-bit mask, a driver frees an allocation it
  holds, and the dma-buf core keeps a dma-buf while a mapping of it exists. Everything else,
  every argument and every failure, is unconstrained.
\<close>

definition dma_fresh :: "ion \<Rightarrow> (u64 \<Rightarrow> (u64 \<times> u64) option) \<Rightarrow> bool" where
  "dma_fresh s f \<longleftrightarrow>
     (\<forall>len va da. f len = Some (va, da) \<longrightarrow> unat da + unat len \<le> 2 ^ 32 \<and>
        (\<forall>(b, v) \<in> set (heap s).
           unat da + unat len \<le> unat (b_paddr v) \<or> unat (b_paddr v) + unat (b_size v) \<le> unat da))"

definition db_unmapped :: "nat \<Rightarrow> ion \<Rightarrow> bool" where
  "db_unmapped d s \<longleftrightarrow> (\<forall>(k, v) \<in> set (vmas s). v_db v \<noteq> d)"

inductive ion_step :: "ion \<Rightarrow> ion \<Rightarrow> bool" where
  init: "ion_pdev s = PdevNull \<Longrightarrow> \<not> ion_misc s \<Longrightarrow>
     ion_step s (snd (soph_ion_init register coerce coherent misc s))"
| set_cached: "ion_misc s \<Longrightarrow> ion_step s (snd (cached_mmap_set kstrtobool val s))"
| alloc: "ion_misc s \<Longrightarrow> (\<And>b. kz = Some b \<Longrightarrow> b \<notin> fst ` set (heap s)) \<Longrightarrow> dma_fresh s dma_alloc \<Longrightarrow>
     ion_step s (snd (cvi_ion_alloc_nofd kz dma_alloc type len cached s))"
| free: "ion_misc s \<Longrightarrow> (\<And>b. p = BPtr b \<Longrightarrow> b \<in> set (ion_bufs s)) \<Longrightarrow>
     ion_step s (snd (cvi_ion_free_nofd p s))"
| ioctl: "ion_misc s \<Longrightarrow> (\<And>d. exp = Inr d \<Longrightarrow> d \<notin> fst ` set (dmabufs s)) \<Longrightarrow>
     ion_step s (snd (soph_ion_ioctl cmd uarg exp fd copied s))"
| release: "ion_misc s \<Longrightarrow> d \<in> fst ` set (dmabufs s) \<Longrightarrow> db_unmapped d s \<Longrightarrow>
     ion_step s (soph_ion_dmabuf_release d s)"
| mmap: "ion_misc s \<Longrightarrow> d \<in> fst ` set (dmabufs s) \<Longrightarrow> k \<notin> fst ` set (vmas s) \<Longrightarrow>
     ion_step s (snd (soph_ion_mmap d k write maywrite pgoff len remap coh s))"
| vm_open: "ion_misc s \<Longrightarrow> k' \<notin> fst ` set (vmas s) \<Longrightarrow> ion_step s (soph_ion_vm_open k k' s)"
| vm_close: "ion_misc s \<Longrightarrow> ion_step s (soph_ion_vm_close k s)"
| begin_cpu: "ion_misc s \<Longrightarrow> d \<in> fst ` set (dmabufs s) \<Longrightarrow>
     ion_step s (soph_ion_begin_cpu_access d s)"
| cache_flush: "ion_step s (soph_cache_flush_phys pa len s)"
| cache_invalidate: "ion_step s (soph_cache_invalidate_phys pa len s)"

section \<open>Invariants\<close>

definition heap_bytes :: "ion \<Rightarrow> nat" where
  "heap_bytes s = sum_list (map (\<lambda>(b, v). unat (b_size v)) (heap s))"

definition db_refs :: "nat \<Rightarrow> ion \<Rightarrow> nat" where
  "db_refs b s = length (filter (\<lambda>(d, v). db_priv v = b) (dmabufs s))"

definition map_count :: "nat \<Rightarrow> ion \<Rightarrow> nat" where
  "map_count b s = length (filter (\<lambda>(k, v). v_cached v \<and> v_priv v = b) (vmas s))"

definition ion_refs :: "nat \<Rightarrow> ion \<Rightarrow> nat" where
  "ion_refs b s = (if b \<in> set (ion_bufs s) then 1 else 0) + db_refs b s"

text \<open>Every list names each object once, and nothing points at an object that is gone.\<close>

definition ion_heap_inv :: "ion \<Rightarrow> bool" where
  "ion_heap_inv s \<longleftrightarrow>
     \<not> ion_ub s \<and> distinct (map fst (heap s)) \<and> distinct (map fst (dmabufs s)) \<and>
     distinct (map fst (vmas s)) \<and> distinct (ion_bufs s) \<and>
     set (ion_bufs s) \<subseteq> fst ` set (heap s) \<and>
     (\<forall>(d, v) \<in> set (dmabufs s). \<exists>b. map_of (heap s) (db_priv v) = Some b \<and> b_size b = db_size v) \<and>
     (\<forall>(k, v) \<in> set (vmas s). \<exists>d. map_of (dmabufs s) (v_db v) = Some d \<and> v_priv v = db_priv d)"

text \<open>
  An object's count is the number of its owners, and it has one: the allocation or a dma-buf.
  Inside an operation one reference to \<open>x\<close> may be on its way from one owner to another.
\<close>

definition ion_ref_inv :: "nat option \<Rightarrow> ion \<Rightarrow> bool" where
  "ion_ref_inv x s \<longleftrightarrow>
     (\<forall>b v. map_of (heap s) b = Some v \<longrightarrow>
        b_ref v = ion_refs b s + (if x = Some b then 1 else 0) \<and>
        0 < ion_refs b s + (if x = Some b then 1 else 0) \<and>
        b_cached_maps v = int (map_count b s)) \<and>
     (\<forall>b. x = Some b \<longrightarrow> b \<in> fst ` set (heap s))"

text \<open>The counter is exactly the bytes held, and within the budget.\<close>

definition ion_acct_inv :: "ion \<Rightarrow> bool" where
  "ion_acct_inv s \<longleftrightarrow> unat (ion_in_use s) = heap_bytes s \<and> heap_bytes s \<le> unat ION_BUDGET"

text \<open>Cached maps are read-only for good, and none exists on a DMA-coherent device.\<close>

definition ion_map_inv :: "ion \<Rightarrow> bool" where
  "ion_map_inv s \<longleftrightarrow>
     (ion_misc s \<and> cached_mmap s \<longrightarrow> \<not> ion_coherent s) \<and>
     (\<forall>(k, v) \<in> set (vmas s). v_cached v \<longrightarrow> \<not> v_write v \<and> \<not> v_maywrite v \<and> \<not> ion_coherent s)"

text \<open>Allocated regions are below 4 GiB and do not overlap.\<close>

definition region_apart :: "ion_buffer \<Rightarrow> ion_buffer \<Rightarrow> bool" where
  "region_apart v w \<longleftrightarrow> unat (b_paddr v) + unat (b_size v) \<le> unat (b_paddr w) \<or>
     unat (b_paddr w) + unat (b_size w) \<le> unat (b_paddr v)"

definition ion_region_inv :: "ion \<Rightarrow> bool" where
  "ion_region_inv s \<longleftrightarrow>
     (\<forall>b v. map_of (heap s) b = Some v \<longrightarrow> unat (b_paddr v) + unat (b_size v) \<le> 2 ^ 32) \<and>
     (\<forall>b v b' v'. map_of (heap s) b = Some v \<longrightarrow> map_of (heap s) b' = Some v' \<longrightarrow> b \<noteq> b' \<longrightarrow>
        region_apart v v')"

definition ion_idle_inv :: "ion \<Rightarrow> bool" where
  "ion_idle_inv s \<longleftrightarrow> (\<not> ion_misc s \<longrightarrow> vmas s = [] \<and> heap s = [])"

definition ion_owed :: "nat option \<Rightarrow> ion \<Rightarrow> bool" where
  "ion_owed x s \<longleftrightarrow> ion_heap_inv s \<and> ion_ref_inv x s \<and> ion_acct_inv s \<and> ion_map_inv s \<and>
     ion_region_inv s \<and> ion_idle_inv s"

definition ion_inv :: "ion \<Rightarrow> bool" where
  "ion_inv s \<longleftrightarrow> ion_owed None s"

lemmas ion_inv_defs = ion_inv_def ion_owed_def ion_heap_inv_def ion_ref_inv_def ion_acct_inv_def
  ion_map_inv_def ion_region_inv_def ion_idle_inv_def

lemmas count_defs = ion_refs_def db_refs_def map_count_def heap_bytes_def

lemma budget_unat: "unat ION_BUDGET = 100663296"
  by (simp add: ION_BUDGET_def)

text \<open>The counts only read the lists they count over.\<close>

lemma count_frame [simp]:
  "heap_bytes (s\<lparr>ion_bufs := x\<rparr>) = heap_bytes s" "heap_bytes (s\<lparr>dmabufs := y\<rparr>) = heap_bytes s"
  "heap_bytes (s\<lparr>vmas := z\<rparr>) = heap_bytes s" "heap_bytes (s\<lparr>fds := f\<rparr>) = heap_bytes s"
  "heap_bytes (s\<lparr>ion_trace := t\<rparr>) = heap_bytes s" "heap_bytes (s\<lparr>cached_mmap := c\<rparr>) = heap_bytes s"
  "heap_bytes (s\<lparr>ion_in_use := u\<rparr>) = heap_bytes s"
  "db_refs b (s\<lparr>ion_bufs := x\<rparr>) = db_refs b s" "db_refs b (s\<lparr>heap := h\<rparr>) = db_refs b s"
  "db_refs b (s\<lparr>vmas := z\<rparr>) = db_refs b s" "db_refs b (s\<lparr>fds := f\<rparr>) = db_refs b s"
  "db_refs b (s\<lparr>ion_trace := t\<rparr>) = db_refs b s" "db_refs b (s\<lparr>cached_mmap := c\<rparr>) = db_refs b s"
  "db_refs b (s\<lparr>ion_in_use := u\<rparr>) = db_refs b s"
  "map_count b (s\<lparr>ion_bufs := x\<rparr>) = map_count b s" "map_count b (s\<lparr>heap := h\<rparr>) = map_count b s"
  "map_count b (s\<lparr>dmabufs := y\<rparr>) = map_count b s" "map_count b (s\<lparr>fds := f\<rparr>) = map_count b s"
  "map_count b (s\<lparr>ion_trace := t\<rparr>) = map_count b s" "map_count b (s\<lparr>cached_mmap := c\<rparr>) = map_count b s"
  "map_count b (s\<lparr>ion_in_use := u\<rparr>) = map_count b s"
  by (simp_all add: count_defs)

lemma ion_inv_load: "ion_inv (ion_load arm64)"
  by (simp add: ion_inv_defs count_defs ion_load_def)

lemmas ion_open = ion_inv_defs count_defs ion.select_convs ion.update_convs

lemma ion_inv_trace: "ion_inv (s\<lparr>ion_trace := t\<rparr>) = ion_inv s"
  by (cases s) (simp only: ion_open)

lemma ion_inv_fds: "ion_inv (s\<lparr>fds := f\<rparr>) = ion_inv s"
  by (cases s) (simp only: ion_open)

lemma ion_inv_cache_flush: "ion_inv s \<Longrightarrow> ion_inv (soph_cache_flush_phys pa len s)"
  and ion_inv_cache_invalidate: "ion_inv s \<Longrightarrow> ion_inv (soph_cache_invalidate_phys pa len s)"
  by (simp_all add: soph_cache_flush_phys_def soph_cache_invalidate_phys_def ion_inv_trace)

lemma ion_inv_cached_mmap:
  assumes "ion_inv s" and "\<not> (on \<and> ion_coherent s)"
  shows "ion_inv (s\<lparr>cached_mmap := on\<rparr>)"
proof -
  have "ion_map_inv (s\<lparr>cached_mmap := on\<rparr>)"
    using assms by (simp add: ion_inv_def ion_owed_def ion_map_inv_def)
  moreover have "ion_owed None (s\<lparr>cached_mmap := on\<rparr>) \<longleftrightarrow>
      ion_heap_inv s \<and> ion_ref_inv None s \<and> ion_acct_inv s \<and> ion_map_inv (s\<lparr>cached_mmap := on\<rparr>) \<and>
      ion_region_inv s \<and> ion_idle_inv s"
    by (cases s) (simp only: ion_open)
  ultimately show ?thesis using assms by (simp only: ion_inv_def ion_owed_def)
qed

lemma ion_inv_set_cached: "ion_inv s \<Longrightarrow> ion_inv (snd (cached_mmap_set kstrtobool val s))"
  by (auto simp: cached_mmap_set_def intro: ion_inv_cached_mmap split: sum.splits)

text \<open>Before the device is registered there is nothing to account for.\<close>

definition ion_empty :: "ion \<Rightarrow> bool" where
  "ion_empty s \<longleftrightarrow> heap s = [] \<and> vmas s = [] \<and> ion_bufs s = [] \<and> dmabufs s = [] \<and>
     ion_in_use s = 0 \<and> \<not> ion_ub s"

lemma ion_inv_idle: "ion_inv s \<Longrightarrow> \<not> ion_misc s \<Longrightarrow> ion_empty s"
  by (cases "dmabufs s") (auto simp: ion_empty_def ion_inv_defs count_defs unat_eq_0)

lemma ion_inv_empty:
  "ion_empty s \<Longrightarrow> (ion_misc s \<Longrightarrow> ion_coherent s \<Longrightarrow> \<not> cached_mmap s) \<Longrightarrow> ion_inv s"
  by (auto simp: ion_empty_def ion_inv_defs count_defs)

lemma ion_inv_init:
  assumes "ion_inv s" and "\<not> ion_misc s"
  shows "ion_inv (snd (soph_ion_init register coerce coherent misc s))"
proof -
  have "ion_empty s" using assms by (rule ion_inv_idle)
  then show ?thesis
    by (intro ion_inv_empty)
       (auto simp: soph_ion_init_def ion_err_pdev_def ion_empty_def assms Let_def
          split: sum.splits if_splits)
qed

subsection \<open>References moving between owners\<close>

lemma ion_owed_lookup: "ion_owed (Some b) s \<Longrightarrow> \<exists>v. map_of (heap s) b = Some v"
  by (auto simp: ion_owed_def ion_ref_inv_def dest: weak_map_of_SomeI)

text \<open>An update of one object that keeps its region keeps everything but the counts.\<close>

definition ion_rest :: "ion \<Rightarrow> bool" where
  "ion_rest s \<longleftrightarrow> ion_heap_inv s \<and> ion_acct_inv s \<and> ion_map_inv s \<and> ion_region_inv s \<and> ion_idle_inv s"

lemma ion_owed_rest: "ion_owed x s \<longleftrightarrow> ion_rest s \<and> ion_ref_inv x s"
  by (auto simp: ion_owed_def ion_rest_def)

lemma ion_owed_upd:
  assumes rest: "ion_rest s" and f: "\<And>v. b_size (f v) = b_size v" "\<And>v. b_paddr (f v) = b_paddr v"
    and refs: "ion_ref_inv y (s\<lparr>heap := al_upd b f (heap s)\<rparr>)"
  shows "ion_owed y (s\<lparr>heap := al_upd b f (heap s)\<rparr>)"
proof -
  let ?t = "s\<lparr>heap := al_upd b f (heap s)\<rparr>"
  have inv: "ion_heap_inv s" "ion_acct_inv s" "ion_map_inv s" "ion_region_inv s" "ion_idle_inv s"
    using rest by (simp_all add: ion_rest_def)
  have region_apart_f: "region_apart (f v) w = region_apart v w" "region_apart w (f v) = region_apart w v"
    for v w by (simp_all add: region_apart_def f)
  have "sum_list (map (\<lambda>(b, v). unat (b_size v)) (al_upd b f (heap s))) =
      sum_list (map (\<lambda>(b, v). unat (b_size v)) (heap s))"
    by (rule al_upd_sum_same) (simp add: f)
  then have "ion_acct_inv ?t"
    using inv(2) by (simp add: ion_acct_inv_def heap_bytes_def)
  moreover have "ion_heap_inv ?t"
    using inv(1) f by (fastforce simp: ion_heap_inv_def)
  moreover have "ion_map_inv ?t"
    using inv(3) by (simp add: ion_map_inv_def)
  moreover have "ion_region_inv ?t"
    using inv(4) by (auto simp: ion_region_inv_def region_apart_f f split: if_splits)
  moreover have "ion_idle_inv ?t"
    using inv(5) by (simp add: ion_idle_inv_def)
  ultimately show ?thesis using refs by (simp add: ion_owed_def)
qed

text \<open>Taking a reference to a live object: one is owed.\<close>

lemma ion_kref_get_owed:
  assumes inv: "ion_inv s" and b: "map_of (heap s) b = Some v"
  shows "ion_owed (Some b) (ion_kref_get b s)"
proof -
  have "ion_owed (Some b) (s\<lparr>heap := al_upd b (\<lambda>v. v\<lparr>b_ref := b_ref v + 1\<rparr>) (heap s)\<rparr>)"
    using inv b unfolding ion_inv_def
    by (intro ion_owed_upd)
       (auto simp: ion_owed_rest ion_ref_inv_def ion_refs_def split: if_splits dest: map_of_Some_in)
  then show ?thesis using b by (simp add: ion_kref_get_def)
qed

text \<open>Dropping the owed reference: the object goes with its last owner, its bytes with it.\<close>

lemma db_refs_0: "db_refs b s = 0 \<longleftrightarrow> (\<forall>(d, v) \<in> set (dmabufs s). db_priv v \<noteq> b)"
  by (auto simp: db_refs_def filter_empty_conv)

lemma ion_release_inv:
  assumes owed: "ion_owed (Some b) s" and b: "map_of (heap s) b = Some v" and last: "ion_refs b s = 0"
  shows "ion_inv (ion_buf_release b s)"
proof -
  let ?t = "ion_buf_release b s"
  have inv: "ion_heap_inv s" "ion_ref_inv (Some b) s" "ion_acct_inv s" "ion_map_inv s"
      "ion_region_inv s" "ion_idle_inv s"
    using owed by (simp_all add: ion_owed_def)
  have t: "?t = s\<lparr>ion_trace := ion_trace s @ [Dma_free_coherent (b_size v) (b_vaddr v) (b_dma v)],
      ion_in_use := ion_in_use s - b_size v, heap := al_del b (heap s)\<rparr>"
    using b by (simp add: ion_buf_release_def)
  have "\<And>d w. (d, w) \<in> set (dmabufs s) \<Longrightarrow> db_priv w \<noteq> b" and "b \<notin> set (ion_bufs s)"
    using last db_refs_0 [of b s] by (auto simp: ion_refs_def split: if_splits)
  then have "ion_heap_inv ?t"
    using inv(1) by (fastforce simp: t ion_heap_inv_def al_del_distinct)
  moreover have "ion_ref_inv None ?t"
    using inv(2) by (auto simp: t ion_ref_inv_def ion_refs_def split: if_splits)
  moreover have "ion_acct_inv ?t"
  proof -
    have "heap_bytes s = unat (b_size v) + heap_bytes ?t"
      using al_del_sum [OF _ b, of "\<lambda>(b, v). unat (b_size v)"] inv(1)
      by (simp add: t ion_heap_inv_def heap_bytes_def)
    with inv(3) have "b_size v \<le> ion_in_use s" and "unat (ion_in_use s) = unat (b_size v) + heap_bytes ?t"
      by (simp_all add: ion_acct_inv_def word_le_nat_alt)
    moreover from this have "unat (ion_in_use ?t) = unat (ion_in_use s) - unat (b_size v)"
      by (simp add: t unat_sub)
    moreover have "unat (ion_in_use s) \<le> unat ION_BUDGET" using inv(3) by (simp add: ion_acct_inv_def)
    ultimately show ?thesis unfolding ion_acct_inv_def by linarith
  qed
  moreover have "ion_map_inv ?t" "ion_region_inv ?t" "ion_idle_inv ?t"
    using inv(4-6) by (simp_all add: t ion_map_inv_def ion_region_inv_def ion_idle_inv_def)
  ultimately show ?thesis by (simp add: ion_inv_def ion_owed_def)
qed

lemma ion_kref_put_inv:
  assumes owed: "ion_owed (Some b) s"
  shows "ion_inv (ion_kref_put b s)"
proof -
  obtain v where b: "map_of (heap s) b = Some v" using ion_owed_lookup [OF owed] by blast
  have ref: "ion_ref_inv (Some b) s" using owed by (simp add: ion_owed_def)
  then have n: "b_ref v = ion_refs b s + 1" using b by (simp add: ion_ref_inv_def)
  show ?thesis
  proof (cases "b_ref v = 1")
    case True
    with n b ion_release_inv [OF owed b] show ?thesis by (simp add: ion_kref_put_def)
  next
    case False
    have "ion_owed None (s\<lparr>heap := al_upd b (\<lambda>v. v\<lparr>b_ref := b_ref v - 1\<rparr>) (heap s)\<rparr>)"
      using ref b n False
      by (intro ion_owed_upd [OF owed [unfolded ion_owed_rest, THEN conjunct1]]) (auto simp: ion_ref_inv_def ion_refs_def split: if_splits)
    with b False show ?thesis by (simp add: ion_kref_put_def ion_inv_def)
  qed
qed

text \<open>An allocation or a dma-buf that goes owes its reference; a new dma-buf takes one over.\<close>

lemma ion_ref_inv_move:
  assumes "ion_ref_inv x s" and "heap t = heap s" and "\<And>b. map_count b t = map_count b s"
    and "\<And>b. ion_refs b t + (if y = Some b then 1 else 0) = ion_refs b s + (if x = Some b then 1 else 0)"
    and "\<And>b. y = Some b \<Longrightarrow> b \<in> fst ` set (heap s)"
  shows "ion_ref_inv y t"
  unfolding ion_ref_inv_def
proof (intro conjI allI impI)
  fix b v assume "map_of (heap t) b = Some v"
  then have "b_ref v = ion_refs b s + (if x = Some b then 1 else 0) \<and>
      0 < ion_refs b s + (if x = Some b then 1 else 0) \<and> b_cached_maps v = int (map_count b s)"
    using assms(1,2) unfolding ion_ref_inv_def by metis
  then show "b_ref v = ion_refs b t + (if y = Some b then 1 else 0)"
      "0 < ion_refs b t + (if y = Some b then 1 else 0)"
      "b_cached_maps v = int (map_count b t)"
    using assms(3,4) by metis+
qed (use assms(2,5) in simp)

lemma ion_unlist_owed:
  assumes "ion_inv s" and "b \<in> set (ion_bufs s)"
  shows "ion_owed (Some b) (s\<lparr>ion_bufs := remove1 b (ion_bufs s)\<rparr>)"
proof -
  let ?t = "s\<lparr>ion_bufs := remove1 b (ion_bufs s)\<rparr>"
  have inv: "ion_heap_inv s" "ion_ref_inv None s" "ion_acct_inv s" "ion_map_inv s"
      "ion_region_inv s" "ion_idle_inv s"
    using assms(1) by (simp_all add: ion_inv_def ion_owed_def)
  have bufs: "set (remove1 b (ion_bufs s)) = set (ion_bufs s) - {b}"
    using inv(1) by (simp add: ion_heap_inv_def)
  have "ion_heap_inv ?t" using inv(1) by (auto simp: ion_heap_inv_def)
  moreover have "ion_ref_inv (Some b) ?t"
    using inv(1) assms(2)
    by (intro ion_ref_inv_move [OF inv(2)]) (auto simp: ion_refs_def bufs ion_heap_inv_def)
  moreover have "ion_acct_inv ?t" "ion_map_inv ?t" "ion_region_inv ?t" "ion_idle_inv ?t"
    using inv(3-6) by (simp_all add: ion_acct_inv_def ion_map_inv_def ion_region_inv_def ion_idle_inv_def)
  ultimately show ?thesis by (simp add: ion_owed_def)
qed

lemma db_refs_del:
  assumes "distinct (map fst (dmabufs s))" and "map_of (dmabufs s) d = Some db"
  shows "db_refs b s = (if db_priv db = b then 1 else 0) + db_refs b (s\<lparr>dmabufs := al_del d (dmabufs s)\<rparr>)"
  using length_filter_al_del [OF assms, of "\<lambda>(d, v). db_priv v = b"] by (simp add: db_refs_def)

lemma ion_dmabuf_owed:
  assumes "ion_inv s" and d: "map_of (dmabufs s) d = Some db" and "db_unmapped d s"
  shows "ion_owed (Some (db_priv db)) (s\<lparr>dmabufs := al_del d (dmabufs s)\<rparr>)"
proof -
  let ?t = "s\<lparr>dmabufs := al_del d (dmabufs s)\<rparr>"
  have inv: "ion_heap_inv s" "ion_ref_inv None s" "ion_acct_inv s" "ion_map_inv s"
      "ion_region_inv s" "ion_idle_inv s"
    using assms(1) by (simp_all add: ion_inv_def ion_owed_def)
  have sub: "set (al_del d (dmabufs s)) \<subseteq> set (dmabufs s)" by (auto simp: al_del_def)
  have "ion_heap_inv ?t"
    unfolding ion_heap_inv_def
    using inv(1) assms(3) sub by (auto simp: ion_heap_inv_def al_del_distinct db_unmapped_def)
  moreover have "ion_ref_inv (Some (db_priv db)) ?t"
  proof -
    have "db_priv db \<in> fst ` set (heap s)"
      using inv(1) map_of_SomeD [OF d] by (auto simp: ion_heap_inv_def dest!: map_of_Some_in)
    moreover have "distinct (map fst (dmabufs s))" using inv(1) by (simp add: ion_heap_inv_def)
    ultimately show ?thesis
      using db_refs_del [OF _ d] by (intro ion_ref_inv_move [OF inv(2)]) (auto simp: ion_refs_def)
  qed
  moreover have "ion_acct_inv ?t" "ion_map_inv ?t" "ion_region_inv ?t" "ion_idle_inv ?t"
    using inv(3-6) by (simp_all add: ion_acct_inv_def ion_map_inv_def ion_region_inv_def ion_idle_inv_def)
  ultimately show ?thesis by (simp add: ion_owed_def)
qed

lemma ion_export_inv:
  assumes owed: "ion_owed (Some b) s" and b: "map_of (heap s) b = Some v"
    and d: "d \<notin> fst ` set (dmabufs s)"
  shows "ion_inv (s\<lparr>dmabufs := (d, \<lparr>db_priv = b, db_size = b_size v, db_rdwr = rw\<rparr>) # dmabufs s\<rparr>)"
proof -
  let ?t = "s\<lparr>dmabufs := (d, \<lparr>db_priv = b, db_size = b_size v, db_rdwr = rw\<rparr>) # dmabufs s\<rparr>"
  have inv: "ion_heap_inv s" "ion_ref_inv (Some b) s" "ion_acct_inv s" "ion_map_inv s"
      "ion_region_inv s" "ion_idle_inv s"
    using owed by (simp_all add: ion_owed_def)
  have "ion_heap_inv ?t"
    using inv(1) b d by (fastforce simp: ion_heap_inv_def dest: map_of_Some_in)
  moreover have "ion_ref_inv None ?t"
    by (rule ion_ref_inv_move [OF inv(2)]) (auto simp: ion_refs_def db_refs_def)
  moreover have "ion_acct_inv ?t" "ion_map_inv ?t" "ion_region_inv ?t" "ion_idle_inv ?t"
    using inv(3-6) by (simp_all add: ion_acct_inv_def ion_map_inv_def ion_region_inv_def ion_idle_inv_def)
  ultimately show ?thesis by (simp add: ion_inv_def ion_owed_def)
qed

subsection \<open>Each operation keeps the invariant\<close>

lemma PAGE_ALIGN_0: "PAGE_ALIGN 0 = 0"
  by (simp add: PAGE_ALIGN_def align_up_def)

lemma dma_freshD:
  "dma_fresh s f \<Longrightarrow> f len = Some (va, da) \<Longrightarrow> unat da + unat len \<le> 2 ^ 32"
  "dma_fresh s f \<Longrightarrow> f len = Some (va, da) \<Longrightarrow> (c, v) \<in> set (heap s) \<Longrightarrow>
   unat da + unat len \<le> unat (b_paddr v) \<or> unat (b_paddr v) + unat (b_size v) \<le> unat da"
  unfolding dma_fresh_def by blast+

lemma ion_inv_commit:
  assumes "ion_inv s" and fresh: "b \<notin> fst ` set (heap s)" and "ion_misc s"
    and fit: "\<not> ion_over_budget len s" and "dma_fresh s f" and "f len = Some (va, da)"
  shows "ion_inv (ion_alloc_commit b va da len s)"
proof -
  let ?t = "ion_alloc_commit b va da len s"
  have inv: "ion_heap_inv s" "ion_ref_inv None s" "ion_acct_inv s" "ion_map_inv s"
      "ion_region_inv s"
    using assms(1) by (simp_all add: ion_inv_def ion_owed_def)
  note len = dma_freshD(1) [OF assms(5,6)] and apart = dma_freshD(2) [OF assms(5,6)]
  have priv: "db_priv v \<noteq> b" if "(d, v) \<in> set (dmabufs s)" for d v
    using inv(1) that fresh by (auto simp: ion_heap_inv_def dest!: map_of_Some_in)
  have vpriv: "v_priv v \<noteq> b" if "(k, v) \<in> set (vmas s)" for k v
    using inv(1) that priv by (fastforce simp: ion_heap_inv_def dest: map_of_SomeD)
  have zero: "db_refs b s = 0" "map_count b s = 0"
    using priv vpriv by (auto simp: db_refs_def map_count_def filter_empty_conv)
  have refs: "db_refs c ?t = db_refs c s" "map_count c ?t = map_count c s" for c
    by (simp_all add: ion_alloc_commit_def count_defs)
  have "ion_heap_inv ?t"
    unfolding ion_heap_inv_def
    using inv(1) fresh by (auto simp: ion_heap_inv_def ion_alloc_commit_def dest: priv)
  moreover have "ion_ref_inv None ?t"
    using inv(2) fresh zero unfolding ion_ref_inv_def ion_refs_def refs
    by (auto simp: ion_alloc_commit_def)
  moreover have "ion_acct_inv ?t"
  proof -
    have "unat (ion_in_use s) \<le> 100663296" using inv(3) by (simp add: ion_acct_inv_def budget_unat)
    then have "unat (ion_in_use s + len) = unat (ion_in_use s) + unat len"
      using len by (subst unat_add_lem [THEN iffD1]) simp_all
    with fit inv(3) show ?thesis
      by (simp add: ion_acct_inv_def ion_over_budget_def ion_alloc_commit_def heap_bytes_def
        word_le_nat_alt not_less)
  qed
  moreover have "ion_region_inv ?t"
    using inv(5) len apart unfolding ion_region_inv_def
    by (auto simp: ion_alloc_commit_def region_apart_def dest!: map_of_SomeD)
  moreover have "ion_map_inv ?t" "ion_idle_inv ?t"
    using inv(4) assms(3) by (simp_all add: ion_map_inv_def ion_idle_inv_def ion_alloc_commit_def)
  ultimately show ?thesis by (simp add: ion_inv_def ion_owed_def)
qed

lemma ion_inv_alloc:
  assumes "ion_inv s" and "ion_misc s" and "\<And>b. kz = Some b \<Longrightarrow> b \<notin> fst ` set (heap s)"
    and "dma_fresh s dma_alloc"
  shows "ion_inv (snd (cvi_ion_alloc_nofd kz dma_alloc type len cached s))"
  using assms
  by (auto simp: cvi_ion_alloc_nofd_def Let_def intro!: ion_inv_commit split: option.splits)

lemma ion_inv_free:
  assumes "ion_inv s" and "\<And>b. p = BPtr b \<Longrightarrow> b \<in> set (ion_bufs s)"
  shows "ion_inv (snd (cvi_ion_free_nofd p s))"
  using assms
  by (auto simp: cvi_ion_free_nofd_def intro!: ion_kref_put_inv ion_unlist_owed split: buf_ptr.splits)

lemma ion_inv_release:
  assumes "ion_inv s" and "d \<in> fst ` set (dmabufs s)" and "db_unmapped d s"
  shows "ion_inv (soph_ion_dmabuf_release d s)"
proof -
  obtain db where "map_of (dmabufs s) d = Some db" using assms(2) weak_map_of_SomeI by fastforce
  with assms show ?thesis
    by (simp add: soph_ion_dmabuf_release_def ion_kref_put_inv ion_dmabuf_owed)
qed

text \<open>The search for an address finds a listed, live object that contains it.\<close>

lemma ion_find_Some:
  "ion_find h pa bs = Some b \<Longrightarrow>
   b \<in> set bs \<and> (\<exists>v. map_of h b = Some v \<and> b_paddr v \<le> pa \<and> pa - b_paddr v < b_size v)"
  by (induction bs) (auto split: option.splits if_splits)

lemma ion_find_None:
  "ion_find h pa bs = None \<longleftrightarrow>
   (\<forall>b \<in> set bs. \<forall>v. map_of h b = Some v \<longrightarrow> \<not> (b_paddr v \<le> pa \<and> pa - b_paddr v < b_size v))"
  by (induction bs) (auto split: option.splits)

lemma ion_new_unmapped:
  "ion_inv s \<Longrightarrow> d \<notin> fst ` set (dmabufs s) \<Longrightarrow> db_unmapped d s"
  by (fastforce simp: ion_inv_def ion_owed_def ion_heap_inv_def db_unmapped_def dest: map_of_Some_in)

lemma ion_inv_ioctl:
  assumes inv: "ion_inv s" and d: "\<And>d. exp = Inr d \<Longrightarrow> d \<notin> fst ` set (dmabufs s)"
  shows "ion_inv (snd (soph_ion_ioctl cmd uarg exp fd copied s))"
proof -
  have "ion_inv (snd (soph_ion_export (Some arg) exp fd copied s))" for arg
  proof (cases "ion_find (heap s) (x_phys arg) (ion_bufs s)")
    case None
    then show ?thesis using inv by (simp add: soph_ion_export_def ion_buf_get_def)
  next
    case (Some b)
    define t where "t = ion_kref_get b s"
    have owed: "ion_owed (Some b) t"
      using ion_kref_get_owed [OF inv] ion_find_Some [OF Some] by (auto simp: t_def)
    then obtain v where v: "map_of (heap t) b = Some v" using ion_owed_lookup by blast
    have db: "dmabufs t = dmabufs s" "vmas t = vmas s"
      by (auto simp: t_def ion_kref_get_def split: option.splits)
    note new = ion_export_inv [OF owed v]
    note gone = ion_inv_release [OF new, unfolded db]
    have um: "db_unmapped d s" if "exp = Inr d" for d using ion_new_unmapped [OF inv d [OF that]] .
    show ?thesis
      using inv d owed v um
      by (auto simp: soph_ion_export_def ion_buf_get_def Some t_def [symmetric] Let_def db ion_inv_fds
            db_unmapped_def intro!: ion_kref_put_inv new [unfolded db] gone split: sum.splits)
  qed
  then show ?thesis using inv
    by (cases uarg) (auto simp: soph_ion_ioctl_def soph_ion_export_def)
qed

text \<open>A change of the set of mappings, with the matching change of one object's count.\<close>

lemma ion_ref_inv_None:
  "ion_ref_inv None s \<longleftrightarrow> (\<forall>b v. map_of (heap s) b = Some v \<longrightarrow>
     b_ref v = ion_refs b s \<and> 0 < ion_refs b s \<and> b_cached_maps v = int (map_count b s))"
  by (simp add: ion_ref_inv_def)

lemma ion_inv_vmas:
  assumes inv: "ion_inv s" and "ion_misc s"
    and z: "distinct (map fst z)"
      "\<And>k v. (k, v) \<in> set z \<Longrightarrow> \<exists>d. map_of (dmabufs s) (v_db v) = Some d \<and> v_priv v = db_priv d"
      "\<And>k v. (k, v) \<in> set z \<Longrightarrow> v_cached v \<Longrightarrow> \<not> v_write v \<and> \<not> v_maywrite v \<and> \<not> ion_coherent s"
    and count: "\<And>c. int (map_count c (s\<lparr>vmas := z\<rparr>)) =
      (if c = b then f (int (map_count c s)) else int (map_count c s))"
  shows "ion_inv (s\<lparr>vmas := z, heap := al_upd b (\<lambda>v. v\<lparr>b_cached_maps := f (b_cached_maps v)\<rparr>) (heap s)\<rparr>)"
proof -
  let ?t = "s\<lparr>vmas := z\<rparr>"
  have i: "ion_heap_inv s" "ion_ref_inv None s" "ion_acct_inv s" "ion_map_inv s" "ion_region_inv s"
    using inv by (simp_all add: ion_inv_def ion_owed_def)
  have "ion_heap_inv ?t" using i(1) z(1,2) by (auto simp: ion_heap_inv_def)
  moreover have "ion_map_inv ?t" using i(4) z(3) by (auto simp: ion_map_inv_def)
  moreover have "ion_acct_inv ?t" "ion_region_inv ?t" "ion_idle_inv ?t"
    using i(3,5) assms(2) by (simp_all add: ion_acct_inv_def ion_region_inv_def ion_idle_inv_def)
  ultimately have rest: "ion_rest ?t" by (simp add: ion_rest_def)
  let ?u = "?t\<lparr>heap := al_upd b (\<lambda>v. v\<lparr>b_cached_maps := f (b_cached_maps v)\<rparr>) (heap ?t)\<rparr>"
  have "ion_ref_inv None ?u"
  proof -
    have "b_ref v = ion_refs c ?u \<and> 0 < ion_refs c ?u \<and> b_cached_maps v = int (map_count c ?u)"
      if h: "map_of (heap ?u) c = Some v" for c v
    proof -
      obtain w where w: "map_of (heap s) c = Some w" "b_ref v = b_ref w"
          "b_cached_maps v = (if c = b then f (b_cached_maps w) else b_cached_maps w)"
        using h by (cases "map_of (heap s) c") (auto split: if_splits)
      have r: "b_ref w = ion_refs c s \<and> 0 < ion_refs c s \<and> b_cached_maps w = int (map_count c s)"
        using i(2) w(1) unfolding ion_ref_inv_None by blast
      have e: "ion_refs c ?u = ion_refs c s" "map_count c ?u = map_count c ?t"
        by (simp_all add: count_defs)
      show ?thesis unfolding e count w(2,3) using r by (simp only: simp_thms split: if_splits)
    qed
    then show ?thesis unfolding ion_ref_inv_None by (intro allI impI)
  qed
  from ion_owed_upd [OF rest _ _ this] show ?thesis by (simp add: ion_inv_def)
qed

lemma ion_vma_add:
  assumes inv: "ion_inv s" and "ion_misc s" and "k \<notin> fst ` set (vmas s)"
    and d: "map_of (dmabufs s) (v_db v) = Some d" "v_priv v = db_priv d"
    and c: "v_cached v \<Longrightarrow> \<not> v_write v \<and> \<not> v_maywrite v \<and> \<not> ion_coherent s"
  shows "ion_inv (s\<lparr>vmas := (k, v) # vmas s, heap := al_upd (v_priv v) (\<lambda>w. w\<lparr>b_cached_maps :=
           (if v_cached v then b_cached_maps w + 1 else b_cached_maps w)\<rparr>) (heap s)\<rparr>)"
proof -
  have "ion_heap_inv s" and "ion_map_inv s"
    using inv by (simp_all add: ion_inv_def ion_owed_def)
  with assms show ?thesis
    by (intro ion_inv_vmas [where f = "\<lambda>n. if v_cached v then n + 1 else n"])
       (fastforce simp: ion_heap_inv_def ion_map_inv_def map_count_def)+
qed

lemma ion_vma_del:
  assumes inv: "ion_inv s" and "ion_misc s" and k: "map_of (vmas s) k = Some v"
  shows "ion_inv (s\<lparr>vmas := al_del k (vmas s), heap := al_upd (v_priv v) (\<lambda>w. w\<lparr>b_cached_maps :=
           (if v_cached v then b_cached_maps w - 1 else b_cached_maps w)\<rparr>) (heap s)\<rparr>)"
proof -
  have i: "ion_heap_inv s" "ion_map_inv s"
    using inv by (simp_all add: ion_inv_def ion_owed_def)
  have sub: "set (al_del k (vmas s)) \<subseteq> set (vmas s)" by (auto simp: al_del_def)
  have dist: "distinct (map fst (vmas s))" using i(1) by (simp add: ion_heap_inv_def)
  have n: "map_count c s = (if v_cached v \<and> v_priv v = c then 1 else 0) +
      map_count c (s\<lparr>vmas := al_del k (vmas s)\<rparr>)" for c
    using length_filter_al_del [OF dist k, of "\<lambda>(k, v). v_cached v \<and> v_priv v = c"]
    by (simp add: map_count_def)
  show ?thesis
  proof (rule ion_inv_vmas [OF inv assms(2), where f = "\<lambda>n. if v_cached v then n - 1 else n"])
    fix k' v' assume kv: "(k', v') \<in> set (al_del k (vmas s))"
    with i sub show "\<exists>d. map_of (dmabufs s) (v_db v') = Some d \<and> v_priv v' = db_priv d"
      by (auto simp: ion_heap_inv_def)
    show "\<not> v_write v' \<and> \<not> v_maywrite v' \<and> \<not> ion_coherent s" if "v_cached v'"
      using i(2) sub kv that by (auto simp: ion_map_inv_def)
  qed (use dist n in \<open>auto simp: al_del_distinct\<close>)
qed

lemma ion_cached_maps_upd_live:
  "map_of (heap s) b = Some v \<Longrightarrow> ion_cached_maps_upd b f s =
     s\<lparr>heap := al_upd b (\<lambda>v. v\<lparr>b_cached_maps := f (b_cached_maps v)\<rparr>) (heap s)\<rparr>"
  by (simp add: ion_cached_maps_upd_def)

lemma al_upd_same: "(\<And>v. f v = v) \<Longrightarrow> al_upd k f xs = xs"
  by (induction xs) auto

lemma ion_vma_live:
  assumes "ion_inv s" and "map_of (vmas s) k = Some v"
  obtains d w where "map_of (dmabufs s) (v_db v) = Some d" "v_priv v = db_priv d"
    "map_of (heap s) (v_priv v) = Some w"
proof -
  have "ion_heap_inv s" using assms(1) by (simp add: ion_inv_def ion_owed_def)
  then obtain d where d: "map_of (dmabufs s) (v_db v) = Some d" "v_priv v = db_priv d"
    using map_of_SomeD [OF assms(2)] by (auto simp: ion_heap_inv_def)
  moreover obtain w where "map_of (heap s) (db_priv d) = Some w"
    using \<open>ion_heap_inv s\<close> map_of_SomeD [OF d(1)] by (auto simp: ion_heap_inv_def)
  ultimately show thesis using that by simp
qed

lemma ion_db_live:
  assumes "ion_inv s" and "d \<in> fst ` set (dmabufs s)"
  obtains db w where "map_of (dmabufs s) d = Some db" "map_of (heap s) (db_priv db) = Some w"
proof -
  obtain db where db: "map_of (dmabufs s) d = Some db"
    using assms(2) weak_map_of_SomeI by fastforce
  with assms(1) that show thesis
    using map_of_SomeD [OF db] by (auto simp: ion_inv_def ion_owed_def ion_heap_inv_def)
qed

lemma ion_inv_vm_open:
  assumes inv: "ion_inv s" and misc: "ion_misc s" and k': "k' \<notin> fst ` set (vmas s)"
  shows "ion_inv (soph_ion_vm_open k k' s)"
proof (cases "map_of (vmas s) k")
  case None
  then show ?thesis using inv by (simp add: soph_ion_vm_open_def)
next
  case (Some v)
  obtain d w where d: "map_of (dmabufs s) (v_db v) = Some d" "v_priv v = db_priv d"
    "map_of (heap s) (v_priv v) = Some w"
    using ion_vma_live [OF inv Some] .
  have "v_cached v \<Longrightarrow> \<not> v_write v \<and> \<not> v_maywrite v \<and> \<not> ion_coherent s"
    using inv map_of_SomeD [OF Some] by (auto simp: ion_inv_def ion_owed_def ion_map_inv_def)
  from ion_vma_add [OF inv misc k' d(1,2) this] show ?thesis
    using Some d(3) by (cases "v_cached v") (simp_all add: soph_ion_vm_open_def Let_def ion_cached_maps_upd_live al_upd_same)
qed

lemma ion_inv_vm_close:
  assumes inv: "ion_inv s" and misc: "ion_misc s"
  shows "ion_inv (soph_ion_vm_close k s)"
proof (cases "map_of (vmas s) k")
  case None
  then show ?thesis using inv by (simp add: soph_ion_vm_close_def)
next
  case (Some v)
  obtain d w where "map_of (heap s) (v_priv v) = Some w" using ion_vma_live [OF inv Some] by blast
  with ion_vma_del [OF inv misc Some] Some show ?thesis
    by (cases "v_cached v") (simp_all add: soph_ion_vm_close_def Let_def ion_cached_maps_upd_live al_upd_same)
qed

lemma ion_inv_sync: "ion_inv s \<Longrightarrow> b \<in> fst ` set (heap s) \<Longrightarrow> ion_inv (ion_sync_for_cpu b s)"
  by (auto simp: ion_sync_for_cpu_def ion_inv_trace dest: weak_map_of_SomeI split: option.splits)

lemma ion_inv_begin_cpu:
  assumes inv: "ion_inv s" and d: "d \<in> fst ` set (dmabufs s)"
  shows "ion_inv (soph_ion_begin_cpu_access d s)"
proof -
  obtain db w where w: "map_of (dmabufs s) d = Some db" "map_of (heap s) (db_priv db) = Some w"
    using ion_db_live [OF assms] .
  with inv show ?thesis
    by (simp add: soph_ion_begin_cpu_access_def ion_inv_sync map_of_Some_in)
qed

lemma ion_inv_mmap:
  assumes inv: "ion_inv s" and misc: "ion_misc s" and d: "d \<in> fst ` set (dmabufs s)"
    and k: "k \<notin> fst ` set (vmas s)"
  shows "ion_inv (snd (soph_ion_mmap d k write maywrite pgoff len remap coh s))"
proof -
  obtain db w where w: "map_of (dmabufs s) d = Some db" "map_of (heap s) (db_priv db) = Some w"
    using ion_db_live [OF inv d] .
  define v where "v c = \<lparr>v_db = d, v_write = (if c then False else write),
    v_maywrite = (if c then False else maywrite), v_cached = c, v_priv = db_priv db,
    v_pfn = PHYS_PFN (b_paddr w) + pgoff, v_len = len\<rparr>" for c
  have "v_cached (v c) \<Longrightarrow> cached_mmap s \<Longrightarrow>
      \<not> v_write (v c) \<and> \<not> v_maywrite (v c) \<and> \<not> ion_coherent s" for c
    using inv misc by (simp add: v_def ion_inv_def ion_owed_def ion_map_inv_def)
  then have add: "c \<longrightarrow> cached_mmap s \<Longrightarrow>
    ion_inv (s\<lparr>vmas := (k, v c) # vmas s, heap := al_upd (v_priv (v c)) (\<lambda>w. w\<lparr>b_cached_maps :=
           (if v_cached (v c) then b_cached_maps w + 1 else b_cached_maps w)\<rparr>) (heap s)\<rparr>)" for c
    using w by (intro ion_vma_add [OF inv misc k]) (auto simp: v_def)
  show ?thesis
    using w inv add [of True] add [of False]
    by (auto simp: soph_ion_mmap_def v_def Let_def ion_cached_maps_upd_live al_upd_same map_of_Some_in
        intro!: ion_inv_sync split: sum.splits)
qed

lemma ion_inv_step: "ion_step s t \<Longrightarrow> ion_inv s \<Longrightarrow> ion_inv t"
  by (induction rule: ion_step.induct)
     (auto intro!: ion_inv_init ion_inv_set_cached ion_inv_alloc ion_inv_free ion_inv_ioctl
        ion_inv_release ion_inv_mmap ion_inv_vm_open ion_inv_vm_close ion_inv_begin_cpu
        ion_inv_cache_flush ion_inv_cache_invalidate)

interpretation ion: step_invariant "ion_load arm64" ion_step ion_inv for arm64
  by unfold_locales (auto intro: ion_inv_load ion_inv_step)

section \<open>What the reachable states satisfy\<close>

lemmas ion_reach_inv = ion.reach_inv

lemma ion_inv_facts:
  assumes "ion_inv s"
  shows "\<not> ion_ub s" and "distinct (map fst (heap s))" and "distinct (map fst (dmabufs s))"
    and "unat (ion_in_use s) = heap_bytes s" and "heap_bytes s \<le> unat ION_BUDGET"
    and "map_of (heap s) b = Some v \<Longrightarrow>
      b_ref v = ion_refs b s \<and> 0 < ion_refs b s \<and> b_cached_maps v = int (map_count b s)"
    and "map_of (heap s) b = Some v \<Longrightarrow> unat (b_paddr v) + unat (b_size v) \<le> 2 ^ 32"
    and "map_of (heap s) b = Some v \<Longrightarrow> map_of (heap s) b' = Some v' \<Longrightarrow> b \<noteq> b' \<Longrightarrow> region_apart v v'"
    and "set (ion_bufs s) \<subseteq> fst ` set (heap s)" and "distinct (ion_bufs s)"
  using assms unfolding ion_inv_def ion_owed_def ion_heap_inv_def ion_acct_inv_def ion_ref_inv_None
    ion_region_inv_def by simp_all

text \<open>A state for the witnesses: the module is up and one 5000-byte allocation is exported.\<close>

definition ion_w0 :: ion where
  "ion_w0 = snd (soph_ion_init (Inr ()) (Inr ()) False (Inr ()) (ion_load True))"

definition ion_w1 :: ion where
  "ion_w1 = snd (cvi_ion_alloc_nofd (Some 7) (\<lambda>len. if len = 8192 then Some (0xFF00, 0x80000000) else None)
     ION_HEAP_TYPE_CARVEOUT 5000 False ion_w0)"

definition ion_w2 :: ion where
  "ion_w2 = snd (soph_ion_ioctl SOPH_ION_IOC_EXPORT
     (Some \<lparr>x_phys = 0x80000010, x_flags = 0, x_fd = 0, x_offset = 0, x_size = 0\<rparr>)
     (Inr 3) (Inr 9) True ion_w1)"

definition ion_w3 :: ion where
  "ion_w3 = snd (soph_ion_mmap 3 1 False True 0 8192 (Inr ()) (Inr ()) ion_w2)"

lemma PAGE_ALIGN_5000: "PAGE_ALIGN 5000 = 8192"
  by (simp add: PAGE_ALIGN_def align_up_def mask_eq_exp_minus_1)

lemma ion_w0_eq: "ion_w0 = (ion_load True)\<lparr>ion_pdev := Pdev, ion_misc := True\<rparr>"
  by (simp add: ion_w0_def soph_ion_init_def ion_load_def Let_def)

lemma ion_w1_eq: "ion_w1 = ion_alloc_commit 7 0xFF00 0x80000000 8192 ion_w0"
  by (simp add: ion_w1_def cvi_ion_alloc_nofd_def ion_w0_eq ion_load_def PAGE_ALIGN_5000 Let_def
      ion_over_budget_def ION_BUDGET_def)

lemma ion_w2_eq:
  "ion_w2 = \<lparr>ion_pdev = Pdev, ion_bufs = [7], ion_in_use = 8192, cached_mmap = True,
     ion_coherent = False, ion_misc = True,
     heap = [(7, \<lparr>b_name = ''soph'', b_paddr = 0x80000000, b_vaddr = 0xFF00, b_size = 8192,
       b_dma = 0x80000000, b_ref = 2, b_cached_maps = 0\<rparr>)],
     dmabufs = [(3, \<lparr>db_priv = 7, db_size = 8192, db_rdwr = True\<rparr>)], vmas = [], fds = [(9, 3)],
     ion_trace = [], ion_ub = False\<rparr>"
  by (simp add: ion_w2_def soph_ion_ioctl_def soph_ion_export_def ion_buf_get_def ion_w1_eq ion_w0_eq
      ion_alloc_commit_def ion_load_def ion_kref_get_def)

lemma ion_w_reach:
  "reach (ion_load True) ion_step ion_w0" "reach (ion_load True) ion_step ion_w1"
  "reach (ion_load True) ion_step ion_w2" "reach (ion_load True) ion_step ion_w3"
proof -
  show 0: "reach (ion_load True) ion_step ion_w0" unfolding ion_w0_def
    by (rule reach.step [OF reach.start], rule ion_step.init) (simp_all add: ion_load_def)
  show 1: "reach (ion_load True) ion_step ion_w1" unfolding ion_w1_def
    by (rule reach.step [OF 0], rule ion_step.alloc)
       (simp_all add: ion_w0_eq ion_load_def dma_fresh_def)
  show 2: "reach (ion_load True) ion_step ion_w2" unfolding ion_w2_def
    by (rule reach.step [OF 1], rule ion_step.ioctl)
       (simp_all add: ion_w1_eq ion_w0_eq ion_load_def ion_alloc_commit_def)
  show "reach (ion_load True) ion_step ion_w3" unfolding ion_w3_def
    by (rule reach.step [OF 2], rule ion_step.mmap) (simp_all add: ion_w2_eq)
qed

section \<open>Properties\<close>

text \<open>
  C1. Lifetimes. In every state a sequence of calls reaches, no operation has touched a freed
  object; each object has an owner, and its reference count is the number of its owners (the
  allocation, if it is still listed, and each dma-buf of it); each dma-buf's buffer and each
  mapping's dma-buf exist, with the size the dma-buf was exported with.
\<close>

theorem ion_lifetimes:
  assumes "reach (ion_load arm64) ion_step s"
  shows "\<not> ion_ub s \<and>
    (\<forall>b v. map_of (heap s) b = Some v \<longrightarrow> b_ref v = ion_refs b s \<and> 0 < b_ref v) \<and>
    (\<forall>d db. map_of (dmabufs s) d = Some db \<longrightarrow>
       (\<exists>v. map_of (heap s) (db_priv db) = Some v \<and> b_size v = db_size db)) \<and>
    (\<forall>k v. map_of (vmas s) k = Some v \<longrightarrow> v_db v \<in> fst ` set (dmabufs s))"
proof -
  have inv: "ion_inv s" using assms by (rule ion_reach_inv)
  then have h: "ion_heap_inv s" by (simp add: ion_inv_def ion_owed_def)
  show ?thesis
  proof (intro conjI allI impI)
    fix b v assume "map_of (heap s) b = Some v"
    from ion_inv_facts(6) [OF inv this] show "b_ref v = ion_refs b s" "0 < b_ref v" by simp_all
  next
    fix d db assume "map_of (dmabufs s) d = Some db"
    with h show "\<exists>v. map_of (heap s) (db_priv db) = Some v \<and> b_size v = db_size db"
      by (auto simp: ion_heap_inv_def dest!: map_of_SomeD)
  next
    fix k v assume "map_of (vmas s) k = Some v"
    then show "v_db v \<in> fst ` set (dmabufs s)"
      by (rule ion_vma_live [OF inv]) (rule map_of_Some_in)
  qed (rule ion_inv_facts(1) [OF inv])
qed

theorem ion_lifetimes_witness:
  "\<not> ion_ub ion_w2 \<and> ion_refs 7 ion_w2 = 2"
proof -
  obtain v where v: "map_of (heap ion_w2) 7 = Some v" "b_ref v = 2"
    by (simp add: ion_w2_eq)
  note l = ion_lifetimes [OF ion_w_reach(3)]
  then have "b_ref v = ion_refs 7 ion_w2" using v(1) by blast
  with l v(2) show ?thesis by simp
qed




text \<open>
  C15. Export. The ioctl hands out a dma-buf only for an address inside a live, listed
  allocation, which is the only object that contains it; the offset it answers lies inside the
  size it answers and leads back to the address asked for; the new dma-buf holds one more
  reference to that allocation and is writable only if the caller did not ask for read-only.
\<close>

theorem soph_ion_export_sound:
  assumes r: "reach (ion_load arm64) ion_step s"
    and e: "soph_ion_export (Some arg) (Inr d) fd copied s = (Inr out, t)"
  shows "\<exists>b v. b \<in> set (ion_bufs s) \<and> map_of (heap s) b = Some v \<and>
    x_size out = b_size v \<and> x_offset out < x_size out \<and> b_paddr v + x_offset out = x_phys arg \<and>
    (\<forall>c w. map_of (heap s) c = Some w \<longrightarrow>
       unat (b_paddr w) \<le> unat (x_phys arg) \<and> unat (x_phys arg) < unat (b_paddr w) + unat (b_size w) \<longrightarrow>
       c = b) \<and>
    map_of (dmabufs t) d = Some \<lparr>db_priv = b, db_size = b_size v,
      db_rdwr = (x_flags arg AND SOPH_ION_EXPORT_RDONLY = 0)\<rparr> \<and>
    map_of (heap t) b = Some (v\<lparr>b_ref := b_ref v + 1\<rparr>) \<and>
    x_flags arg AND NOT (O_CLOEXEC OR SOPH_ION_EXPORT_RDONLY) = 0 \<and> (x_fd out, d) \<in> set (fds t)"
proof -
  have inv: "ion_inv s" using r by (rule ion_reach_inv)
  obtain b where f: "ion_find (heap s) (x_phys arg) (ion_bufs s) = Some b"
    using e by (cases "ion_find (heap s) (x_phys arg) (ion_bufs s)")
      (auto simp: soph_ion_export_def ion_buf_get_def split: if_splits)
  then obtain v where b: "b \<in> set (ion_bufs s)" and v: "map_of (heap s) b = Some v"
      and pa: "b_paddr v \<le> x_phys arg" "x_phys arg - b_paddr v < b_size v"
    using ion_find_Some by blast
  have hd: "unat (x_phys arg) < unat (b_paddr v) + unat (b_size v)"
    using pa by (simp add: word_less_nat_alt word_le_nat_alt unat_sub less_diff_conv2 add.commute)
  have only: "c = b" if "map_of (heap s) c = Some w" "unat (b_paddr w) \<le> unat (x_phys arg)"
    "unat (x_phys arg) < unat (b_paddr w) + unat (b_size w)" for c w
    using ion_inv_facts(8) [OF inv that(1) v] that(2,3) hd pa(1)
    by (cases "c = b") (auto simp: region_apart_def word_le_nat_alt)
  from e f v have "x_flags arg AND NOT (O_CLOEXEC OR SOPH_ION_EXPORT_RDONLY) = 0"
    by (auto simp: soph_ion_export_def split: if_splits)
  with e f v have out: "x_size out = b_size v" "x_offset out = x_phys arg - b_paddr v"
      "map_of (dmabufs t) d = Some \<lparr>db_priv = b, db_size = b_size v,
        db_rdwr = (x_flags arg AND SOPH_ION_EXPORT_RDONLY = 0)\<rparr>"
      "map_of (heap t) b = Some (v\<lparr>b_ref := b_ref v + 1\<rparr>)" "(x_fd out, d) \<in> set (fds t)"
      "x_flags arg AND NOT (O_CLOEXEC OR SOPH_ION_EXPORT_RDONLY) = 0"
    by (auto simp: soph_ion_export_def ion_buf_get_def ion_kref_get_def Let_def
        split: sum.splits if_splits)
  show ?thesis
    using b v pa out by (intro exI [of _ b] exI [of _ v]) (auto intro: only)
qed

theorem soph_ion_export_sound_witness:
  "\<exists>b v. b \<in> set (ion_bufs ion_w1) \<and> map_of (heap ion_w1) b = Some v \<and> b_paddr v + 0x10 = 0x80000010"
proof -
  let ?arg = "\<lparr>x_phys = 0x80000010, x_flags = 0, x_fd = 0, x_offset = 0, x_size = 0\<rparr>"
  have "soph_ion_export (Some ?arg) (Inr 3) (Inr 9) True ion_w1 =
      (Inr (?arg\<lparr>x_fd := 9, x_offset := 0x10, x_size := 8192\<rparr>), ion_w2)"
    by (simp add: soph_ion_export_def ion_buf_get_def ion_w1_eq ion_w0_eq ion_w2_eq Let_def
      ion_alloc_commit_def ion_load_def ion_kref_get_def)
  from soph_ion_export_sound [OF ion_w_reach(2) this] show ?thesis by auto
qed

lemma al_upd_twice: "(\<And>v. g (f v) = v) \<Longrightarrow> al_upd k g (al_upd k f xs) = xs"
  by (induction xs) auto

lemma ion_kref_get_put:
  assumes "map_of (heap s) b = Some v" and "0 < b_ref v"
  shows "ion_kref_put b (ion_kref_get b s) = s"
  using assms by (simp add: ion_kref_get_def ion_kref_put_def al_upd_twice)

text \<open>
  C24. A failed export changes nothing: whichever step fails (the copy in, the flags, the
  address, the dma-buf, the descriptor, the copy out), the module's state is the one before the
  call, so no reference is lost and none is dropped twice.
\<close>

theorem soph_ion_export_failure:
  assumes r: "reach (ion_load arm64) ion_step s"
    and fresh: "\<forall>d. exp = Inr d \<longrightarrow> d \<notin> fst ` set (dmabufs s)"
    and e: "soph_ion_export uarg exp fd copied s = (Inl err, t)"
  shows "t = s"
proof (cases uarg)
  case None
  then show ?thesis using e by (simp add: soph_ion_export_def)
next
  case (Some arg)
  have inv: "ion_inv s" using r by (rule ion_reach_inv)
  show ?thesis
  proof (cases "ion_find (heap s) (x_phys arg) (ion_bufs s)")
    case None
    then show ?thesis using e Some by (auto simp: soph_ion_export_def ion_buf_get_def split: if_splits)
  next
    case (Some b)
    then obtain v where v: "map_of (heap s) b = Some v" using ion_find_Some by blast
    have put: "ion_kref_put b (ion_kref_get b s) = s"
      using v ion_inv_facts(6) [OF inv v] by (intro ion_kref_get_put) auto
    have db: "dmabufs (ion_kref_get b s) = dmabufs s" "fds (ion_kref_get b s) = fds s"
      by (simp_all add: ion_kref_get_def v)
    have rel: "soph_ion_dmabuf_release d (ion_kref_get b s\<lparr>dmabufs := (d, db) # dmabufs s\<rparr>) = s"
      if "exp = Inr d" "db_priv db = b" for d db
    proof -
      have "al_del d (dmabufs s) = dmabufs s" using fresh that by (intro al_del_absent) simp
      then have "ion_kref_get b s\<lparr>dmabufs := al_del d (dmabufs s)\<rparr> = ion_kref_get b s"
        using v by (simp add: ion_kref_get_def)
      with that put show ?thesis by (simp add: soph_ion_dmabuf_release_def)
    qed
    have "map_of (heap (ion_kref_get b s)) b = Some (v\<lparr>b_ref := b_ref v + 1\<rparr>)"
      using v by (simp add: ion_kref_get_def)
    then show ?thesis
      using e Some \<open>uarg = Some arg\<close> put rel
      by (auto simp: soph_ion_export_def ion_buf_get_def db Let_def split: sum.splits if_splits)
  qed
qed

theorem soph_ion_export_failure_witness:
  "snd (soph_ion_export (Some \<lparr>x_phys = 0x80001000, x_flags = 0, x_fd = 0, x_offset = 0, x_size = 0\<rparr>)
     (Inr 4) (Inr 9) False ion_w2) = ion_w2"
proof -
  let ?arg = "\<lparr>x_phys = 0x80001000, x_flags = 0, x_fd = 0, x_offset = 0, x_size = 0\<rparr>"
  have "soph_ion_export (Some ?arg) (Inr 4) (Inr 9) False ion_w2 =
      (Inl EFAULT, snd (soph_ion_export (Some ?arg) (Inr 4) (Inr 9) False ion_w2))"
    by (simp add: soph_ion_export_def ion_buf_get_def ion_w2_eq ion_kref_get_def)
  from soph_ion_export_failure [OF ion_w_reach(3) _ this] show ?thesis by (simp add: ion_w2_eq)
qed

lemma ion_find_unlisted: "b \<notin> set bs \<Longrightarrow> ion_find h pa bs \<noteq> Some b"
  using ion_find_Some by blast

text \<open>
  C16. Freeing an allocation. It can no longer be exported. If no dma-buf of it is open its memory
  goes back at once, with the budget it took; otherwise it keeps both, and the close of the last
  dma-buf is what returns them, exactly once.
\<close>

theorem cvi_ion_free_nofd_releases:
  assumes r: "reach (ion_load arm64) ion_step s" and b: "b \<in> set (ion_bufs s)"
    and v: "map_of (heap s) b = Some v" and t: "cvi_ion_free_nofd (BPtr b) s = (ret, t)"
  shows "ret = Inr () \<and> ion_find (heap t) pa (ion_bufs t) \<noteq> Some b \<and>
    (if db_refs b s = 0
     then map_of (heap t) b = None \<and> ion_in_use t = ion_in_use s - b_size v \<and>
       ion_trace t = ion_trace s @ [Dma_free_coherent (b_size v) (b_vaddr v) (b_dma v)]
     else map_of (heap t) b = Some (v\<lparr>b_ref := db_refs b s\<rparr>) \<and> ion_in_use t = ion_in_use s \<and>
       ion_trace t = ion_trace s \<and>
       (\<forall>d db. map_of (dmabufs t) d = Some db \<longrightarrow> db_priv db = b \<longrightarrow> db_refs b s = 1 \<longrightarrow>
          map_of (heap (soph_ion_dmabuf_release d t)) b = None \<and>
          ion_in_use (soph_ion_dmabuf_release d t) = ion_in_use s - b_size v \<and>
          ion_trace (soph_ion_dmabuf_release d t) =
            ion_trace s @ [Dma_free_coherent (b_size v) (b_vaddr v) (b_dma v)]))"
proof -
  have inv: "ion_inv s" using r by (rule ion_reach_inv)
  have n: "b_ref v = 1 + db_refs b s" using ion_inv_facts(6) [OF inv v] b by (simp add: ion_refs_def)
  let ?u = "s\<lparr>ion_bufs := remove1 b (ion_bufs s)\<rparr>"
  have t': "t = ion_kref_put b ?u" "ret = Inr ()"
    using t b by (simp_all add: cvi_ion_free_nofd_def)
  have bufs: "ion_bufs t = remove1 b (ion_bufs s)" "dmabufs t = dmabufs s"
    using v by (simp_all add: t' ion_kref_put_def ion_buf_release_def)
  have off: "b \<notin> set (ion_bufs t)" using ion_inv_facts(10) [OF inv] by (simp add: bufs)
  have "ion_find (heap t) pa (ion_bufs t) \<noteq> Some b" using off by (rule ion_find_unlisted)
  moreover have "db_refs b s = 0 \<Longrightarrow> ?thesis"
    using calculation t' v n by (simp add: ion_kref_put_def ion_buf_release_def)
  moreover have "0 < db_refs b s \<Longrightarrow> map_of (heap t) b = Some (v\<lparr>b_ref := db_refs b s\<rparr>) \<and>
      ion_in_use t = ion_in_use s \<and> ion_trace t = ion_trace s"
    using t' v n by (simp add: ion_kref_put_def)
  ultimately show ?thesis
    using t'(2) bufs(2)
    by (cases "db_refs b s = 0")
       (auto simp: soph_ion_dmabuf_release_def ion_kref_put_def ion_buf_release_def)
qed

theorem cvi_ion_free_nofd_releases_witness:
  "let t = snd (cvi_ion_free_nofd (BPtr 7) ion_w2) in
   ion_in_use t = 8192 \<and> ion_in_use (soph_ion_dmabuf_release 3 t) = 0"
proof -
  let ?v = "\<lparr>b_name = ''soph'', b_paddr = 0x80000000, b_vaddr = 0xFF00, b_size = 8192,
       b_dma = 0x80000000, b_ref = 2, b_cached_maps = 0\<rparr>"
  have t: "cvi_ion_free_nofd (BPtr 7) ion_w2 = (fst (cvi_ion_free_nofd (BPtr 7) ion_w2),
      snd (cvi_ion_free_nofd (BPtr 7) ion_w2))" by simp
  have "map_of (heap ion_w2) 7 = Some ?v" "7 \<in> set (ion_bufs ion_w2)" "db_refs 7 ion_w2 = 1"
    by (simp_all add: ion_w2_eq db_refs_def)
  from cvi_ion_free_nofd_releases [OF ion_w_reach(3) this(2,1) t] this(3) show ?thesis
    by (simp add: Let_def) (simp add: ion_w2_eq cvi_ion_free_nofd_def ion_kref_put_def)
qed

lemma map_count_pos:
  "0 < map_count b s \<longleftrightarrow> (\<exists>(k, v) \<in> set (vmas s). v_cached v \<and> v_priv v = b)"
  by (auto simp: map_count_def filter_empty_conv)

text \<open>
  C23. Cached mappings. In a reachable state a cached mapping is read-only and stays so, and there
  is none on a DMA-coherent device; \<open>DMA_BUF_IOCTL_SYNC\<close>'s start invalidates the buffer exactly
  while some cached mapping of it exists, and a successful read-only mmap under \<open>cached_mmap\<close>
  ends with such an invalidation.
\<close>

theorem ion_cached_maps:
  assumes r: "reach (ion_load arm64) ion_step s" and d: "map_of (dmabufs s) d = Some db"
    and b: "map_of (heap s) (db_priv db) = Some v"
  shows "(\<forall>(k, m) \<in> set (vmas s). v_cached m \<longrightarrow>
      \<not> v_write m \<and> \<not> v_maywrite m \<and> \<not> ion_coherent s) \<and>
    soph_ion_begin_cpu_access d s =
      (if \<exists>(k, m) \<in> set (vmas s). v_cached m \<and> v_priv m = db_priv db
       then s\<lparr>ion_trace := ion_trace s @ [Dma_sync_for_cpu (b_dma v) (b_size v)]\<rparr> else s) \<and>
    (cached_mmap s \<longrightarrow> ion_trace (snd (soph_ion_mmap d k False maywrite pgoff len (Inr ()) coh s)) =
      ion_trace s @ [Dma_sync_for_cpu (b_dma v) (b_size v)])"
proof -
  have inv: "ion_inv s" using r by (rule ion_reach_inv)
  have "b_cached_maps v \<noteq> 0 \<longleftrightarrow> 0 < map_count (db_priv db) s"
    using ion_inv_facts(6) [OF inv b] by simp
  then have "soph_ion_begin_cpu_access d s =
      (if \<exists>(k, m) \<in> set (vmas s). v_cached m \<and> v_priv m = db_priv db
       then s\<lparr>ion_trace := ion_trace s @ [Dma_sync_for_cpu (b_dma v) (b_size v)]\<rparr> else s)"
    using d b by (simp add: soph_ion_begin_cpu_access_def ion_sync_for_cpu_def map_count_pos)
  moreover have "\<forall>(k, m) \<in> set (vmas s). v_cached m \<longrightarrow>
      \<not> v_write m \<and> \<not> v_maywrite m \<and> \<not> ion_coherent s"
    using inv by (simp add: ion_inv_def ion_owed_def ion_map_inv_def)
  ultimately show ?thesis
    using d b by (simp add: soph_ion_mmap_def ion_cached_maps_upd_live ion_sync_for_cpu_def Let_def)
qed

theorem ion_cached_maps_witness:
  "ion_trace (soph_ion_begin_cpu_access 3 ion_w3) =
   ion_trace ion_w3 @ [Dma_sync_for_cpu 0x80000000 8192]"
proof -
  have w3: "map_of (dmabufs ion_w3) 3 = Some \<lparr>db_priv = 7, db_size = 8192, db_rdwr = True\<rparr>"
      "map_of (heap ion_w3) 7 = Some \<lparr>b_name = ''soph'', b_paddr = 0x80000000, b_vaddr = 0xFF00,
        b_size = 8192, b_dma = 0x80000000, b_ref = 2, b_cached_maps = 1\<rparr>"
      "\<exists>(k, m) \<in> set (vmas ion_w3). v_cached m \<and> v_priv m = 7"
    by (simp_all add: ion_w3_def ion_w2_eq soph_ion_mmap_def ion_cached_maps_upd_def
        ion_sync_for_cpu_def Let_def)
  from ion_cached_maps [OF ion_w_reach(4) w3(1)] w3(2,3) show ?thesis by simp
qed

end
