(* ===== verification/Badapple.thy ===== *)
theory Badapple
  imports Prelude
begin

text \<open>
  The packers of the 1-bit video blob: \<open>badapple/pack.c\<close>, which thresholds raw gray frames into
  the panel's page-major layout behind a 16-byte header, and \<open>badapple/gen_sample.c\<close>, which
  draws a test animation in the same format. A stream is a list of bytes; a write, seek or
  allocation that can fail has a flag in \<open>pack_io\<close>, and each exit of the program is a value of
  \<open>pack_error\<close>.
\<close>

section \<open>The blob header\<close>

definition put_u16 :: "u32 \<Rightarrow> u8 list" where
  "put_u16 v = [ucast (v AND 0xff), ucast (drop_bit 8 v AND 0xff)]"

definition put_u32 :: "u64 \<Rightarrow> u8 list" where
  "put_u32 v = [ucast (v AND 0xff), ucast (drop_bit 8 v AND 0xff),
     ucast (drop_bit 16 v AND 0xff), ucast (drop_bit 24 v AND 0xff)]"

text \<open>The magic is the bytes of \<open>BADA\<close>; the flags are 0.\<close>

definition bada_header :: "u32 \<Rightarrow> u32 \<Rightarrow> u32 \<Rightarrow> u64 \<Rightarrow> u8 list" where
  "bada_header width height fps frames =
     [0x42, 0x41, 0x44, 0x41] @ put_u16 width @ put_u16 height @ put_u16 fps @ put_u16 0 @
     put_u32 frames"

section \<open>Pixels\<close>

text \<open>\<open>fb[(y / 8) * width + x] |= 1 << (y % 8)\<close>, shared by both programs.\<close>

definition fb_set :: "nat \<Rightarrow> nat \<Rightarrow> nat \<Rightarrow> u8 list \<Rightarrow> u8 list" where
  "fb_set width y x fb =
     fb[(y div 8) * width + x := fb ! ((y div 8) * width + x) OR push_bit (y mod 8) 1]"

definition pack_pixel :: "nat \<Rightarrow> int \<Rightarrow> u8 list \<Rightarrow> nat \<Rightarrow> nat \<Rightarrow> u8 list \<Rightarrow> u8 list" where
  "pack_pixel width threshold gray y x fb =
     (if uint (gray ! (y * width + x)) \<ge> threshold then fb_set width y x fb else fb)"

definition pack_frame :: "nat \<Rightarrow> nat \<Rightarrow> int \<Rightarrow> u8 list \<Rightarrow> u8 list" where
  "pack_frame width height threshold gray =
     fold (\<lambda>y. fold (\<lambda>x. pack_pixel width threshold gray y x) [0..<width]) [0..<height]
       (replicate (width * height div 8) 0)"

section \<open>pack\<close>

datatype pack_error = Usage | Bad_args | Out_of_memory | Header_write | Short_frame nat nat
  | Frame_write | Too_many_frames | Flush_failed | Seek_failed | Count_write

text \<open>The process exit status of each error.\<close>

fun pack_exit :: "pack_error \<Rightarrow> int" where
  "pack_exit Usage = 2"
| "pack_exit Bad_args = 2"
| "pack_exit _ = 1"

record pack_io =
  io_malloc :: bool
  io_header :: bool
  io_frame :: "nat \<Rightarrow> bool"
  io_flush :: bool
  io_seek :: bool
  io_count :: bool

text \<open>
  The read loop: the frames read so far are \<open>count\<close>, the bytes written so far \<open>out\<close>. A read
  returns at most \<open>pixels\<close> bytes.
\<close>

function pack_loop :: "pack_io \<Rightarrow> nat \<Rightarrow> nat \<Rightarrow> int \<Rightarrow> nat \<Rightarrow> u8 list \<Rightarrow> u8 list \<Rightarrow> pack_error + (nat \<times> u8 list)"
where
  "pack_loop io width height threshold count out stdin =
     (let pixels = width * height; got = min pixels (length stdin) in
      if got = 0 then Inr (count, out)
      else if got \<noteq> pixels then Inl (Short_frame got pixels)
      else if \<not> io_frame io count then Inl Frame_write
      else if count + 1 > 0xffffffff then Inl Too_many_frames
      else pack_loop io width height threshold (count + 1)
             (out @ pack_frame width height threshold (take pixels stdin)) (drop pixels stdin))"
  by pat_completeness auto
termination
  by (relation "measure (\<lambda>(io, w, h, t, c, out, stdin). length stdin)") (auto simp: Let_def)

text \<open>\<open>args\<close> are the values of \<open>atoi\<close> on the arguments, \<open>stdin\<close> the input; the result is the
  output file.\<close>

definition pack_main :: "pack_io \<Rightarrow> int list \<Rightarrow> u8 list \<Rightarrow> pack_error + u8 list" where
  "pack_main io args stdin =
     (case args of
        [width, height, fps, threshold] \<Rightarrow>
          if width \<le> 0 \<or> height \<le> 0 \<or> height mod 8 \<noteq> 0 \<or> fps \<le> 0 \<or> fps > 65535 \<or>
             threshold < 0 \<or> threshold > 255 then Inl Bad_args
          else if \<not> io_malloc io then Inl Out_of_memory
          else if \<not> io_header io then Inl Header_write
          else
            (case pack_loop io (nat width) (nat height) threshold 0
                    (bada_header (word_of_int width) (word_of_int height) (word_of_int fps) 0) stdin of
               Inl e \<Rightarrow> Inl e
             | Inr (count, out) \<Rightarrow>
                 if \<not> io_flush io then Inl Flush_failed
                 else if \<not> io_seek io then Inl Seek_failed
                 else if \<not> io_count io then Inl Count_write
                 else Inr (take 12 out @ put_u32 (word_of_nat count) @ drop 16 out))
      | _ \<Rightarrow> Inl Usage)"

section \<open>gen\_sample\<close>

definition S_W :: int where "S_W = 128"
definition S_H :: int where "S_H = 32"
definition S_FPS :: u32 where "S_FPS = 20"
definition S_FRAMES :: nat where "S_FRAMES = 240"

definition set_pixel :: "int \<Rightarrow> int \<Rightarrow> u8 list \<Rightarrow> u8 list" where
  "set_pixel x y fb =
     (if x < 0 \<or> x \<ge> S_W \<or> y < 0 \<or> y \<ge> S_H then fb else fb_set (nat S_W) (nat y) (nat x) fb)"

text \<open>The circle, the scan bar and the border of frame \<open>f\<close>, in drawing order.\<close>

definition sample_circle :: "nat \<Rightarrow> u8 list \<Rightarrow> u8 list" where
  "sample_circle f =
     (let cx = 8 + (int f * 3) mod (S_W - 16); phase = int f mod 32;
          cy = (if phase < 16 then phase else 31 - phase) + 8; r = 6
      in fold (\<lambda>y. fold (\<lambda>x fb.
           if (x - cx) * (x - cx) + (y - cy) * (y - cy) \<le> r * r then set_pixel x y fb else fb)
             [cx - r .. cx + r]) [cy - r .. cy + r])"

definition sample_bar :: "nat \<Rightarrow> u8 list \<Rightarrow> u8 list" where
  "sample_bar f = fold (set_pixel ((int f * 5) mod S_W)) [0 .. S_H - 1]"

definition sample_border :: "u8 list \<Rightarrow> u8 list" where
  "sample_border fb =
     fold (\<lambda>y fb. set_pixel (S_W - 1) y (set_pixel 0 y fb)) [0 .. S_H - 1]
       (fold (\<lambda>x fb. set_pixel x (S_H - 1) (set_pixel x 0 fb)) [0 .. S_W - 1] fb)"

definition sample_frame :: "nat \<Rightarrow> u8 list" where
  "sample_frame f = sample_border (sample_bar f (sample_circle f (replicate 512 0)))"

definition sample_main :: "u8 list" where
  "sample_main = bada_header (word_of_int S_W) (word_of_int S_H) S_FPS (word_of_nat S_FRAMES) @
     concat (map sample_frame [0..<S_FRAMES])"

section \<open>Setting bits\<close>

lemma fb_set_length [simp]: "length (fb_set w y x fb) = length fb"
  by (simp add: fb_set_def)

lemma fb_set_bit:
  "c < length fb \<Longrightarrow> bit (fb_set w y x fb ! c) r \<longleftrightarrow>
     bit (fb ! c) r \<or> (c = (y div 8) * w + x \<and> r = y mod 8)"
  by (cases "c = (y div 8) * w + x") (auto simp: fb_set_def bit_simps)

text \<open>A loop that sets some bits: the bits that were set, and those of the pixels it visits.\<close>

lemma fold_set_bit:
  assumes "\<And>p fb. length (f p fb) = length fb"
    and "\<And>p fb. c < length fb \<Longrightarrow> bit (f p fb ! c) r \<longleftrightarrow> bit (fb ! c) r \<or> Q p"
  shows "length (fold f ps fb) = length fb"
    and "c < length fb \<Longrightarrow> bit (fold f ps fb ! c) r \<longleftrightarrow> bit (fb ! c) r \<or> (\<exists>p \<in> set ps. Q p)"
proof -
  show "length (fold f ps fb) = length fb"
    by (induction ps arbitrary: fb) (simp_all add: assms(1))
  show "c < length fb \<Longrightarrow> bit (fold f ps fb ! c) r \<longleftrightarrow> bit (fb ! c) r \<or> (\<exists>p \<in> set ps. Q p)"
    by (induction ps arbitrary: fb) (auto simp: assms)
qed

text \<open>Cells of a row-major table of \<open>w\<close> columns are distinct.\<close>

lemma cell_eq: "x < w \<Longrightarrow> x' < w \<Longrightarrow> p * w + x = p' * w + x' \<longleftrightarrow> p = p' \<and> x = (x' :: nat)"
  by (metis add.commute div_mult_self1 div_less mod_mult_self1 mod_less add_0 not_less_zero)

lemma pack_frame_length: "length (pack_frame w h thr gray) = w * h div 8"
proof -
  have 1: "length (fold (pack_pixel w thr gray y) xs fb) = length fb" for y xs fb
    by (induction xs arbitrary: fb) (simp_all add: pack_pixel_def)
  have "length (fold (\<lambda>y. fold (pack_pixel w thr gray y) [0..<w]) ys fb) = length fb" for ys fb
    by (induction ys arbitrary: fb) (simp_all add: 1)
  then show ?thesis by (simp add: pack_frame_def)
qed

lemma pack_frame_bit:
  assumes "p * 8 + 7 < h" and "8 dvd h" and x: "x < w" and r: "r < 8"
  shows "bit (pack_frame w h thr gray ! (p * w + x)) r \<longleftrightarrow> thr \<le> uint (gray ! ((p * 8 + r) * w + x))"
proof -
  let ?c = "p * w + x"
  let ?Q = "\<lambda>y x'. thr \<le> uint (gray ! (y * w + x')) \<and> ?c = (y div 8) * w + x' \<and> r = y mod 8"
  obtain k where k: "h = 8 * k" using assms(2) by blast
  have "p < k" using assms(1) k by simp
  then have c: "?c < w * h div 8"
  proof -
    have "(p + 1) * w \<le> k * w" using \<open>p < k\<close> by (intro mult_right_mono) simp_all
    then show ?thesis using x k by (simp add: algebra_simps)
  qed
  have 1: "length (pack_pixel w thr gray y x' fb) = length fb"
    "?c < length fb \<Longrightarrow> bit (pack_pixel w thr gray y x' fb ! ?c) r \<longleftrightarrow> bit (fb ! ?c) r \<or> ?Q y x'" for y x' fb
    by (auto simp: pack_pixel_def fb_set_bit)
  note 2 = fold_set_bit [of "pack_pixel w thr gray y" ?c r "?Q y" for y, OF 1]
  note 3 = fold_set_bit [of "\<lambda>y. fold (pack_pixel w thr gray y) [0..<w]" ?c r
    "\<lambda>y. \<exists>x' \<in> set [0..<w]. ?Q y x'", OF 2]
  have "bit (pack_frame w h thr gray ! ?c) r \<longleftrightarrow> (\<exists>y \<in> set [0..<h]. \<exists>x' \<in> set [0..<w]. ?Q y x')"
    using 3(2) [of "replicate (w * h div 8) 0" "[0..<h]"] c by (simp add: pack_frame_def)
  also have "\<dots> \<longleftrightarrow> thr \<le> uint (gray ! ((p * 8 + r) * w + x))"
  proof
    assume "\<exists>y \<in> set [0..<h]. \<exists>x' \<in> set [0..<w]. ?Q y x'"
    then obtain y x' where yx: "x' < w" "?Q y x'" by auto
    with x have "y div 8 = p" "x' = x" using cell_eq [of x w x' p "y div 8"] by auto
    with yx(2) have "y = p * 8 + r" using div_mult_mod_eq [of y 8] by simp
    with yx(2) \<open>x' = x\<close> show "thr \<le> uint (gray ! ((p * 8 + r) * w + x))" by simp
  next
    assume t: "thr \<le> uint (gray ! ((p * 8 + r) * w + x))"
    have "p * 8 + r < h" using assms(1) r by simp
    with t x r show "\<exists>y \<in> set [0..<h]. \<exists>x' \<in> set [0..<w]. ?Q y x'"
      by (intro bexI [of _ "p * 8 + r"] bexI [of _ x]) auto
  qed
  finally show ?thesis .
qed

section \<open>The packed stream\<close>

definition pack_io_ok :: "pack_io \<Rightarrow> bool" where
  "pack_io_ok io \<longleftrightarrow> io_malloc io \<and> io_header io \<and> (\<forall>n. io_frame io n) \<and> io_flush io \<and>
     io_seek io \<and> io_count io"

text \<open>The \<open>i\<close>-th block of \<open>n\<close> bytes of a stream.\<close>

definition block :: "nat \<Rightarrow> nat \<Rightarrow> 'a list \<Rightarrow> 'a list" where
  "block n i xs = take n (drop (i * n) xs)"

lemma block_Suc: "block n (Suc i) xs = block n i (drop n xs)"
  by (simp add: block_def add.commute)

lemma block_length: "(i + 1) * n \<le> length xs \<Longrightarrow> length (block n i xs) = n"
  by (simp add: block_def)

declare pack_loop.simps [simp del]

text \<open>Whole frames are packed in order; what is left over is the short frame the loop refuses.\<close>

lemma pack_loop_blocks:
  assumes px: "px = w * h" "0 < px" and io: "\<And>n. io_frame io n"
    and "count + length stdin div px \<le> 0xffffffff"
  shows "pack_loop io w h thr count out stdin =
    (if length stdin mod px \<noteq> 0 then Inl (Short_frame (length stdin mod px) px)
     else Inr (count + length stdin div px,
       out @ concat (map (\<lambda>i. pack_frame w h thr (block px i stdin)) [0..<length stdin div px])))"
  using assms(4)
proof (induction "length stdin div px" arbitrary: count out stdin)
  case 0
  then have "length stdin < px" using px(2) by (simp add: div_eq_0_iff)
  with px show ?case by (subst pack_loop.simps) (auto simp: Let_def min_def)
next
  case (Suc n)
  have le: "px \<le> length stdin"
    using Suc.hyps(2) px(2) by (metis div_less less_eq_Suc_le not_less_eq_eq not_le nat.distinct(1))
  have len: "length (drop px stdin) div px = n" "length (drop px stdin) mod px = length stdin mod px"
    using le px(2) Suc.hyps(2) by (simp_all add: le_div_geq le_mod_geq)
  have IH: "pack_loop io w h thr (count + 1) out' (drop px stdin) =
    (if length stdin mod px \<noteq> 0 then Inl (Short_frame (length stdin mod px) px)
     else Inr (count + 1 + n,
       out' @ concat (map (\<lambda>i. pack_frame w h thr (block px i (drop px stdin))) [0..<n])))" for out'
    using Suc.hyps(1) [OF len(1) [symmetric], of "count + 1" out'] Suc.prems Suc.hyps(2) [symmetric] len by simp
  have n: "length stdin div px = Suc n" using Suc.hyps(2) by simp
  have blocks: "map (\<lambda>i. pack_frame w h thr (block px i stdin)) [0..<Suc n] =
      pack_frame w h thr (take px stdin) # map (\<lambda>i. pack_frame w h thr (block px i (drop px stdin))) [0..<n]"
    by (subst map_upt_Suc) (simp add: block_def add.commute)
  have "pack_loop io w h thr count out stdin =
      pack_loop io w h thr (count + 1) (out @ pack_frame w h thr (take px stdin)) (drop px stdin)"
    using le px io Suc.prems n by (subst pack_loop.simps) (simp add: Let_def min_def)
  then show ?case unfolding IH n blocks by simp
qed

lemma bada_header_length: "length (bada_header w h fps n) = 16"
  by (simp add: bada_header_def put_u16_def put_u32_def)

lemma bada_header_patch:
  "take 12 (bada_header w h fps 0 @ out) @ put_u32 n @ drop 16 (bada_header w h fps 0 @ out) =
   bada_header w h fps n @ out"
  by (simp add: bada_header_def put_u16_def put_u32_def)

lemma pack_main_eq:
  assumes "0 < w" "0 < h" "8 dvd h" "0 < fps" "fps \<le> 65535" "0 \<le> thr" "thr \<le> 255"
    and "pack_io_ok io" and "length stdin div (nat w * nat h) \<le> 0xffffffff"
  shows "pack_main io [w, h, fps, thr] stdin =
    (let px = nat w * nat h; n = length stdin div px in
     if length stdin mod px \<noteq> 0 then Inl (Short_frame (length stdin mod px) px)
     else Inr (bada_header (word_of_int w) (word_of_int h) (word_of_int fps) (word_of_nat n) @
       concat (map (\<lambda>i. pack_frame (nat w) (nat h) thr (block px i stdin)) [0..<n])))"
proof -
  have px: "0 < nat w * nat h" using assms(1,2) by simp
  have "h mod 8 = 0" using assms(3) by auto
  then show ?thesis
    using assms px pack_loop_blocks [OF refl px, of io 0 stdin thr]
    by (simp add: pack_main_def Let_def pack_io_ok_def bada_header_patch del: append_assoc take_append drop_append)
qed

text \<open>
  pack, for every valid geometry when no write fails: an input of whole frames becomes the
  header (with the frame count patched in) and the frames packed in order; an input that ends
  inside a frame is refused with the length of the fragment, and nothing else is an error.
\<close>

theorem pack_main_correct:
  assumes "0 < w" "0 < h" "8 dvd h" "0 < fps" "fps \<le> 65535" "0 \<le> thr" "thr \<le> 255"
    and "pack_io_ok io" and "length stdin div (nat w * nat h) \<le> 0xffffffff"
  shows "pack_main io [w, h, fps, thr] stdin =
    (let px = nat w * nat h; n = length stdin div px in
     if length stdin mod px \<noteq> 0 then Inl (Short_frame (length stdin mod px) px)
     else Inr (bada_header (word_of_int w) (word_of_int h) (word_of_int fps) (word_of_nat n) @
       concat (map (\<lambda>i. pack_frame (nat w) (nat h) thr (block px i stdin)) [0..<n])))"
  by (rule pack_main_eq [OF assms])

theorem pack_main_correct_witness:
  "pack_main \<lparr>io_malloc = True, io_header = True, io_frame = \<lambda>_. True, io_flush = True, io_seek = True,
     io_count = True\<rparr> [1, 8, 20, 128] [255, 0, 0, 0, 0, 0, 0, 200, 9] = Inl (Short_frame 1 8)"
  by (subst pack_main_correct) (simp_all add: pack_io_ok_def)

text \<open>
  The packed frame is the thresholded image: bit \<open>r\<close> of the byte of page \<open>p\<close> and column \<open>x\<close> is
  set exactly if pixel \<open>(x, 8 p + r)\<close> is at least the threshold, and the frame has one byte per
  eight pixels.
\<close>

lemma pack_frame_layout:
  assumes "p * 8 + 7 < h" and "8 dvd h" and "x < w" and "r < 8"
  shows "length (pack_frame w h thr gray) = w * h div 8 \<and>
    (bit (pack_frame w h thr gray ! (p * w + x)) r \<longleftrightarrow> thr \<le> uint (gray ! ((p * 8 + r) * w + x)))"
  using assms by (simp add: pack_frame_length pack_frame_bit)

lemma pack_frame_layout_example:
  "bit (pack_frame 2 8 128 ([0, 0, 0, 0, 0, 0, 7, 200] @ replicate 8 0) ! 1) 3 \<and>
   length (pack_frame 2 8 128 ([0, 0, 0, 0, 0, 0, 7, 200] @ replicate 8 0)) = 2"
  using pack_frame_layout [of 0 8 1 2 3 128 "[0, 0, 0, 0, 0, 0, 7, 200] @ replicate 8 0"] by simp

end
