(* ===== verification/Delta.thy ===== *)
theory Delta
  imports Badapple
begin

text \<open>
  The delta codec of the live Bad Apple screen: the encoder
  \<open>nix-badge-bling-badapple-live/emit_delta.c\<close>, which re-encodes a blob as keyframes and packed
  byte changes in one flat list, the per-frame selection the emitted Nix expression makes, and
  the decoder it must invert (\<open>decodeOled\<close>, \<open>applyOverlay\<close> and \<open>decodeOledFrame\<close> of
  \<open>nix-badge/nix-badge/eval.zig\<close>). The emitted text is modelled by the values it prints.
  Counters that stay below the number of bytes read are natural numbers; packed integers are
  64-bit words in the encoder and \<open>int\<close> (i64) in the decoder.
\<close>

section \<open>Encoder\<close>

definition rd_u16 :: "u8 list \<Rightarrow> u32" where
  "rd_u16 p = ucast (p ! 0) OR push_bit 8 (ucast (p ! 1))"

definition rd_u32 :: "u8 list \<Rightarrow> u64" where
  "rd_u32 p = ucast (p ! 0) OR push_bit 8 (ucast (p ! 1)) OR
     push_bit 16 (ucast (p ! 2)) OR push_bit 24 (ucast (p ! 3))"

datatype delta_error = Bad_keyint | Short_header | Not_bada | Bad_header | Not_multiple_of_4 nat
  | Over_1024 nat | No_memory | Short_delta_frame nat nat | Trailing_bytes

text \<open>The emitter's output so far and its running statistics.\<close>

record emit =
  e_data :: "u64 list"
  e_starts :: "nat list"
  e_ns :: "nat list"
  e_cursor :: nat
  e_keyframes :: nat
  e_delta_frames :: nat
  e_delta_entries :: nat

definition key_int :: "u8 list \<Rightarrow> nat \<Rightarrow> u64" where
  "key_int fb i = ucast (ucast (fb ! (i * 4 + 0)) OR push_bit 8 (ucast (fb ! (i * 4 + 1))) OR
     push_bit 16 (ucast (fb ! (i * 4 + 2))) OR push_bit 24 (ucast (fb ! (i * 4 + 3))) :: u32)"

text \<open>The second pass over a delta frame: from byte \<open>i\<close> on, with the pending high entry.\<close>

fun delta_scan :: "nat \<Rightarrow> u64 option \<Rightarrow> (u8 \<times> u8) list \<Rightarrow> u64 list" where
  "delta_scan i hi [] = (case hi of None \<Rightarrow> [] | Some h \<Rightarrow> [h * 262144])"
| "delta_scan i hi ((b, p) # r) =
     (if b = p then delta_scan (i + 1) hi r
      else let e = word_of_nat i * 256 + ucast b in
        case hi of None \<Rightarrow> delta_scan (i + 1) (Some e) r
        | Some h \<Rightarrow> (h * 262144 + e) # delta_scan (i + 1) None r)"

definition delta_count :: "u8 list \<Rightarrow> u8 list \<Rightarrow> nat" where
  "delta_count fb prev = length (filter (\<lambda>(b, p). b \<noteq> p) (zip fb prev))"

definition emit_frame :: "nat \<Rightarrow> nat \<Rightarrow> u8 list \<Rightarrow> u8 list \<Rightarrow> emit \<Rightarrow> emit" where
  "emit_frame keyint f prev fb st =
     (let st = st\<lparr>e_starts := e_starts st @ [e_cursor st]\<rparr>; words = length fb div 4 in
      if f mod keyint = 0 then
        st\<lparr>e_keyframes := e_keyframes st + 1, e_ns := e_ns st @ [0],
           e_data := e_data st @ map (key_int fb) [0..<words], e_cursor := e_cursor st + words\<rparr>
      else
        (let count = delta_count fb prev in
         st\<lparr>e_delta_frames := e_delta_frames st + 1, e_delta_entries := e_delta_entries st + count,
            e_ns := e_ns st @ [count], e_data := e_data st @ delta_scan 0 None (zip fb prev),
            e_cursor := e_cursor st + (count + 1) div 2\<rparr>))"

fun emit_frames :: "nat \<Rightarrow> nat \<Rightarrow> nat \<Rightarrow> nat \<Rightarrow> u8 list \<Rightarrow> u8 list \<Rightarrow> emit \<Rightarrow> delta_error + (emit \<times> u8 list)"
where
  "emit_frames keyint fb_len f 0 prev stdin st = Inr (st, stdin)"
| "emit_frames keyint fb_len f (Suc k) prev stdin st =
     (let got = min fb_len (length stdin) in
      if got \<noteq> fb_len then Inl (Short_delta_frame f got)
      else let fb = take fb_len stdin in
        emit_frames keyint fb_len (f + 1) k fb (drop fb_len stdin) (emit_frame keyint f prev fb st))"

record delta_screen =
  d_data :: "u64 list"
  d_starts :: "nat list"
  d_ns :: "nat list"
  d_nframes :: nat
  d_keyint :: nat
  d_next_ms :: nat

text \<open>
  \<open>karg\<close> is the optional argument (\<open>Some None\<close>: \<open>strtoul\<close> did not consume it); \<open>junk\<close> is what
  \<open>malloc\<close> left in \<open>prev\<close>; \<open>mem\<close> whether the allocations succeed.
\<close>

definition emit_main :: "bool \<Rightarrow> u8 list \<Rightarrow> nat option option \<Rightarrow> u8 list \<Rightarrow> delta_error + delta_screen" where
  "emit_main mem junk karg stdin =
     (case (case karg of None \<Rightarrow> Some 60 | Some v \<Rightarrow> v) of
        None \<Rightarrow> Inl Bad_keyint
      | Some keyint \<Rightarrow>
        if keyint = 0 then Inl Bad_keyint
        else if length stdin < 16 then Inl Short_header
        else if take 4 stdin \<noteq> [0x42, 0x41, 0x44, 0x41] then Inl Not_bada
        else
          (let width = unat (rd_u16 (drop 4 stdin)); height = unat (rd_u16 (drop 6 stdin));
               fps = unat (rd_u16 (drop 8 stdin)); frames = unat (rd_u32 (drop 12 stdin)) in
           if width = 0 \<or> height = 0 \<or> height mod 8 \<noteq> 0 \<or> fps = 0 \<or> frames = 0 then Inl Bad_header
           else let fb_len = width * (height div 8) in
             if fb_len mod 4 \<noteq> 0 then Inl (Not_multiple_of_4 fb_len)
             else if fb_len > 1024 then Inl (Over_1024 fb_len)
             else if \<not> mem then Inl No_memory
             else let next_ms = (if 1000 div fps = 0 then 1 else 1000 div fps) in
               case emit_frames keyint fb_len 0 frames junk (drop 16 stdin)
                 \<lparr>e_data = [], e_starts = [], e_ns = [], e_cursor = 0, e_keyframes = 0,
                  e_delta_frames = 0, e_delta_entries = 0\<rparr> of
                 Inl e \<Rightarrow> Inl e
               | Inr (st, rest) \<Rightarrow>
                   if rest \<noteq> [] then Inl Trailing_bytes
                   else Inr \<lparr>d_data = e_data st, d_starts = e_starts st @ [e_cursor st],
                             d_ns = e_ns st, d_nframes = frames, d_keyint = keyint,
                             d_next_ms = next_ms\<rparr>))"

section \<open>The emitted expression\<close>

record nix_frame =
  bitmap :: "int list"
  delta :: bool
  n_entries :: nat

definition elemAt :: "'a list \<Rightarrow> nat \<Rightarrow> 'a option" where
  "elemAt xs i = (if i < length xs then Some (xs ! i) else None)"

text \<open>The attribute set for \<open>scope.frameIndex = idx\<close>; an index out of range is an evaluation error.\<close>

definition nix_screen :: "delta_screen \<Rightarrow> nat \<Rightarrow> nix_frame option" where
  "nix_screen ds idx =
     (let i = idx mod d_nframes ds; isKey = (i mod d_keyint ds = 0) in
      case (elemAt (d_starts ds) i, elemAt (d_starts ds) (i + 1), elemAt (d_ns ds) i) of
        (Some start, Some stop, Some n) \<Rightarrow>
          (if start + (stop - start) \<le> length (d_data ds) \<and> start \<le> stop
           then Some \<lparr>bitmap = map (\<lambda>j. uint (d_data ds ! (start + j))) [0..<stop - start],
                      delta = (\<not> isKey), n_entries = n\<rparr>
           else None)
      | _ \<Rightarrow> None)"

section \<open>Decoder\<close>

record dirty =
  full :: bool
  changed :: "128 word list"

definition key_bytes :: "int \<Rightarrow> u8 list" where
  "key_bytes v = [word_of_int (v AND 0xff), word_of_int (drop_bit 8 v AND 0xff),
     word_of_int (drop_bit 16 v AND 0xff), word_of_int (drop_bit 24 v AND 0xff)]"

definition decodeOled :: "int list \<Rightarrow> u8 list \<Rightarrow> dirty \<times> u8 list" where
  "decodeOled bm out =
     (let words = length out div 4; n = min (length bm) words in
      (\<lparr>full = True, changed = replicate 8 0\<rparr>,
       concat (map key_bytes (take n bm)) @ replicate (length out - n * 4) 0))"

definition overlay_entry :: "int list \<Rightarrow> nat \<Rightarrow> int" where
  "overlay_entry packed i =
     (let v = packed ! (i div 2) in (if even i then drop_bit 18 v else v) AND 0x3ffff)"

definition mark :: "nat \<Rightarrow> nat \<Rightarrow> dirty \<Rightarrow> dirty" where
  "mark width offset d =
     (let page = offset div width; col = offset mod width in
      if page < 8 \<and> col < 128
      then d\<lparr>changed := (changed d)[page := changed d ! page OR push_bit col 1]\<rparr> else d)"

function overlay_loop :: "nat \<Rightarrow> nat \<Rightarrow> int list \<Rightarrow> nat \<Rightarrow> u8 list \<times> dirty \<Rightarrow> u8 list \<times> dirty" where
  "overlay_loop i n packed width (out, d) =
     (if i < n \<and> i div 2 < length packed then
        let e = overlay_entry packed i; offset = nat (drop_bit 8 e) in
        if offset \<ge> length out then overlay_loop (i + 1) n packed width (out, d)
        else overlay_loop (i + 1) n packed width
               (out[offset := word_of_int (e AND 0xff)], mark width offset d)
      else (out, d))"
  by pat_completeness auto
termination
  by (relation "measure (\<lambda>(i, n, _). n - i)") auto

definition applyOverlay :: "int list \<Rightarrow> nat \<Rightarrow> nat \<Rightarrow> u8 list \<times> dirty \<Rightarrow> u8 list \<times> dirty" where
  "applyOverlay packed n width od = (if width = 0 then od else overlay_loop 0 n packed width od)"

definition decodeOledFrame :: "nix_frame \<Rightarrow> nat \<Rightarrow> u8 list \<Rightarrow> dirty \<times> u8 list" where
  "decodeOledFrame fr width out =
     (if \<not> delta fr then decodeOled (bitmap fr) out
      else let (out, d) = applyOverlay (bitmap fr) (n_entries fr) width
                            (out, \<lparr>full = False, changed = replicate 8 0\<rparr>) in (d, out))"

text \<open>Playback: \<open>frameIndex\<close> counts up from 0, the framebuffer persists.\<close>

fun play :: "delta_screen \<Rightarrow> nat \<Rightarrow> nat \<Rightarrow> u8 list \<Rightarrow> u8 list option" where
  "play ds width 0 out = Some out"
| "play ds width (Suc k) out =
     (case play ds width k out of
        None \<Rightarrow> None
      | Some out \<Rightarrow> (case nix_screen ds k of
          None \<Rightarrow> None
        | Some fr \<Rightarrow> Some (snd (decodeOledFrame fr width out))))"

declare overlay_loop.simps [simp del]

section \<open>What the encoder emits\<close>

definition frame_ints :: "nat \<Rightarrow> nat \<Rightarrow> u8 list \<Rightarrow> u8 list \<Rightarrow> u64 list" where
  "frame_ints keyint f prev fb =
     (if f mod keyint = 0 then map (key_int fb) [0..<length fb div 4] else delta_scan 0 None (zip fb prev))"

fun chunks :: "nat \<Rightarrow> nat \<Rightarrow> u8 list \<Rightarrow> u8 list list \<Rightarrow> u64 list list" where
  "chunks keyint f prev [] = []"
| "chunks keyint f prev (fb # fs) = frame_ints keyint f prev fb # chunks keyint (f + 1) fb fs"

fun chunk_ns :: "nat \<Rightarrow> nat \<Rightarrow> u8 list \<Rightarrow> u8 list list \<Rightarrow> nat list" where
  "chunk_ns keyint f prev [] = []"
| "chunk_ns keyint f prev (fb # fs) =
     (if f mod keyint = 0 then 0 else delta_count fb prev) # chunk_ns keyint (f + 1) fb fs"

lemma delta_scan_length:
  "length (delta_scan i hi ps) =
     (length (filter (\<lambda>(b, p). b \<noteq> p) ps) + (case hi of None \<Rightarrow> 0 | Some h \<Rightarrow> 1) + 1) div 2"
  by (induction i hi ps rule: delta_scan.induct) (auto simp: Let_def split: option.splits)

lemma frame_ints_length:
  "length (frame_ints keyint f prev fb) =
     (if f mod keyint = 0 then length fb div 4 else (delta_count fb prev + 1) div 2)"
  by (simp add: frame_ints_def delta_scan_length delta_count_def)

lemma emit_frame_eq:
  "e_data (emit_frame keyint f prev fb st) = e_data st @ frame_ints keyint f prev fb"
  "e_starts (emit_frame keyint f prev fb st) = e_starts st @ [e_cursor st]"
  "e_ns (emit_frame keyint f prev fb st) =
     e_ns st @ [if f mod keyint = 0 then 0 else delta_count fb prev]"
  "e_cursor (emit_frame keyint f prev fb st) = e_cursor st + length (frame_ints keyint f prev fb)"
  by (simp_all add: emit_frame_def frame_ints_length Let_def) (simp_all add: frame_ints_def)

lemma chunks_length [simp]: "length (chunks keyint f prev fs) = length fs"
  "length (chunk_ns keyint f prev fs) = length fs"
  by (induction fs arbitrary: f prev) simp_all

lemma chunks_nth:
  "i < length fs \<Longrightarrow> chunks keyint f prev fs ! i = frame_ints keyint (f + i) ((prev # fs) ! i) (fs ! i)"
  "i < length fs \<Longrightarrow> chunk_ns keyint f prev fs ! i =
     (if (f + i) mod keyint = 0 then 0 else delta_count (fs ! i) ((prev # fs) ! i))"
  by (induction fs arbitrary: f prev i) (simp_all add: nth_Cons split: nat.splits)

lemma emit_frames_eq:
  assumes "\<And>fb. fb \<in> set fs \<Longrightarrow> length fb = fb_len"
  shows "\<exists>st'. emit_frames keyint fb_len f (length fs) prev (concat fs @ rest) st = Inr (st', rest) \<and>
    e_data st' = e_data st @ concat (chunks keyint f prev fs) \<and>
    e_starts st' = e_starts st @
      map (\<lambda>i. e_cursor st + length (concat (take i (chunks keyint f prev fs)))) [0..<length fs] \<and>
    e_ns st' = e_ns st @ chunk_ns keyint f prev fs \<and>
    e_cursor st' = e_cursor st + length (concat (chunks keyint f prev fs))"
  using assms
proof (induction fs arbitrary: f prev st)
  case (Cons fb fs)
  have len: "length fb = fb_len" using Cons.prems by simp
  let ?st = "emit_frame keyint f prev fb st"
  obtain st' where st': "emit_frames keyint fb_len (f + 1) (length fs) fb (concat fs @ rest) ?st = Inr (st', rest)"
      "e_data st' = e_data ?st @ concat (chunks keyint (f + 1) fb fs)"
      "e_starts st' = e_starts ?st @
        map (\<lambda>i. e_cursor ?st + length (concat (take i (chunks keyint (f + 1) fb fs)))) [0..<length fs]"
      "e_ns st' = e_ns ?st @ chunk_ns keyint (f + 1) fb fs"
      "e_cursor st' = e_cursor ?st + length (concat (chunks keyint (f + 1) fb fs))"
    using Cons by (metis list.set_intros(2))
  have "map g [0..<length (fb # fs)] = g 0 # map (\<lambda>i. g (Suc i)) [0..<length fs]" for g :: "nat \<Rightarrow> nat"
    by (simp add: map_upt_Suc del: upt_Suc)
  with st' len show ?case
    by (intro exI [of _ st']) (simp add: emit_frame_eq Let_def ac_simps del: upt_Suc)
qed simp

section \<open>Keyframes\<close>

lemma key_int_bytes:
  "key_bytes (uint (key_int fb i)) = [fb ! (i * 4), fb ! (i * 4 + 1), fb ! (i * 4 + 2), fb ! (i * 4 + 3)]"
proof -
  define w :: u32 where "w = ucast (fb ! (i * 4)) OR push_bit 8 (ucast (fb ! (i * 4 + 1))) OR
     push_bit 16 (ucast (fb ! (i * 4 + 2))) OR push_bit 24 (ucast (fb ! (i * 4 + 3)))"
  have "uint (key_int fb i) = uint w"
    by (simp add: key_int_def w_def uint_ucast_up)
  moreover note u32_bytes [of "fb ! (i * 4)" "fb ! (i * 4 + 1)" "fb ! (i * 4 + 2)" "fb ! (i * 4 + 3)",
    folded w_def]
  ultimately show ?thesis
    using byte_of_uint [of 0 w] by (simp add: key_bytes_def byte_of_uint)
qed

lemma concat_quads:
  "concat (map (\<lambda>i. [xs ! (i * 4), xs ! (i * 4 + 1), xs ! (i * 4 + 2), xs ! (i * 4 + 3)]) [0..<k]) =
   take (k * 4) xs" if "k * 4 \<le> length xs"
  using that
proof (induction k)
  case (Suc k)
  have "take (Suc k * 4) xs = take (k * 4) xs @ take 4 (drop (k * 4) xs)"
    by (metis mult_Suc add.commute take_add)
  moreover have "take 4 (drop (k * 4) xs) = [xs ! (k * 4), xs ! (k * 4 + 1), xs ! (k * 4 + 2), xs ! (k * 4 + 3)]"
    using Suc.prems by (intro nth_equalityI) (auto simp: less_Suc_eq numeral_eq_Suc)
  ultimately show ?case using Suc by simp
qed simp

lemma decode_key:
  assumes "length out = length fb" and "4 dvd length fb"
  shows "decodeOled (map uint (map (key_int fb) [0..<length fb div 4])) out =
    (\<lparr>full = True, changed = replicate 8 0\<rparr>, fb)"
proof -
  have l: "length fb div 4 * 4 = length fb" using assms(2) by simp
  let ?q = "\<lambda>i. [fb ! (i * 4), fb ! (i * 4 + 1), fb ! (i * 4 + 2), fb ! (i * 4 + 3)]"
  have "map key_bytes (map uint (map (key_int fb) [0..<length fb div 4])) = map ?q [0..<length fb div 4]"
    unfolding map_map o_def key_int_bytes ..
  then have "concat (map key_bytes (map uint (map (key_int fb) [0..<length fb div 4]))) =
      concat (map ?q [0..<length fb div 4])" by (rule arg_cong)
  also have "\<dots> = fb" using concat_quads [of "length fb div 4" fb] l by simp
  finally have "concat (map key_bytes (map uint (map (key_int fb) [0..<length fb div 4]))) = fb" .
  then show ?thesis using l assms(1) by (simp add: decodeOled_def Let_def del: map_map)
qed

section \<open>Deltas\<close>

text \<open>The change entries of a frame, and their packing two by two.\<close>

fun entries :: "nat \<Rightarrow> (u8 \<times> u8) list \<Rightarrow> u64 list" where
  "entries i [] = []"
| "entries i ((b, p) # r) =
     (if b = p then entries (i + 1) r else (word_of_nat i * 256 + ucast b) # entries (i + 1) r)"

fun pair_up :: "u64 list \<Rightarrow> u64 list" where
  "pair_up [] = []"
| "pair_up [e] = [e * 262144]"
| "pair_up (e0 # e1 # es) = (e0 * 262144 + e1) # pair_up es"

lemma delta_scan_pairs:
  "delta_scan i hi ps = pair_up ((case hi of None \<Rightarrow> [] | Some h \<Rightarrow> [h]) @ entries i ps)"
  by (induction i hi ps rule: delta_scan.induct) (auto simp: Let_def split: option.splits)

lemma entries_length: "length (entries i ps) = length (filter (\<lambda>(b, p). b \<noteq> p) ps)"
  by (induction i ps rule: entries.induct) auto

lemma entry_unat:
  assumes "i < 1024"
  shows "unat (word_of_nat i * 256 + ucast (b :: u8) :: u64) = i * 256 + unat b"
proof -
  have b: "unat b < 256" by (rule u8_unat_less)
  have "unat (word_of_nat i :: u64) = i" using assms by (intro unat_word_of_nat) simp
  moreover have "unat (ucast b :: u64) = unat b" by (rule unat_ucast_up) simp
  ultimately show ?thesis using assms b by (simp add: unat_word_ariths)
qed

lemma entries_bound:
  "e \<in> set (entries i ps) \<Longrightarrow> i + length ps \<le> 1024 \<Longrightarrow> unat e < 262144"
proof (induction i ps rule: entries.induct)
  case (2 i b p r)
  have "unat b < 256" by (rule u8_unat_less)
  moreover have "i < 1024" using 2 by simp
  ultimately have "unat (word_of_nat i * 256 + ucast b :: u64) < 262144"
    using entry_unat [of i b] by simp
  with 2 show ?case by (auto split: if_splits)
qed simp

lemma pair_up_length: "length (pair_up es) = (length es + 1) div 2"
  by (induction es rule: pair_up.induct) auto

lemma pair_uint:
  assumes "unat e0 < 262144" and "unat e1 < 262144"
  shows "uint (e0 * 262144 + e1 :: u64) = uint e0 * 262144 + uint e1"
proof -
  have "uint e0 < 262144" "uint e1 < 262144" using assms [THEN uint_less_of_unat] by simp_all
  then show ?thesis by (simp add: uint_word_ariths(1,3) mod_pos_pos_trivial)
qed

lemma and_3ffff: "(x :: int) AND 0x3ffff = x mod 262144"
  using take_bit_eq_mask [of 18 x] by (simp add: mask_eq_exp_minus_1 take_bit_eq_mod)

lemma and_ff: "(x :: int) AND 0xff = x mod 256"
  using take_bit_eq_mask [of 8 x] by (simp add: mask_eq_exp_minus_1 take_bit_eq_mod)

lemma overlay_entry_pair:
  assumes "\<And>e. e \<in> set es \<Longrightarrow> unat e < 262144" and "j < length es"
  shows "overlay_entry (map uint (pair_up es)) j = uint (es ! j)"
  using assms
proof (induction es arbitrary: j rule: pair_up.induct)
  case (2 e)
  have e: "unat e < 262144" using "2.prems"(1) by simp
  have "uint (e * 262144) = uint e * 262144" using pair_uint [OF e, of 0] by simp
  moreover have "uint e < 262144" using uint_less_of_unat [OF e] by simp
  ultimately show ?case using 2 by (simp add: overlay_entry_def and_3ffff drop_bit_eq_div)
next
  case (3 e0 e1 es)
  have e: "unat e0 < 262144" "unat e1 < 262144" using "3.prems"(1) by simp_all
  have u: "uint e0 < 262144" "uint e1 < 262144" using uint_less_of_unat [OF e(1)] uint_less_of_unat [OF e(2)] by simp_all
  consider "j = 0" | "j = 1" | k where "j = k + 2" by (metis add_2_eq_Suc' not0_implies_Suc One_nat_def)
  then show ?case
  proof cases
    case (3 k)
    then show ?thesis
      using "3.IH" [of k] "3.prems" by (simp add: overlay_entry_def)
  qed (use e u in \<open>simp_all add: overlay_entry_def pair_uint and_3ffff drop_bit_eq_div\<close>)
qed simp

text \<open>The effect of one entry, and the loop as a fold over the entries.\<close>

definition entry_step :: "nat \<Rightarrow> u64 \<Rightarrow> u8 list \<times> dirty \<Rightarrow> u8 list \<times> dirty" where
  "entry_step w e = (\<lambda>(out, d). let offset = unat e div 256 in
     if offset \<ge> length out then (out, d)
     else (out[offset := word_of_nat (unat e mod 256)], mark w offset d))"

lemma overlay_loop_fold:
  assumes "\<And>e. e \<in> set es \<Longrightarrow> unat e < 262144" and "i \<le> length es"
  shows "overlay_loop i (length es) (map uint (pair_up es)) w (out, d) =
    fold (entry_step w) (drop i es) (out, d)"
  using assms(2)
proof (induction "length es - i" arbitrary: i out d)
  case 0
  then show ?case by (subst overlay_loop.simps) simp
next
  case (Suc k)
  then have i: "i < length es" by simp
  let ?e = "es ! i"
  have e: "overlay_entry (map uint (pair_up es)) i = uint ?e"
    using overlay_entry_pair [OF assms(1) i] .
  have "nat (drop_bit 8 (uint ?e)) = unat ?e div 256"
    unfolding drop_bit_eq_div unat_eq_nat_uint by (subst nat_div_distrib) simp_all
  moreover have "word_of_int (uint ?e AND 0xff) = (word_of_nat (unat ?e mod 256) :: u8)"
  proof -
    have "uint ?e AND 0xff = int (unat ?e mod 256)" unfolding and_ff uint_nat zmod_int by simp
    then show ?thesis by (simp only: of_int_of_nat_eq)
  qed
  moreover have "i div 2 < length (pair_up es)" using i by (simp add: pair_up_length)
  moreover have "drop i es = ?e # drop (Suc i) es" using i by (rule Cons_nth_drop_Suc [symmetric])
  ultimately show ?case
    using Suc.hyps(1) [of "Suc i"] Suc.hyps(2) i
    by (subst overlay_loop.simps) (simp add: e entry_step_def Let_def)
qed

fun offsets :: "nat \<Rightarrow> (u8 \<times> u8) list \<Rightarrow> nat list" where
  "offsets i [] = []"
| "offsets i ((b, p) # r) = (if b = p then offsets (i + 1) r else i # offsets (i + 1) r)"

lemma fold_entries:
  assumes "length pre = i" and "i + length ps \<le> 1024"
  shows "fold (entry_step w) (entries i ps) (pre @ map snd ps, d) =
    (pre @ map fst ps, fold (mark w) (offsets i ps) d)"
  using assms
proof (induction i ps arbitrary: pre d rule: entries.induct)
  case (2 i b p r)
  have "unat (word_of_nat i * 256 + ucast b :: u64) = i * 256 + unat b"
    using 2 by (intro entry_unat) simp
  then have "entry_step w (word_of_nat i * 256 + ucast b) (pre @ p # map snd r, d) =
      (pre @ b # map snd r, mark w i d)"
    using 2 u8_unat_less [of b] by (simp add: entry_step_def Let_def list_update_append)
  with 2 "2.IH"(1) [of "pre @ [p]"] "2.IH"(2) [of "pre @ [b]"] show ?case by simp
qed simp

lemma decode_delta:
  assumes "length prev = length fb" and "length fb \<le> 1024" and "0 < w"
  shows "applyOverlay (map uint (delta_scan 0 None (zip fb prev))) (delta_count fb prev) w (prev, d) =
    (fb, fold (mark w) (offsets 0 (zip fb prev)) d)"
proof -
  let ?es = "entries 0 (zip fb prev)"
  have "delta_count fb prev = length ?es" by (simp add: delta_count_def entries_length)
  moreover have "\<And>e. e \<in> set ?es \<Longrightarrow> unat e < 262144"
    using assms by (auto intro: entries_bound)
  moreover have "fold (entry_step w) ?es (prev, d) = (fb, fold (mark w) (offsets 0 (zip fb prev)) d)"
    using fold_entries [of "[]" 0 "zip fb prev" w d] assms by simp
  ultimately show ?thesis
    using overlay_loop_fold [of ?es 0 w prev d] assms(3)
    by (simp add: applyOverlay_def delta_scan_pairs)
qed

section \<open>Playback\<close>

lemma rd_put_u16: "rd_u16 (put_u16 v @ r) = v AND 0xffff"
proof (rule bit_word_eqI)
  fix n assume "n < LENGTH(32)"
  have m: "(0xff :: u32) = mask 8" "(0xffff :: u32) = mask 16" by (simp_all add: mask_eq_exp_minus_1)
  consider "n < 8" | "8 \<le> n" "n < 16" | "16 \<le> n" by linarith
  then show "bit (rd_u16 (put_u16 v @ r)) n = bit (v AND 0xffff) n"
    unfolding rd_u16_def put_u16_def m by cases (auto simp: bit_simps)
qed

lemma rd_put_u32: "rd_u32 (put_u32 v @ r) = v AND 0xffffffff"
proof (rule bit_word_eqI)
  fix n assume "n < LENGTH(64)"
  have m: "(0xff :: u64) = mask 8" "(0xffffffff :: u64) = mask 32" by (simp_all add: mask_eq_exp_minus_1)
  consider "n < 8" | "8 \<le> n" "n < 16" | "16 \<le> n" "n < 24" | "24 \<le> n" "n < 32" | "32 \<le> n" by linarith
  then show "bit (rd_u32 (put_u32 v @ r)) n = bit (v AND 0xffffffff) n"
    unfolding rd_u32_def put_u32_def m by cases (auto simp: bit_simps)
qed

lemma unat_and_ffff: "unat (v AND 0xffff :: u32) = unat v mod 65536"
  and unat_and_ffffffff: "unat (x AND 0xffffffff :: u64) = unat x mod 4294967296"
proof -
  have m: "(0xffff :: u32) = mask 16" "(0xffffffff :: u64) = mask 32" by (simp_all add: mask_eq_exp_minus_1)
  show "unat (v AND 0xffff :: u32) = unat v mod 65536" "unat (x AND 0xffffffff :: u64) = unat x mod 4294967296"
    unfolding m take_bit_eq_mask [symmetric] unsigned_take_bit_eq by (simp_all add: take_bit_eq_mod)
qed

text \<open>What the encoder reads back from a header.\<close>

lemma header_fields:
  "take 4 (bada_header w h fps n @ r) = [0x42, 0x41, 0x44, 0x41]"
  "unat (rd_u16 (drop 4 (bada_header w h fps n @ r))) = unat w mod 65536"
  "unat (rd_u16 (drop 6 (bada_header w h fps n @ r))) = unat h mod 65536"
  "unat (rd_u16 (drop 8 (bada_header w h fps n @ r))) = unat fps mod 65536"
  "unat (rd_u32 (drop 12 (bada_header w h fps n @ r))) = unat n mod 4294967296"
  "drop 16 (bada_header w h fps n @ r) = r"
proof -
  have d: "drop 4 (bada_header w h fps n @ r) = put_u16 w @ put_u16 h @ put_u16 fps @ put_u16 0 @ put_u32 n @ r"
    "drop 6 (bada_header w h fps n @ r) = put_u16 h @ put_u16 fps @ put_u16 0 @ put_u32 n @ r"
    "drop 8 (bada_header w h fps n @ r) = put_u16 fps @ put_u16 0 @ put_u32 n @ r"
    "drop 12 (bada_header w h fps n @ r) = put_u32 n @ r"
    by (simp_all add: bada_header_def put_u16_def)
  show "take 4 (bada_header w h fps n @ r) = [0x42, 0x41, 0x44, 0x41]"
    "drop 16 (bada_header w h fps n @ r) = r"
    by (simp_all add: bada_header_def put_u16_def put_u32_def)
  show "unat (rd_u16 (drop 4 (bada_header w h fps n @ r))) = unat w mod 65536"
    "unat (rd_u16 (drop 6 (bada_header w h fps n @ r))) = unat h mod 65536"
    "unat (rd_u16 (drop 8 (bada_header w h fps n @ r))) = unat fps mod 65536"
    "unat (rd_u32 (drop 12 (bada_header w h fps n @ r))) = unat n mod 4294967296"
    unfolding d rd_put_u16 rd_put_u32 unat_and_ffff unat_and_ffffffff by simp_all
qed

text \<open>The geometry and frame count an encoder input may have.\<close>

definition blob_ok :: "nat \<Rightarrow> nat \<Rightarrow> nat \<Rightarrow> u8 list list \<Rightarrow> bool" where
  "blob_ok w h fps fs \<longleftrightarrow> 0 < w \<and> w < 65536 \<and> 0 < h \<and> h < 65536 \<and> h mod 8 = 0 \<and> 0 < fps \<and> fps < 65536 \<and>
     w * (h div 8) mod 4 = 0 \<and> w * (h div 8) \<le> 1024 \<and> fs \<noteq> [] \<and> length fs < 4294967296 \<and>
     (\<forall>fb \<in> set fs. length fb = w * (h div 8))"

definition blob :: "nat \<Rightarrow> nat \<Rightarrow> nat \<Rightarrow> u8 list list \<Rightarrow> u8 list" where
  "blob w h fps fs = bada_header (word_of_nat w) (word_of_nat h) (word_of_nat fps)
     (word_of_nat (length fs)) @ concat fs"

lemma emit_blob:
  assumes ok: "blob_ok w h fps fs" and k: "0 < keyint"
  shows "emit_main True junk (Some (Some keyint)) (blob w h fps fs) =
    Inr \<lparr>d_data = concat (chunks keyint 0 junk fs),
      d_starts = map (\<lambda>i. length (concat (take i (chunks keyint 0 junk fs)))) [0..<length fs + 1],
      d_ns = chunk_ns keyint 0 junk fs, d_nframes = length fs, d_keyint = keyint,
      d_next_ms = (if 1000 div fps = 0 then 1 else 1000 div fps)\<rparr>"
proof -
  let ?fl = "w * (h div 8)" and ?cs = "chunks keyint 0 junk fs"
  let ?st = "\<lparr>e_data = [], e_starts = [], e_ns = [], e_cursor = 0, e_keyframes = 0,
                  e_delta_frames = 0, e_delta_entries = 0\<rparr>"
  let ?b = "bada_header (word_of_nat w) (word_of_nat h) (word_of_nat fps) (word_of_nat (length fs)) @ concat fs"
  have u: "unat (word_of_nat w :: u32) mod 65536 = w" "unat (word_of_nat h :: u32) mod 65536 = h"
    "unat (word_of_nat fps :: u32) mod 65536 = fps"
    "unat (word_of_nat (length fs) :: u64) mod 4294967296 = length fs"
    using ok by (simp_all add: blob_ok_def unat_word_of_nat)
  obtain st' where st': "emit_frames keyint ?fl 0 (length fs) junk (concat fs) ?st = Inr (st', [])"
      "e_data st' = concat ?cs" "e_starts st' = map (\<lambda>i. length (concat (take i ?cs))) [0..<length fs]"
      "e_ns st' = chunk_ns keyint 0 junk fs" "e_cursor st' = length (concat ?cs)"
    using emit_frames_eq [of fs ?fl keyint 0 junk "[]" ?st] ok by (auto simp: blob_ok_def)
  have "emit_main True junk (Some (Some keyint)) ?b =
      Inr \<lparr>d_data = e_data st', d_starts = e_starts st' @ [e_cursor st'], d_ns = e_ns st',
        d_nframes = length fs, d_keyint = keyint,
        d_next_ms = (if 1000 div fps = 0 then 1 else 1000 div fps)\<rparr>"
    using ok k st'(1) unfolding emit_main_def header_fields u blob_ok_def
    by (simp add: Let_def bada_header_length header_fields(6))
  then show ?thesis by (simp add: blob_def st')
qed

lemma concat_slice:
  assumes "i < length cs"
  shows "take (length (cs ! i)) (drop (length (concat (take i cs))) (concat cs)) = cs ! i"
proof -
  have "concat cs = concat (take i cs) @ cs ! i @ concat (drop (Suc i) cs)"
    by (metis assms concat.simps(2) concat_append id_take_nth_drop)
  then show ?thesis by simp
qed

lemma map_nth_slice:
  "m + n \<le> length xs \<Longrightarrow> map (\<lambda>j. f (xs ! (m + j))) [0..<n] = map f (take n (drop m xs))"
  by (intro nth_equalityI) simp_all

text \<open>The attribute set for an index is the chunk of its frame.\<close>

lemma nix_screen_chunk:
  assumes ne: "0 < length cs" and ns: "length ns = length cs"
    and ds: "ds = \<lparr>d_data = concat cs, d_starts = map (\<lambda>i. length (concat (take i cs))) [0..<length cs + 1],
      d_ns = ns, d_nframes = length cs, d_keyint = keyint, d_next_ms = ms\<rparr>"
  shows "nix_screen ds k = (let i = k mod length cs in
    Some \<lparr>bitmap = map uint (cs ! i), delta = (i mod keyint \<noteq> 0), n_entries = ns ! i\<rparr>)"
proof -
  define i where "i = k mod length cs"
  have i: "i < length cs" using ne by (simp add: i_def)
  let ?start = "length (concat (take i cs))"
  have stop: "length (concat (take (Suc i) cs)) = ?start + length (cs ! i)"
    using i by (simp add: take_Suc_conv_app_nth)
  have le: "?start + length (cs ! i) \<le> length (concat cs)"
    using stop by (metis append_take_drop_id concat_append le_add1 length_append)
  have at: "elemAt (d_starts ds) i = Some ?start" "elemAt (d_starts ds) (i + 1) = Some (?start + length (cs ! i))"
      "elemAt (d_ns ds) i = Some (ns ! i)"
    using i ns stop by (simp_all add: elemAt_def ds del: upt_Suc)
  have "map (\<lambda>j. uint (concat cs ! (?start + j))) [0..<length (cs ! i)] = map uint (cs ! i)"
    using map_nth_slice [OF le, of uint] concat_slice [OF i] by simp
  moreover have "d_nframes ds = length cs" "d_keyint ds = keyint" "d_data ds = concat cs"
    by (simp_all add: ds)
  ultimately show ?thesis
    using at le unfolding nix_screen_def i_def [symmetric] by (simp add: Let_def flip: i_def)
qed

lemma decode_chunk:
  assumes "length fb \<le> 1024" "4 dvd length fb" "length prev = length fb" "0 < w"
  shows "snd (decodeOledFrame \<lparr>bitmap = map uint (frame_ints keyint f prev fb),
      delta = (f mod keyint \<noteq> 0), n_entries = (if f mod keyint = 0 then 0 else delta_count fb prev)\<rparr> w prev) = fb"
  using assms decode_key [of prev fb] decode_delta [of prev fb w]
  by (simp add: decodeOledFrame_def frame_ints_def)

lemma decode_keyframe:
  assumes "4 dvd length fb" "length out = length fb"
  shows "snd (decodeOledFrame \<lparr>bitmap = map uint (frame_ints keyint 0 prev fb), delta = False, n_entries = n\<rparr> w out) = fb"
  using assms decode_key [of out fb] by (simp add: decodeOledFrame_def frame_ints_def)

lemma emit_play:
  assumes ok: "blob_ok w h fps fs" and k: "0 < keyint" and out: "length out = w * (h div 8)"
  shows "\<exists>ds. emit_main True junk (Some (Some keyint)) (blob w h fps fs) = Inr ds \<and>
    (\<forall>k. play ds w (Suc k) out = Some (fs ! (k mod length fs)))"
proof -
  let ?cs = "chunks keyint 0 junk fs" and ?ns = "chunk_ns keyint 0 junk fs" and ?n = "length fs"
  define ds where "ds = \<lparr>d_data = concat ?cs, d_starts = map (\<lambda>i. length (concat (take i ?cs))) [0..<length ?cs + 1],
      d_ns = ?ns, d_nframes = length ?cs, d_keyint = keyint,
      d_next_ms = (if 1000 div fps = 0 then 1 else 1000 div fps)\<rparr>"
  have n: "0 < ?n" and w: "0 < w" and len: "\<And>i. i < ?n \<Longrightarrow> length (fs ! i) = w * (h div 8)"
    and dv: "4 dvd w * (h div 8)" "w * (h div 8) \<le> 1024"
    using ok by (auto simp: blob_ok_def)
  have scr: "nix_screen ds k = Some \<lparr>bitmap = map uint (?cs ! (k mod ?n)),
      delta = ((k mod ?n) mod keyint \<noteq> 0), n_entries = ?ns ! (k mod ?n)\<rparr>" for k
    using nix_screen_chunk [of ?cs ?ns ds keyint, OF _ _ ds_def] n by (simp add: Let_def)
  have "play ds w (Suc k) out = Some (fs ! (k mod ?n))" for k
  proof (induction k)
    case 0
    have "?cs ! 0 = frame_ints keyint 0 junk (fs ! 0)" using n chunks_nth(1) [of 0 fs keyint 0 junk] by simp
    with scr [of 0] decode_keyframe [of "fs ! 0" out keyint junk] len [OF n] dv(1) out show ?case by simp
  next
    case (Suc k)
    let ?i = "Suc k mod ?n" and ?prev = "fs ! (k mod ?n)"
    have i: "?i < ?n" using n by simp
    have lp: "length ?prev = w * (h div 8)" using len n by simp
    show ?case
    proof (cases "?i = 0")
      case True
      have "?cs ! 0 = frame_ints keyint 0 junk (fs ! 0)" using n chunks_nth(1) [of 0 fs keyint 0 junk] by simp
      with Suc scr [of "Suc k"] True decode_keyframe [of "fs ! 0" ?prev keyint junk] len [OF n] dv(1) lp
      show ?thesis by simp
    next
      case False
      then have "?i = Suc (k mod ?n)" by (metis mod_Suc)
      then have "?cs ! ?i = frame_ints keyint ?i ?prev (fs ! ?i)"
          "?ns ! ?i = (if ?i mod keyint = 0 then 0 else delta_count (fs ! ?i) ?prev)"
        using i chunks_nth [of ?i fs keyint 0 junk] by simp_all
      with Suc scr [of "Suc k"] decode_chunk [of "fs ! ?i" ?prev w keyint ?i] len [OF i] dv lp w
      show ?thesis by simp
    qed
  qed
  moreover have "emit_main True junk (Some (Some keyint)) (blob w h fps fs) = Inr ds"
    using emit_blob [OF ok k, of junk] by (simp add: ds_def)
  ultimately show ?thesis by blast
qed



section \<open>Ranges and dirty columns\<close>

lemma uint_pair_less: "e0 < 262144 \<Longrightarrow> 0 \<le> e1 \<Longrightarrow> e1 < 262144 \<Longrightarrow> e0 * 262144 + e1 < (2 ^ 36 :: int)"
  by simp

lemma pair_up_bound:
  assumes "\<And>e. e \<in> set es \<Longrightarrow> unat e < 262144" and "v \<in> set (pair_up es)"
  shows "uint v < 2 ^ 36"
  using assms
proof (induction es rule: pair_up.induct)
  case (2 e)
  have e: "unat e < 262144" "unat (0 :: u64) < 262144" using 2 by simp_all
  have "uint (e * 262144) = uint e * 262144" using pair_uint [OF e] by simp
  with 2 uint_less_of_unat [OF e(1)] show ?case by simp
next
  case (3 e0 e1 es)
  have e: "unat e0 < 262144" "unat e1 < 262144" using 3 by simp_all
  have "uint (e0 * 262144 + e1) < 2 ^ 36"
    unfolding pair_uint [OF e]
    using uint_less_of_unat [OF e(1)] uint_less_of_unat [OF e(2)] by (intro uint_pair_less) simp_all
  with 3 show ?case by auto
qed simp

lemma offsets_set:
  "x \<in> set (offsets i ps) \<longleftrightarrow>
     i \<le> x \<and> x < i + length ps \<and> fst (ps ! (x - i)) \<noteq> snd (ps ! (x - i))"
proof (induction i ps rule: offsets.induct)
  case (2 i b p r)
  have "x - i = Suc (x - Suc i)" if "i < x" using that by simp
  with 2 show ?case by (cases "x = i") (auto simp: not_less_eq_eq)
qed simp

lemma mark_bit:
  assumes "length (changed d) = 8" and "pg < 8" and "c < 128" and "0 < w"
  shows "length (changed (mark w off d)) = 8 \<and>
    (bit (changed (mark w off d) ! pg) c \<longleftrightarrow> bit (changed d ! pg) c \<or> (off div w = pg \<and> off mod w = c))"
  using assms by (cases "pg = off div w") (auto simp: mark_def Let_def bit_simps)

lemma fold_mark_bit:
  assumes "pg < 8" and "c < 128" and "0 < w" and "length (changed d) = 8"
  shows "bit (changed (fold (mark w) offs d) ! pg) c \<longleftrightarrow>
    bit (changed d ! pg) c \<or> (\<exists>off \<in> set offs. off div w = pg \<and> off mod w = c)"
  using assms(4)
proof (induction offs arbitrary: d)
  case (Cons off offs)
  with mark_bit [OF Cons.prems assms(1-3), of off] show ?case by auto
qed simp

lemma fold_mark_full: "full (fold (mark w) offs d) = full d"
  by (induction offs arbitrary: d) (simp_all add: mark_def Let_def)

text \<open>
  What a partial refresh relies on. Decoding a delta frame on the previous frame yields the
  new frame, leaves the refresh partial, and marks a column of a page dirty exactly if the byte
  there changed; every integer of the delta fits in 36 bits, below the evaluator's inline limit.
\<close>

theorem delta_frame_dirty:
  assumes "length prev = length fb" and "length fb \<le> 1024" and "0 < w" and "f mod keyint \<noteq> 0"
    and "decodeOledFrame \<lparr>bitmap = map uint (frame_ints keyint f prev fb), delta = True,
      n_entries = delta_count fb prev\<rparr> w prev = (d, out)"
  shows "out = fb \<and> \<not> full d \<and>
    (\<forall>pg < 8. \<forall>c < 128. bit (changed d ! pg) c \<longleftrightarrow>
       (\<exists>j < length fb. fb ! j \<noteq> prev ! j \<and> j div w = pg \<and> j mod w = c)) \<and>
    (\<forall>v \<in> set (frame_ints keyint f prev fb). uint v < 2 ^ 36)"
proof -
  let ?d = "\<lparr>full = False, changed = replicate 8 0\<rparr>"
  have d: "d = fold (mark w) (offsets 0 (zip fb prev)) ?d" and out: "out = fb"
    using assms decode_delta [of prev fb w ?d] by (auto simp: decodeOledFrame_def frame_ints_def)
  have "bit (changed d ! pg) c \<longleftrightarrow>
      (\<exists>j < length fb. fb ! j \<noteq> prev ! j \<and> j div w = pg \<and> j mod w = c)" if "pg < 8" "c < 128" for pg c
  proof -
    have "bit (changed d ! pg) c \<longleftrightarrow> (\<exists>off \<in> set (offsets 0 (zip fb prev)). off div w = pg \<and> off mod w = c)"
      unfolding d using fold_mark_bit [of pg c w ?d "offsets 0 (zip fb prev)"] that assms(3) by simp
    also have "\<dots> \<longleftrightarrow> (\<exists>j < length fb. fb ! j \<noteq> prev ! j \<and> j div w = pg \<and> j mod w = c)"
    proof -
      have "j \<in> set (offsets 0 (zip fb prev)) \<longleftrightarrow> j < length fb \<and> fb ! j \<noteq> prev ! j" for j
        using assms(1) by (auto simp: offsets_set)
      then show ?thesis by blast
    qed
    finally show ?thesis .
  qed
  moreover have "\<not> full d" by (simp add: d fold_mark_full)
  moreover have "uint v < 2 ^ 36" if "v \<in> set (frame_ints keyint f prev fb)" for v
  proof (rule pair_up_bound)
    show "v \<in> set (pair_up (entries 0 (zip fb prev)))"
      using that assms(4) by (simp add: frame_ints_def delta_scan_pairs)
    show "unat e < 262144" if "e \<in> set (entries 0 (zip fb prev))" for e
      using entries_bound [OF that] assms(1,2) by simp
  qed
  ultimately show ?thesis using out by blast
qed

theorem delta_frame_dirty_witness:
  "let fr = \<lparr>bitmap = map uint (frame_ints 2 1 [1, 2, 3, 4] [1, 9, 3, 4]), delta = True, n_entries = 1\<rparr>
   in snd (decodeOledFrame fr 2 [1, 2, 3, 4]) = [1, 9, 3, 4] \<and>
      \<not> full (fst (decodeOledFrame fr 2 [1, 2, 3, 4]))"
proof -
  have c: "delta_count [1, 9, 3, 4] [1, 2, 3, 4] = 1" by (simp add: delta_count_def)
  obtain d out where e: "decodeOledFrame \<lparr>bitmap = map uint (frame_ints 2 1 [1, 2, 3, 4] [1, 9, 3, 4]),
      delta = True, n_entries = delta_count [1, 9, 3, 4] [1, 2, 3, 4]\<rparr> 2 [1, 2, 3, 4] = (d, out)"
    by fastforce
  from delta_frame_dirty [OF _ _ _ _ e] have "out = [1, 9, 3, 4]" "\<not> full d" by simp_all
  with e show ?thesis by (simp add: Let_def c)
qed

lemma emit_frames_length:
  "emit_frames keyint fb_len f k prev stdin st = Inr (st', rest) \<Longrightarrow>
   length stdin = k * fb_len + length rest"
proof (induction k arbitrary: f prev stdin st)
  case (Suc k)
  from Suc.prems have "fb_len \<le> length stdin"
    and "emit_frames keyint fb_len (f + 1) k (take fb_len stdin) (drop fb_len stdin)
      (emit_frame keyint f prev (take fb_len stdin) st) = Inr (st', rest)"
    by (simp_all add: Let_def min_def split: if_splits)
  with Suc.IH [OF this(2)] show ?case by simp
qed simp

text \<open>
  What the encoder accepts. A blob that is re-encoded has the magic, a usable geometry and
  frame count, and exactly the bytes its header declares: a truncated or an over-long input is
  never turned into a screen.
\<close>

theorem emit_main_exact:
  assumes "emit_main mem junk karg stdin = Inr ds"
  shows "let w = unat (rd_u16 (drop 4 stdin)); h = unat (rd_u16 (drop 6 stdin)) in
    take 4 stdin = [0x42, 0x41, 0x44, 0x41] \<and> d_nframes ds = unat (rd_u32 (drop 12 stdin)) \<and>
    0 < d_nframes ds \<and> 0 < d_keyint ds \<and> h mod 8 = 0 \<and> 0 < w * (h div 8) \<and>
    w * (h div 8) \<le> 1024 \<and> w * (h div 8) mod 4 = 0 \<and>
    length stdin = 16 + d_nframes ds * (w * (h div 8)) \<and> 0 < d_next_ms ds"
  using assms
  by (auto simp: emit_main_def Let_def split: if_splits option.splits sum.splits
      dest!: emit_frames_length)

theorem emit_main_exact_witness:
  "\<exists>ds. emit_main True [] None (blob 4 8 30 [[1, 2, 3, 4]]) = Inr ds \<and> 0 < d_next_ms ds"
proof -
  have "\<exists>ds. emit_main True [] None (blob 4 8 30 [[1, 2, 3, 4]]) = Inr ds"
    using emit_blob [of 4 8 30 "[[1, 2, 3, 4]]" 60 "[]"] by (simp add: blob_ok_def emit_main_def)
  then show ?thesis using emit_main_exact by (metis (no_types, lifting))
qed

text \<open>
  pack checks only the frame rate against 16 bits. A width of 65537 is accepted, and the
  header it writes declares width 1, so a reader finds another geometry than the frames have.
\<close>

lemma pack_header_truncates:
  "\<exists>out. pack_main \<lparr>io_malloc = True, io_header = True, io_frame = \<lambda>_. True, io_flush = True,
     io_seek = True, io_count = True\<rparr> [65537, 8, 20, 128] (replicate (65537 * 8) 0) = Inr out \<and>
     unat (rd_u16 (drop 4 out)) = 1 \<and> unat (rd_u32 (drop 12 out)) = 1 \<and> length out = 16 + 65537"
proof -
  let ?io = "\<lparr>io_malloc = True, io_header = True, io_frame = \<lambda>_. True, io_flush = True,
     io_seek = True, io_count = True\<rparr>"
  let ?fb = "pack_frame 65537 8 128 (block (65537 * 8) 0 (replicate (65537 * 8) 0))"
  have "pack_loop ?io 65537 8 128 0 out (replicate (65537 * 8) 0) = Inr (1, out @ ?fb)" for out
    using pack_loop_blocks [of "65537 * 8" 65537 8 ?io 0 "replicate (65537 * 8) 0" 128 out] by simp
  then have "pack_main ?io [65537, 8, 20, 128] (replicate (65537 * 8) 0) =
      Inr (bada_header 65537 8 20 1 @ ?fb)"
    using bada_header_patch [of 65537 8 20 ?fb 1] by (simp add: pack_main_def del: take_append drop_append)
  moreover have "length ?fb = 65537" by (simp add: pack_frame_length)
  ultimately show ?thesis
    by (intro exI [of _ "bada_header 65537 8 20 1 @ ?fb"]) (simp only: header_fields, simp add: bada_header_length)
qed

end
