(* ===== verification/Sophdrm.thy ===== *)
theory Sophdrm
  imports Prelude
begin

text \<open>
  The DRM/KMS front end of the display block (\<open>soph-display/sophdrm/sophdrm.c\<close>): the polled
  vblank, the two pixel paths (the video layer and the GOP overlay), page flips, mode read-back,
  format checks, and probe.

  The driver's state is the record \<open>soph\<close>. The vendor's and the kernel's functions are not part
  of the repository: a call to one is appended to \<open>calls\<close>, and what it answers is an argument of
  the function that makes it. The bit layout of the debug status is the vendor's: the record
  \<open>dbg_status\<close> has the flags the driver reads and the raw word, and \<open>chroma_errs\<close> is the raw
  value of the four chroma error flags.
\<close>

section \<open>Data\<close>

datatype drm_format = XRGB8888 | ARGB8888 | RGB888 | NV12 | OtherFormat u32

datatype sclr_format = SCL_FMT_BGR_PACKED | SCL_FMT_NV12 | SCL_FMT_RGB_PACKED | SCL_FMT_NV21 | SCL_FMT_MAX

datatype sclr_csc = SCL_CSC_NONE | SCL_CSC_601_LIMIT_YUV2RGB | SCL_CSC_601_FULL_YUV2RGB
  | SCL_CSC_709_LIMIT_YUV2RGB | SCL_CSC_709_FULL_YUV2RGB

record sclr_mem =
  addr0 :: u64
  addr1 :: u64
  addr2 :: u64
  pitch_y :: u16
  pitch_c :: u16
  mem_width :: u16
  mem_height :: u16

record soph_layer =
  l_fmt :: sclr_format
  l_csc :: sclr_csc
  l_mem :: sclr_mem

record gop_ow_cfg =
  ow_img_w :: u16
  ow_img_h :: u16
  ow_mem_w :: u16
  ow_mem_h :: u16
  ow_pitch :: u16
  ow_end_x :: u16
  ow_end_y :: u16
  ow_addr :: u64

text \<open>\<open>gop_ctrl\<close>: the eight window enables of the low byte and the two scaler enables.\<close>

record gop_ctrl =
  ow_en :: u8
  hscl_en :: u8
  vscl_en :: u8

record disp_timing =
  t_htotal :: u16
  t_vtotal :: u16
  t_hsync_start :: u16
  t_hsync_end :: u16
  t_vsync_start :: u16
  t_vsync_end :: u16
  t_hfde_start :: u16
  t_hfde_end :: u16
  t_vfde_start :: u16
  t_vfde_end :: u16
  t_vsync_pol :: bool
  t_hsync_pol :: bool

record drm_mode =
  hdisplay :: u16
  hsync_start :: u16
  hsync_end :: u16
  htotal :: u16
  vdisplay :: u16
  vsync_start :: u16
  vsync_end :: u16
  vtotal :: u16
  mode_clock :: u32
  mode_preferred :: bool

record dbg_status =
  st_raw :: u32
  bw_fail :: bool
  osd_bw_fail :: bool
  lb_empty_u :: bool

text \<open>A framebuffer: pitches and offsets of its (at most two) planes, and the kernel mapping of its
  memory (\<open>None\<close>: no object or not mapped).\<close>

record framebuffer =
  fb_format :: drm_format
  fb_width :: u32
  fb_height :: u32
  fb_pitch0 :: u32
  fb_pitch1 :: u32
  fb_offset0 :: u32
  fb_vaddr :: "nat option"

text \<open>A plane state: its framebuffer, \<open>drm_fb_dma_get_gem_addr\<close> of both planes, its colour properties.\<close>

record plane_state =
  ps_fb :: "framebuffer option"
  ps_addr0 :: u64
  ps_addr1 :: u64
  ps_bt709 :: bool
  ps_full_range :: bool

datatype soph_yuv_encoding = SOPH_YUV_AUTO | SOPH_YUV_BT601 | SOPH_YUV_BT709
datatype soph_yuv_range = SOPH_RANGE_AUTO | SOPH_RANGE_LIMITED | SOPH_RANGE_FULL

record disp_cfg =
  disp_from_sc :: bool
  sync_ext :: bool
  tgen_en :: bool
  cfg_fmt :: sclr_format
  cfg_in_csc :: sclr_csc
  cfg_out_csc :: sclr_csc
  cfg_burst :: nat
  cfg_out_bit :: nat
  cfg_drop_dither :: bool
  cfg_mem :: sclr_mem

datatype soph_log = GOP_starved | GOP_recovered | DISP_starved | DISP_recovered | Chroma_bad | Chroma_clear
  | Timing_unprogrammed

datatype vcall =
    Reg_shadow_sel bool | Get_dbg_status bool | Frame_start_poll | Set_layer sclr_format sclr_mem sclr_csc
  | Set_mem sclr_mem | Pattern_off | Set_frame_bgcolor | Set_window_bgcolor | Enable_window_bgcolor bool
  | Gop_ow_set gop_ow_cfg | Gop_set gop_ctrl | Reg_force_up | Set_cfg disp_cfg | Top_disp_enable
  | Set_out_csc_matrix | Tgen_enable bool | Ddr_ctrl_patch bool | Vip_axi_priority
  | Set_timing disp_timing | Get_hw_timing | Crtc_vblank_on | Crtc_vblank_off | Crtc_handle_vblank
  | Hrtimer_start u64 | Hrtimer_cancel | Hrtimer_forward u64 | Wmb | Arm_event | Send_event
  | Log soph_log | Mipi_tx_setup | Dsi_host_register | Get_bridge | Mode_config_init | Vblank_init
  | Connector_init | Pipe_init | Color_properties | Bridge_attach | Mode_config_reset | Dev_register
  | Dev_unplug | Atomic_shutdown | Dma_coerce | Alloc_park | Driver_register | Driver_unregister
  | Pdev_register | Pdev_unregister | Dsi_host_unregister

record soph =
  native_mode :: drm_mode
  gop_mode :: drm_mode
  video_layer :: bool
  park_dma :: u64
  layer_fmt :: sclr_format
  layer_csc :: sclr_csc
  layer_pitch_y :: u16
  layer_pitch_c :: u16
  vbl_period :: u64
  poll_period :: u64
  vbl_enabled :: bool
  starving :: bool
  chroma_bad :: bool
  chroma_err_old :: u32
  layer_staged :: bool
  layer_refill :: bool
  dbg_stale :: bool
  vbl_count :: u32
  vbl_gate :: u32
  vbl_miss :: u32
  bridge :: bool
  soph_gop_scale :: u8
  vbl_div :: u32
  rgb_limited :: bool
  nomodeset :: bool
  yuv_encoding :: soph_yuv_encoding
  yuv_range :: soph_yuv_range
  chroma_errs :: u32
  gop_cfg :: gop_ctrl
  dsi_host_registered :: bool
  pixmem :: "nat \<Rightarrow> u8"
  calls :: "vcall list"

definition call :: "vcall \<Rightarrow> soph \<Rightarrow> soph" where
  "call c s = s\<lparr>calls := calls s @ [c]\<rparr>"

definition SOPH_GOP_MAX_SRC_W :: u32 where "SOPH_GOP_MAX_SRC_W = 1024"
definition SOPH_PARK_W :: u16 where "SOPH_PARK_W = 80"
definition SOPH_PARK_H :: u16 where "SOPH_PARK_H = 80"
definition SOPH_PARK_PITCH :: u16 where "SOPH_PARK_PITCH = align_up 5 (SOPH_PARK_W * 3)"
definition SOPH_VBL_OVERSAMPLE :: u32 where "SOPH_VBL_OVERSAMPLE = 4"

section \<open>Module parameters\<close>

text \<open>\<open>__sysfs_match_string\<close>: the index of the name, or \<open>-EINVAL\<close>; a trailing newline is ignored.\<close>

definition sysfs_streq :: "string \<Rightarrow> string \<Rightarrow> bool" where
  "sysfs_streq a b \<longleftrightarrow> a = b \<or> a @ ''\<newline>'' = b \<or> b @ ''\<newline>'' = a"

fun match_string :: "string list \<Rightarrow> string \<Rightarrow> nat \<Rightarrow> nat res" where
  "match_string [] val i = Inl EINVAL"
| "match_string (n # ns) val i = (if sysfs_streq n val then Inr i else match_string ns val (i + 1))"

definition soph_choice_set :: "string list \<Rightarrow> string \<Rightarrow> nat \<Rightarrow> unit res \<times> nat" where
  "soph_choice_set names val value =
     (case match_string names val 0 of Inl e \<Rightarrow> (Inl e, value) | Inr i \<Rightarrow> (Inr (), i))"

definition soph_choice_get :: "string list \<Rightarrow> nat \<Rightarrow> string" where
  "soph_choice_get names value = names ! value @ ''\<newline>''"

definition soph_yuv_csc :: "soph \<Rightarrow> plane_state \<Rightarrow> sclr_csc" where
  "soph_yuv_csc s ps =
     (let bt709 = (case yuv_encoding s of SOPH_YUV_BT601 \<Rightarrow> False | SOPH_YUV_BT709 \<Rightarrow> True
                   | SOPH_YUV_AUTO \<Rightarrow> ps_bt709 ps);
          full = (case yuv_range s of SOPH_RANGE_LIMITED \<Rightarrow> False | SOPH_RANGE_FULL \<Rightarrow> True
                  | SOPH_RANGE_AUTO \<Rightarrow> ps_full_range ps)
      in if bt709 then (if full then SCL_CSC_709_LIMIT_YUV2RGB else SCL_CSC_709_FULL_YUV2RGB)
         else (if full then SCL_CSC_601_LIMIT_YUV2RGB else SCL_CSC_601_FULL_YUV2RGB))"

section \<open>Starvation reports\<close>

text \<open>\<open>st\<close> is what \<open>sclr_disp_get_dbg_status\<close> answers.\<close>

definition soph_check_chroma :: "dbg_status \<Rightarrow> soph \<Rightarrow> soph" where
  "soph_check_chroma st s =
     (if layer_fmt s \<noteq> SCL_FMT_NV12 then s
      else let errs = st_raw st AND chroma_errs s AND NOT (chroma_err_old s) in
        if layer_refill s \<and> errs = 0 then s
        else let bad = lb_empty_u st \<or> errs \<noteq> 0 in
          if bad = chroma_bad s then s
          else call (Log (if bad then Chroma_bad else Chroma_clear)) (s\<lparr>chroma_bad := bad\<rparr>))"

definition soph_check_underrun :: "dbg_status \<Rightarrow> soph \<Rightarrow> soph" where
  "soph_check_underrun st s =
     (if \<not> video_layer s then
        (let s = call (Get_dbg_status True) s; bad = osd_bw_fail st in
         if bad = starving s then s
         else call (Log (if bad then GOP_starved else GOP_recovered)) (s\<lparr>starving := bad\<rparr>))
      else
        (let s = call (Get_dbg_status False) s; bad = bw_fail st;
             s = (if bad \<noteq> starving s
                  then call (Log (if bad then DISP_starved else DISP_recovered)) (s\<lparr>starving := bad\<rparr>)
                  else s)
         in soph_check_chroma st s))"

section \<open>The polled vblank\<close>

text \<open>
  One timer tick: \<open>fs\<close> is the answer of \<open>sclr_disp_frame_start_poll\<close>. The first component of the
  part under \<open>flip_lock\<close> is \<open>vblank\<close>.
\<close>

definition soph_vbl_poll :: "bool \<Rightarrow> soph \<Rightarrow> bool \<times> soph" where
  "soph_vbl_poll fs s =
     (let s = call Frame_start_poll s in
      if fs then
        (let s = s\<lparr>vbl_miss := 0, layer_refill := layer_staged s, layer_staged := False\<rparr>;
             s = (if dbg_stale s
                  then (call (Get_dbg_status True) s)\<lparr>chroma_err_old := 0, dbg_stale := False\<rparr> else s)
         in (True, s))
      else
        (let s = s\<lparr>vbl_miss := vbl_miss s + 1\<rparr> in
         if vbl_miss s > 2 * SOPH_VBL_OVERSAMPLE then (True, s\<lparr>vbl_miss := 0\<rparr>) else (False, s)))"

definition soph_vbl_report :: "dbg_status \<Rightarrow> bool \<Rightarrow> soph \<Rightarrow> soph" where
  "soph_vbl_report st vblank s =
     (if vblank then
        (let s = s\<lparr>vbl_gate := vbl_gate s + 1\<rparr> in
         if vbl_gate s \<ge> (if vbl_div s \<noteq> 0 then vbl_div s else 1) then
           (let s = call Crtc_handle_vblank (s\<lparr>vbl_gate := 0\<rparr>);
                s = s\<lparr>vbl_count := vbl_count s + 1\<rparr>
            in if vbl_count s \<ge> 60 then soph_check_underrun st (s\<lparr>vbl_count := 0\<rparr>) else s)
         else s)
      else s)"

definition soph_vbl_fn :: "bool \<Rightarrow> dbg_status \<Rightarrow> soph \<Rightarrow> soph" where
  "soph_vbl_fn fs st s =
     (let (vblank, s) = soph_vbl_poll fs s; s = soph_vbl_report st vblank s
      in call (Hrtimer_forward (poll_period s)) s)"

definition soph_enable_vblank :: "soph \<Rightarrow> soph" where
  "soph_enable_vblank s = call (Hrtimer_start (poll_period s)) (s\<lparr>vbl_enabled := True\<rparr>)"

definition soph_disable_vblank :: "soph \<Rightarrow> soph" where
  "soph_disable_vblank s = call Hrtimer_cancel (s\<lparr>vbl_enabled := False\<rparr>)"

definition soph_read_working_bank :: "soph \<Rightarrow> soph" where
  "soph_read_working_bank s = call (Reg_shadow_sel False) s"

section \<open>The GOP plane\<close>

fun alpha_row :: "nat \<Rightarrow> nat \<Rightarrow> (nat \<Rightarrow> u8) \<Rightarrow> nat \<Rightarrow> u8" where
  "alpha_row a 0 m = m"
| "alpha_row a (Suc x) m = (alpha_row a x m)(a + x * 4 := 0xff)"

fun alpha_rows :: "nat \<Rightarrow> nat \<Rightarrow> nat \<Rightarrow> nat \<Rightarrow> (nat \<Rightarrow> u8) \<Rightarrow> nat \<Rightarrow> u8" where
  "alpha_rows base pitch w 0 m = m"
| "alpha_rows base pitch w (Suc y) m = alpha_row (base + y * pitch + 3) w (alpha_rows base pitch w y m)"

definition alpha_fill :: "framebuffer \<Rightarrow> (nat \<Rightarrow> u8) \<Rightarrow> nat \<Rightarrow> u8" where
  "alpha_fill fb m =
     (if fb_format fb \<noteq> XRGB8888 then m
      else case fb_vaddr fb of
        None \<Rightarrow> m
      | Some va \<Rightarrow> alpha_rows (va + unat (fb_offset0 fb)) (unat (fb_pitch0 fb)) (unat (fb_width fb))
                     (unat (fb_height fb)) m)"

definition soph_gop_alpha_fill :: "framebuffer \<Rightarrow> soph \<Rightarrow> soph" where
  "soph_gop_alpha_fill fb s = s\<lparr>pixmem := alpha_fill fb (pixmem s)\<rparr>"

definition soph_gop_ow :: "u8 \<Rightarrow> framebuffer \<Rightarrow> u64 \<Rightarrow> gop_ow_cfg" where
  "soph_gop_ow scale fb addr =
     (let w = ucast (fb_width fb); h = ucast (fb_height fb) in
      \<lparr>ow_img_w = w, ow_img_h = h, ow_mem_w = ucast (fb_pitch0 fb), ow_mem_h = h,
       ow_pitch = ucast (fb_pitch0 fb),
       ow_end_x = 0 + push_bit (unat scale) w - ucast scale,
       ow_end_y = 0 + push_bit (unat scale) h - ucast scale, ow_addr = addr\<rparr>)"

definition soph_gop_set :: "framebuffer \<Rightarrow> u64 \<Rightarrow> soph \<Rightarrow> soph" where
  "soph_gop_set fb addr s = call (Gop_ow_set (soph_gop_ow (soph_gop_scale s) fb addr)) s"

definition soph_gop_enable :: "bool \<Rightarrow> soph \<Rightarrow> soph" where
  "soph_gop_enable on s =
     (let cfg = (gop_cfg s)\<lparr>hscl_en := soph_gop_scale s, vscl_en := soph_gop_scale s, ow_en := 0\<rparr>;
          cfg = cfg\<lparr>ow_en := (if on then 1 else 0)\<rparr>
      in call (Gop_set cfg) (s\<lparr>gop_cfg := cfg\<rparr>))"

definition soph_gop_latch :: "soph \<Rightarrow> soph" where
  "soph_gop_latch s = soph_gop_enable True (call Reg_force_up (soph_gop_enable False s))"

section \<open>The video layer\<close>

definition soph_mode_is_native :: "soph \<Rightarrow> drm_mode \<Rightarrow> bool" where
  "soph_mode_is_native s m \<longleftrightarrow>
     hdisplay m = hdisplay (native_mode s) \<and> vdisplay m = vdisplay (native_mode s)"

definition soph_video_layer :: "soph \<Rightarrow> plane_state \<Rightarrow> framebuffer \<Rightarrow> soph_layer" where
  "soph_video_layer s ps fb =
     (let nv12 = (fb_format fb = NV12) in
      \<lparr>l_fmt = (if nv12 then SCL_FMT_NV12 else SCL_FMT_BGR_PACKED),
       l_csc = (if nv12 then soph_yuv_csc s ps else SCL_CSC_NONE),
       l_mem = \<lparr>addr0 = ps_addr0 ps, addr1 = (if nv12 then ps_addr1 ps else 0), addr2 = 0,
                pitch_y = ucast (fb_pitch0 fb), pitch_c = (if nv12 then ucast (fb_pitch1 fb) else 0),
                mem_width = hdisplay (native_mode s), mem_height = vdisplay (native_mode s)\<rparr>\<rparr>)"

fun soph_layer_fmt_name :: "sclr_format \<Rightarrow> string" where
  "soph_layer_fmt_name SCL_FMT_BGR_PACKED = ''RGB888''"
| "soph_layer_fmt_name SCL_FMT_NV12 = ''NV12''"
| "soph_layer_fmt_name _ = ''none''"

text \<open>\<open>st\<close> is the debug status the load reads when the format changes.\<close>

definition soph_video_load :: "dbg_status \<Rightarrow> soph_layer \<Rightarrow> soph \<Rightarrow> soph" where
  "soph_video_load st l s =
     (let s = (if l_fmt l \<noteq> layer_fmt s
               then (call (Get_dbg_status False) s)
                      \<lparr>chroma_bad := False, chroma_err_old := st_raw st AND chroma_errs s\<rparr>
               else s);
          s = call (Set_layer (l_fmt l) (l_mem l) (l_csc l)) s
      in s\<lparr>layer_fmt := l_fmt l, layer_csc := l_csc l, layer_pitch_y := pitch_y (l_mem l),
            layer_pitch_c := pitch_c (l_mem l), layer_staged := True\<rparr>)"

definition soph_video_stage :: "dbg_status \<Rightarrow> plane_state \<Rightarrow> framebuffer \<Rightarrow> soph \<Rightarrow> soph" where
  "soph_video_stage st ps fb s =
     (let l = soph_video_layer s ps fb in
      if l_fmt l = layer_fmt s \<and> l_csc l = layer_csc s \<and> pitch_y (l_mem l) = layer_pitch_y s \<and>
         pitch_c (l_mem l) = layer_pitch_c s
      then call (Set_mem (l_mem l)) s
      else soph_video_load st l s)"

definition park_mem :: "u64 \<Rightarrow> sclr_mem" where
  "park_mem dma = \<lparr>addr0 = dma, addr1 = dma, addr2 = dma, pitch_y = SOPH_PARK_PITCH,
     pitch_c = SOPH_PARK_PITCH, mem_width = SOPH_PARK_W, mem_height = SOPH_PARK_H\<rparr>"

definition soph_video_park :: "soph \<Rightarrow> soph" where
  "soph_video_park s = (call (Set_mem (park_mem (park_dma s))) s)\<lparr>layer_fmt := SCL_FMT_MAX\<rparr>"

section \<open>The pipe\<close>

definition soph_enable_video :: "dbg_status \<Rightarrow> plane_state \<Rightarrow> framebuffer \<Rightarrow> soph \<Rightarrow> soph" where
  "soph_enable_video st ps fb s =
     (let l = soph_video_layer s ps fb;
          cfg = \<lparr>disp_from_sc = False, sync_ext = False, tgen_en = True, cfg_fmt = l_fmt l,
                 cfg_in_csc = l_csc l, cfg_out_csc = SCL_CSC_NONE, cfg_burst = 15, cfg_out_bit = 8,
                 cfg_drop_dither = True,
                 cfg_mem = l_mem l\<rparr>;
          s = call Pattern_off s;
          s = call (Enable_window_bgcolor False) s;
          s = soph_gop_enable False s;
          s = call (Set_cfg cfg) s
      in soph_video_load st l s)"

definition soph_enable_gop :: "plane_state \<Rightarrow> framebuffer \<Rightarrow> soph \<Rightarrow> soph" where
  "soph_enable_gop ps fb s =
     (let s = s\<lparr>soph_gop_scale := 1\<rparr>;
          s = call Top_disp_enable s;
          s = call Pattern_off s;
          s = call Set_frame_bgcolor s;
          s = call Set_window_bgcolor s;
          s = call (Enable_window_bgcolor True) s;
          s = soph_video_park s;
          s = soph_gop_alpha_fill fb s;
          s = call Wmb s;
          s = soph_gop_set fb (ps_addr0 ps) s
      in soph_gop_latch s)"

definition soph_pipe_enable :: "dbg_status \<Rightarrow> drm_mode \<Rightarrow> plane_state \<Rightarrow> soph \<Rightarrow> soph" where
  "soph_pipe_enable st mode ps s =
     (let s = s\<lparr>video_layer := soph_mode_is_native s mode\<rparr>;
          s = (if nomodeset s then s
               else case ps_fb ps of
                 None \<Rightarrow> s
               | Some fb \<Rightarrow>
                   (let s = soph_read_working_bank s;
                        s = call Vip_axi_priority s;
                        s = call (Ddr_ctrl_patch True) s;
                        s = (if video_layer s then soph_enable_video st ps fb s else soph_enable_gop ps fb s);
                        s = (if rgb_limited s then call Set_out_csc_matrix s else s);
                        s = call (Tgen_enable True) s;
                        s = call Reg_force_up s
                    in s\<lparr>starving := False, chroma_bad := False, dbg_stale := True\<rparr>))
      in call Crtc_vblank_on s)"

definition soph_pipe_disable :: "soph \<Rightarrow> soph" where
  "soph_pipe_disable s =
     (let s = call Crtc_vblank_off s in
      if nomodeset s then s
      else
        let s = soph_read_working_bank s;
            s = soph_gop_enable False s;
            s = call Set_window_bgcolor s;
            s = call (Enable_window_bgcolor True) s;
            s = soph_video_park s
        in call Reg_force_up s)"

text \<open>The pixels are finished, then the new address is staged.\<close>

definition soph_flip_write :: "dbg_status \<Rightarrow> bool \<Rightarrow> plane_state \<Rightarrow> framebuffer \<Rightarrow> soph \<Rightarrow> soph" where
  "soph_flip_write st video ps fb s =
     (let s = (if \<not> video then soph_gop_alpha_fill fb s else s);
          s = call Wmb s
      in if video then soph_video_stage st ps fb s else soph_gop_set fb (ps_addr0 ps) s)"

text \<open>\<open>mode\<close> is the mode being committed; \<open>event\<close> whether the commit carries an event and \<open>running\<close>
  whether \<open>drm_crtc_vblank_get\<close> succeeds.\<close>

definition soph_pipe_update :: "dbg_status \<Rightarrow> drm_mode \<Rightarrow> plane_state \<Rightarrow> bool \<Rightarrow> bool \<Rightarrow> soph \<Rightarrow> soph" where
  "soph_pipe_update st mode ps event running s =
     (let video = soph_mode_is_native s mode;
          s = (case ps_fb ps of
                 Some fb \<Rightarrow>
                   if nomodeset s then s
                   else call Frame_start_poll (soph_flip_write st video ps fb s)
               | None \<Rightarrow> s)
      in if \<not> event then s else if running then call Arm_event s else call Send_event s)"

datatype mode_status = MODE_OK | MODE_BAD

definition soph_pipe_mode_valid :: "soph \<Rightarrow> drm_mode \<Rightarrow> mode_status" where
  "soph_pipe_mode_valid s m =
     (if soph_mode_is_native s m then MODE_OK
      else if hdisplay m = hdisplay (gop_mode s) \<and> vdisplay m = vdisplay (gop_mode s) then MODE_OK
      else MODE_BAD)"

definition soph_pipe_check :: "soph \<Rightarrow> plane_state \<Rightarrow> drm_mode \<Rightarrow> unit res" where
  "soph_pipe_check s ps mode =
     (case ps_fb ps of
        None \<Rightarrow> Inr ()
      | Some fb \<Rightarrow>
          if soph_mode_is_native s mode then
            (if fb_format fb = RGB888 \<and> fb_width fb = ucast (hdisplay mode) \<and>
                fb_height fb = ucast (vdisplay mode) \<and>
                fb_pitch0 fb mod 32 = 0 \<and> fb_pitch0 fb \<le> 0xffff \<and> fb_offset0 fb = 0 then Inr ()
             else if fb_format fb = NV12 \<and> fb_width fb = ucast (hdisplay mode) \<and>
                fb_height fb = ucast (vdisplay mode) \<and>
                fb_pitch0 fb mod 32 = 0 \<and> fb_pitch1 fb mod 32 = 0 \<and>
                fb_pitch0 fb \<le> 0xffff \<and> fb_pitch1 fb \<le> 0xffff \<and>
                ps_addr0 ps mod 32 = 0 \<and> ps_addr1 ps mod 32 = 0 then Inr ()
             else Inl EINVAL)
          else if (fb_format fb = XRGB8888 \<or> fb_format fb = ARGB8888) \<and> fb_width fb \<le> SOPH_GOP_MAX_SRC_W
          then Inr () else Inl EINVAL)"

definition soph_formats :: "drm_format list" where
  "soph_formats = [XRGB8888, ARGB8888, RGB888, NV12]"

text \<open>The duplicated modes; \<open>dup\<close> says whether \<open>drm_mode_duplicate\<close> succeeds for each.\<close>

definition soph_conn_get_modes :: "(nat \<Rightarrow> bool) \<Rightarrow> soph \<Rightarrow> drm_mode list \<times> nat" where
  "soph_conn_get_modes dup s =
     (let ms = map snd (filter (\<lambda>(i, m). dup i) (zip [0..<2] [native_mode s, gop_mode s])) in (ms, length ms))"

section \<open>The DSI host\<close>

record dsi_msg =
  msg_type :: u8
  msg_tx :: "u8 list"
  msg_rx :: "nat option"

definition soph_dsi_host_attach :: "unit res" where
  "soph_dsi_host_attach = Inr ()"

definition soph_dsi_host_detach :: "unit res" where
  "soph_dsi_host_detach = Inr ()"

text \<open>\<open>rd\<close> and \<open>wr\<close> are the vendor's DCS read (type, parameter, length) and write (type, data); the
  result is the number of bytes transferred.\<close>

definition soph_dsi_host_transfer ::
  "(u8 \<Rightarrow> u8 \<Rightarrow> nat \<Rightarrow> unit res) \<Rightarrow> (u8 \<Rightarrow> u8 list \<Rightarrow> unit res) \<Rightarrow> dsi_msg \<Rightarrow> nat res" where
  "soph_dsi_host_transfer rd wr msg =
     (case msg_rx msg of
        Some rx_len \<Rightarrow>
          if rx_len \<noteq> 0 then
            (case rd (msg_type msg) (case msg_tx msg of [] \<Rightarrow> 0 | b # _ \<Rightarrow> b) rx_len of
               Inl e \<Rightarrow> Inl e | Inr _ \<Rightarrow> Inr rx_len)
          else (case wr (msg_type msg) (msg_tx msg) of Inl e \<Rightarrow> Inl e | Inr _ \<Rightarrow> Inr (length (msg_tx msg)))
      | None \<Rightarrow> (case wr (msg_type msg) (msg_tx msg) of Inl e \<Rightarrow> Inl e | Inr _ \<Rightarrow> Inr (length (msg_tx msg))))"

section \<open>Modes\<close>

definition soph_fill_mode :: "disp_timing \<Rightarrow> u32 \<Rightarrow> u32 \<Rightarrow> u32 \<Rightarrow> drm_mode" where
  "soph_fill_mode t hact vact refresh =
     (let hdisp = ucast hact; vdisp = ucast vact; ht = t_htotal t + 1; vt = t_vtotal t + 1;
          hss = hdisp + (t_hsync_start t - t_hfde_start t);
          hse = hdisp + (t_hsync_end t - t_hfde_start t);
          vss = vdisp + (t_vsync_start t - t_vfde_start t);
          vse = vdisp + (t_vsync_end t - t_vfde_start t);
          hbad = (hss < hdisp \<or> hse \<le> hss \<or> ht \<le> hse);
          vbad = (vss < vdisp \<or> vse \<le> vss \<or> vt \<le> vse)
      in \<lparr>hdisplay = hdisp, hsync_start = (if hbad then hdisp + 1 else hss),
          hsync_end = (if hbad then hdisp + 2 else hse), htotal = ht,
          vdisplay = vdisp, vsync_start = (if vbad then vdisp + 1 else vss),
          vsync_end = (if vbad then vdisp + 2 else vse), vtotal = vt,
          mode_clock = ucast (ucast ht * ucast vt * ucast refresh div (1000 :: u64)),
          mode_preferred = False\<rparr>)"

text \<open>\<open>t1\<close> and \<open>t2\<close> are what \<open>sclr_disp_get_hw_timing\<close> reads before and after the timing is written
  back with the polarities cleared. The periods are in nanoseconds.\<close>

definition soph_read_mode :: "disp_timing \<Rightarrow> disp_timing \<Rightarrow> soph \<Rightarrow> unit res \<times> soph" where
  "soph_read_mode t1 t2 s =
     (let s = soph_read_working_bank s;
          s = call Get_hw_timing s;
          s = call (Set_timing (t1\<lparr>t_vsync_pol := False, t_hsync_pol := False\<rparr>)) s;
          s = call Get_hw_timing s
      in if t_htotal t2 = 0 \<or> t_vtotal t2 = 0 \<or> t_hfde_end t2 \<le> t_hfde_start t2 \<or>
            t_vfde_end t2 \<le> t_vfde_start t2
         then (Inl ENODEV, call (Log Timing_unprogrammed) s)
         else
           let w = ucast (t_hfde_end t2) - ucast (t_hfde_start t2) + 1 :: u32;
               h = ucast (t_vfde_end t2) - ucast (t_vfde_start t2) + 1 :: u32;
               refresh = 60
           in (Inr (), s\<lparr>native_mode := (soph_fill_mode t2 w h refresh)\<lparr>mode_preferred := True\<rparr>,
                         gop_mode := soph_fill_mode t2 (w div 2) (h div 2) refresh,
                         vbl_period := 1000000000 div ucast refresh,
                         poll_period := 1000000000 div (ucast refresh * ucast SOPH_VBL_OVERSAMPLE)\<rparr>))"

text \<open>The pitch \<open>soph_dumb_create\<close> asks for: \<open>ALIGN(DIV_ROUND_UP(width * bpp, 8), 32)\<close> in 32 bits.\<close>

definition soph_dumb_create :: "u32 \<Rightarrow> u32 \<Rightarrow> u32" where
  "soph_dumb_create width bpp = align_up 5 ((width * bpp + 8 - 1) div 8)"

section \<open>Probe and removal\<close>

record probe_env =
  pe_alloc :: "unit res"
  pe_coerce :: "unit res"
  pe_park :: "u64 option"
  pe_setup :: "unit res"
  pe_of_node :: bool
  pe_host :: "unit res"
  pe_bridge :: "unit res"
  pe_t1 :: disp_timing
  pe_t2 :: disp_timing
  pe_mode_config :: "unit res"
  pe_vblank :: "unit res"
  pe_connector :: "unit res"
  pe_pipe :: "unit res"
  pe_color :: "unit res"
  pe_attach :: "unit res"
  pe_register :: "unit res"

definition and_then :: "unit res \<times> soph \<Rightarrow> (soph \<Rightarrow> unit res \<times> soph) \<Rightarrow> unit res \<times> soph" where
  "and_then r f = (case r of (Inl e, s) \<Rightarrow> (Inl e, s) | (Inr _, s) \<Rightarrow> f s)"

definition act :: "vcall \<Rightarrow> unit res \<Rightarrow> soph \<Rightarrow> unit res \<times> soph" where
  "act c ret s = (ret, call c s)"

text \<open>\<open>devm_drm_dev_alloc\<close> zeroes the device structure; the module's globals stay.
  (\<open>layer_fmt\<close> gets its value in the probe, before anything reads it.)\<close>

definition zero_mode :: drm_mode where
  "zero_mode = \<lparr>hdisplay = 0, hsync_start = 0, hsync_end = 0, htotal = 0, vdisplay = 0,
     vsync_start = 0, vsync_end = 0, vtotal = 0, mode_clock = 0, mode_preferred = False\<rparr>"

definition soph_alloc :: "soph \<Rightarrow> soph" where
  "soph_alloc s = s\<lparr>native_mode := zero_mode, gop_mode := zero_mode, video_layer := False, park_dma := 0,
     layer_csc := SCL_CSC_NONE, layer_pitch_y := 0, layer_pitch_c := 0,
     vbl_period := 0, poll_period := 0, vbl_enabled := False, starving := False, chroma_bad := False,
     chroma_err_old := 0, layer_staged := False, layer_refill := False, dbg_stale := False,
     vbl_count := 0, vbl_gate := 0, vbl_miss := 0, bridge := False\<rparr>"

definition probe_dsi :: "probe_env \<Rightarrow> soph \<Rightarrow> unit res \<times> soph" where
  "probe_dsi e s = (if \<not> dsi_host_registered s then act Mipi_tx_setup (pe_setup e) s else (Inr (), s))"

definition probe_host :: "probe_env \<Rightarrow> soph \<Rightarrow> unit res \<times> soph" where
  "probe_host e s =
     (if \<not> pe_of_node e then (Inr (), s)
      else and_then
        (if \<not> dsi_host_registered s
         then and_then (act Dsi_host_register (pe_host e) s)
                (\<lambda>s. (Inr (), s\<lparr>dsi_host_registered := True\<rparr>))
         else (Inr (), s))
        (\<lambda>s. case act Get_bridge (pe_bridge e) s of
               (Inl err, s) \<Rightarrow> (Inl err, s\<lparr>bridge := False\<rparr>)
             | (Inr _, s) \<Rightarrow> (Inr (), s\<lparr>bridge := True\<rparr>)))"

definition probe_kms :: "probe_env \<Rightarrow> soph \<Rightarrow> unit res \<times> soph" where
  "probe_kms e s =
     and_then (act Mode_config_init (pe_mode_config e) s) (\<lambda>s.
     and_then (act Vblank_init (pe_vblank e) s) (\<lambda>s.
     and_then (act Connector_init (pe_connector e) s) (\<lambda>s.
     and_then (act Pipe_init (pe_pipe e) s) (\<lambda>s.
     and_then (act Color_properties (pe_color e) s) (\<lambda>s.
     and_then (if bridge s then act Bridge_attach (pe_attach e) s else (Inr (), s)) (\<lambda>s.
     act Dev_register (pe_register e) (call Mode_config_reset s)))))))"

definition soph_drm_probe :: "probe_env \<Rightarrow> soph \<Rightarrow> unit res \<times> soph" where
  "soph_drm_probe e s =
     (case pe_alloc e of
        Inl err \<Rightarrow> (Inl err, s)
      | Inr _ \<Rightarrow>
          and_then (act Dma_coerce (pe_coerce e) (soph_alloc s)) (\<lambda>s.
          case pe_park e of
            None \<Rightarrow> (Inl ENOMEM, call Alloc_park s)
          | Some dma \<Rightarrow>
              (let s = (call Alloc_park s)\<lparr>park_dma := dma, layer_fmt := SCL_FMT_MAX\<rparr>;
                   s = call Vip_axi_priority s
               in and_then (probe_dsi e s) (\<lambda>s.
                  and_then (probe_host e s) (\<lambda>s.
                  and_then (soph_read_mode (pe_t1 e) (pe_t2 e) s) (probe_kms e))))))"

definition soph_drm_remove :: "soph \<Rightarrow> soph" where
  "soph_drm_remove s = call Hrtimer_cancel (call Atomic_shutdown (call Dev_unplug s))"

text \<open>\<open>soph_pdev\<close> is the second component: whether the module made its own platform device.\<close>

definition soph_drm_init :: "unit res \<Rightarrow> bool \<Rightarrow> unit res \<Rightarrow> soph \<Rightarrow> (unit res \<times> bool) \<times> soph" where
  "soph_drm_init reg node pdev s =
     (let s = call Driver_register s in
      case reg of
        Inl e \<Rightarrow> ((Inl e, False), s)
      | Inr _ \<Rightarrow>
          if node then ((Inr (), False), s)
          else
            (let s = call Pdev_register s in
             case pdev of
               Inl e \<Rightarrow>
                 (let s = (if dsi_host_registered s
                           then (call Dsi_host_unregister s)\<lparr>dsi_host_registered := False\<rparr> else s)
                  in ((Inl e, False), call Driver_unregister s))
             | Inr _ \<Rightarrow> ((Inr (), True), s)))"

definition soph_drm_exit :: "bool \<Rightarrow> soph \<Rightarrow> soph" where
  "soph_drm_exit own s = call Driver_unregister (if own then call Pdev_unregister s else s)"

section \<open>Calls\<close>

named_theorems soph_defs \<open>the operations of the pipe\<close>

lemma call_sel [simp]:
  "calls (call c s) = calls s @ [c]" "native_mode (call c s) = native_mode s" "gop_mode (call c s) = gop_mode s"
  "video_layer (call c s) = video_layer s" "park_dma (call c s) = park_dma s" "layer_fmt (call c s) = layer_fmt s"
  "layer_csc (call c s) = layer_csc s" "layer_pitch_y (call c s) = layer_pitch_y s"
  "layer_pitch_c (call c s) = layer_pitch_c s" "poll_period (call c s) = poll_period s"
  "starving (call c s) = starving s" "chroma_bad (call c s) = chroma_bad s"
  "chroma_err_old (call c s) = chroma_err_old s" "layer_staged (call c s) = layer_staged s"
  "layer_refill (call c s) = layer_refill s" "dbg_stale (call c s) = dbg_stale s" "vbl_count (call c s) = vbl_count s"
  "vbl_gate (call c s) = vbl_gate s" "vbl_miss (call c s) = vbl_miss s" "soph_gop_scale (call c s) = soph_gop_scale s"
  "vbl_div (call c s) = vbl_div s" "rgb_limited (call c s) = rgb_limited s" "nomodeset (call c s) = nomodeset s"
  "yuv_encoding (call c s) = yuv_encoding s" "yuv_range (call c s) = yuv_range s"
  "chroma_errs (call c s) = chroma_errs s" "gop_cfg (call c s) = gop_cfg s" "pixmem (call c s) = pixmem s"
  "dsi_host_registered (call c s) = dsi_host_registered s" "bridge (call c s) = bridge s"
  "vbl_enabled (call c s) = vbl_enabled s"
  by (simp_all add: call_def)

lemmas soph_defs_all [soph_defs] = soph_gop_enable_def soph_gop_latch_def soph_gop_set_def
  soph_video_load_def soph_video_stage_def soph_video_park_def soph_enable_video_def soph_enable_gop_def
  soph_pipe_enable_def soph_pipe_disable_def soph_pipe_update_def soph_read_working_bank_def
  soph_gop_alpha_fill_def Let_def

section \<open>The driver and the display block\<close>

text \<open>
  How the block treats the calls, as the driver's comments state it. A pixel-path register write
  is pending in the shadow bank until the next frame start, or until \<open>sclr_disp_reg_force_up\<close>,
  copies it to the working bank; \<open>sclr_disp_frame_start_poll\<close> answers whether a frame started
  since the last call and forgets it. The hardware's side is a pair: a frame start not yet polled,
  and a write not yet latched.
\<close>

fun stages :: "vcall \<Rightarrow> bool" where
  "stages (Set_layer f m c) = True"
| "stages (Set_mem m) = True"
| "stages (Set_cfg c) = True"
| "stages (Gop_ow_set c) = True"
| "stages _ = False"

definition hw_call :: "vcall \<Rightarrow> bool \<times> bool \<Rightarrow> bool \<times> bool" where
  "hw_call c h = (if stages c then (fst h, True)
     else if c = Reg_force_up then (fst h, False)
     else if c = Frame_start_poll then (False, snd h) else h)"

definition hw_after :: "soph \<Rightarrow> soph \<Rightarrow> bool \<times> bool \<Rightarrow> bool \<times> bool" where
  "hw_after d d' h = fold hw_call (drop (length (calls d)) (calls d')) h"

text \<open>
  What the video layer is programmed with: \<open>sclr_disp_set_layer\<close> and \<open>sclr_disp_set_cfg\<close> write
  format, input CSC and memory, \<open>sclr_disp_set_mem\<close> the memory alone.
\<close>

fun layer_call :: "vcall \<Rightarrow> (sclr_format \<times> sclr_csc \<times> sclr_mem) option \<Rightarrow> (sclr_format \<times> sclr_csc \<times> sclr_mem) option" where
  "layer_call (Set_layer f m c) l = Some (f, c, m)"
| "layer_call (Set_cfg c) l = Some (cfg_fmt c, cfg_in_csc c, cfg_mem c)"
| "layer_call (Set_mem m) l = map_option (\<lambda>(f, c, _). (f, c, m)) l"
| "layer_call _ l = l"

definition hw_layer :: "vcall list \<Rightarrow> (sclr_format \<times> sclr_csc \<times> sclr_mem) option" where
  "hw_layer cs = fold layer_call cs None"

lemma hw_layer_append [simp]: "hw_layer (cs @ ds) = fold layer_call ds (hw_layer cs)"
  by (simp add: hw_layer_def)

definition layer_inv :: "soph \<Rightarrow> bool" where
  "layer_inv d \<longleftrightarrow> (layer_fmt d \<noteq> SCL_FMT_MAX \<longrightarrow>
     (\<exists>m. hw_layer (calls d) = Some (layer_fmt d, layer_csc d, m) \<and>
        pitch_y m = layer_pitch_y d \<and> pitch_c m = layer_pitch_c d))"

text \<open>
  The system: probe until it succeeds, then commits, timer ticks and frame starts in any order. A
  tick's poll answers what the hardware has; in \<open>update_mid\<close> a frame starts between the commit's
  write and its clear of the status, which \<open>flip_lock\<close> does not exclude.
\<close>

definition soph_load :: "u32 \<Rightarrow> bool \<Rightarrow> bool \<Rightarrow> u32 \<Rightarrow> soph" where
  "soph_load divisor limited nomode cmask = \<lparr>native_mode = zero_mode, gop_mode = zero_mode, video_layer = False,
     park_dma = 0, layer_fmt = SCL_FMT_MAX, layer_csc = SCL_CSC_NONE, layer_pitch_y = 0, layer_pitch_c = 0,
     vbl_period = 0, poll_period = 0, vbl_enabled = False, starving = False, chroma_bad = False,
     chroma_err_old = 0, layer_staged = False, layer_refill = False, dbg_stale = False, vbl_count = 0,
     vbl_gate = 0, vbl_miss = 0, bridge = False, soph_gop_scale = 0, vbl_div = divisor,
     rgb_limited = limited, nomodeset = nomode, yuv_encoding = SOPH_YUV_AUTO, yuv_range = SOPH_RANGE_AUTO,
     chroma_errs = cmask, gop_cfg = \<lparr>ow_en = 0, hscl_en = 0, vscl_en = 0\<rparr>, dsi_host_registered = False,
     pixmem = \<lambda>_. 0, calls = []\<rparr>"

type_synonym sys = "bool \<times> soph \<times> bool \<times> bool"

inductive sys_step :: "sys \<Rightarrow> sys \<Rightarrow> bool" where
  probe: "soph_drm_probe e d = (ret, d') \<Longrightarrow> sys_step (False, d, h) (ret = Inr (), d', hw_after d d' h)"
| frame: "sys_step (r, d, fs, pend) (r, d, True, False)"
| tick: "d' = soph_vbl_fn fs st d \<Longrightarrow> sys_step (True, d, fs, pend) (True, d', hw_after d d' (fs, pend))"
| enable: "d' = soph_pipe_enable st mode ps d \<Longrightarrow> soph_pipe_check d ps mode = Inr () \<Longrightarrow>
     sys_step (True, d, h) (True, d', hw_after d d' h)"
| disable: "d' = soph_pipe_disable d \<Longrightarrow> sys_step (True, d, h) (True, d', hw_after d d' h)"
| update: "d' = soph_pipe_update st mode ps event running d \<Longrightarrow> soph_pipe_check d ps mode = Inr () \<Longrightarrow>
     sys_step (True, d, h) (True, d', hw_after d d' h)"
| update_mid: "d' = soph_pipe_update st mode ps event running d \<Longrightarrow> soph_pipe_check d ps mode = Inr () \<Longrightarrow>
     ps_fb ps = Some fb \<Longrightarrow> \<not> nomodeset d \<Longrightarrow> sys_step (True, d, h) (True, d', False, False)"
| vbl_on: "d' = soph_enable_vblank d \<Longrightarrow> sys_step (True, d, h) (True, d', hw_after d d' h)"
| vbl_off: "d' = soph_disable_vblank d \<Longrightarrow> sys_step (True, d, h) (True, d', hw_after d d' h)"
| set_params: "sys_step (r, d, h)
     (r, d\<lparr>vbl_div := n, rgb_limited := l, yuv_encoding := ye, yuv_range := yr\<rparr>, h)"

definition sys_inv :: "sys \<Rightarrow> bool" where
  "sys_inv = (\<lambda>(r, d, fs, pend). (fs \<longrightarrow> \<not> pend) \<and> vbl_miss d \<le> 8 \<and> layer_inv d \<and>
     (\<not> r \<longrightarrow> layer_fmt d = SCL_FMT_MAX))"

text \<open>Operations that make no pixel-path call and keep what the layer bookkeeping knows.\<close>

definition inert :: "vcall \<Rightarrow> bool" where
  "inert c \<longleftrightarrow> \<not> stages c \<and> c \<noteq> Reg_force_up \<and> c \<noteq> Frame_start_poll"

definition quiet :: "soph \<Rightarrow> soph \<Rightarrow> bool" where
  "quiet s t \<longleftrightarrow> (\<exists>new. calls t = calls s @ new \<and> (\<forall>c \<in> set new. inert c)) \<and>
     layer_fmt t = layer_fmt s \<and> layer_csc t = layer_csc s \<and> layer_pitch_y t = layer_pitch_y s \<and>
     layer_pitch_c t = layer_pitch_c s \<and> vbl_miss t = vbl_miss s"

lemma quiet_refl [simp, intro]: "quiet s s"
  by (simp add: quiet_def)

lemma quiet_trans [trans]: "quiet s t \<Longrightarrow> quiet t u \<Longrightarrow> quiet s u"
  unfolding quiet_def by force

lemma quiet_call: "inert c \<Longrightarrow> quiet s t \<Longrightarrow> quiet s (call c t)"
  unfolding quiet_def by force

lemma quiet_act: "inert c \<Longrightarrow> quiet s (snd (act c ret s))"
  by (simp add: act_def quiet_call)

lemma quiet_then:
  "quiet s (snd r) \<Longrightarrow> (\<And>t. quiet t (snd (f t))) \<Longrightarrow> quiet s (snd (and_then r f))"
  by (auto simp: and_then_def intro: quiet_trans split: prod.splits sum.splits)

lemma fold_inert:
  assumes "\<forall>c \<in> set new. inert c"
  shows "fold hw_call new h = h" and "fold layer_call new l = l"
proof -
  have c: "hw_call c h = h" "layer_call c l = l" if "inert c" for c h l
    using that by (cases c; simp add: inert_def hw_call_def)+
  show "fold hw_call new h = h" using assms by (induction new) (simp_all add: c)
  show "fold layer_call new l = l" using assms by (induction new) (simp_all add: c)
qed

lemma quiet_hw:
  assumes "quiet s t"
  shows "hw_after s t h = h" and "layer_inv t = layer_inv s" and "vbl_miss t = vbl_miss s"
    and "layer_fmt t = layer_fmt s"
proof -
  obtain new where new: "calls t = calls s @ new" "\<forall>c \<in> set new. inert c"
    using assms by (auto simp: quiet_def)
  then show "hw_after s t h = h" by (simp add: hw_after_def fold_inert)
  have "hw_layer (calls t) = hw_layer (calls s)"
    using new by (simp add: hw_layer_def fold_inert)
  with assms show "layer_inv t = layer_inv s" by (simp add: layer_inv_def quiet_def)
qed (use assms in \<open>simp_all add: quiet_def\<close>)

lemma sys_inv_quiet:
  assumes "sys_inv (r, s, h)" and "quiet s t" and "\<not> r' \<longrightarrow> layer_fmt s = SCL_FMT_MAX"
  shows "sys_inv (r', t, hw_after s t h)"
  using assms quiet_hw [OF assms(2)] by (cases h) (auto simp: sys_inv_def)

lemma quiet_chroma: "quiet s (soph_check_chroma st s)"
  by (auto simp: soph_check_chroma_def Let_def quiet_def inert_def)

lemma quiet_underrun: "quiet s (soph_check_underrun st s)"
proof (cases "video_layer s")
  case False
  then show ?thesis by (auto simp: soph_check_underrun_def Let_def quiet_def inert_def)
next
  case True
  have q: "quiet s (call (Get_dbg_status False) s)"
    "quiet s (call (Log l) ((call (Get_dbg_status False) s)\<lparr>starving := b\<rparr>))" for l b
    by (simp_all add: quiet_def inert_def)
  then show ?thesis
    using True by (simp add: soph_check_underrun_def Let_def quiet_trans [OF q(1) quiet_chroma]
      quiet_trans [OF q(2) quiet_chroma])
qed

lemma quiet_report: "quiet s (soph_vbl_report st v s)"
proof -
  have "quiet s (s\<lparr>vbl_gate := g\<rparr>)" "quiet s ((call Crtc_handle_vblank (s\<lparr>vbl_gate := g\<rparr>))\<lparr>vbl_count := n\<rparr>)" for g n
    by (simp_all add: quiet_def inert_def)
  then show ?thesis
    by (auto simp: soph_vbl_report_def Let_def intro: quiet_trans [OF _ quiet_underrun])
qed

lemma quiet_read_mode: "quiet s (snd (soph_read_mode t1 t2 s))"
  by (simp add: soph_read_mode_def Let_def soph_read_working_bank_def quiet_def inert_def)

lemma quiet_probe_kms: "quiet s (snd (probe_kms e s))"
proof -
  have reset: "quiet t (snd (act Dev_register r (call Mode_config_reset t)))" for t r
    by (simp add: act_def quiet_call inert_def)
  show ?thesis unfolding probe_kms_def
    by (intro quiet_then quiet_act reset) (simp_all add: inert_def quiet_act)
qed

lemma quiet_probe_host: "quiet s (snd (probe_host e s))"
proof -
  have "quiet t (snd (case act Get_bridge r t of (Inl err, s) \<Rightarrow> (Inl err, s\<lparr>bridge := False\<rparr>)
      | (Inr _, s) \<Rightarrow> (Inr (), s\<lparr>bridge := True\<rparr>)))" for t and r :: "unit res"
    by (cases r) (simp_all add: act_def quiet_def inert_def)
  moreover have "quiet t (t\<lparr>dsi_host_registered := True\<rparr>)" for t by (simp add: quiet_def)
  ultimately show ?thesis
    by (auto simp: probe_host_def inert_def intro!: quiet_then quiet_act)
qed

lemma quiet_probe_dsi: "quiet s (snd (probe_dsi e s))"
  by (simp add: probe_dsi_def quiet_act inert_def)

text \<open>A probe, failed or not, leaves the pixel paths alone and nothing known about the layer.\<close>

lemma sys_inv_probe:
  assumes "sys_inv (False, d, h)" and p: "soph_drm_probe e d = (ret, d')"
  shows "sys_inv (ret = Inr (), d', hw_after d d' h)"
proof -
  have max: "layer_fmt d = SCL_FMT_MAX" and h: "fst h \<longrightarrow> \<not> snd h"
    using assms(1) by (auto simp: sys_inv_def split: prod.splits)
  have "(\<exists>t. quiet t d' \<and> (\<exists>new. calls t = calls d @ new \<and> (\<forall>c \<in> set new. inert c)) \<and>
      layer_fmt t = SCL_FMT_MAX \<and> vbl_miss t = 0) \<or> d' = d"
  proof (cases "pe_alloc e")
    case (Inl err)
    then show ?thesis using p by (simp add: soph_drm_probe_def)
  next
    case (Inr u)
    let ?a = "call Dma_coerce (soph_alloc d)"
    let ?t = "call Vip_axi_priority ((call Alloc_park ?a)\<lparr>park_dma := the (pe_park e), layer_fmt := SCL_FMT_MAX\<rparr>)"
    have a: "\<exists>new. calls ?a = calls d @ new \<and> (\<forall>c \<in> set new. inert c)" "layer_fmt ?a = SCL_FMT_MAX" "vbl_miss ?a = 0"
      "\<exists>new. calls ?t = calls d @ new \<and> (\<forall>c \<in> set new. inert c)" "layer_fmt ?t = SCL_FMT_MAX" "vbl_miss ?t = 0"
      using max by (simp_all add: soph_alloc_def inert_def)
    show ?thesis
    proof (cases "pe_coerce e")
      case (Inl err)
      then show ?thesis using p Inr a(1-3) by (auto simp: soph_drm_probe_def act_def and_then_def)
    next
      case (Inr v)
      show ?thesis
      proof (cases "pe_park e")
        case None
        then have "d' = call Alloc_park ?a"
          using p \<open>pe_alloc e = Inr u\<close> Inr by (simp add: soph_drm_probe_def act_def and_then_def)
        then have "quiet ?a d'" by (simp add: quiet_call inert_def)
        with a(1-3) show ?thesis by blast
      next
        case (Some dma)
        then have "d' = snd (and_then (probe_dsi e ?t) (\<lambda>s. and_then (probe_host e s) (\<lambda>s.
                  and_then (soph_read_mode (pe_t1 e) (pe_t2 e) s) (probe_kms e))))"
          using p \<open>pe_alloc e = Inr u\<close> Inr by (simp add: soph_drm_probe_def act_def and_then_def Let_def)
        then have "quiet ?t d'"
          by (auto intro!: quiet_then quiet_probe_dsi quiet_probe_host quiet_read_mode quiet_probe_kms)
        with a(4-6) show ?thesis by blast
      qed
    qed
  qed
  then show ?thesis
  proof
    assume "d' = d"
    with assms(1) show ?thesis
      using sys_inv_quiet [OF assms(1) quiet_refl, of "ret = Inr ()"] max by simp
  next
    assume "\<exists>t. quiet t d' \<and> (\<exists>new. calls t = calls d @ new \<and> (\<forall>c \<in> set new. inert c)) \<and>
      layer_fmt t = SCL_FMT_MAX \<and> vbl_miss t = 0"
    then obtain t new new' where t: "quiet t d'" "calls t = calls d @ new" "\<forall>c \<in> set new. inert c"
      "layer_fmt t = SCL_FMT_MAX" "vbl_miss t = 0" "calls d' = calls t @ new'" "\<forall>c \<in> set new'. inert c"
      by (auto simp: quiet_def)
    then have "hw_after d d' h = h" by (simp add: hw_after_def fold_inert)
    moreover have "layer_fmt d' = SCL_FMT_MAX" "vbl_miss d' = 0"
      using quiet_hw [OF t(1)] t(4,5) by simp_all
    ultimately show ?thesis using h by (cases h) (simp add: sys_inv_def layer_inv_def)
  qed
qed

subsection \<open>Each operation keeps the invariant\<close>

lemma hw_after_app: "calls t = calls s @ new \<Longrightarrow> hw_after s t h = fold hw_call new h"
  by (simp add: hw_after_def)

lemma hw_after_quiet:
  assumes "calls t = calls s @ new" and "quiet t u"
  shows "hw_after s u h = fold hw_call new h"
proof -
  obtain new' where "calls u = calls t @ new'" "\<forall>c \<in> set new'. inert c"
    using assms(2) by (auto simp: quiet_def)
  then show ?thesis using assms(1) by (simp add: hw_after_def fold_inert)
qed

definition poll_calls :: "bool \<Rightarrow> soph \<Rightarrow> vcall list" where
  "poll_calls fs s = Frame_start_poll # (if fs \<and> dbg_stale s then [Get_dbg_status True] else [])"

lemma soph_vbl_poll_eq:
  "calls (snd (soph_vbl_poll fs s)) = calls s @ poll_calls fs s"
  "layer_fmt (snd (soph_vbl_poll fs s)) = layer_fmt s" "layer_csc (snd (soph_vbl_poll fs s)) = layer_csc s"
  "layer_pitch_y (snd (soph_vbl_poll fs s)) = layer_pitch_y s"
  "layer_pitch_c (snd (soph_vbl_poll fs s)) = layer_pitch_c s"
  "vbl_gate (snd (soph_vbl_poll fs s)) = vbl_gate s" "vbl_div (snd (soph_vbl_poll fs s)) = vbl_div s"
  "fst (soph_vbl_poll fs s) \<longleftrightarrow> fs \<or> vbl_miss s + 1 > 8"
  "vbl_miss (snd (soph_vbl_poll fs s)) = (if fs \<or> vbl_miss s + 1 > 8 then 0 else vbl_miss s + 1)"
  by (simp_all add: soph_vbl_poll_def poll_calls_def Let_def SOPH_VBL_OVERSAMPLE_def)

lemma soph_vbl_fn_eq:
  "soph_vbl_fn fs st s =
     (let p = soph_vbl_poll fs s; t = soph_vbl_report st (fst p) (snd p) in call (Hrtimer_forward (poll_period t)) t)"
  by (simp add: soph_vbl_fn_def Let_def split_beta)

lemma quiet_tick: "quiet (snd (soph_vbl_poll fs s)) (soph_vbl_fn fs st s)"
  unfolding soph_vbl_fn_eq Let_def by (intro quiet_call quiet_report) (simp add: inert_def)

lemma layer_inv_same:
  "layer_inv s \<Longrightarrow> hw_layer (calls t) = hw_layer (calls s) \<Longrightarrow> layer_fmt t = layer_fmt s \<Longrightarrow>
   layer_csc t = layer_csc s \<Longrightarrow> layer_pitch_y t = layer_pitch_y s \<Longrightarrow> layer_pitch_c t = layer_pitch_c s \<Longrightarrow>
   layer_inv t"
  by (simp add: layer_inv_def)

lemma sys_inv_tick:
  assumes "sys_inv (True, d, fs, pend)"
  shows "sys_inv (True, soph_vbl_fn fs st d, hw_after d (soph_vbl_fn fs st d) (fs, pend))"
proof -
  let ?p = "snd (soph_vbl_poll fs d)"
  have "hw_after d (soph_vbl_fn fs st d) (fs, pend) = (False, pend)"
    using hw_after_quiet [OF soph_vbl_poll_eq(1) quiet_tick] by (simp add: poll_calls_def hw_call_def)
  moreover have "layer_inv ?p"
  proof (rule layer_inv_same)
    show "layer_inv d" using assms by (simp add: sys_inv_def)
    show "hw_layer (calls ?p) = hw_layer (calls d)"
      unfolding soph_vbl_poll_eq(1) poll_calls_def hw_layer_def by simp
  qed (rule soph_vbl_poll_eq)+
  moreover have "vbl_miss ?p \<le> 8" by (simp add: soph_vbl_poll_eq not_less)
  ultimately show ?thesis using quiet_hw [OF quiet_tick [of fs d st]] by (simp add: sys_inv_def)
qed

lemma soph_gop_alpha_fill_sel [simp]:
  "calls (soph_gop_alpha_fill fb s) = calls s" "layer_fmt (soph_gop_alpha_fill fb s) = layer_fmt s"
  "layer_csc (soph_gop_alpha_fill fb s) = layer_csc s" "vbl_miss (soph_gop_alpha_fill fb s) = vbl_miss s"
  "layer_pitch_y (soph_gop_alpha_fill fb s) = layer_pitch_y s" "park_dma (soph_gop_alpha_fill fb s) = park_dma s"
  "layer_pitch_c (soph_gop_alpha_fill fb s) = layer_pitch_c s" "nomodeset (soph_gop_alpha_fill fb s) = nomodeset s"
  "soph_gop_scale (soph_gop_alpha_fill fb s) = soph_gop_scale s" "gop_cfg (soph_gop_alpha_fill fb s) = gop_cfg s"
  "rgb_limited (soph_gop_alpha_fill fb s) = rgb_limited s"
  by (simp_all add: soph_gop_alpha_fill_def)

lemmas pipe_defs = soph_gop_enable_def soph_gop_latch_def soph_gop_set_def soph_video_load_def
  soph_video_park_def soph_enable_video_def soph_enable_gop_def soph_read_working_bank_def Let_def

text \<open>Operations that leave the layer bookkeeping right, whatever they do to the block.\<close>

definition keeps :: "soph \<Rightarrow> soph \<Rightarrow> bool" where
  "keeps s t \<longleftrightarrow> layer_inv t \<and> vbl_miss t = vbl_miss s \<and> (\<exists>new. calls t = calls s @ new)"

lemma enable_video_keeps: "keeps s (soph_enable_video st ps fb s)"
  by (simp add: pipe_defs layer_inv_def keeps_def)

lemma enable_gop_keeps: "keeps s (soph_enable_gop ps fb s)"
  by (simp add: pipe_defs layer_inv_def keeps_def)

lemma stage_keeps: "layer_inv s \<Longrightarrow> keeps s (soph_video_stage st ps fb s)"
  by (auto simp: soph_video_stage_def soph_video_load_def Let_def layer_inv_def keeps_def)

lemma layer_inv_call: "layer_inv s \<Longrightarrow> (\<And>l. layer_call c l = l) \<Longrightarrow> layer_inv (call c s)"
  by (simp add: layer_inv_def)

lemma keeps_call: "keeps s t \<Longrightarrow> (\<And>l. layer_call c l = l) \<Longrightarrow> keeps s (call c t)"
  by (auto simp: keeps_def intro: layer_inv_call)

lemma keeps_trans [trans]: "keeps s t \<Longrightarrow> keeps t u \<Longrightarrow> keeps s u"
  by (auto simp: keeps_def)

lemma keeps_refl: "layer_inv s \<Longrightarrow> keeps s s"
  by (simp add: keeps_def)

lemma keeps_gop_set: "keeps s t \<Longrightarrow> keeps s (soph_gop_set fb a t)"
  by (simp add: soph_gop_set_def keeps_call)

lemma keeps_alpha: "keeps s t \<Longrightarrow> keeps s (soph_gop_alpha_fill fb t)"
  by (simp add: keeps_def layer_inv_def)

lemma hw_after_last:
  assumes "keeps s t"
  shows "\<not> stages c \<Longrightarrow> hw_after s (call c t) h = hw_call c (hw_after s t h)"
  using assms by (auto simp: keeps_def hw_after_def)

lemma flip_write_keeps:
  assumes inv: "layer_inv s"
  shows "keeps s (soph_flip_write st video ps fb s)"
proof -
  have w: "keeps s (call Wmb s)" using inv by (intro keeps_call keeps_refl) simp_all
  then have "keeps (call Wmb s) (soph_video_stage st ps fb (call Wmb s))"
    by (intro stage_keeps) (simp add: keeps_def)
  with w have "keeps s (soph_video_stage st ps fb (call Wmb s))" by (rule keeps_trans)
  moreover have "keeps s (soph_gop_set fb (ps_addr0 ps) (call Wmb (soph_gop_alpha_fill fb s)))"
    using inv by (intro keeps_gop_set keeps_call keeps_alpha keeps_refl) simp_all
  ultimately show ?thesis by (simp add: soph_flip_write_def Let_def)
qed

lemma update_keeps: "layer_inv s \<Longrightarrow> keeps s (soph_pipe_update st mode ps event running s)"
  by (auto simp: soph_pipe_update_def Let_def intro!: keeps_call keeps_refl flip_write_keeps
      split: option.splits)

lemma park_keeps: "keeps s (soph_pipe_disable s)" if "layer_inv s"
  using that by (auto simp: soph_pipe_disable_def pipe_defs keeps_def layer_inv_def)

lemma enable_keeps: "layer_inv s \<Longrightarrow> keeps s (soph_pipe_enable st mode ps s)"
proof -
  assume inv: "layer_inv s"
  let ?s = "s\<lparr>video_layer := soph_mode_is_native s mode\<rparr>"
  let ?b = "call (Ddr_ctrl_patch True) (call Vip_axi_priority (soph_read_working_bank ?s))"
  have s: "keeps s ?s" "keeps s ?b"
    using inv by (simp_all add: keeps_def layer_inv_def soph_read_working_bank_def)
  have v: "keeps s (soph_enable_video st ps fb ?b)" "keeps s (soph_enable_gop ps fb ?b)" for fb
    using keeps_trans [OF s(2)] enable_video_keeps enable_gop_keeps by blast+
  have fin: "keeps s (t\<lparr>starving := False, chroma_bad := False, dbg_stale := True\<rparr>)" if "keeps s t" for t
    using that by (simp add: keeps_def layer_inv_def)
  show ?thesis
    using s v by (auto simp: soph_pipe_enable_def Let_def intro!: keeps_call fin split: option.splits)
qed

text \<open>After a poll nothing is left to report; after a forced update nothing is pending.\<close>

definition settled :: "bool \<times> bool \<Rightarrow> bool" where
  "settled h \<longleftrightarrow> (fst h \<longrightarrow> \<not> snd h)"

lemma settled_poll: "keeps s t \<Longrightarrow> settled (hw_after s (call Frame_start_poll t) h)"
  and settled_force: "keeps s t \<Longrightarrow> settled (hw_after s (call Reg_force_up t) h)"
  by (simp_all add: hw_after_last settled_def hw_call_def)

lemma settled_inert: "keeps s t \<Longrightarrow> inert c \<Longrightarrow> settled (hw_after s t h) \<Longrightarrow> settled (hw_after s (call c t) h)"
  by (simp add: hw_after_last inert_def hw_call_def)

lemma hw_after_refl [simp]: "hw_after s s h = h"
  by (simp add: hw_after_def)

lemma hw_after_cong: "calls t = calls t' \<Longrightarrow> hw_after s t h = hw_after s t' h"
  by (simp add: hw_after_def)

lemma update_settled:
  assumes inv: "layer_inv s" and "settled h"
  shows "settled (hw_after s (soph_pipe_update st mode ps event running s) h)"
proof -
  define t where "t = (case ps_fb ps of
      Some fb \<Rightarrow> if nomodeset s then s
        else call Frame_start_poll (soph_flip_write st (soph_mode_is_native s mode) ps fb s)
    | None \<Rightarrow> s)"
  have "keeps s t"
    using inv by (auto simp: t_def intro!: keeps_call keeps_refl flip_write_keeps split: option.splits)
  moreover have "settled (hw_after s t h)"
    using assms by (auto simp: t_def intro!: settled_poll flip_write_keeps split: option.splits)
  ultimately have "settled (hw_after s (call c t) h)" if "inert c" for c
    using that by (intro settled_inert)
  with \<open>settled (hw_after s t h)\<close> show ?thesis
    by (simp add: soph_pipe_update_def Let_def t_def [symmetric] inert_def)
qed

lemma disable_settled:
  assumes inv: "layer_inv s" and "settled h"
  shows "settled (hw_after s (soph_pipe_disable s) h)"
  using assms by (simp add: soph_pipe_disable_def pipe_defs hw_after_def hw_call_def settled_def)

lemma enable_settled:
  assumes inv: "layer_inv s" and "settled h"
  shows "settled (hw_after s (soph_pipe_enable st mode ps s) h)"
proof -
  let ?s = "s\<lparr>video_layer := soph_mode_is_native s mode\<rparr>"
  let ?b = "call (Ddr_ctrl_patch True) (call Vip_axi_priority (soph_read_working_bank ?s))"
  let ?e = "\<lambda>t. (call Reg_force_up t)\<lparr>starving := False, chroma_bad := False, dbg_stale := True\<rparr>"
  have s: "keeps s ?s" "keeps s ?b"
    using inv by (simp_all add: keeps_def layer_inv_def soph_read_working_bank_def)
  have v: "keeps s (soph_enable_video st ps fb ?b)" "keeps s (soph_enable_gop ps fb ?b)" for fb
    using keeps_trans [OF s(2)] enable_video_keeps enable_gop_keeps by blast+
  have fin: "settled (hw_after s (call Crtc_vblank_on (?e t)) h)" if "keeps s t" for t
  proof -
    have "hw_after s (?e t) h = hw_after s (call Reg_force_up t) h" by (rule hw_after_cong) simp
    moreover have "keeps s (?e t)" using that by (auto simp: keeps_def layer_inv_def)
    ultimately show ?thesis using settled_force [OF that, of h] by (simp add: settled_inert inert_def)
  qed
  have "settled (hw_after s (call Crtc_vblank_on ?s) h)"
    using assms(2) by (simp add: hw_after_def hw_call_def)
  then show ?thesis
    using v by (auto simp: soph_pipe_enable_def Let_def intro!: fin keeps_call split: option.splits)
qed

lemma sys_inv_iff:
  "sys_inv (r, s, h) \<longleftrightarrow>
     settled h \<and> vbl_miss s \<le> 8 \<and> layer_inv s \<and> (\<not> r \<longrightarrow> layer_fmt s = SCL_FMT_MAX)"
  by (cases h) (simp add: sys_inv_def settled_def)

lemma sys_inv_keeps:
  "sys_inv (True, s, h) \<Longrightarrow> keeps s t \<Longrightarrow> settled h' \<Longrightarrow> sys_inv (True, t, h')"
  unfolding sys_inv_iff keeps_def by simp

lemma sys_inv_step:
  assumes "sys_step x y" and "sys_inv x"
  shows "sys_inv y"
  using assms
proof (induction rule: sys_step.induct)
  case (probe e d ret d' h)
  then show ?case by (intro sys_inv_probe)
next
  case (frame r d fs pend)
  then show ?case by (simp add: sys_inv_iff settled_def)
next
  case (tick d' fs st d pend)
  then show ?case using sys_inv_tick by blast
next
  case (enable d' st mode ps d h)
  then have "layer_inv d" "settled h" by (simp_all add: sys_inv_iff)
  with enable show ?case by (auto intro: sys_inv_keeps enable_keeps enable_settled)
next
  case (disable d' d h)
  then have "layer_inv d" "settled h" by (simp_all add: sys_inv_iff)
  with disable show ?case by (auto intro: sys_inv_keeps park_keeps disable_settled)
next
  case (update d' st mode ps event running d h)
  then have "layer_inv d" "settled h" by (simp_all add: sys_inv_iff)
  with update show ?case by (auto intro: sys_inv_keeps update_keeps update_settled)
next
  case (update_mid d' st mode ps event running d fb h)
  then have "layer_inv d" "settled (False, False)" by (simp_all add: sys_inv_iff settled_def)
  with update_mid show ?case by (auto intro: sys_inv_keeps update_keeps)
next
  case (vbl_on d' d h)
  have "quiet d d'" by (simp add: vbl_on(1) soph_enable_vblank_def quiet_def inert_def)
  from sys_inv_quiet [OF vbl_on(2) this] show ?case by simp
next
  case (vbl_off d' d h)
  have "quiet d d'" by (simp add: vbl_off(1) soph_disable_vblank_def quiet_def inert_def)
  from sys_inv_quiet [OF vbl_off(2) this] show ?case by simp
next
  case (set_params r d h n l ye yr)
  then show ?case by (simp add: sys_inv_iff layer_inv_def)
qed

definition sys_start :: "u32 \<Rightarrow> bool \<Rightarrow> bool \<Rightarrow> u32 \<Rightarrow> sys" where
  "sys_start divisor limited nomode cmask = (False, soph_load divisor limited nomode cmask, False, False)"

interpretation sd: step_invariant "sys_start divisor limited nomode cmask" sys_step sys_inv
  for divisor limited nomode cmask
  by unfold_locales
     (simp add: sys_start_def sys_inv_def soph_load_def layer_inv_def, rule sys_inv_step)

section \<open>A probed display\<close>

text \<open>The 720p line as the timing registers hold it, a probe that succeeds on it, and a commit.\<close>

definition t720 :: disp_timing where
  "t720 = \<lparr>t_htotal = 1649, t_vtotal = 749, t_hsync_start = 0, t_hsync_end = 39, t_vsync_start = 0,
     t_vsync_end = 4, t_hfde_start = 260, t_hfde_end = 1539, t_vfde_start = 25, t_vfde_end = 744,
     t_vsync_pol = False, t_hsync_pol = False\<rparr>"

definition pe720 :: probe_env where
  "pe720 = \<lparr>pe_alloc = Inr (), pe_coerce = Inr (), pe_park = Some 0x90000000, pe_setup = Inr (),
     pe_of_node = True, pe_host = Inr (), pe_bridge = Inr (), pe_t1 = t720, pe_t2 = t720,
     pe_mode_config = Inr (), pe_vblank = Inr (), pe_connector = Inr (), pe_pipe = Inr (),
     pe_color = Inr (), pe_attach = Inr (), pe_register = Inr ()\<rparr>"

definition soph_w0 :: soph where
  "soph_w0 = soph_load 1 True False 0xf0"

definition soph_w1 :: soph where
  "soph_w1 = snd (soph_drm_probe pe720 soph_w0)"

definition rgb_fb :: framebuffer where
  "rgb_fb = \<lparr>fb_format = RGB888, fb_width = 1280, fb_height = 720, fb_pitch0 = 3840, fb_pitch1 = 0,
     fb_offset0 = 0, fb_vaddr = None\<rparr>"

definition rgb_ps :: plane_state where
  "rgb_ps = \<lparr>ps_fb = Some rgb_fb, ps_addr0 = 0x80000000, ps_addr1 = 0, ps_bt709 = False, ps_full_range = False\<rparr>"

definition st_ok :: dbg_status where
  "st_ok = \<lparr>st_raw = 0, bw_fail = False, osd_bw_fail = False, lb_empty_u = False\<rparr>"

lemma probe_w0: "soph_drm_probe pe720 soph_w0 = (Inr (), soph_w1)"
  by (rule prod_eqI)
     (simp_all add: soph_w1_def soph_drm_probe_def pe720_def t720_def and_then_def act_def probe_dsi_def probe_host_def
       probe_kms_def soph_read_mode_def Let_def)

lemma soph_w1_mode:
  "hdisplay (native_mode soph_w1) = 1280" "vdisplay (native_mode soph_w1) = 720"
  "hdisplay (gop_mode soph_w1) = 640" "vdisplay (gop_mode soph_w1) = 360"
  "mode_clock (native_mode soph_w1) = 74250" "mode_clock (gop_mode soph_w1) = 74250"
  "nomodeset soph_w1 = False" "vbl_gate soph_w1 = 0" "vbl_div soph_w1 = 1" "vbl_miss soph_w1 = 0"
  "poll_period soph_w1 = 4166666"
  by (simp_all add: soph_w1_def soph_w0_def soph_load_def soph_alloc_def soph_drm_probe_def pe720_def t720_def and_then_def
      act_def probe_dsi_def probe_host_def probe_kms_def soph_read_mode_def Let_def soph_read_working_bank_def
      soph_fill_mode_def SOPH_VBL_OVERSAMPLE_def)

lemma soph_w1_reach: "\<exists>h. reach (sys_start 1 True False 0xf0) sys_step (True, soph_w1, h)"
proof -
  have "reach (sys_start 1 True False 0xf0) sys_step (False, soph_w0, False, False)"
    using reach.start [of "sys_start 1 True False 0xf0" sys_step] by (simp add: sys_start_def soph_w0_def)
  from reach.step [OF this sys_step.probe [OF probe_w0]]
  have "reach (sys_start 1 True False 0xf0) sys_step (True, soph_w1, hw_after soph_w0 soph_w1 (False, False))"
    by simp
  then show ?thesis by (rule exI)
qed

section \<open>Properties\<close>

definition new_calls :: "soph \<Rightarrow> soph \<Rightarrow> vcall list" where
  "new_calls s t = drop (length (calls s)) (calls t)"

definition gate_limit :: "soph \<Rightarrow> u32" where
  "gate_limit s = (if vbl_div s \<noteq> 0 then vbl_div s else 1)"

text \<open>When a tick completes flips, and how its counters move.\<close>

lemma underrun_vbl:
  "vbl_gate (soph_check_underrun st s) = vbl_gate s" "vbl_div (soph_check_underrun st s) = vbl_div s"
  "\<exists>new. calls (soph_check_underrun st s) = calls s @ new \<and> Crtc_handle_vblank \<notin> set new"
  by (auto simp: soph_check_underrun_def soph_check_chroma_def Let_def)

lemma report_vbl:
  "vbl_gate (soph_vbl_report st v s) =
     (if v then (if vbl_gate s + 1 \<ge> gate_limit s then 0 else vbl_gate s + 1) else vbl_gate s)"
  "vbl_div (soph_vbl_report st v s) = vbl_div s"
  "\<exists>new. calls (soph_vbl_report st v s) = calls s @ new \<and>
     (Crtc_handle_vblank \<in> set new \<longleftrightarrow> v \<and> vbl_gate s + 1 \<ge> gate_limit s)"
proof -
  show "vbl_gate (soph_vbl_report st v s) =
     (if v then (if vbl_gate s + 1 \<ge> gate_limit s then 0 else vbl_gate s + 1) else vbl_gate s)"
    "vbl_div (soph_vbl_report st v s) = vbl_div s"
    by (simp_all add: soph_vbl_report_def Let_def gate_limit_def underrun_vbl)
  show "\<exists>new. calls (soph_vbl_report st v s) = calls s @ new \<and>
     (Crtc_handle_vblank \<in> set new \<longleftrightarrow> v \<and> vbl_gate s + 1 \<ge> gate_limit s)"
  proof (cases "v \<and> vbl_gate s + 1 \<ge> gate_limit s")
    case True
    let ?t = "(call Crtc_handle_vblank (s\<lparr>vbl_gate := 0\<rparr>))\<lparr>vbl_count := vbl_count s + 1\<rparr>"
    obtain new where "calls (soph_check_underrun st (?t\<lparr>vbl_count := 0\<rparr>)) = calls (?t\<lparr>vbl_count := 0\<rparr>) @ new"
      using underrun_vbl(3) by blast
    with True show ?thesis by (auto simp: soph_vbl_report_def Let_def gate_limit_def)
  qed (auto simp: soph_vbl_report_def Let_def gate_limit_def)
qed

lemma tick_vbl:
  "vbl_miss (soph_vbl_fn fs st s) = (if fs \<or> vbl_miss s + 1 > 8 then 0 else vbl_miss s + 1)"
  "vbl_gate (soph_vbl_fn fs st s) =
     (if fs \<or> vbl_miss s + 1 > 8 then (if vbl_gate s + 1 \<ge> gate_limit s then 0 else vbl_gate s + 1)
      else vbl_gate s)"
  "vbl_div (soph_vbl_fn fs st s) = vbl_div s"
  "Crtc_handle_vblank \<in> set (new_calls s (soph_vbl_fn fs st s)) \<longleftrightarrow>
     (fs \<or> vbl_miss s + 1 > 8) \<and> vbl_gate s + 1 \<ge> gate_limit s"
proof -
  let ?p = "snd (soph_vbl_poll fs s)" and ?v = "fst (soph_vbl_poll fs s)"
  have lim: "gate_limit ?p = gate_limit s" by (simp add: gate_limit_def soph_vbl_poll_eq)
  show "vbl_miss (soph_vbl_fn fs st s) = (if fs \<or> vbl_miss s + 1 > 8 then 0 else vbl_miss s + 1)"
    using quiet_hw(3) [OF quiet_tick, of fs st s] by (simp add: soph_vbl_poll_eq)
  show "vbl_gate (soph_vbl_fn fs st s) =
     (if fs \<or> vbl_miss s + 1 > 8 then (if vbl_gate s + 1 \<ge> gate_limit s then 0 else vbl_gate s + 1)
      else vbl_gate s)"
    "vbl_div (soph_vbl_fn fs st s) = vbl_div s"
    unfolding soph_vbl_fn_eq Let_def by (simp_all add: report_vbl soph_vbl_poll_eq lim)
  obtain new where new: "calls (soph_vbl_report st ?v ?p) = calls ?p @ new"
      "Crtc_handle_vblank \<in> set new \<longleftrightarrow> ?v \<and> vbl_gate ?p + 1 \<ge> gate_limit ?p"
    using report_vbl(3) by blast
  have "new_calls s (soph_vbl_fn fs st s) =
      poll_calls fs s @ new @ [Hrtimer_forward (poll_period (soph_vbl_report st ?v ?p))]"
    unfolding soph_vbl_fn_eq Let_def new_calls_def by (simp add: new(1) soph_vbl_poll_eq(1))
  then show "Crtc_handle_vblank \<in> set (new_calls s (soph_vbl_fn fs st s)) \<longleftrightarrow>
     (fs \<or> vbl_miss s + 1 > 8) \<and> vbl_gate s + 1 \<ge> gate_limit s"
    using new(2) by (simp add: poll_calls_def soph_vbl_poll_eq lim)
qed

lemma miss_wrap: "x \<le> 8 \<Longrightarrow> x + 1 > 8 \<Longrightarrow> x = (8 :: u32)"
  by (metis (no_types, lifting) add.commute inc_le le_less less_le_not_le linorder_not_less)



lemma ucast_u16_id: "x \<le> 0xffff \<Longrightarrow> ucast (ucast (x :: u32) :: u16) = x"
  by (rule unsigned_word_eqI [where ?'a = nat])
     (simp add: unsigned_ucast_eq unsigned_take_bit_eq take_bit_nat_eq_self word_le_nat_alt)

lemma stage_layer:
  assumes "layer_inv s" and l: "l = soph_video_layer s ps fb"
  shows "hw_layer (calls (soph_video_stage st ps fb s)) = Some (l_fmt l, l_csc l, l_mem l)"
proof (cases "l_fmt l = layer_fmt s \<and> l_csc l = layer_csc s \<and> pitch_y (l_mem l) = layer_pitch_y s \<and>
         pitch_c (l_mem l) = layer_pitch_c s")
  case True
  have "l_fmt l \<noteq> SCL_FMT_MAX" by (simp add: l soph_video_layer_def Let_def)
  with True assms(1) obtain m where "hw_layer (calls s) = Some (l_fmt l, l_csc l, m)"
    by (auto simp: layer_inv_def)
  with True show ?thesis by (simp add: soph_video_stage_def Let_def l [symmetric])
next
  case False
  then show ?thesis by (auto simp: soph_video_stage_def soph_video_load_def Let_def l [symmetric])
qed

lemma update_layer:
  assumes inv: "layer_inv s" and fb: "ps_fb ps = Some fb" and "\<not> nomodeset s" and "soph_mode_is_native s mode"
    and l: "l = soph_video_layer s ps fb"
  shows "hw_layer (calls (soph_pipe_update st mode ps event running s)) = Some (l_fmt l, l_csc l, l_mem l)"
proof -
  have "layer_inv (call Wmb s)" using inv by (rule layer_inv_call) simp
  moreover have "l = soph_video_layer (call Wmb s) ps fb" by (simp add: l soph_video_layer_def soph_yuv_csc_def Let_def)
  ultimately have "hw_layer (calls (soph_video_stage st ps fb (call Wmb s))) = Some (l_fmt l, l_csc l, l_mem l)"
    by (rule stage_layer)
  with assms show ?thesis by (simp add: soph_pipe_update_def soph_flip_write_def Let_def)
qed

text \<open>
  C8. The video layer is never scanned in another buffer's format. After a commit in the native
  mode that the check accepted, the block is programmed with the format, input CSC, address,
  pitches and size of the committed framebuffer (the pitches not truncated), whichever of the two
  ways the driver chose, and whatever was programmed before.
\<close>

theorem video_commit_programs_fb:
  assumes r: "reach (sys_start divisor limited nomode cmask) sys_step (True, d, h)"
    and "soph_mode_is_native d mode" and "\<not> nomodeset d" and fb: "ps_fb ps = Some fb"
    and chk: "soph_pipe_check d ps mode = Inr ()"
  shows "\<exists>csc m. hw_layer (calls (soph_pipe_update st mode ps event running d)) =
      Some (if fb_format fb = NV12 then SCL_FMT_NV12 else SCL_FMT_BGR_PACKED, csc, m) \<and>
    (csc = (if fb_format fb = NV12 then soph_yuv_csc d ps else SCL_CSC_NONE)) \<and>
    (fb_format fb = NV12 \<or> fb_format fb = RGB888) \<and>
    addr0 m = ps_addr0 ps \<and> ucast (pitch_y m) = fb_pitch0 fb \<and> fb_pitch0 fb mod 32 = 0 \<and>
    ucast (mem_width m) = fb_width fb \<and> ucast (mem_height m) = fb_height fb \<and>
    (fb_format fb = NV12 \<longrightarrow> addr1 m = ps_addr1 ps \<and> ucast (pitch_c m) = fb_pitch1 fb)"
proof -
  have "layer_inv d" using sd.reach_inv [OF r] by (simp add: sys_inv_iff)
  note u = update_layer [OF this fb assms(3,2) refl, of st event running]
  have "hdisplay mode = hdisplay (native_mode d)" "vdisplay mode = vdisplay (native_mode d)"
    using assms(2) by (simp_all add: soph_mode_is_native_def)
  with chk fb assms(2) u show ?thesis
    by (auto simp: soph_pipe_check_def soph_video_layer_def Let_def ucast_u16_id split: if_splits)
qed

theorem video_commit_programs_fb_witness:
  "\<exists>csc m. hw_layer (calls (soph_pipe_update st_ok (native_mode soph_w1) rgb_ps True True soph_w1)) =
      Some (SCL_FMT_BGR_PACKED, csc, m) \<and> addr0 m = 0x80000000 \<and> ucast (pitch_y m) = (3840 :: u32)"
proof -
  obtain h where r: "reach (sys_start 1 True False 0xf0) sys_step (True, soph_w1, h)"
    using soph_w1_reach by blast
  have n: "soph_mode_is_native soph_w1 (native_mode soph_w1)" "\<not> nomodeset soph_w1"
    by (simp_all add: soph_mode_is_native_def soph_w1_mode)
  then have "soph_pipe_check soph_w1 rgb_ps (native_mode soph_w1) = Inr ()"
    by (simp add: soph_pipe_check_def rgb_ps_def rgb_fb_def soph_w1_mode)
  from video_commit_programs_fb [OF r n _ this, of rgb_fb st_ok True True] show ?thesis
    by (auto simp: rgb_ps_def rgb_fb_def)
qed

fun ticks :: "(bool \<times> dbg_status) list \<Rightarrow> soph \<Rightarrow> soph" where
  "ticks [] s = s"
| "ticks ((fs, st) # r) s = ticks r (soph_vbl_fn fs st s)"

fun completes :: "(bool \<times> dbg_status) list \<Rightarrow> soph \<Rightarrow> bool" where
  "completes [] s = False"
| "completes ((fs, st) # r) s \<longleftrightarrow>
     Crtc_handle_vblank \<in> set (new_calls s (soph_vbl_fn fs st s)) \<or> completes r (soph_vbl_fn fs st s)"

text \<open>Ticks still needed: nine per vblank missing at the gate, less the polls already missed.\<close>

definition ticks_left :: "soph \<Rightarrow> nat" where
  "ticks_left s = 9 * (unat (gate_limit s) - unat (vbl_gate s)) - unat (vbl_miss s)"

lemma unat_suc: "x < y \<Longrightarrow> unat (x + 1 :: u32) = unat x + 1"
proof -
  assume "x < y"
  moreover have "unat y < 2 ^ 32" using unsigned_less [where ?'a = nat and w = y] by simp
  ultimately show ?thesis by (simp add: word_less_nat_alt unat_word_ariths)
qed

lemma gate_limit_pos: "0 < unat (gate_limit s)"
  by (simp add: gate_limit_def unat_gt_0)

lemma tick_progress:
  assumes "vbl_miss s \<le> 8" and "\<not> (Crtc_handle_vblank \<in> set (new_calls s (soph_vbl_fn fs st s)))"
    and "vbl_gate s < gate_limit s"
  shows "ticks_left (soph_vbl_fn fs st s) < ticks_left s" and "vbl_miss (soph_vbl_fn fs st s) \<le> 8"
    and "vbl_gate (soph_vbl_fn fs st s) < gate_limit (soph_vbl_fn fs st s)"
proof -
  have lim: "gate_limit (soph_vbl_fn fs st s) = gate_limit s" by (simp add: gate_limit_def tick_vbl)
  have m: "unat (vbl_miss s) \<le> 8" using assms(1) by (simp add: word_le_nat_alt)
  have g: "unat (vbl_gate s) < unat (gate_limit s)" using assms(3) by (simp add: word_less_nat_alt)
  show "vbl_miss (soph_vbl_fn fs st s) \<le> 8" by (simp add: tick_vbl not_less)
  have "ticks_left (soph_vbl_fn fs st s) < ticks_left s \<and> vbl_gate (soph_vbl_fn fs st s) < gate_limit s"
  proof (cases "fs \<or> vbl_miss s + 1 > 8")
    case True
    then have lt: "vbl_gate s + 1 < gate_limit s" using assms(2) by (auto simp: tick_vbl not_le)
    then have "unat (vbl_gate s + 1) = unat (vbl_gate s) + 1" using assms(3) by (rule_tac unat_suc)
    moreover have t: "vbl_gate (soph_vbl_fn fs st s) = vbl_gate s + 1" "vbl_miss (soph_vbl_fn fs st s) = 0"
      using True lt by (auto simp: tick_vbl)
    moreover have "unat (vbl_gate s + 1) < unat (gate_limit s)" using lt by (simp add: word_less_nat_alt)
    ultimately show ?thesis using m by (simp add: ticks_left_def lim lt)
  next
    case False
    then have "vbl_miss s < 8" using assms(1) by (cases "vbl_miss s = 8") (auto simp: order_le_less)
    then have "unat (vbl_miss s + 1) = unat (vbl_miss s) + 1" by (rule unat_suc)
    moreover have "vbl_gate (soph_vbl_fn fs st s) = vbl_gate s" "vbl_miss (soph_vbl_fn fs st s) = vbl_miss s + 1"
      using False by (simp_all add: tick_vbl)
    ultimately show ?thesis using m g assms(3) by (simp add: ticks_left_def lim)
  qed
  then show "ticks_left (soph_vbl_fn fs st s) < ticks_left s"
    "vbl_gate (soph_vbl_fn fs st s) < gate_limit (soph_vbl_fn fs st s)" by (simp_all add: lim)
qed

lemma completes_bound:
  "vbl_miss s \<le> 8 \<Longrightarrow> vbl_gate s < gate_limit s \<Longrightarrow> ticks_left s \<le> length ts \<Longrightarrow> completes ts s"
proof (induction ts arbitrary: s)
  case Nil
  have "unat (vbl_gate s) < unat (gate_limit s)" "unat (vbl_miss s) \<le> 8"
    using Nil by (simp_all add: word_less_nat_alt word_le_nat_alt)
  then have "0 < ticks_left s" by (simp add: ticks_left_def)
  with Nil show ?case by simp
next
  case (Cons a ts)
  obtain fs st where a: "a = (fs, st)" by fastforce
  show ?case
  proof (cases "Crtc_handle_vblank \<in> set (new_calls s (soph_vbl_fn fs st s))")
    case False
    from tick_progress [OF Cons.prems(1) False Cons.prems(2)] Cons show ?thesis by (simp add: a)
  qed (simp add: a)
qed

text \<open>
  C17. The compositor cannot stall. From any reachable state whose count of skipped vblanks is below
  the divisor (as every completion leaves it), among any \<open>9 * max 1 vbl_div\<close> timer ticks in a row
  one completes the armed flips, whatever the polls answer and whether or not the display runs.
\<close>

theorem vblank_liveness:
  assumes r: "reach (sys_start divisor limited nomode cmask) sys_step (True, d, h)"
    and "vbl_gate d < gate_limit d" and "length ts = 9 * unat (gate_limit d)"
  shows "completes ts d"
proof (rule completes_bound)
  show "vbl_miss d \<le> 8" using sd.reach_inv [OF r] by (simp add: sys_inv_iff)
  show "ticks_left d \<le> length ts" by (simp add: ticks_left_def assms(3))
qed fact

theorem vblank_liveness_witness:
  "completes (replicate 9 (False, st_ok)) soph_w1"
proof -
  obtain h where "reach (sys_start 1 True False 0xf0) sys_step (True, soph_w1, h)"
    using soph_w1_reach by blast
  then show ?thesis
    by (rule vblank_liveness) (simp_all add: gate_limit_def soph_w1_mode)
qed

text \<open>The memory the video layer was last pointed at.\<close>

fun mem_call :: "vcall \<Rightarrow> sclr_mem option \<Rightarrow> sclr_mem option" where
  "mem_call (Set_layer f m c) x = Some m"
| "mem_call (Set_cfg c) x = Some (cfg_mem c)"
| "mem_call (Set_mem m) x = Some m"
| "mem_call _ x = x"

fun gop_call :: "vcall \<Rightarrow> u8 \<Rightarrow> u8" where
  "gop_call (Gop_set c) x = ow_en c"
| "gop_call _ x = x"

fun bg_call :: "vcall \<Rightarrow> bool \<Rightarrow> bool" where
  "bg_call (Enable_window_bgcolor b) x = b"
| "bg_call _ x = x"

text \<open>
  C26. A disabled pipe reads nothing the compositor can free. After a disable the block has nothing
  pending, the video layer is programmed on the driver's own parking buffer and stays inside it,
  every overlay window is off, the window background is in front, and the next commit has to load
  a whole layer.
\<close>

theorem disable_parks:
  assumes "\<not> nomodeset d"
  shows "let d' = soph_pipe_disable d; new = new_calls d d' in
    fold mem_call new None = Some (park_mem (park_dma d)) \<and>
    snd (hw_after d d' h) = False \<and> fold gop_call new g = 0 \<and> fold bg_call new b = True \<and>
    layer_fmt d' = SCL_FMT_MAX \<and>
    addr0 (park_mem (park_dma d)) = park_dma d \<and> addr1 (park_mem (park_dma d)) = park_dma d \<and>
    addr2 (park_mem (park_dma d)) = park_dma d \<and>
    unat (pitch_y (park_mem (park_dma d))) * unat (mem_height (park_mem (park_dma d))) \<le>
      unat SOPH_PARK_PITCH * unat SOPH_PARK_H \<and>
    unat (mem_width (park_mem (park_dma d))) * 3 \<le> unat (pitch_y (park_mem (park_dma d)))"
proof -
  have "unat SOPH_PARK_PITCH = 256"
    by (simp add: SOPH_PARK_PITCH_def SOPH_PARK_W_def align_up_def mask_eq_exp_minus_1)
  then show ?thesis
    using assms
    by (simp add: soph_pipe_disable_def pipe_defs new_calls_def hw_after_def hw_call_def park_mem_def
        SOPH_PARK_W_def SOPH_PARK_H_def)
qed

theorem disable_parks_witness:
  "fold mem_call (new_calls soph_w1 (soph_pipe_disable soph_w1)) None = Some (park_mem (park_dma soph_w1))"
  using disable_parks [of soph_w1 "(False, False)" 0 False] by (simp add: Let_def soph_w1_mode)

lemma push_one_minus:
  fixes w :: u32
  assumes "0 < w" and "unat w \<le> 32767"
  shows "unat (push_bit 1 (ucast w) - 1 :: u16) = 2 * unat w - 1" and "unat (ucast w :: u16) = unat w"
proof -
  have u: "unat (ucast w :: u16) = unat w"
    using assms(2) by (simp add: unsigned_ucast_eq unsigned_take_bit_eq take_bit_nat_eq_self)
  have p: "unat (push_bit 1 (ucast w) :: u16) = 2 * unat w"
    using assms(2) by (simp add: push_bit_eq_mult unat_word_ariths u)
  define v :: u16 where "v = push_bit 1 (ucast w)"
  have v: "unat v = 2 * unat w" unfolding v_def by (rule p)
  have "0 < unat w" using assms(1) by (simp add: word_less_nat_alt)
  then have "1 \<le> v" by (simp add: word_le_nat_alt v)
  then have "unat (v - 1) = 2 * unat w - 1" by (simp add: unat_sub v)
  then show "unat (push_bit 1 (ucast w) - 1 :: u16) = 2 * unat w - 1" unfolding v_def .
  show "unat (ucast w :: u16) = unat w" by (rule u)
qed

text \<open>
  C27. The GOP window. For a framebuffer the check accepts outside the native mode, the source width
  fits the overlay's fetch limit and the window's registers, and the window the doubled overlay
  covers ends exactly at the last of its \<open>2 w\<close> by \<open>2 h\<close> output pixels.
\<close>

theorem gop_window_extent:
  assumes "\<not> soph_mode_is_native d mode" and "ps_fb ps = Some fb" and "soph_pipe_check d ps mode = Inr ()"
    and "0 < fb_width fb" and "0 < fb_height fb" and "unat (fb_height fb) \<le> 32767"
  shows "let ow = soph_gop_ow 1 fb (ps_addr0 ps) in
    unat (ow_img_w ow) = unat (fb_width fb) \<and> unat (ow_img_w ow) \<le> 1024 \<and>
    unat (ow_img_h ow) = unat (fb_height fb) \<and>
    unat (ow_end_x ow) = 2 * unat (fb_width fb) - 1 \<and> unat (ow_end_y ow) = 2 * unat (fb_height fb) - 1 \<and>
    (fb_format fb = XRGB8888 \<or> fb_format fb = ARGB8888)"
proof -
  have "fb_width fb \<le> 1024" and fmt: "fb_format fb = XRGB8888 \<or> fb_format fb = ARGB8888"
    using assms(1-3) by (auto simp: soph_pipe_check_def SOPH_GOP_MAX_SRC_W_def split: if_splits)
  then have "unat (fb_width fb) \<le> 1024" by (simp add: word_le_nat_alt)
  moreover from this have "unat (fb_width fb) \<le> 32767" by simp
  ultimately show ?thesis
    using push_one_minus [OF assms(4)] push_one_minus [OF assms(5,6)] fmt
    by (simp add: soph_gop_ow_def Let_def)
qed

definition xrgb_fb :: framebuffer where
  "xrgb_fb = \<lparr>fb_format = XRGB8888, fb_width = 640, fb_height = 360, fb_pitch0 = 2560, fb_pitch1 = 0,
     fb_offset0 = 0, fb_vaddr = Some 4096\<rparr>"

definition xrgb_ps :: plane_state where
  "xrgb_ps = \<lparr>ps_fb = Some xrgb_fb, ps_addr0 = 0x80000000, ps_addr1 = 0, ps_bt709 = False, ps_full_range = False\<rparr>"

theorem gop_window_extent_witness:
  "unat (ow_end_x (soph_gop_ow 1 xrgb_fb 0x80000000)) = 1279 \<and>
   unat (ow_end_y (soph_gop_ow 1 xrgb_fb 0x80000000)) = 719"
proof -
  have "\<not> soph_mode_is_native soph_w1 (gop_mode soph_w1)"
    by (simp add: soph_mode_is_native_def soph_w1_mode)
  moreover from this have "soph_pipe_check soph_w1 xrgb_ps (gop_mode soph_w1) = Inr ()"
    by (simp add: soph_pipe_check_def xrgb_ps_def xrgb_fb_def SOPH_GOP_MAX_SRC_W_def)
  ultimately show ?thesis
    using gop_window_extent [of soph_w1 "gop_mode soph_w1" xrgb_ps xrgb_fb]
    by (simp add: Let_def xrgb_ps_def xrgb_fb_def)
qed

text \<open>A framebuffer larger than the mode is accepted too, and its window then ends past the panel.\<close>

lemma gop_window_overrun:
  "let fb = xrgb_fb\<lparr>fb_width := 1024, fb_height := 720, fb_pitch0 := 4096\<rparr>; ps = xrgb_ps\<lparr>ps_fb := Some fb\<rparr> in
   soph_pipe_check soph_w1 ps (gop_mode soph_w1) = Inr () \<and>
   unat (ow_end_x (soph_gop_ow 1 fb (ps_addr0 ps))) = 2047 \<and> hdisplay (native_mode soph_w1) = 1280"
  by (simp add: soph_pipe_check_def soph_mode_is_native_def soph_w1_mode xrgb_ps_def xrgb_fb_def
      SOPH_GOP_MAX_SRC_W_def soph_gop_ow_def Let_def)

lemma alpha_row_eq: "alpha_row a n m i = (if \<exists>x < n. i = a + x * 4 then 0xff else m i)"
  by (induction n) (auto simp: less_Suc_eq)

lemma alpha_rows_eq:
  "alpha_rows b p w h m i = (if \<exists>y < h. \<exists>x < w. i = b + y * p + 3 + x * 4 then 0xff else m i)"
  by (induction h) (auto simp: alpha_row_eq less_Suc_eq)

text \<open>
  Making a buffer opaque touches nothing else. For a mapped XRGB8888 framebuffer whose rows do
  not overlap, the fill sets the alpha byte of every pixel to 0xff and leaves every other byte of
  memory as it was; any other framebuffer is left alone.
\<close>

theorem soph_gop_alpha_fill_exact:
  "pixmem (soph_gop_alpha_fill fb s) i =
     (if fb_format fb = XRGB8888 \<and> (\<exists>va. fb_vaddr fb = Some va \<and>
          (\<exists>y < unat (fb_height fb). \<exists>x < unat (fb_width fb).
             i = va + unat (fb_offset0 fb) + y * unat (fb_pitch0 fb) + 4 * x + 3))
      then 0xff else pixmem s i)"
  by (auto simp: soph_gop_alpha_fill_def alpha_fill_def alpha_rows_eq algebra_simps split: option.splits)

fun is_log :: "vcall \<Rightarrow> bool" where
  "is_log (Log l) = True"
| "is_log _ = False"

definition starve_log :: "vcall \<Rightarrow> bool" where
  "starve_log c \<longleftrightarrow> c \<in> {Log GOP_starved, Log GOP_recovered, Log DISP_starved, Log DISP_recovered}"

lemma chroma_latched:
  "starving (soph_check_chroma st s) = starving s" "video_layer (soph_check_chroma st s) = video_layer s"
  "\<exists>new. calls (soph_check_chroma st s) = calls s @ new \<and> (\<forall>c \<in> set new. \<not> starve_log c)"
  "soph_check_chroma st (call c (soph_check_chroma st s)) = call c (soph_check_chroma st s)"
  by (auto simp: soph_check_chroma_def Let_def starve_log_def)

text \<open>
  Starvation is logged on transitions only. A check records the status it read: the same status
  read again logs nothing, and a starvation or recovery line is written exactly when the flag of the
  path in use differs from the recorded one.
\<close>

theorem soph_check_underrun_latched:
  "let t = soph_check_underrun st s; flag = (if video_layer s then bw_fail st else osd_bw_fail st) in
   starving t = flag \<and>
   ((\<exists>c \<in> set (new_calls s t). starve_log c) \<longleftrightarrow> flag \<noteq> starving s) \<and>
   filter is_log (new_calls t (soph_check_underrun st t)) = []"
proof (cases "video_layer s")
  case False
  then show ?thesis
    by (simp add: soph_check_underrun_def Let_def new_calls_def starve_log_def)
next
  case True
  define u where "u = (let u = call (Get_dbg_status False) s in
    if bw_fail st \<noteq> starving u
    then call (Log (if bw_fail st then DISP_starved else DISP_recovered)) (u\<lparr>starving := bw_fail st\<rparr>) else u)"
  have t: "soph_check_underrun st s = soph_check_chroma st u"
    using True by (simp add: soph_check_underrun_def u_def Let_def)
  have u: "starving u = bw_fail st" "video_layer u"
    "calls u = calls s @ Get_dbg_status False #
       (if bw_fail st \<noteq> starving s then [Log (if bw_fail st then DISP_starved else DISP_recovered)] else [])"
    using True by (simp_all add: u_def Let_def)
  obtain new where new: "calls (soph_check_chroma st u) = calls u @ new" "\<forall>c \<in> set new. \<not> starve_log c"
    using chroma_latched(3) by blast
  have "soph_check_underrun st (soph_check_chroma st u) = call (Get_dbg_status False) (soph_check_chroma st u)"
    using u(1,2) by (simp add: soph_check_underrun_def Let_def chroma_latched)
  moreover have "(\<exists>c \<in> set (new_calls s (soph_check_chroma st u)). starve_log c) \<longleftrightarrow> bw_fail st \<noteq> starving s"
    using new by (auto simp: new_calls_def u(3) starve_log_def)
  ultimately show ?thesis
    using True u(1) by (simp add: t Let_def chroma_latched) (simp add: new_calls_def)
qed

lemma fill_mode_sequence:
  fixes t :: disp_timing and hact vact :: u32
  assumes h: "unat hact + 2 < unat (t_htotal t + 1)" and v: "unat vact + 2 < unat (t_vtotal t + 1)"
    and m: "m = soph_fill_mode t hact vact r"
  shows "unat (hdisplay m) = unat hact \<and> hdisplay m \<le> hsync_start m \<and> hsync_start m < hsync_end m \<and>
      hsync_end m < htotal m \<and>
      unat (vdisplay m) = unat vact \<and> vdisplay m \<le> vsync_start m \<and> vsync_start m < vsync_end m \<and>
      vsync_end m < vtotal m"
proof -
  have seq: "x \<le> x + 1 \<and> x + 1 < x + 2 \<and> x + 2 < y \<and> unat x = unat a"
    if "unat a + 2 < unat (y :: u16)" "x = ucast (a :: u32)" for a x y
  proof -
    have y: "unat y < 65536" using unsigned_less [where ?'a = nat and w = y] by simp
    have x: "unat x = unat a"
      using that y by (simp add: unsigned_ucast_eq unsigned_take_bit_eq take_bit_nat_eq_self)
    have "unat (x + 1) = unat x + 1" "unat (x + 2) = unat x + 2"
      using that(1) x y by (simp_all add: unat_word_ariths)
    with x that(1) show ?thesis by (simp add: word_le_nat_alt word_less_nat_alt)
  qed
  show ?thesis
    using seq [OF h refl] seq [OF v refl] by (auto simp: m soph_fill_mode_def Let_def not_less not_le)
qed

lemma fill_mode_totals:
  "htotal (soph_fill_mode t a b r) = t_htotal t + 1" "vtotal (soph_fill_mode t a b r) = t_vtotal t + 1"
  "mode_clock (soph_fill_mode t a b r) = mode_clock (soph_fill_mode t a' b' r)"
  by (simp_all add: soph_fill_mode_def Let_def)

lemma fde_size:
  fixes a b :: u16
  assumes "a < b"
  shows "unat (ucast b - ucast a + 1 :: u32) = unat b - unat a + 1"
proof -
  have u: "unat (ucast x :: u32) = unat x" for x :: u16 by (rule unat_ucast_up) simp
  have "unat b < 65536" using unsigned_less [where ?'a = nat and w = b] by simp
  moreover have "ucast a \<le> (ucast b :: u32)" using assms by (simp add: word_le_nat_alt word_less_nat_alt u)
  then have "unat (ucast b - ucast a :: u32) = unat b - unat a" by (simp add: unat_sub u)
  ultimately show ?thesis by (simp add: unat_word_ariths)
qed



section \<open>The DSI link across probes\<close>

definition no_bringup :: "vcall list \<Rightarrow> bool" where
  "no_bringup cs \<longleftrightarrow> Mipi_tx_setup \<notin> set cs \<and> Dsi_host_register \<notin> set cs"

text \<open>A step keeps a registered host without raising the link again, and asks for the bridge only
  with the host registered.\<close>

definition steady :: "soph \<Rightarrow> soph \<Rightarrow> bool" where
  "steady s t \<longleftrightarrow> (\<exists>new. calls t = calls s @ new \<and> (Get_bridge \<in> set new \<longrightarrow> dsi_host_registered t) \<and>
     (dsi_host_registered s \<longrightarrow> dsi_host_registered t \<and> no_bringup new))"

lemma steady_refl: "steady s s"
  by (simp add: steady_def no_bringup_def)

lemma steady_trans: "steady s t \<Longrightarrow> steady t u \<Longrightarrow> steady s u"
  unfolding steady_def no_bringup_def by force

lemma steady_act: "c \<notin> {Mipi_tx_setup, Dsi_host_register, Get_bridge} \<Longrightarrow> steady s (snd (act c r s))"
  by (auto simp: steady_def act_def no_bringup_def)

lemma steady_then: "steady s (snd r) \<Longrightarrow> (\<And>t. steady t (snd (f t))) \<Longrightarrow> steady s (snd (and_then r f))"
  by (auto simp: and_then_def intro: steady_trans split: prod.splits sum.splits)

lemma steady_probe_dsi: "steady s (snd (probe_dsi e s))"
  by (simp add: probe_dsi_def steady_def act_def no_bringup_def)

lemma steady_probe_host: "steady s (snd (probe_host e s))"
  by (cases "pe_host e"; cases "pe_bridge e")
     (simp_all add: probe_host_def and_then_def act_def steady_def no_bringup_def)

lemma steady_read_mode: "steady s (snd (soph_read_mode t1 t2 s))"
  by (simp add: soph_read_mode_def Let_def soph_read_working_bank_def steady_def no_bringup_def)

lemma steady_probe_kms: "steady s (snd (probe_kms e s))"
proof -
  have reset: "steady t (snd (act Dev_register r (call Mode_config_reset t)))" for t r
    by (simp add: act_def steady_def no_bringup_def)
  show ?thesis unfolding probe_kms_def
    by (intro steady_then steady_act reset) (simp_all add: steady_act steady_refl)
qed

lemma steady_probe: "steady s (snd (soph_drm_probe e s))"
proof (cases "pe_alloc e")
  case (Inl err)
  then show ?thesis by (simp add: soph_drm_probe_def steady_refl)
next
  case (Inr u)
  have alloc: "steady s (snd (act Dma_coerce r (soph_alloc s)))" for r
    by (simp add: act_def steady_def no_bringup_def soph_alloc_def)
  have "steady t (snd (case pe_park e of None \<Rightarrow> (Inl ENOMEM, call Alloc_park t)
      | Some dma \<Rightarrow>
          (let s = (call Alloc_park t)\<lparr>park_dma := dma, layer_fmt := SCL_FMT_MAX\<rparr>; s = call Vip_axi_priority s
           in and_then (probe_dsi e s) (\<lambda>s. and_then (probe_host e s) (\<lambda>s.
                and_then (soph_read_mode (pe_t1 e) (pe_t2 e) s) (probe_kms e))))))" for t
  proof (cases "pe_park e")
    case None
    then show ?thesis by (simp add: steady_def no_bringup_def)
  next
    case (Some dma)
    let ?u = "call Vip_axi_priority ((call Alloc_park t)\<lparr>park_dma := dma, layer_fmt := SCL_FMT_MAX\<rparr>)"
    have "steady t ?u" by (simp add: steady_def no_bringup_def)
    moreover have "steady ?u (snd (and_then (probe_dsi e ?u) (\<lambda>s. and_then (probe_host e s) (\<lambda>s.
        and_then (soph_read_mode (pe_t1 e) (pe_t2 e) s) (probe_kms e)))))"
      by (intro steady_then steady_probe_dsi steady_probe_host steady_read_mode steady_probe_kms)
    ultimately show ?thesis unfolding Some option.case Let_def by (rule steady_trans)
  qed
  then show ?thesis
    unfolding soph_drm_probe_def Inr sum.case by (rule steady_then [OF alloc])
qed

text \<open>
  The DSI link is raised once. A probe that reached the bridge and failed there or later leaves
  the DSI host registered; the next probe, however it ends, keeps the host and neither brings the
  link up again nor registers a second host.
\<close>

theorem soph_drm_probe_once:
  assumes "soph_drm_probe e s = (Inl err, s')" and "Get_bridge \<in> set (new_calls s s')"
    and "soph_drm_probe e2 s' = (ret, t)"
  shows "dsi_host_registered s' \<and> dsi_host_registered t \<and> no_bringup (new_calls s' t)"
proof -
  have "steady s s'" "steady s' t" using steady_probe [of s e] steady_probe [of s' e2] assms by simp_all
  then show ?thesis using assms(2) by (auto simp: steady_def new_calls_def)
qed

theorem soph_drm_probe_once_witness:
  "let s' = snd (soph_drm_probe (pe720\<lparr>pe_bridge := Inl EPROBE_DEFER\<rparr>) soph_w0) in
   dsi_host_registered s' \<and> no_bringup (new_calls s' (snd (soph_drm_probe pe720 s')))"
proof -
  define s' where "s' = snd (soph_drm_probe (pe720\<lparr>pe_bridge := Inl EPROBE_DEFER\<rparr>) soph_w0)"
  have "soph_drm_probe (pe720\<lparr>pe_bridge := Inl EPROBE_DEFER\<rparr>) soph_w0 = (Inl EPROBE_DEFER, s')"
    "Get_bridge \<in> set (new_calls soph_w0 s')"
    by (simp_all add: s'_def new_calls_def prod_eq_iff soph_drm_probe_def pe720_def and_then_def act_def
        probe_dsi_def probe_host_def Let_def soph_w0_def soph_load_def soph_alloc_def)
  from soph_drm_probe_once [OF this prod.collapse [symmetric, of "soph_drm_probe pe720 s'"]] show ?thesis
    by (simp add: s'_def Let_def)
qed

end
