(* ===== verification/Pixels.thy ===== *)
theory Pixels
  imports Prelude
begin

text \<open>
  What the display drivers share: the colour bars of the test pictures, byte stores into a
  framebuffer, fills that run over the rows and columns of a picture, and the decimal
  conversions of \<open>sscanf\<close> that their debugfs files read numbers with.
\<close>

section \<open>Fills\<close>

definition bars :: "(u8 \<times> u8 \<times> u8) list" where
  "bars = [(255, 255, 255), (255, 255, 0), (0, 255, 255), (0, 255, 0),
           (255, 0, 255), (255, 0, 0), (0, 0, 255), (0, 0, 0)]"

type_synonym store = "nat \<times> u8"

definition run_stores :: "store list \<Rightarrow> (nat \<Rightarrow> u8) \<Rightarrow> nat \<Rightarrow> u8" where
  "run_stores ws m = fold (\<lambda>(a, v) m. m(a := v)) ws m"

text \<open>The stores of a loop over the rows and, within, the columns.\<close>

definition raster :: "nat \<Rightarrow> nat \<Rightarrow> (nat \<Rightarrow> nat \<Rightarrow> store list) \<Rightarrow> store list" where
  "raster w h f = concat (map (\<lambda>y. concat (map (\<lambda>x. f x y) [0..<w])) [0..<h])"

lemma run_stores_snoc: "run_stores (ws @ [(b, u)]) m = (run_stores ws m)(b := u)"
  by (simp add: run_stores_def)

lemma run_stores_append: "run_stores (ws @ vs) m = run_stores vs (run_stores ws m)"
  by (simp add: run_stores_def)

lemma run_stores_miss: "a \<notin> fst ` set ws \<Longrightarrow> run_stores ws m a = m a"
proof (induction ws rule: rev_induct)
  case (snoc p ws)
  then show ?case by (cases p) (simp add: run_stores_snoc)
qed (simp add: run_stores_def)

lemma run_stores_hit:
  "(a, v) \<in> set ws \<Longrightarrow> (\<And>v'. (a, v') \<in> set ws \<Longrightarrow> v' = v) \<Longrightarrow> run_stores ws m a = v"
proof (induction ws rule: rev_induct)
  case (snoc p ws)
  obtain b u where p: "p = (b, u)" by (cases p)
  show ?case
  proof (cases "b = a")
    case True
    then have "(a, u) \<in> set (ws @ [p])" by (simp add: p)
    then have "u = v" by (rule snoc.prems(2))
    then show ?thesis using True by (simp add: p run_stores_snoc)
  next
    case False
    then have "(a, v) \<in> set ws" using snoc.prems(1) by (simp add: p)
    moreover have "v' = v" if "(a, v') \<in> set ws" for v' using that snoc.prems(2) by simp
    ultimately have "run_stores ws m a = v" by (rule snoc.IH)
    then show ?thesis using False by (simp add: p run_stores_snoc)
  qed
qed simp

lemma set_raster: "p \<in> set (raster w h f) \<longleftrightarrow> (\<exists>x y. x < w \<and> y < h \<and> p \<in> set (f x y))"
proof
  assume "p \<in> set (raster w h f)"
  then obtain x y where "x < w" "y < h" "p \<in> set (f x y)" by (auto simp: raster_def)
  then show "\<exists>x y. x < w \<and> y < h \<and> p \<in> set (f x y)" by blast
next
  assume "\<exists>x y. x < w \<and> y < h \<and> p \<in> set (f x y)"
  then obtain x y where "x \<in> {0..<w}" "y \<in> {0..<h}" "p \<in> set (f x y)" by auto
  then show "p \<in> set (raster w h f)" unfolding raster_def by (auto simp del: atLeastLessThan_iff)
qed

lemma raster_memI: "x < w \<Longrightarrow> y < h \<Longrightarrow> p \<in> set (f x y) \<Longrightarrow> p \<in> set (raster w h f)"
  unfolding set_raster by blast

text \<open>Row and column of an address.\<close>

lemma row_col_eq:
  fixes P x x' y y' :: nat
  assumes "y * P + x = y' * P + x'" "x < P" "x' < P"
  shows "y = y' \<and> x = x'"
proof -
  have "(y * P + x) div P = y" "(y' * P + x') div P = y'" using assms(2,3) by simp_all
  then have "y = y'" using assms(1) by simp
  then show ?thesis using assms(1) by simp
qed

text \<open>Plane, row and column of an address in three planes of 1280 by 720.\<close>

lemma frame_addr_inj:
  assumes "k * 921600 + (y * 1280 + x) = k' * 921600 + (y' * 1280 + x')" "x < 1280" "x' < 1280" "y < 720" "y' < (720 :: nat)"
  shows "x = x' \<and> y = y' \<and> k = k'"
proof -
  have "(k * 720 + y) * 1280 + x = (k' * 720 + y') * 1280 + x'" using assms(1) by simp
  then have e: "k * 720 + y = k' * 720 + y' \<and> x = x'" using assms(2,3) by (rule row_col_eq)
  then have "k = k' \<and> y = y'" using row_col_eq [of k 720 y k' y'] assms(4,5) by blast
  with e show ?thesis by blast
qed

text \<open>A fill whose element \<open>(x, y)\<close> is \<open>n\<close> bytes in a row of pitch \<open>P\<close>: what it leaves in each byte, and
  which bytes it touches.\<close>

definition pixel :: "nat \<Rightarrow> nat \<Rightarrow> nat \<Rightarrow> (nat \<Rightarrow> nat \<Rightarrow> u8) \<Rightarrow> nat \<Rightarrow> nat \<Rightarrow> store list" where
  "pixel base P n val x y = map (\<lambda>k. (base + y * P + (x * n + k), val x k)) [0..<n]"

lemma pixel_in_row: "x < w \<Longrightarrow> k < n \<Longrightarrow> w * n \<le> P \<Longrightarrow> x * n + k < (P :: nat)"
proof -
  assume "x < w" "k < n" "w * n \<le> P"
  then have "x * n + k < (x + 1) * n" by simp
  moreover have "(x + 1) * n \<le> w * n" using \<open>x < w\<close> by (intro mult_le_mono1) simp
  ultimately show ?thesis using \<open>w * n \<le> P\<close> by linarith
qed

lemma raster_range:
  assumes "(a, v) \<in> set (raster w h (pixel base P n val))"
  obtains x y k where "x < w" "y < h" "k < n" "a = base + y * P + (x * n + k)" "v = val x k"
proof -
  obtain x y where xy: "x < w" "y < h" "(a, v) \<in> set (pixel base P n val x y)"
    using assms unfolding set_raster by blast
  then obtain k where "k < n" "a = base + y * P + (x * n + k)" "v = val x k" by (auto simp: pixel_def)
  with xy that show ?thesis by blast
qed

lemma raster_pixel:
  assumes "w * n \<le> P" "x < w" "y < h" "k < n"
  shows "run_stores (raster w h (pixel base P n val)) m (base + y * P + (x * n + k)) = val x k"
proof (rule run_stores_hit)
  have "(base + y * P + (x * n + k), val x k) \<in> set (pixel base P n val x y)"
    using assms(4) by (auto simp: pixel_def)
  then show "(base + y * P + (x * n + k), val x k) \<in> set (raster w h (pixel base P n val))"
    using assms(2,3) unfolding set_raster by blast
next
  fix v' assume "(base + y * P + (x * n + k), v') \<in> set (raster w h (pixel base P n val))"
  then obtain x' y' k' where p: "x' < w" "k' < n" "base + y * P + (x * n + k) = base + y' * P + (x' * n + k')"
      "v' = val x' k'"
    by (rule raster_range)
  then have e: "y * P + (x * n + k) = y' * P + (x' * n + k')" by simp
  have "x * n + k = x' * n + k'"
    using row_col_eq [OF e] pixel_in_row assms p(1,2) by blast
  then have "x = x' \<and> k = k'" using row_col_eq [of x n k x' k'] assms(4) p(2) by blast
  then show "v' = val x k" using p(4) by simp
qed

definition bar :: "nat \<Rightarrow> nat \<Rightarrow> u8 \<times> u8 \<times> u8" where
  "bar w x = bars ! (x * 8 div w)"

definition channel :: "u8 \<times> u8 \<times> u8 \<Rightarrow> nat \<Rightarrow> u8" where
  "channel c k = (case c of (r, g, b) \<Rightarrow> if k = 0 then r else if k = 1 then g else b)"

section \<open>Numbers from the user\<close>

text \<open>\<open>sscanf\<close> with up to \<open>n\<close> decimal conversions separated by blanks; \<open>sg\<close>: a minus sign is accepted.
  The list has the values converted before the first failure.\<close>

definition scan_num :: "bool \<Rightarrow> string \<Rightarrow> (int \<times> string) option" where
  "scan_num sg s =
     (let s = dropWhile blank s;
          (neg, s) = (case s of c # r \<Rightarrow> if sg \<and> c = CHR ''-'' then (True, r) else (False, s) | [] \<Rightarrow> (False, s));
          ds = takeWhile digit s
      in if ds = [] then None else Some (if neg then - digits_value ds else digits_value ds, dropWhile digit s))"

fun scan_nums :: "bool \<Rightarrow> nat \<Rightarrow> string \<Rightarrow> int list" where
  "scan_nums sg 0 s = []"
| "scan_nums sg (Suc n) s = (case scan_num sg s of None \<Rightarrow> [] | Some (v, r) \<Rightarrow> v # scan_nums sg n r)"

text \<open>The \<open>i\<close>-th conversion, or the default the variable was set to.\<close>

definition conv :: "int list \<Rightarrow> nat \<Rightarrow> int \<Rightarrow> int" where
  "conv vs i d = (if i < length vs then vs ! i else d)"

definition s32 :: "int \<Rightarrow> int" where
  "s32 v = sint (word_of_int v :: u32)"

end
