(* ===== verification/Dispsrc.thy ===== *)
theory Dispsrc
  imports Sophdrm Pixels
begin

text \<open>
  The test source of the display block (\<open>soph-display/dispsrc/dispsrc.c\<close>): colour bars in three pixel
  formats, the debugfs controls that hand them to the display, and the mapping of the framebuffer.
  The framebuffer is a byte memory addressed from its start; a fill is the list of its stores, so
  that a store past the end of the allocation is visible. Vendor calls are appended to \<open>dcalls\<close>.
\<close>

section \<open>State\<close>

definition FB_W :: nat where "FB_W = 1280"
definition FB_H :: nat where "FB_H = 720"
definition FB_PITCH :: nat where "FB_PITCH = FB_W * 3"
definition FB_SIZE :: nat where "FB_SIZE = FB_W * FB_H * 4"

text \<open>A pattern argument: a number the user gave, or one of the display header's constants.\<close>

datatype pat = Pat_num int | SCL_PAT_TYPE_OFF | SCL_PAT_COLOR_WHITE | SCL_PAT_COLOR_BAR

datatype dcall =
    D_shadow_sel bool | D_set_pattern pat pat | D_frame_bgcolor u32 u32 u32 | D_window_bgcolor u32 u32 u32
  | D_enable_window_bgcolor bool | D_force_up | D_set_cfg disp_cfg | D_tgen_enable bool
  | D_gop_ow_set gop_ow_cfg | D_gop_set gop_ctrl | D_set_rect u32 u32 u32 u32 | D_fab_priority
  | D_debugfs string | D_misc_register | D_misc_deregister | D_debugfs_remove | D_free | D_unregister

record dispsrc =
  fb_cpu :: bool
  fb_mem :: "nat \<Rightarrow> u8"
  fb_dma :: u64
  width :: int
  height :: int
  ds_gop :: gop_ctrl
  dcalls :: "dcall list"

definition dcall :: "dcall \<Rightarrow> dispsrc \<Rightarrow> dispsrc" where
  "dcall c s = s\<lparr>dcalls := dcalls s @ [c]\<rparr>"

definition read_working_bank :: "dispsrc \<Rightarrow> dispsrc" where
  "read_working_bank s = dcall (D_shadow_sel False) s"

section \<open>Colour bars\<close>

definition fill_colorbar :: "nat \<Rightarrow> nat \<Rightarrow> store list" where
  "fill_colorbar w h = raster w h (\<lambda>x y.
     (case bars ! (x * 8 div w) of (r, g, b) \<Rightarrow>
        [(y * FB_PITCH + x * 3 + 0, r), (y * FB_PITCH + x * 3 + 1, g), (y * FB_PITCH + x * 3 + 2, b)]))"

definition luma :: "u8 \<times> u8 \<times> u8 \<Rightarrow> u8" where
  "luma c = (case c of (r, g, b) \<Rightarrow>
     word_of_int (clamp (cdiv (66 * uint r + 129 * uint g + 25 * uint b + 128) 256 + 16) 16 235))"

definition chroma_u :: "u8 \<times> u8 \<times> u8 \<Rightarrow> u8" where
  "chroma_u c = (case c of (r, g, b) \<Rightarrow>
     word_of_int (clamp (cdiv (- 38 * uint r - 74 * uint g + 112 * uint b + 128) 256 + 128) 16 240))"

definition chroma_v :: "u8 \<times> u8 \<times> u8 \<Rightarrow> u8" where
  "chroma_v c = (case c of (r, g, b) \<Rightarrow>
     word_of_int (clamp (cdiv (112 * uint r - 94 * uint g - 18 * uint b + 128) 256 + 128) 16 240))"

definition fill_nv21 :: "nat \<Rightarrow> nat \<Rightarrow> store list" where
  "fill_nv21 w h =
     raster w h (\<lambda>x y. [(y * w + x, luma (bars ! (x * 8 div w)))]) @
     raster (w div 2) (h div 2) (\<lambda>x y.
       (let c = bars ! (2 * x * 8 div w) in
        [(w * h + y * w + 2 * x + 0, chroma_v c), (w * h + y * w + 2 * x + 1, chroma_u c)]))"

text \<open>A 32-bit store is four byte stores, low byte first.\<close>

definition argb :: "u8 \<times> u8 \<times> u8 \<Rightarrow> u32" where
  "argb c = (case c of (r, g, b) \<Rightarrow> 0xff000000 OR push_bit 16 (ucast r) OR push_bit 8 (ucast g) OR ucast b)"

definition store32 :: "nat \<Rightarrow> u32 \<Rightarrow> store list" where
  "store32 a v = [(a, ucast v), (a + 1, ucast (drop_bit 8 v)), (a + 2, ucast (drop_bit 16 v)), (a + 3, ucast (drop_bit 24 v))]"

definition fill_argb :: "nat \<Rightarrow> nat \<Rightarrow> store list" where
  "fill_argb w h = raster w h (\<lambda>x y. store32 (4 * (y * w + x)) (argb (bars ! (x * 8 div w))))"

text \<open>A loop over a negative size does not run.\<close>

definition fill :: "(nat \<Rightarrow> nat \<Rightarrow> store list) \<Rightarrow> dispsrc \<Rightarrow> dispsrc" where
  "fill f s = s\<lparr>fb_mem := run_stores (f (nat (width s)) (nat (height s))) (fb_mem s)\<rparr>"

section \<open>Controls\<close>

text \<open>\<open>copied\<close> is what \<open>copy_from_user\<close> answers; a control returns the length it consumed.\<close>

definition pattern_write :: "string \<Rightarrow> bool \<Rightarrow> dispsrc \<Rightarrow> nat res \<times> dispsrc" where
  "pattern_write u copied s =
     (if length u \<ge> 32 then (Inl EINVAL, s)
      else if \<not> copied then (Inl EFAULT, s)
      else
        (let vs = scan_nums True 2 u in
         if length vs < 1 then (Inl EINVAL, s)
         else
           (let s = read_working_bank s;
                s = dcall (D_set_pattern (Pat_num (s32 (vs ! 0))) (if length vs > 1 then Pat_num (s32 (vs ! 1)) else SCL_PAT_COLOR_BAR)) s
            in (Inr (length u), dcall D_force_up s))))"

definition bgcolor_write :: "string \<Rightarrow> bool \<Rightarrow> dispsrc \<Rightarrow> nat res \<times> dispsrc" where
  "bgcolor_write u copied s =
     (if length u \<ge> 48 then (Inl EINVAL, s)
      else if \<not> copied then (Inl EFAULT, s)
      else
        (let vs = scan_nums False 3 u in
         if length vs < 1 then (Inl EINVAL, s)
         else
           (let r = word_of_int (conv vs 0 0x3ff); g = word_of_int (conv vs 1 0x3ff); b = word_of_int (conv vs 2 0x3ff);
                s = read_working_bank s;
                s = dcall (D_frame_bgcolor r g b) s;
                s = dcall (D_window_bgcolor r g b) s;
                s = dcall (D_enable_window_bgcolor True) s
            in (Inr (length u), dcall D_force_up s))))"

text \<open>The scanout sequence the two video-layer controls share.\<close>

definition scanout :: "disp_cfg \<Rightarrow> dispsrc \<Rightarrow> dispsrc" where
  "scanout cfg s =
     (let s = dcall (D_set_pattern SCL_PAT_TYPE_OFF SCL_PAT_COLOR_WHITE) s;
          s = dcall (D_enable_window_bgcolor False) s;
          s = dcall (D_set_cfg cfg) s;
          s = dcall (D_tgen_enable True) s
      in dcall D_force_up s)"

definition base_cfg :: "sclr_format \<Rightarrow> sclr_csc \<Rightarrow> sclr_mem \<Rightarrow> disp_cfg" where
  "base_cfg fmt csc mem =
     \<lparr>disp_from_sc = False, sync_ext = False, tgen_en = True, cfg_fmt = fmt, cfg_in_csc = csc,
      cfg_out_csc = SCL_CSC_NONE, cfg_burst = 7, cfg_out_bit = 8, cfg_drop_dither = True, cfg_mem = mem\<rparr>"

text \<open>\<open>num\<close> is what \<open>kstrtoint_from_user\<close> answers, \<open>len\<close> the length of the write.\<close>

definition fb_write :: "int option \<Rightarrow> nat \<Rightarrow> dispsrc \<Rightarrow> nat res \<times> dispsrc" where
  "fb_write num len s =
     (case num of
        None \<Rightarrow> (Inl EINVAL, s)
      | Some v \<Rightarrow>
          if \<not> fb_cpu s then (Inl ENODEV, s)
          else
            (let s = read_working_bank s;
                 mem = \<lparr>addr0 = fb_dma s, addr1 = 0, addr2 = 0, pitch_y = of_nat FB_PITCH, pitch_c = 0,
                        mem_width = word_of_int (width s), mem_height = word_of_int (height s)\<rparr>
             in (Inr len, scanout (base_cfg SCL_FMT_RGB_PACKED SCL_CSC_NONE mem) s)))"

definition nv21_write :: "int option \<Rightarrow> nat \<Rightarrow> dispsrc \<Rightarrow> nat res \<times> dispsrc" where
  "nv21_write num len s =
     (case num of
        None \<Rightarrow> (Inl EINVAL, s)
      | Some v \<Rightarrow>
          if \<not> fb_cpu s then (Inl ENODEV, s)
          else
            (let s = fill fill_nv21 s;
                 s = read_working_bank s;
                 wh = word_of_int (width s) * word_of_int (height s) :: u32;
                 mem = \<lparr>addr0 = fb_dma s, addr1 = fb_dma s + ucast wh, addr2 = 0,
                        pitch_y = word_of_int (width s), pitch_c = word_of_int (width s),
                        mem_width = word_of_int (width s), mem_height = word_of_int (height s)\<rparr>
             in (Inr len, scanout (base_cfg SCL_FMT_NV21 SCL_CSC_601_LIMIT_YUV2RGB mem) s)))"

definition gop_write :: "int option \<Rightarrow> nat \<Rightarrow> dispsrc \<Rightarrow> nat res \<times> dispsrc" where
  "gop_write num len s =
     (case num of
        None \<Rightarrow> (Inl EINVAL, s)
      | Some v \<Rightarrow>
          if \<not> fb_cpu s then (Inl ENODEV, s)
          else
            (let s = fill fill_argb s;
                 s = read_working_bank s;
                 cfg = (ds_gop s)\<lparr>hscl_en := 0, vscl_en := 0\<rparr>;
                 ow = \<lparr>ow_img_w = word_of_int (width s), ow_img_h = word_of_int (height s),
                       ow_mem_w = word_of_int (width s * 4), ow_mem_h = word_of_int (height s),
                       ow_pitch = word_of_int (width s * 4),
                       ow_end_x = word_of_int (width s), ow_end_y = word_of_int (height s), ow_addr = fb_dma s\<rparr>;
                 s = dcall (D_gop_ow_set ow) s;
                 cfg = cfg\<lparr>ow_en := (if v \<noteq> 0 then 1 else 0)\<rparr>;
                 s = dcall (D_gop_set cfg) (s\<lparr>ds_gop := cfg\<rparr>)
             in (Inr len, dcall D_force_up s)))"

definition rect_write :: "string \<Rightarrow> bool \<Rightarrow> dispsrc \<Rightarrow> nat res \<times> dispsrc" where
  "rect_write u copied s =
     (if length u \<ge> 64 then (Inl EINVAL, s)
      else if \<not> copied then (Inl EFAULT, s)
      else
        (let vs = scan_nums False 7 u in
         if length vs < 4 then (Inl EINVAL, s)
         else
           (let c = (\<lambda>i d. word_of_int (conv vs i d));
                s = read_working_bank s;
                s = dcall (D_frame_bgcolor (c 4 1023) (c 5 1023) (c 6 1023)) s;
                s = dcall (D_window_bgcolor (c 4 1023) (c 5 1023) (c 6 1023)) s;
                s = dcall (D_enable_window_bgcolor True) s;
                s = dcall (D_set_rect (c 0 320) (c 1 180) (c 2 640) (c 3 360)) s
            in (Inr (length u), dcall D_force_up s))))"

definition tgen_write :: "int option \<Rightarrow> nat \<Rightarrow> dispsrc \<Rightarrow> nat res \<times> dispsrc" where
  "tgen_write num len s =
     (case num of None \<Rightarrow> (Inl EINVAL, s) | Some v \<Rightarrow> (Inr len, dcall (D_tgen_enable (v \<noteq> 0)) s))"

text \<open>\<open>mmap\<close>: the size handed to \<open>dma_mmap_coherent\<close>.\<close>

definition fbmap_mmap :: "u64 \<Rightarrow> u64 \<Rightarrow> u64 \<Rightarrow> dispsrc \<Rightarrow> u64 res" where
  "fbmap_mmap vm_start vm_end pgoff s =
     (let sz = vm_end - vm_start in
      if \<not> fb_cpu s \<or> pgoff \<noteq> 0 \<or> sz > of_nat FB_SIZE then Inl EINVAL else Inr sz)"

section \<open>Loading\<close>

text \<open>The mapping attempts: the platform device, the allocation (its bus address) and the misc device.\<close>

definition dispsrc_init :: "unit res \<Rightarrow> u64 option \<Rightarrow> dispsrc \<Rightarrow> unit res \<times> dispsrc" where
  "dispsrc_init pdev alloc s =
     (case pdev of
        Inl e \<Rightarrow> (Inl e, s)
      | Inr _ \<Rightarrow>
          (let s = (case alloc of
                 None \<Rightarrow> s\<lparr>fb_cpu := False\<rparr>
               | Some dma \<Rightarrow> fill fill_colorbar (s\<lparr>fb_cpu := True, fb_dma := dma\<rparr>));
               s = dcall D_fab_priority s;
               s = fold (\<lambda>n. dcall (D_debugfs n))
                     [''pattern'', ''bgcolor'', ''fb'', ''tgen'', ''nv21'', ''gop'', ''rect'', ''status''] s
           in (Inr (), dcall D_misc_register s)))"

definition dispsrc_exit :: "dispsrc \<Rightarrow> dispsrc" where
  "dispsrc_exit s =
     (let s = dcall D_misc_deregister s;
          s = dcall D_debugfs_remove s;
          s = (if fb_cpu s then dcall D_free s else s)
      in dcall D_unregister s)"

section \<open>What the display reads\<close>

definition last_cfg :: "dispsrc \<Rightarrow> disp_cfg option" where
  "last_cfg s = fold (\<lambda>c r. case c of D_set_cfg cfg \<Rightarrow> Some cfg | _ \<Rightarrow> r) (dcalls s) None"

definition last_ow :: "dispsrc \<Rightarrow> gop_ow_cfg option" where
  "last_ow s = fold (\<lambda>c r. case c of D_gop_ow_set ow \<Rightarrow> Some ow | _ \<Rightarrow> r) (dcalls s) None"

text \<open>The bytes at a bus address, given as an offset from a plane's start.\<close>

definition bus :: "dispsrc \<Rightarrow> u64 \<Rightarrow> nat \<Rightarrow> u8" where
  "bus s a i = fb_mem s (unat (a - fb_dma s) + i)"

definition shows_rgb :: "nat \<Rightarrow> nat \<Rightarrow> dispsrc \<Rightarrow> bool" where
  "shows_rgb w h s \<longleftrightarrow> (\<exists>mem. last_cfg s = Some (base_cfg SCL_FMT_RGB_PACKED SCL_CSC_NONE mem) \<and>
     (\<forall>x y. x < w \<and> y < h \<longrightarrow>
        (let p = y * unat (pitch_y mem) + 3 * x in
         (bus s (addr0 mem) p, bus s (addr0 mem) (p + 1), bus s (addr0 mem) (p + 2)) = bar w x)))"

definition shows_nv21 :: "nat \<Rightarrow> nat \<Rightarrow> dispsrc \<Rightarrow> bool" where
  "shows_nv21 w h s \<longleftrightarrow> (\<exists>mem. last_cfg s = Some (base_cfg SCL_FMT_NV21 SCL_CSC_601_LIMIT_YUV2RGB mem) \<and>
     (\<forall>x y. x < w \<and> y < h \<longrightarrow>
        (let c = (y div 2) * unat (pitch_c mem) + 2 * (x div 2) in
         bus s (addr0 mem) (y * unat (pitch_y mem) + x) = luma (bar w x) \<and>
         bus s (addr1 mem) c = chroma_v (bar w (2 * (x div 2))) \<and>
         bus s (addr1 mem) (c + 1) = chroma_u (bar w (2 * (x div 2))))))"

definition shows_argb :: "nat \<Rightarrow> nat \<Rightarrow> dispsrc \<Rightarrow> bool" where
  "shows_argb w h s \<longleftrightarrow> (\<exists>ow. last_ow s = Some ow \<and>
     (\<forall>x y. x < w \<and> y < h \<longrightarrow>
        (let p = y * unat (ow_pitch ow) + 4 * x in
         ucast (bus s (ow_addr ow) p) OR push_bit 8 (ucast (bus s (ow_addr ow) (p + 1))) OR
           push_bit 16 (ucast (bus s (ow_addr ow) (p + 2))) OR push_bit 24 (ucast (bus s (ow_addr ow) (p + 3)))
         = argb (bar w x))))"

lemma fill_colorbar_eq: "fill_colorbar w h = raster w h (pixel 0 3840 3 (\<lambda>x. channel (bar w x)))"
proof -
  have u: "[0..<3] = [0, 1, 2 :: nat]" by (simp add: upt_rec)
  show ?thesis
    unfolding fill_colorbar_def
    by (rule arg_cong [where f = "raster w h"])
       (auto simp: fun_eq_iff pixel_def u channel_def bar_def FB_PITCH_def FB_W_def split: prod.splits)
qed

lemma fill_argb_eq:
  "fill_argb w h = raster w h (pixel 0 (4 * w) 4 (\<lambda>x k. ucast (drop_bit (8 * k) (argb (bar w x)))))"
proof -
  have u: "[0..<4] = [0, 1, 2, 3 :: nat]" by (simp add: upt_rec)
  show ?thesis
    unfolding fill_argb_def
    by (rule arg_cong [where f = "raster w h"]) (simp add: fun_eq_iff pixel_def u store32_def bar_def algebra_simps)
qed

lemma fill_nv21_eq:
  "fill_nv21 w h = raster w h (pixel 0 w 1 (\<lambda>x k. luma (bar w x))) @
     raster (w div 2) (h div 2) (pixel (w * h) w 2
       (\<lambda>x k. if k = 0 then chroma_v (bar w (2 * x)) else chroma_u (bar w (2 * x))))"
proof -
  have u: "[0..<2] = [0, 1 :: nat]" by (simp add: upt_rec)
  show ?thesis
    unfolding fill_nv21_def
    by (rule arg_cong2 [where f = "(@)"]; rule arg_cong [where f = "raster _ _"])
       (simp_all add: fun_eq_iff pixel_def u bar_def Let_def algebra_simps)
qed

section \<open>The controls show the bars\<close>

lemma dcall_sel [simp]:
  "dcalls (dcall c s) = dcalls s @ [c]" "fb_mem (dcall c s) = fb_mem s" "fb_dma (dcall c s) = fb_dma s"
  "width (dcall c s) = width s" "height (dcall c s) = height s" "fb_cpu (dcall c s) = fb_cpu s"
  by (simp_all add: dcall_def)

lemma scanout_sel:
  "last_cfg (scanout cfg s) = Some cfg" "fb_mem (scanout cfg s) = fb_mem s" "fb_dma (scanout cfg s) = fb_dma s"
  by (simp_all add: scanout_def last_cfg_def)

lemma bus_start: "a = fb_dma s \<Longrightarrow> bus s a i = fb_mem s i"
  by (simp add: bus_def)

lemma unat_u16_small: "n < 65536 \<Longrightarrow> unat (word_of_int (int n) :: u16) = n"
  using unat_word_of_nat [of n, where ?'a = 16] by simp

lemma init_mem:
  "fb_cpu (snd (dispsrc_init (Inr ()) (Some dma) s))" "width (snd (dispsrc_init (Inr ()) (Some dma) s)) = width s"
  "height (snd (dispsrc_init (Inr ()) (Some dma) s)) = height s"
  "fb_mem (snd (dispsrc_init (Inr ()) (Some dma) s)) =
     run_stores (fill_colorbar (nat (width s)) (nat (height s))) (fb_mem s)"
  by (simp_all add: dispsrc_init_def fill_def Let_def)

lemma fb_write_shows:
  assumes "fb_cpu s" and "fb_mem s = run_stores (fill_colorbar w h) m" and "w \<le> 1280"
  shows "shows_rgb w h (snd (fb_write (Some v) len s))"
proof -
  let ?t = "snd (fb_write (Some v) len s)"
  let ?mem = "\<lparr>addr0 = fb_dma s, addr1 = 0, addr2 = 0, pitch_y = of_nat FB_PITCH, pitch_c = 0,
    mem_width = word_of_int (width s), mem_height = word_of_int (height s)\<rparr>"
  have c: "last_cfg ?t = Some (base_cfg SCL_FMT_RGB_PACKED SCL_CSC_NONE ?mem)" "fb_mem ?t = fb_mem s" "fb_dma ?t = fb_dma s"
    using assms(1) by (simp_all add: fb_write_def Let_def scanout_sel read_working_bank_def)
  have p: "unat (of_nat FB_PITCH :: u16) = 3840" by (simp add: FB_PITCH_def FB_W_def)
  have px: "bus ?t (fb_dma s) (y * 3840 + 3 * x + k) = channel (bar w x) k" if "x < w" "y < h" "k < 3" for x y k
    using raster_pixel [of w 3 3840 x y h k 0 "\<lambda>x. channel (bar w x)" m] that assms(3)
    by (simp add: bus_start c assms(2) fill_colorbar_eq mult.commute add.assoc)
  have "(let p = y * unat (pitch_y ?mem) + 3 * x in
      (bus ?t (addr0 ?mem) p, bus ?t (addr0 ?mem) (p + 1), bus ?t (addr0 ?mem) (p + 2)) = bar w x)" if "x < w" "y < h" for x y
    using px [OF that, of 0] px [OF that, of 1] px [OF that, of 2]
    by (simp add: p Let_def channel_def split: prod.splits)
  then show ?thesis unfolding shows_rgb_def using c(1) by blast
qed

lemma gop_write_shows:
  assumes "fb_cpu s" and wh: "width s = int w" "height s = int h" and "w \<le> 1280"
  shows "shows_argb w h (snd (gop_write (Some v) len s))"
proof -
  let ?t = "snd (gop_write (Some v) len s)"
  obtain ow where ow: "last_ow ?t = Some ow" "ow_addr ow = fb_dma s" "ow_pitch ow = word_of_int (int w * 4)"
    using assms(1) wh by (simp add: gop_write_def Let_def last_ow_def dcall_def fill_def read_working_bank_def)
  have m: "fb_mem ?t = run_stores (fill_argb w h) (fb_mem s)" "fb_dma ?t = fb_dma s"
    using assms(1) wh by (simp_all add: gop_write_def Let_def fill_def read_working_bank_def dcall_def)
  have p: "unat (ow_pitch ow) = 4 * w"
    unfolding ow(3) using unat_u16_small [of "w * 4"] assms(4) by simp
  have px: "bus ?t (fb_dma s) (y * (4 * w) + 4 * x + k) = ucast (drop_bit (8 * k) (argb (bar w x)))"
    if "x < w" "y < h" "k < 4" for x y k
    using raster_pixel [of w 4 "4 * w" x y h k 0 "\<lambda>x k. ucast (drop_bit (8 * k) (argb (bar w x)))" "fb_mem s"] that
    by (simp add: bus_start m fill_argb_eq algebra_simps)
  have "(let p = y * unat (ow_pitch ow) + 4 * x in
      ucast (bus ?t (ow_addr ow) p) OR push_bit 8 (ucast (bus ?t (ow_addr ow) (p + 1))) OR
        push_bit 16 (ucast (bus ?t (ow_addr ow) (p + 2))) OR push_bit 24 (ucast (bus ?t (ow_addr ow) (p + 3)))
      = argb (bar w x))" if "x < w" "y < h" for x y
    using px [OF that, of 0] px [OF that, of 1] px [OF that, of 2] px [OF that, of 3] u32_of_bytes [of "argb (bar w x)"]
    by (simp add: p ow(2) Let_def del: One_nat_def)
  then show ?thesis unfolding shows_argb_def using ow(1) by blast
qed

lemma nv21_bytes:
  assumes "even w" "even h" and xy: "x < w" "y < h"
  shows "run_stores (fill_nv21 w h) m (y * w + x) = luma (bar w x)"
    and "k < 2 \<Longrightarrow> run_stores (fill_nv21 w h) m (w * h + ((y div 2) * w + 2 * (x div 2) + k)) =
      (if k = 0 then chroma_v (bar w (2 * (x div 2))) else chroma_u (bar w (2 * (x div 2))))"
proof -
  let ?l = "raster w h (pixel 0 w 1 (\<lambda>x k. luma (bar w x)))"
  let ?v = "\<lambda>x k. if k = 0 then chroma_v (bar w (2 * x)) else chroma_u (bar w (2 * x))"
  let ?c = "raster (w div 2) (h div 2) (pixel (w * h) w 2 ?v)"
  have all: "run_stores (fill_nv21 w h) m = run_stores ?c (run_stores ?l m)"
    by (simp only: fill_nv21_eq run_stores_append)
  have "y * w + x < w * h"
  proof -
    have "y * w + x < (y + 1) * w" using xy by simp
    moreover have "(y + 1) * w \<le> h * w" using xy by (intro mult_le_mono1) simp
    ultimately show ?thesis by (simp add: mult.commute)
  qed
  then have "y * w + x \<notin> fst ` set ?c" by (auto elim!: raster_range)
  then have "run_stores (fill_nv21 w h) m (y * w + x) = run_stores ?l m (y * w + x)"
    unfolding all by (rule run_stores_miss)
  then show "run_stores (fill_nv21 w h) m (y * w + x) = luma (bar w x)"
    using raster_pixel [of w 1 w x y h 0 0 "\<lambda>x k. luma (bar w x)" m] xy by simp
  show "run_stores (fill_nv21 w h) m (w * h + ((y div 2) * w + 2 * (x div 2) + k)) =
      (if k = 0 then chroma_v (bar w (2 * (x div 2))) else chroma_u (bar w (2 * (x div 2))))" if "k < 2"
    using raster_pixel [of "w div 2" 2 w "x div 2" "y div 2" "h div 2" k "w * h" ?v "run_stores ?l m"] that xy assms(1,2)
    unfolding all by (auto simp: mult.commute add.assoc elim!: evenE)
qed

lemma nv21_write_shows:
  assumes "fb_cpu s" and wh: "width s = int w" "height s = int h"
    and "w \<le> 1280" "h \<le> 720" "even w" "even h"
  shows "shows_nv21 w h (snd (nv21_write (Some v) len s))"
proof -
  let ?t = "snd (nv21_write (Some v) len s)"
  let ?a1 = "fb_dma s + ucast (word_of_int (int w) * word_of_int (int h) :: u32)"
  let ?mem = "\<lparr>addr0 = fb_dma s, addr1 = ?a1, addr2 = 0, pitch_y = word_of_int (int w), pitch_c = word_of_int (int w),
    mem_width = word_of_int (int w), mem_height = word_of_int (int h)\<rparr>"
  have c: "last_cfg ?t = Some (base_cfg SCL_FMT_NV21 SCL_CSC_601_LIMIT_YUV2RGB ?mem)" "fb_dma ?t = fb_dma s"
    "fb_mem ?t = run_stores (fill_nv21 w h) (fb_mem s)"
    using assms(1) wh by (simp_all add: nv21_write_def Let_def scanout_sel fill_def read_working_bank_def)
  have p: "unat (word_of_int (int w) :: u16) = w" using assms(4) by (intro unat_u16_small) simp
  then have p': "unat (word_of_nat w :: u16) = w" by simp
  have a: "unat (?a1 - fb_dma ?t) = w * h"
  proof -
    have "w * h \<le> 1280 * 720" using assms(4,5) by (rule mult_le_mono)
    then have "unat (word_of_nat (w * h) :: u32) = w * h" by (intro unat_word_of_nat) simp
    then show ?thesis using unat_ucast_up [where ?'b = 64, of "word_of_nat (w * h) :: u32"] by (simp add: c)
  qed
  have "bus ?t ?a1 i = fb_mem ?t (w * h + i)" for i unfolding bus_def a ..
  then have "(let c = (y div 2) * unat (pitch_c ?mem) + 2 * (x div 2) in
      bus ?t (addr0 ?mem) (y * unat (pitch_y ?mem) + x) = luma (bar w x) \<and>
      bus ?t (addr1 ?mem) c = chroma_v (bar w (2 * (x div 2))) \<and>
      bus ?t (addr1 ?mem) (c + 1) = chroma_u (bar w (2 * (x div 2))))" if "x < w" "y < h" for x y
    using nv21_bytes(1) [OF assms(6,7) that, of "fb_mem s"] nv21_bytes(2) [OF assms(6,7) that, of 0 "fb_mem s"]
      nv21_bytes(2) [OF assms(6,7) that, of 1 "fb_mem s"]
    by (simp add: Let_def p p' bus_start c)
  then show ?thesis unfolding shows_nv21_def using c(1) by blast
qed


definition dispsrc0 :: dispsrc where
  "dispsrc0 = \<lparr>fb_cpu = True, fb_mem = (\<lambda>_. 0), fb_dma = 0x90000000, width = 1280, height = 720,
     ds_gop = \<lparr>ow_en = 0, hscl_en = 0, vscl_en = 0\<rparr>, dcalls = []\<rparr>"


section \<open>The fills and the allocation\<close>



section \<open>Refused writes\<close>

datatype control = Pattern string bool | Bgcolor string bool | Rect string bool | Fb "int option" nat
  | Nv21 "int option" nat | Gop "int option" nat | Tgen "int option" nat

fun control_write :: "control \<Rightarrow> dispsrc \<Rightarrow> nat res \<times> dispsrc" where
  "control_write (Pattern u c) = pattern_write u c"
| "control_write (Bgcolor u c) = bgcolor_write u c"
| "control_write (Rect u c) = rect_write u c"
| "control_write (Fb v l) = fb_write v l"
| "control_write (Nv21 v l) = nv21_write v l"
| "control_write (Gop v l) = gop_write v l"
| "control_write (Tgen v l) = tgen_write v l"

fun is_tgen :: "control \<Rightarrow> bool" where
  "is_tgen (Tgen v l) = True"
| "is_tgen _ = False"

text \<open>
  C36. A control either does nothing or does its whole sequence. A write that is refused leaves the
  driver and the hardware as they were. An accepted one, except on \<open>tgen\<close>, selects the working bank
  before it touches a register and ends by forcing the update; \<open>tgen\<close> does neither.
\<close>

theorem control_write_sequence:
  "case control_write c s of
     (Inl e, t) \<Rightarrow> t = s
   | (Inr n, t) \<Rightarrow>
       if is_tgen c then \<exists>on. dcalls t = dcalls s @ [D_tgen_enable on]
       else \<exists>mid. dcalls t = dcalls s @ D_shadow_sel False # mid @ [D_force_up]"
  by (cases c)
     (auto simp: pattern_write_def bgcolor_write_def rect_write_def fb_write_def nv21_write_def gop_write_def tgen_write_def
        scanout_def fill_def read_working_bank_def dcall_def Let_def split: option.splits)

end
