(* ===== verification/Mmio.thy ===== *)
theory Mmio
  imports Prelude
begin

text \<open>
  Memory-mapped register windows as the drivers use them: a window is byte-addressed and
  little-endian, \<open>readb\<close>, \<open>readw\<close> and \<open>readl\<close> read 8, 16 and 32 bits and the matching
  writes store them. This is the behaviour of a plain read/write register; a register whose
  value the hardware changes by itself (a status or a self-clearing bit) is read through an
  argument of the function that polls it, not through the window.
\<close>

type_synonym mmio = "nat \<Rightarrow> u8"

definition readb :: "mmio \<Rightarrow> nat \<Rightarrow> u8" where
  "readb m a = m a"

definition writeb :: "u8 \<Rightarrow> nat \<Rightarrow> mmio \<Rightarrow> mmio" where
  "writeb v a m = m(a := v)"

definition readw :: "mmio \<Rightarrow> nat \<Rightarrow> u16" where
  "readw m a = ucast (m a) OR push_bit 8 (ucast (m (a + 1)))"

definition writew :: "u16 \<Rightarrow> nat \<Rightarrow> mmio \<Rightarrow> mmio" where
  "writew v a m = m(a := ucast v, a + 1 := ucast (drop_bit 8 v))"

definition readl :: "mmio \<Rightarrow> nat \<Rightarrow> u32" where
  "readl m a = ucast (m a) OR push_bit 8 (ucast (m (a + 1)))
     OR push_bit 16 (ucast (m (a + 2))) OR push_bit 24 (ucast (m (a + 3)))"

definition writel :: "u32 \<Rightarrow> nat \<Rightarrow> mmio \<Rightarrow> mmio" where
  "writel v a m = m(a := ucast v, a + 1 := ucast (drop_bit 8 v),
     a + 2 := ucast (drop_bit 16 v), a + 3 := ucast (drop_bit 24 v))"

text \<open>
  The contract of one access width: a register reads back what was written, and a write
  leaves every register that does not overlap it alone.
\<close>

locale rw_cell =
  fixes rd :: "mmio \<Rightarrow> nat \<Rightarrow> 'v" and wr :: "'v \<Rightarrow> nat \<Rightarrow> mmio \<Rightarrow> mmio" and width :: nat
  assumes rd_wr_same: "rd (wr v a m) a = v"
    and wr_other: "b < a \<or> a + width \<le> b \<Longrightarrow> wr v a m b = m b"
    and rd_cong: "(\<And>i. i < width \<Longrightarrow> m (a + i) = m' (a + i)) \<Longrightarrow> rd m a = rd m' a"
begin

lemma rd_wr_other: "b + width \<le> a \<or> a + width \<le> b \<Longrightarrow> rd (wr v a m) b = rd m b"
  by (rule rd_cong) (auto intro!: wr_other)

lemma rmw_same: "rd (wr (f (rd m a)) a m) a = f (rd m a)"
  by (rule rd_wr_same)

lemma fold_wr_other:
  "(\<And>a. a \<in> set as \<Longrightarrow> b + width \<le> a \<or> a + width \<le> b) \<Longrightarrow>
   rd (fold (\<lambda>a m. wr (f m a) a m) as m) b = rd m b"
  by (induction as arbitrary: m) (auto simp: rd_wr_other)

text \<open>A read-modify-write of each register of a list of disjoint registers.\<close>

lemma fold_rmw:
  assumes "\<And>x y. x \<in> set as \<Longrightarrow> y \<in> set as \<Longrightarrow> x \<noteq> y \<Longrightarrow> x + width \<le> y \<or> y + width \<le> x"
    and "distinct as" and "a \<in> set as"
  shows "rd (fold (\<lambda>a m. wr (f (rd m a)) a m) as m) a = f (rd m a)"
  using assms
proof (induction as arbitrary: m)
  case (Cons x xs)
  show ?case
  proof (cases "x = a")
    case True
    with Cons.prems have "\<And>y. y \<in> set xs \<Longrightarrow> a + width \<le> y \<or> y + width \<le> a"
      by auto
    with True show ?thesis by (simp add: fold_wr_other rd_wr_same)
  next
    case False
    with Cons.prems have "a \<in> set xs" and "a + width \<le> x \<or> x + width \<le> a" by auto
    with Cons show ?thesis by (simp add: rd_wr_other)
  qed
qed simp

end

lemma less2: "(i::nat) < 2 \<longleftrightarrow> i = 0 \<or> i = 1" and less4: "(i::nat) < 4 \<longleftrightarrow> i = 0 \<or> i = 1 \<or> i = 2 \<or> i = 3"
  by auto

interpretation mb: rw_cell readb writeb 1
  by unfold_locales (auto simp: readb_def writeb_def)

lemma readw_writew: "readw (writew v a m) a = v"
  unfolding readw_def writew_def
  by (rule bit_word_eqI) (auto simp: bit_simps)

lemma readl_writel: "readl (writel v a m) a = v"
  by (simp add: readl_def writel_def u32_of_bytes)

interpretation mw: rw_cell readw writew 2
proof unfold_locales
  fix m m' :: mmio and a
  assume "\<And>i. i < 2 \<Longrightarrow> m (a + i) = m' (a + i)"
  from this [of 0] this [of 1] show "readw m a = readw m' a" by (simp add: readw_def)
qed (simp_all add: readw_writew, auto simp: writew_def)

interpretation ml: rw_cell readl writel 4
proof unfold_locales
  fix m m' :: mmio and a
  assume "\<And>i. i < 4 \<Longrightarrow> m (a + i) = m' (a + i)"
  from this [of 0] this [of 1] this [of 2] this [of 3] show "readl m a = readl m' a"
    by (simp add: readl_def)
qed (simp_all add: readl_writel, auto simp: writel_def)

text \<open>Accesses of different widths at registers that do not overlap.\<close>

lemma mixed_other:
  "b + 1 \<le> a \<or> a + 2 \<le> b \<Longrightarrow> readb (writew w a m) b = readb m b"
  "b + 1 \<le> a \<or> a + 4 \<le> b \<Longrightarrow> readb (writel l a m) b = readb m b"
  "b + 2 \<le> a \<or> a + 1 \<le> b \<Longrightarrow> readw (writeb c a m) b = readw m b"
  "b + 2 \<le> a \<or> a + 4 \<le> b \<Longrightarrow> readw (writel l a m) b = readw m b"
  "b + 4 \<le> a \<or> a + 1 \<le> b \<Longrightarrow> readl (writeb c a m) b = readl m b"
  "b + 4 \<le> a \<or> a + 2 \<le> b \<Longrightarrow> readl (writew w a m) b = readl m b"
  by (auto intro!: mb.rd_cong mw.rd_cong ml.rd_cong mb.wr_other mw.wr_other ml.wr_other)

lemmas [accessor_simps] = mb.rd_wr_same mw.rd_wr_same ml.rd_wr_same
  mb.rd_wr_other mw.rd_wr_other ml.rd_wr_other mixed_other

end
