(* ===== verification/Sdtune.thy ===== *)
theory Sdtune
  imports Prelude
begin

text \<open>
  The pure part of the sampling-point tuning of the SD host driver
  (\<open>sdhci-cv181x.c\<close>, \<open>sdhci_cv181x_general_execute_tuning\<close>): the bit masks the results are
  kept in, the retry loop of one tap, the search for the widest window of passing taps, and the
  search of the lead/lag graph whose size is a divisor.
\<close>

definition TUNE_MAX_PHCODE :: nat where "TUNE_MAX_PHCODE = 128"
definition TAP_WINDOW_THLD :: u16 where "TAP_WINDOW_THLD = 20"
definition MAX_TUNING_CMD_RETRY_COUNT :: nat where "MAX_TUNING_CMD_RETRY_COUNT = 50"

section \<open>Result masks\<close>

text \<open>The four 32-bit words are accessed as sixteen bytes.\<close>

definition CHECK_MASK_BIT :: "u8 list \<Rightarrow> nat \<Rightarrow> u32" where
  "CHECK_MASK_BIT msk k = ucast (msk ! (k div 8) AND push_bit (k mod 8) 1)"

definition SET_MASK_BIT :: "u8 list \<Rightarrow> nat \<Rightarrow> u8 list" where
  "SET_MASK_BIT msk k = msk[k div 8 := msk ! (k div 8) OR push_bit (k mod 8) 1]"

definition mask0 :: "u8 list" where
  "mask0 = replicate 16 0"

text \<open>The graphs of the debug output.\<close>

definition graph :: "char \<Rightarrow> char \<Rightarrow> u8 list \<Rightarrow> string" where
  "graph zero one msk = map (\<lambda>k. if CHECK_MASK_BIT msk k = 0 then zero else one) [0..<TUNE_MAX_PHCODE]"

section \<open>One tap\<close>

text \<open>
  \<open>ans i\<close> is the return code of the \<open>i\<close>-th \<open>mmc_send_tuning\<close> at this tap. The loop repeats a
  command that succeeded until the retry limit, and stops at the first one that fails. The result
  is the last return code and the number of commands sent.
\<close>

function tune_tap :: "(nat \<Rightarrow> int) \<Rightarrow> nat \<Rightarrow> int \<times> nat" where
  "tune_tap ans retry_cnt =
     (if ans retry_cnt = 0 \<and> retry_cnt < MAX_TUNING_CMD_RETRY_COUNT
      then tune_tap ans (retry_cnt + 1)
      else (ans retry_cnt, retry_cnt + 1))"
  by pat_completeness auto
termination
  by (relation "measure (\<lambda>(ans, n). MAX_TUNING_CMD_RETRY_COUNT - n)") auto

declare tune_tap.simps [simp del]

section \<open>The window search\<close>

record window =
  cur_window_idx :: int
  cur_window_size :: u16
  max_window_idx :: int
  max_window_size :: u16
  win_tap :: int

definition window0 :: window where
  "window0 = \<lparr>cur_window_idx = -1, cur_window_size = 0, max_window_idx = -1, max_window_size = 0, win_tap = -1\<rparr>"

definition window_step :: "u8 list \<Rightarrow> nat \<Rightarrow> window \<Rightarrow> window" where
  "window_step msk k w =
     (if CHECK_MASK_BIT msk k = 0 then
        (let w = (if cur_window_idx w = -1 then w\<lparr>cur_window_idx := int k\<rparr> else w);
             w = w\<lparr>cur_window_size := cur_window_size w + 1\<rparr>
         in if cur_window_size w > max_window_size w then
              (let w = w\<lparr>max_window_size := cur_window_size w, max_window_idx := cur_window_idx w\<rparr> in
               if max_window_size w \<ge> TAP_WINDOW_THLD
               then w\<lparr>win_tap := cur_window_idx w + int (unat (max_window_size w div 2))\<rparr> else w)
            else w)
      else w\<lparr>cur_window_idx := -1, cur_window_size := 0\<rparr>)"

definition find_window :: "u8 list \<Rightarrow> window" where
  "find_window msk = fold (window_step msk) [0..<TUNE_MAX_PHCODE] window0"

section \<open>The lead/lag search\<close>

record lead_lag =
  ll_idx :: int
  ll_size :: u16
  ll_max_idx :: int
  ll_max_size :: u16
  ll_phase :: int

definition lead_lag0 :: lead_lag where
  "lead_lag0 = \<lparr>ll_idx = -1, ll_size = 0, ll_max_idx = -1, ll_max_size = 0, ll_phase = -1\<rparr>"

text \<open>\<open>None\<close> is the \<open>break\<close>, with the state it leaves.\<close>

fun find_lead_lag :: "u8 list \<Rightarrow> nat list \<Rightarrow> lead_lag \<Rightarrow> lead_lag" where
  "find_lead_lag msk [] l = l"
| "find_lead_lag msk (k # ks) l =
     (if CHECK_MASK_BIT msk k = 0 then
        (if ll_phase l = 1 \<and> ll_size l > 0
         then l\<lparr>ll_max_idx := ll_idx l, ll_max_size := ll_size l\<rparr>
         else
           let l = (if ll_idx l = -1 then l\<lparr>ll_idx := int k\<rparr> else l)
           in find_lead_lag msk ks (l\<lparr>ll_size := ll_size l + 1, ll_phase := 0\<rparr>))
      else
        let l = l\<lparr>ll_phase := 1\<rparr> in
        if ll_idx l \<noteq> -1 \<and> ll_size l > 0
        then let l = l\<lparr>ll_size := ll_size l + 1\<rparr>
             in find_lead_lag msk ks (l\<lparr>ll_max_idx := ll_idx l, ll_max_size := ll_size l\<rparr>)
        else find_lead_lag msk ks (l\<lparr>ll_size := 0\<rparr>))"

definition max_lead_lag :: "u8 list \<Rightarrow> lead_lag" where
  "max_lead_lag msk = find_lead_lag msk [0..<TUNE_MAX_PHCODE] lead_lag0"

text \<open>\<open>rate = max_window_size * 100 / max_lead_lag_size\<close>; \<open>None\<close> is the division by zero.\<close>

definition tuning_rate :: "window \<Rightarrow> lead_lag \<Rightarrow> nat option" where
  "tuning_rate w l =
     (if ll_max_size l = 0 then None else Some (unat (max_window_size w) * 100 div unat (ll_max_size l)))"

section \<open>Masks\<close>

lemma check_mask_bit: "CHECK_MASK_BIT msk k = 0 \<longleftrightarrow> \<not> bit (msk ! (k div 8)) (k mod 8)"
proof -
  have "ucast b = (0 :: u32) \<longleftrightarrow> b = 0" for b :: u8
    using unat_ucast_up [of b, where ?'b = 32] by (simp flip: unat_eq_zero)
  then show ?thesis by (simp add: CHECK_MASK_BIT_def push_bit_eq_mult and_exp_eq_0_iff_not_bit)
qed

lemma set_mask_length [simp]: "length (SET_MASK_BIT msk k) = length msk"
  by (simp add: SET_MASK_BIT_def)

lemma check_set_mask:
  assumes "k < 8 * length msk"
  shows "CHECK_MASK_BIT (SET_MASK_BIT msk k) j = 0 \<longleftrightarrow> CHECK_MASK_BIT msk j = 0 \<and> j \<noteq> k"
proof -
  have k: "k div 8 < length msk" using assms by (simp add: div_less_iff_less_mult mult.commute)
  show ?thesis
  proof (cases "j div 8 = k div 8")
    case True
    then have "j mod 8 = k mod 8 \<longleftrightarrow> j = k" by (metis mod_mult_div_eq)
    with True k show ?thesis by (auto simp: check_mask_bit SET_MASK_BIT_def bit_simps)
  next
    case False
    with k show ?thesis by (auto simp: check_mask_bit SET_MASK_BIT_def)
  qed
qed

lemma check_mask0: "k < 128 \<Longrightarrow> CHECK_MASK_BIT mask0 k = 0"
  by (simp add: check_mask_bit mask0_def nth_replicate)

section \<open>The search finds the first widest window\<close>

text \<open>\<open>pass_run p i l\<close>: the \<open>l\<close> taps from \<open>i\<close> on all pass.\<close>

definition pass_run :: "(nat \<Rightarrow> bool) \<Rightarrow> nat \<Rightarrow> nat \<Rightarrow> bool" where
  "pass_run p i l \<longleftrightarrow> (\<forall>j. i \<le> j \<and> j < i + l \<longrightarrow> p j)"

text \<open>\<open>widest p n m l\<close>: \<open>l\<close> is the length of the longest run below \<open>n\<close> and \<open>m\<close> the first place it starts.\<close>

definition widest :: "(nat \<Rightarrow> bool) \<Rightarrow> nat \<Rightarrow> nat \<Rightarrow> nat \<Rightarrow> bool" where
  "widest p n m l \<longleftrightarrow> m + l \<le> n \<and> pass_run p m l \<and>
     (\<forall>i k. i + k \<le> n \<longrightarrow> pass_run p i k \<longrightarrow> k \<le> l) \<and> (\<forall>i. i + l \<le> n \<longrightarrow> pass_run p i l \<longrightarrow> m \<le> i)"

text \<open>The run that ends at \<open>n\<close>.\<close>

definition trailing :: "(nat \<Rightarrow> bool) \<Rightarrow> nat \<Rightarrow> nat \<Rightarrow> bool" where
  "trailing p n c \<longleftrightarrow> c \<le> n \<and> pass_run p (n - c) c \<and> (c < n \<longrightarrow> \<not> p (n - c - 1))"

definition win_inv :: "(nat \<Rightarrow> bool) \<Rightarrow> nat \<Rightarrow> window \<Rightarrow> bool" where
  "win_inv p n w \<longleftrightarrow> (\<exists>m. let c = unat (cur_window_size w); l = unat (max_window_size w) in
     trailing p n c \<and> cur_window_idx w = (if c = 0 then -1 else int (n - c)) \<and> c \<le> l \<and> widest p n m l \<and>
     max_window_idx w = (if l = 0 then -1 else int m) \<and>
     win_tap w = (if 20 \<le> l then int (m + l div 2) else -1))"

lemma pass_run_0 [simp]: "pass_run p i 0"
  by (auto simp: pass_run_def)

lemma pass_run_fail: "pass_run p i k \<Longrightarrow> \<not> p n \<Longrightarrow> i \<le> n \<Longrightarrow> n < i + k \<Longrightarrow> False"
  by (auto simp: pass_run_def)

lemma trailing_max: "trailing p n c \<Longrightarrow> i + k = n \<Longrightarrow> pass_run p i k \<Longrightarrow> k \<le> c"
  by (rule ccontr) (auto simp: trailing_def not_le dest!: pass_run_fail [of p i k "n - c - 1"])

lemma trailing_fail: "\<not> p n \<Longrightarrow> trailing p (Suc n) 0"
  by (simp add: trailing_def)

lemma trailing_pass: "p n \<Longrightarrow> trailing p n c \<Longrightarrow> trailing p (Suc n) (Suc c)"
  by (auto simp: trailing_def pass_run_def less_Suc_eq Suc_diff_le)

lemma widest_longer:
  assumes "trailing p (Suc n) (Suc c)" and "widest p n m l" and "c = l"
  shows "widest p (Suc n) (n - c) (Suc c)"
proof -
  have c: "c \<le> n" "pass_run p (n - c) (Suc c)" using assms(1) by (auto simp: trailing_def)
  have "k \<le> Suc c" if "i + k \<le> Suc n" "pass_run p i k" for i k
    using that assms trailing_max [OF assms(1), of i k] unfolding widest_def
    by (cases "i + k = Suc n") (auto simp: le_Suc_eq)
  moreover have "n - c \<le> i" if "i + Suc c \<le> Suc n" "pass_run p i (Suc c)" for i
  proof (rule ccontr)
    assume "\<not> n - c \<le> i"
    then have "i + Suc c \<le> n" using c by linarith
    with that(2) assms(2,3) show False unfolding widest_def by fastforce
  qed
  ultimately show ?thesis using c by (auto simp: widest_def)
qed

lemma widest_same:
  assumes "trailing p (Suc n) c" and w: "widest p n m l" and "c \<le> l"
  shows "widest p (Suc n) m l"
proof -
  have "k \<le> l" if "i + k \<le> Suc n" "pass_run p i k" for i k
    using that w assms(3) trailing_max [OF assms(1), of i k] unfolding widest_def
    by (cases "i + k = Suc n") (auto simp: le_Suc_eq)
  moreover have "m \<le> i" if "i + l \<le> Suc n" "pass_run p i l" for i
    using that w unfolding widest_def by (cases "i + l = Suc n") (auto simp: le_Suc_eq)
  ultimately show ?thesis using w by (auto simp: widest_def)
qed

lemma unat_Suc_u16: "unat c < 65535 \<Longrightarrow> unat (c + 1 :: u16) = Suc (unat c)"
  by (simp add: unat_word_ariths)

lemma win_inv_step:
  assumes inv: "win_inv p n w" and n: "n < 128" and p: "p n \<longleftrightarrow> CHECK_MASK_BIT msk n = 0"
  shows "win_inv p (Suc n) (window_step msk n w)"
proof -
  define c where "c = unat (cur_window_size w)"
  define l where "l = unat (max_window_size w)"
  obtain m where t: "trailing p n c" and idx: "cur_window_idx w = (if c = 0 then -1 else int (n - c))"
    and cl: "c \<le> l" and wd: "widest p n m l" and mi: "max_window_idx w = (if l = 0 then -1 else int m)"
    and tap: "win_tap w = (if 20 \<le> l then int (m + l div 2) else -1)"
    using inv by (auto simp: win_inv_def Let_def c_def l_def)
  show ?thesis
  proof (cases "p n")
    case False
    have "trailing p (Suc n) 0" using False by (rule trailing_fail)
    moreover from this wd have "widest p (Suc n) m l" by (rule widest_same) simp
    ultimately show ?thesis
      using False p mi tap by (auto simp: win_inv_def window_step_def Let_def l_def)
  next
    case True
    have cn: "c \<le> n" using t by (simp add: trailing_def)
    have c1: "unat (cur_window_size w + 1) = Suc c"
      using cn n unat_Suc_u16 [of "cur_window_size w"] by (simp add: c_def)
    have i1: "(if cur_window_idx w = -1 then int n else cur_window_idx w) = int (n - c)"
      using idx cn by auto
    have t1: "trailing p (Suc n) (Suc c)" using True t by (rule trailing_pass)
    have gt: "max_window_size w < cur_window_size w + 1 \<longleftrightarrow> l < Suc c"
      by (simp add: word_less_nat_alt c1 l_def)
    have th: "TAP_WINDOW_THLD \<le> cur_window_size w + 1 \<longleftrightarrow> 20 \<le> Suc c"
      by (simp add: word_le_nat_alt c1 TAP_WINDOW_THLD_def)
    have half: "unat ((cur_window_size w + 1) div 2) = Suc c div 2"
      by (simp add: unat_div c1)
    show ?thesis
    proof (cases "l < Suc c")
      case longer: True
      with cl have "c = l" by simp
      with t1 wd have "widest p (Suc n) (n - c) (Suc c)" by (intro widest_longer) auto
      then show ?thesis
        using True p t1 longer i1 gt th half tap \<open>c = l\<close>
        by (auto simp: win_inv_def window_step_def Let_def c1 intro!: exI [of _ "n - c"])
    next
      case False
      with t1 wd have "widest p (Suc n) m l" by (intro widest_same) auto
      then show ?thesis
        using True p t1 False i1 gt mi tap
        by (auto simp: win_inv_def window_step_def Let_def c1 l_def [symmetric] intro!: exI [of _ m])
    qed
  qed
qed

lemma window0_inv: "win_inv p 0 window0"
  by (auto simp: win_inv_def window0_def trailing_def widest_def)

lemma find_window_inv:
  assumes "\<And>k. k < n \<Longrightarrow> p k \<longleftrightarrow> CHECK_MASK_BIT msk k = 0" and "n \<le> 128"
  shows "win_inv p n (fold (window_step msk) [0..<n] window0)"
  using assms
proof (induction n)
  case 0
  then show ?case by (simp add: window0_inv)
next
  case (Suc n)
  then show ?case by (simp add: win_inv_step)
qed

lemma find_window_widest:
  assumes "\<And>k. k < 128 \<Longrightarrow> p k \<longleftrightarrow> CHECK_MASK_BIT msk k = 0"
  obtains m where "widest p 128 m (unat (max_window_size (find_window msk)))"
    and "win_tap (find_window msk) =
      (if 20 \<le> unat (max_window_size (find_window msk))
       then int (m + unat (max_window_size (find_window msk)) div 2) else -1)"
  using find_window_inv [OF assms, of 128] unfolding find_window_def TUNE_MAX_PHCODE_def win_inv_def Let_def
  by blast

section \<open>When the lead/lag size is zero\<close>

text \<open>A 0-bit that a later 1-bit follows.\<close>

fun rises :: "(nat \<Rightarrow> bool) \<Rightarrow> nat list \<Rightarrow> bool" where
  "rises p [] = False"
| "rises p (k # ks) = (p k \<and> (\<exists>j \<in> set ks. \<not> p j) \<or> rises p ks)"

lemma rises_upt: "rises p [m..<n] \<longleftrightarrow> (\<exists>i j. m \<le> i \<and> i < j \<and> j < n \<and> p i \<and> \<not> p j)"
proof (induction "n - m" arbitrary: m)
  case (Suc d)
  then have m: "m < n" and d: "d = n - Suc m" by simp_all
  have split: "(\<exists>i. m \<le> i \<and> Q i) \<longleftrightarrow> Q m \<or> (\<exists>i. Suc m \<le> i \<and> Q i)" for Q
    by (metis Suc_leD le_refl le_antisym not_less_eq_eq)
  have "(\<exists>i. m \<le> i \<and> (\<exists>j. i < j \<and> j < n \<and> p i \<and> \<not> p j)) \<longleftrightarrow>
      p m \<and> (\<exists>j \<in> {Suc m..<n}. \<not> p j) \<or> (\<exists>i. Suc m \<le> i \<and> (\<exists>j. i < j \<and> j < n \<and> p i \<and> \<not> p j))"
    by (subst split) (auto simp: Suc_le_eq)
  then show ?case using m Suc.hyps(1) [OF d] by (simp add: upt_conv_Cons)
qed auto

definition ll_inv :: "lead_lag \<Rightarrow> bool" where
  "ll_inv l \<longleftrightarrow> (ll_idx l = -1 \<longleftrightarrow> ll_size l = 0) \<and> -1 \<le> ll_idx l \<and> (ll_max_size l \<noteq> 0 \<longrightarrow> ll_size l \<noteq> 0) \<and>
     (ll_phase l = 1 \<and> ll_size l \<noteq> 0 \<longrightarrow> ll_max_size l \<noteq> 0)"

lemma find_lead_lag_zero:
  assumes "ll_inv l" and "unat (ll_size l) + length ks < 65536"
  shows "ll_max_size (find_lead_lag msk ks l) = 0 \<longleftrightarrow>
    ll_max_size l = 0 \<and> (ll_size l = 0 \<or> (\<forall>k \<in> set ks. CHECK_MASK_BIT msk k = 0)) \<and>
    \<not> rises (\<lambda>k. CHECK_MASK_BIT msk k = 0) ks"
  using assms
proof (induction ks arbitrary: l)
  case (Cons k ks)
  have s1: "unat (ll_size l + 1) = Suc (unat (ll_size l))"
    using Cons.prems(2) by (intro unat_Suc_u16) simp
  then have nz: "ll_size l + 1 \<noteq> 0" by (metis nat.distinct(1) unat_eq_zero)
  have pos: "0 < ll_size l \<longleftrightarrow> ll_size l \<noteq> 0" "0 < ll_size l + 1 \<longleftrightarrow> ll_size l + 1 \<noteq> 0" by (simp_all add: word_gt_0)
  note IH = Cons.IH
  show ?case
  proof (cases "CHECK_MASK_BIT msk k = 0")
    case True
    show ?thesis
    proof (cases "ll_phase l = 1 \<and> ll_size l > 0")
      case br: True
      then show ?thesis using True Cons.prems(1) by (auto simp: ll_inv_def)
    next
      case False
      define l' where "l' = (if ll_idx l = -1 then l\<lparr>ll_idx := int k\<rparr> else l)\<lparr>ll_size := ll_size l + 1, ll_phase := 0\<rparr>"
      have eq: "find_lead_lag msk (k # ks) l = find_lead_lag msk ks l'"
        using True False by (auto simp: l'_def Let_def)
      have "ll_inv l'" using Cons.prems(1) nz by (auto simp: l'_def ll_inv_def)
      moreover have "unat (ll_size l') + length ks < 65536" using Cons.prems(2) s1 by (simp add: l'_def)
      moreover have "ll_size l' \<noteq> 0" "ll_max_size l' = ll_max_size l" using nz by (simp_all add: l'_def)
      ultimately show ?thesis unfolding eq using True IH [of l'] by auto
    qed
  next
    case False
    show ?thesis
    proof (cases "ll_size l = 0")
      case True
      define l' where "l' = l\<lparr>ll_phase := 1, ll_size := 0\<rparr>"
      have eq: "find_lead_lag msk (k # ks) l = find_lead_lag msk ks l'"
        using True False by (simp add: l'_def)
      have "ll_inv l'" using Cons.prems(1) True by (auto simp: l'_def ll_inv_def)
      then show ?thesis unfolding eq using True False IH [of l'] Cons.prems by (auto simp: l'_def ll_inv_def)
    next
      case nonzero: False
      define l' where "l' = l\<lparr>ll_phase := 1, ll_size := ll_size l + 1, ll_max_idx := ll_idx l, ll_max_size := ll_size l + 1\<rparr>"
      have eq: "find_lead_lag msk (k # ks) l = find_lead_lag msk ks l'"
        using nonzero False Cons.prems(1) pos by (simp add: l'_def Let_def ll_inv_def)
      have "ll_inv l'" using Cons.prems(1) nz nonzero by (auto simp: l'_def ll_inv_def)
      moreover have "unat (ll_size l') + length ks < 65536" using Cons.prems(2) s1 by (simp add: l'_def)
      ultimately show ?thesis unfolding eq using IH [of l'] nz nonzero False by (auto simp: l'_def)
    qed
  qed
qed auto

lemma max_lead_lag_zero:
  "ll_max_size (max_lead_lag msk) = 0 \<longleftrightarrow>
   \<not> (\<exists>i j. i < j \<and> j < 128 \<and> CHECK_MASK_BIT msk i = 0 \<and> CHECK_MASK_BIT msk j \<noteq> 0)"
proof -
  have "ll_inv lead_lag0" "unat (ll_size lead_lag0) + length [0..<128] < 65536" "ll_size lead_lag0 = 0"
    by (simp_all add: ll_inv_def lead_lag0_def)
  from find_lead_lag_zero [OF this(1,2)] this(3) show ?thesis
    by (simp add: max_lead_lag_def TUNE_MAX_PHCODE_def rises_upt lead_lag0_def)
qed

section \<open>Retries\<close>

lemma tune_tap_spec:
  "n \<le> 50 \<Longrightarrow> (fst (tune_tap ans n) \<noteq> 0 \<longleftrightarrow> (\<exists>i. n \<le> i \<and> i \<le> 50 \<and> ans i \<noteq> 0)) \<and>
   n < snd (tune_tap ans n) \<and> snd (tune_tap ans n) \<le> 51"
proof (induction ans n rule: tune_tap.induct)
  case (1 ans n)
  show ?case
  proof (cases "ans n = 0 \<and> n < 50")
    case True
    then have "tune_tap ans n = tune_tap ans (n + 1)"
      by (subst tune_tap.simps) (simp add: MAX_TUNING_CMD_RETRY_COUNT_def)
    moreover have "(\<exists>i. n \<le> i \<and> i \<le> 50 \<and> ans i \<noteq> 0) \<longleftrightarrow> (\<exists>i. n + 1 \<le> i \<and> i \<le> 50 \<and> ans i \<noteq> 0)"
      using True by (metis Suc_eq_plus1 le_antisym not_less_eq_eq le_SucI Suc_leD)
    ultimately show ?thesis using 1 True by (auto simp: MAX_TUNING_CMD_RETRY_COUNT_def)
  next
    case False
    then have "tune_tap ans n = (ans n, n + 1)"
      by (subst tune_tap.simps) (auto simp: MAX_TUNING_CMD_RETRY_COUNT_def)
    then show ?thesis using False 1(2) by auto
  qed
qed

end
