(* ===== verification/Sdhci.thy ===== *)
theory Sdhci
  imports Mmio Sdtune
begin

text \<open>
  The SD/eMMC/SDIO host driver (\<open>sdhci-cv181x/sdhci-cv181x.c\<close>): pads, resets, UHS signalling,
  the tap tuning, the rail of the SD slot, the ADMA descriptor split at 128 MiB, card-detect
  debounce and probe.

  The state is a host with the register windows the driver maps: its own SDHCI registers and the
  pin multiplexer, top, clock generator and RTC blocks, which all hosts share. What the SDHCI core
  does in \<open>sdhci_reset\<close> and \<open>sdhci_set_power_noreg\<close> is an argument of the functions that call it,
  and so is what the card and the hardware answer (the tuning commands, the delay status, the
  self-clearing reset bits).
\<close>

section \<open>State\<close>

record cvi_host =
  ioaddr :: mmio
  pinmuxbase :: mmio
  topbase :: mmio
  clkgenbase :: mmio
  rtcbase :: mmio
  host_id :: nat
  ier :: u32
  host_clock :: u32
  quirks2 :: u32
  f_max :: u32
  max_clk :: u32
  adma_table_cnt :: u32
  final_tap :: u8
  sdio0_voltage_1_8_v :: u8
  clk_enabled :: bool
  axi_enabled :: bool
  pre_gpio_cd :: int
  is_debounce_work_running :: bool
  wifi_mmc :: "nat option"
  wifi_pwr_on_desc :: "nat option"

definition SDHCI_CLOCK_CONTROL :: nat where "SDHCI_CLOCK_CONTROL = 0x2C"
definition SDHCI_SOFTWARE_RESET :: nat where "SDHCI_SOFTWARE_RESET = 0x2F"
definition SDHCI_INT_STATUS :: nat where "SDHCI_INT_STATUS = 0x30"
definition SDHCI_INT_ENABLE :: nat where "SDHCI_INT_ENABLE = 0x34"
definition SDHCI_SIGNAL_ENABLE :: nat where "SDHCI_SIGNAL_ENABLE = 0x38"
definition SDHCI_HOST_CONTROL2 :: nat where "SDHCI_HOST_CONTROL2 = 0x3E"
definition SDHCI_CTRL_UHS_MASK :: u16 where "SDHCI_CTRL_UHS_MASK = 7"
definition SDHCI_CTRL_UHS_SDR12 :: u16 where "SDHCI_CTRL_UHS_SDR12 = 0"
definition SDHCI_CTRL_UHS_SDR25 :: u16 where "SDHCI_CTRL_UHS_SDR25 = 1"
definition SDHCI_CTRL_UHS_SDR50 :: u16 where "SDHCI_CTRL_UHS_SDR50 = 2"
definition SDHCI_CTRL_UHS_SDR104 :: u16 where "SDHCI_CTRL_UHS_SDR104 = 3"
definition SDHCI_CTRL_UHS_DDR50 :: u16 where "SDHCI_CTRL_UHS_DDR50 = 4"
definition SDHCI_MAX_SEGS :: u32 where "SDHCI_MAX_SEGS = 128"
definition SDHCI_QUIRK2_RX_PHASE_FORWARD :: u32 where "SDHCI_QUIRK2_RX_PHASE_FORWARD = push_bit 28 1"
definition SDHCI_QUIRK2_TX_PHASE_FORWARD :: u32 where "SDHCI_QUIRK2_TX_PHASE_FORWARD = push_bit 29 1"
definition VENDOR_MSHC_CTRL_R :: nat where "VENDOR_MSHC_CTRL_R = 0x200"
definition PHY_TX_RX_DLY :: nat where "PHY_TX_RX_DLY = 0x240"
definition PHY_DS_DLY :: nat where "PHY_DS_DLY = 0x244"
definition PHY_DLY_STS :: nat where "PHY_DLY_STS = 0x248"
definition PHY_CONFIG :: nat where "PHY_CONFIG = 0x24C"
definition OFFSET_SD_PWRSW_CTRL :: nat where "OFFSET_SD_PWRSW_CTRL = 0x1F4"

lemmas sdhci_offsets = SDHCI_CLOCK_CONTROL_def SDHCI_SOFTWARE_RESET_def SDHCI_INT_STATUS_def
  SDHCI_INT_ENABLE_def SDHCI_SIGNAL_ENABLE_def SDHCI_HOST_CONTROL2_def VENDOR_MSHC_CTRL_R_def
  PHY_TX_RX_DLY_def PHY_DS_DLY_def PHY_DLY_STS_def PHY_CONFIG_def OFFSET_SD_PWRSW_CTRL_def

definition BIT :: "nat \<Rightarrow> 'a::len word" where
  "BIT n = push_bit n 1"

text \<open>The accessors of the SDHCI core (no access hook is installed, so they go to the window).\<close>

definition sdhci_readb :: "cvi_host \<Rightarrow> nat \<Rightarrow> u8" where "sdhci_readb s a = readb (ioaddr s) a"
definition sdhci_readw :: "cvi_host \<Rightarrow> nat \<Rightarrow> u16" where "sdhci_readw s a = readw (ioaddr s) a"
definition sdhci_readl :: "cvi_host \<Rightarrow> nat \<Rightarrow> u32" where "sdhci_readl s a = readl (ioaddr s) a"

definition sdhci_writeb :: "u8 \<Rightarrow> nat \<Rightarrow> cvi_host \<Rightarrow> cvi_host" where
  "sdhci_writeb v a s = s\<lparr>ioaddr := writeb v a (ioaddr s)\<rparr>"

definition sdhci_writew :: "u16 \<Rightarrow> nat \<Rightarrow> cvi_host \<Rightarrow> cvi_host" where
  "sdhci_writew v a s = s\<lparr>ioaddr := writew v a (ioaddr s)\<rparr>"

definition sdhci_writel :: "u32 \<Rightarrow> nat \<Rightarrow> cvi_host \<Rightarrow> cvi_host" where
  "sdhci_writel v a s = s\<lparr>ioaddr := writel v a (ioaddr s)\<rparr>"

lemmas sdhci_accessors = sdhci_readb_def sdhci_readw_def sdhci_readl_def sdhci_writeb_def
  sdhci_writew_def sdhci_writel_def

text \<open>Read-modify-write of a 32-bit register: set or clear bits.\<close>

definition setl :: "u32 \<Rightarrow> nat \<Rightarrow> cvi_host \<Rightarrow> cvi_host" where
  "setl b a s = sdhci_writel (sdhci_readl s a OR b) a s"

definition clrl :: "u32 \<Rightarrow> nat \<Rightarrow> cvi_host \<Rightarrow> cvi_host" where
  "clrl b a s = sdhci_writel (sdhci_readl s a AND NOT b) a s"

section \<open>Pads\<close>

definition sdhci_cv181x_emmc_setup_pad :: "cvi_host \<Rightarrow> cvi_host" where
  "sdhci_cv181x_emmc_setup_pad s =
     s\<lparr>pinmuxbase := fold (\<lambda>a. writeb 0 a) [0x48, 0x50, 0x5C, 0x54, 0x60, 0x4C, 0x58] (pinmuxbase s)\<rparr>"

definition sdhci_cv181x_sd_setup_pad :: "bool \<Rightarrow> cvi_host \<Rightarrow> cvi_host" where
  "sdhci_cv181x_sd_setup_pad bunplug s =
     (let val = (if bunplug then 0x3 else 0x0) in
      s\<lparr>pinmuxbase := fold (\<lambda>(v, a). writeb v a)
          [(0, 0x34), (0, 0x38), (val, 0x1C), (val, 0x20), (val, 0x24), (val, 0x28), (val, 0x2C), (val, 0x30)]
          (pinmuxbase s)\<rparr>)"

text \<open>One pad: the \<open>up\<close> bits set, the \<open>down\<close> bits cleared.\<close>

definition pull :: "u8 \<Rightarrow> u8 \<Rightarrow> nat \<Rightarrow> mmio \<Rightarrow> mmio" where
  "pull up down a m = writeb ((readb m a OR up) AND NOT down) a m"

definition sdhci_cv181x_sd_setup_io :: "bool \<Rightarrow> cvi_host \<Rightarrow> cvi_host" where
  "sdhci_cv181x_sd_setup_io reset s =
     (let raise_bit = (if reset then BIT 3 else BIT 2); down_bit = (if reset then BIT 2 else BIT 3);
          m = pinmuxbase s;
          m = pull (BIT 2) (BIT 3) 0x900 m;
          m = pull (BIT 3) (BIT 2) 0x904 m;
          m = pull (BIT 3) (BIT 2) 0xA00 m;
          m = pull raise_bit down_bit 0xA04 m;
          m = pull raise_bit down_bit 0xA08 m;
          m = pull raise_bit down_bit 0xA0C m;
          m = pull raise_bit down_bit 0xA10 m;
          m = pull raise_bit down_bit 0xA14 m
      in s\<lparr>pinmuxbase := m\<rparr>)"

section \<open>Resets and bus modes\<close>

text \<open>The eMMC reset pin (the build without \<open>CONFIG_ENABLE_EMMC_HW_RESET_QFN\<close>): low, then high.\<close>

definition hw_reset_low :: "cvi_host \<Rightarrow> cvi_host" where
  "hw_reset_low s = clrl (BIT 8) VENDOR_MSHC_CTRL_R s"

definition sdhci_cvi_emmc_hw_reset :: "cvi_host \<Rightarrow> cvi_host" where
  "sdhci_cvi_emmc_hw_reset s = setl (BIT 8) VENDOR_MSHC_CTRL_R (hw_reset_low s)"

text \<open>\<open>rst\<close> is \<open>sdhci_reset\<close>: it changes the registers and may forget the clock.\<close>

type_synonym core_reset = "u8 \<Rightarrow> mmio \<times> u32 \<Rightarrow> mmio \<times> u32"

definition sdhci_reset :: "core_reset \<Rightarrow> u8 \<Rightarrow> cvi_host \<Rightarrow> cvi_host" where
  "sdhci_reset rst msk s =
     (let (m, c) = rst msk (ioaddr s, host_clock s) in s\<lparr>ioaddr := m, host_clock := c\<rparr>)"

definition sdhci_cvi_reset_helper :: "core_reset \<Rightarrow> u8 \<Rightarrow> cvi_host \<Rightarrow> cvi_host" where
  "sdhci_cvi_reset_helper rst msk s =
     (let s = sdhci_writel 0 SDHCI_INT_ENABLE s;
          s = sdhci_writel 0 SDHCI_SIGNAL_ENABLE s;
          s = sdhci_reset rst msk s;
          s = sdhci_writel (ier s) SDHCI_INT_ENABLE s
      in sdhci_writel (ier s) SDHCI_SIGNAL_ENABLE s)"

text \<open>
  The part the three resets share: the tuned tap in SDR104, the DS/HS setting otherwise.
  \<open>sd1\<close> sets the extra bit of the SDIO host.
\<close>

definition tap_word :: "u8 \<Rightarrow> u32" where
  "tap_word tap = BIT 8 OR push_bit 16 (ucast tap AND 0x7F)"

definition ds_hs_word :: "u32 \<Rightarrow> u32" where
  "ds_hs_word q =
     (let r = 0;
          r = (if q AND SDHCI_QUIRK2_RX_PHASE_FORWARD = 0 then r OR BIT 24 else r);
          r = (if q AND SDHCI_QUIRK2_TX_PHASE_FORWARD = 0 then r OR BIT 8 else r)
      in r)"

definition phy_restore :: "bool \<Rightarrow> cvi_host \<Rightarrow> cvi_host" where
  "phy_restore sd1 s =
     (let ctrl_2 = sdhci_readw s SDHCI_HOST_CONTROL2 AND SDHCI_CTRL_UHS_MASK in
      if ctrl_2 = SDHCI_CTRL_UHS_SDR104 then
        (let s = clrl (BIT 1) VENDOR_MSHC_CTRL_R s;
             s = (if sd1 then setl (BIT 16) VENDOR_MSHC_CTRL_R s else s);
             s = clrl (BIT 0) PHY_CONFIG s
         in sdhci_writel (tap_word (final_tap s)) PHY_TX_RX_DLY s)
      else
        (let s = setl (BIT 1) VENDOR_MSHC_CTRL_R s;
             s = (if sd1 then setl (BIT 16) VENDOR_MSHC_CTRL_R s else s);
             s = setl (BIT 0) PHY_CONFIG s
         in sdhci_writel (ds_hs_word (quirks2 s)) PHY_TX_RX_DLY s))"

definition sdhci_cv181x_emmc_reset :: "core_reset \<Rightarrow> u8 \<Rightarrow> cvi_host \<Rightarrow> cvi_host" where
  "sdhci_cv181x_emmc_reset rst msk s =
     (let s = sdhci_cvi_reset_helper rst msk s;
          s = setl (BIT 0) VENDOR_MSHC_CTRL_R s
      in phy_restore False s)"

definition sdhci_cv181x_sd_reset :: "core_reset \<Rightarrow> u8 \<Rightarrow> cvi_host \<Rightarrow> cvi_host" where
  "sdhci_cv181x_sd_reset rst msk s = phy_restore False (sdhci_cvi_reset_helper rst msk s)"

definition sdhci_cv181x_sdio_reset :: "core_reset \<Rightarrow> u8 \<Rightarrow> cvi_host \<Rightarrow> cvi_host" where
  "sdhci_cv181x_sdio_reset rst msk s = phy_restore True (sdhci_cvi_reset_helper rst msk s)"

datatype cv_compat = FPGA_EMMC | FPGA_SD | EMMC | SD | SDIO

text \<open>The \<open>reset\<close> entry of the operation table of each compatible device.\<close>

fun reset_op :: "cv_compat \<Rightarrow> core_reset \<Rightarrow> u8 \<Rightarrow> cvi_host \<Rightarrow> cvi_host" where
  "reset_op EMMC = sdhci_cv181x_emmc_reset"
| "reset_op SD = sdhci_cv181x_sd_reset"
| "reset_op SDIO = sdhci_cv181x_sdio_reset"
| "reset_op FPGA_EMMC = sdhci_cv181x_sd_reset"
| "reset_op FPGA_SD = sdhci_cv181x_sd_reset"

datatype mmc_timing = TIMING_LEGACY | TIMING_MMC_HS | TIMING_SD_HS | UHS_SDR12 | UHS_SDR25 | UHS_SDR50
  | UHS_SDR104 | UHS_DDR50 | MMC_DDR52 | MMC_HS200 | MMC_HS400

definition sdhci_cvi_general_set_uhs_signaling :: "mmc_timing \<Rightarrow> cvi_host \<Rightarrow> cvi_host" where
  "sdhci_cvi_general_set_uhs_signaling uhs s =
     (let ctrl_2 = sdhci_readw s SDHCI_HOST_CONTROL2;
          ctrl_2 = ctrl_2 AND NOT SDHCI_CTRL_UHS_MASK;
          ctrl_2 = (case uhs of
              UHS_SDR12 \<Rightarrow> ctrl_2 OR SDHCI_CTRL_UHS_SDR12
            | UHS_SDR25 \<Rightarrow> ctrl_2 OR SDHCI_CTRL_UHS_SDR25
            | UHS_SDR50 \<Rightarrow> ctrl_2 OR SDHCI_CTRL_UHS_SDR50
            | MMC_HS200 \<Rightarrow> ctrl_2 OR SDHCI_CTRL_UHS_SDR104
            | UHS_SDR104 \<Rightarrow> ctrl_2 OR SDHCI_CTRL_UHS_SDR104
            | UHS_DDR50 \<Rightarrow> ctrl_2 OR SDHCI_CTRL_UHS_DDR50
            | MMC_DDR52 \<Rightarrow> ctrl_2 OR SDHCI_CTRL_UHS_DDR50
            | _ \<Rightarrow> ctrl_2);
          ctrl_2 = (if host_clock s \<le> 100000000 \<and> (uhs = MMC_HS400 \<or> uhs = MMC_HS200 \<or> uhs = UHS_SDR104)
                    then ctrl_2 AND NOT SDHCI_CTRL_UHS_MASK else ctrl_2)
      in sdhci_writew ctrl_2 SDHCI_HOST_CONTROL2 s)"

definition sdhci_cvi_general_get_max_clock :: "cvi_host \<Rightarrow> u32" where
  "sdhci_cvi_general_get_max_clock s = f_max s"

section \<open>Tuning\<close>

definition sdhci_cvi_cv181x_set_tap :: "u32 \<Rightarrow> cvi_host \<Rightarrow> cvi_host" where
  "sdhci_cvi_cv181x_set_tap tap s =
     (let s = sdhci_writew (sdhci_readw s SDHCI_CLOCK_CONTROL AND NOT (BIT 2)) SDHCI_CLOCK_CONTROL s;
          s = clrl (BIT 1) VENDOR_MSHC_CTRL_R s;
          s = sdhci_writel (BIT 8 OR push_bit 16 tap) PHY_TX_RX_DLY s;
          s = sdhci_writel 0 PHY_CONFIG s
      in sdhci_writew (sdhci_readw s SDHCI_CLOCK_CONTROL OR BIT 2) SDHCI_CLOCK_CONTROL s)"

text \<open>\<open>polls\<close> is what successive reads of the reset register answer; \<open>False\<close>: the loop is still
  waiting when they are used up.\<close>

fun wait_reset :: "u8 list \<Rightarrow> bool" where
  "wait_reset [] = False"
| "wait_reset (r # rs) = (if r AND 0x3 \<noteq> 0 then wait_reset rs else True)"

definition reset_after_tuning_pass :: "u8 list \<Rightarrow> cvi_host \<Rightarrow> bool \<times> cvi_host" where
  "reset_after_tuning_pass polls s =
     (let s = sdhci_writew (sdhci_readw s SDHCI_INT_STATUS AND NOT (BIT 5)) SDHCI_INT_STATUS s;
          s = sdhci_writeb (sdhci_readb s SDHCI_SOFTWARE_RESET OR BIT 2) SDHCI_SOFTWARE_RESET s;
          s = sdhci_writeb (sdhci_readb s SDHCI_SOFTWARE_RESET OR BIT 1) SDHCI_SOFTWARE_RESET s
      in (wait_reset polls, s))"

text \<open>What the card and the PHY answer while tuning: the return code of every command at every tap, the
  delay status after every tap is set, the reset register, and the command that ends the tuning.\<close>

record tuning_env =
  te_send :: "nat \<Rightarrow> nat \<Rightarrow> int"
  te_sts :: "nat \<Rightarrow> u16"
  te_polls :: "u8 list"
  te_last :: int

record tuning_acc =
  tuning_result :: "u8 list"
  rx_lead_lag_result :: "u8 list"
  tuning_cmds :: nat

definition tuning_acc0 :: tuning_acc where
  "tuning_acc0 = \<lparr>tuning_result = mask0, rx_lead_lag_result = mask0, tuning_cmds = 0\<rparr>"

definition tune_one :: "tuning_env \<Rightarrow> nat \<Rightarrow> tuning_acc \<times> cvi_host \<Rightarrow> tuning_acc \<times> cvi_host" where
  "tune_one e tap st =
     (case st of (t, s) \<Rightarrow>
        (let s = sdhci_cvi_cv181x_set_tap (of_nat tap) s;
             lag = te_sts e tap AND BIT 1;
             (ret, n) = tune_tap (te_send e tap) 0;
             t = t\<lparr>tuning_cmds := tuning_cmds t + n\<rparr>;
             t = (if ret \<noteq> 0 then t\<lparr>tuning_result := SET_MASK_BIT (tuning_result t) tap\<rparr> else t);
             t = (if lag \<noteq> 0 then t\<lparr>rx_lead_lag_result := SET_MASK_BIT (rx_lead_lag_result t) tap\<rparr> else t)
         in (t, s)))"

definition tune_all :: "tuning_env \<Rightarrow> cvi_host \<Rightarrow> tuning_acc \<times> cvi_host" where
  "tune_all e s = fold (tune_one e) [0..<TUNE_MAX_PHCODE] (tuning_acc0, s)"

datatype tuning_end = Tuned int | Div_by_zero | Reset_stuck

text \<open>\<open>SAMPLE_CLK_SEL\<close> and the driver strength are cleared first.\<close>

definition tuning_start :: "cvi_host \<Rightarrow> cvi_host" where
  "tuning_start s =
     (let s = sdhci_writew (sdhci_readw s SDHCI_HOST_CONTROL2 AND NOT (BIT 7)) SDHCI_HOST_CONTROL2 s
      in sdhci_writew (sdhci_readw s SDHCI_HOST_CONTROL2 AND NOT (push_bit 4 3)) SDHCI_HOST_CONTROL2 s)"

text \<open>The search for the tap and its use. The middle component counts the tuning commands.\<close>

definition tuning_finish :: "tuning_env \<Rightarrow> tuning_acc \<Rightarrow> cvi_host \<Rightarrow> tuning_end \<times> nat \<times> cvi_host" where
  "tuning_finish e t s =
     (let w = find_window (tuning_result t); l = max_lead_lag (rx_lead_lag_result t) in
      case tuning_rate w l of
        None \<Rightarrow> (Div_by_zero, tuning_cmds t, s)
      | Some rate \<Rightarrow>
          (let s = sdhci_cvi_cv181x_set_tap (word_of_int (win_tap w)) s;
               s = s\<lparr>final_tap := word_of_int (win_tap w)\<rparr>
           in (Tuned (te_last e), tuning_cmds t + 1, s)))"

definition sdhci_cv181x_general_execute_tuning ::
  "tuning_env \<Rightarrow> cvi_host \<Rightarrow> tuning_end \<times> nat \<times> cvi_host" where
  "sdhci_cv181x_general_execute_tuning e s =
     (let s = tuning_start s;
          (t, s) = tune_all e s;
          (clear, s) = reset_after_tuning_pass (te_polls e) s
      in if \<not> clear then (Reset_stuck, tuning_cmds t, s) else tuning_finish e t s)"

section \<open>The rail of the SD slot\<close>

definition sdhci_cvi_emmc_voltage_switch :: "cvi_host \<Rightarrow> cvi_host" where
  "sdhci_cvi_emmc_voltage_switch s = s"

definition set_pwrsw :: "u32 \<Rightarrow> cvi_host \<Rightarrow> cvi_host" where
  "set_pwrsw v s = s\<lparr>topbase := writel (v OR (readl (topbase s) OFFSET_SD_PWRSW_CTRL AND 0xFFFFFFF0))
                       OFFSET_SD_PWRSW_CTRL (topbase s)\<rparr>"

definition sdhci_cv181x_sd_voltage_switch :: "cvi_host \<Rightarrow> cvi_host" where
  "sdhci_cv181x_sd_voltage_switch s =
     (let s = s\<lparr>pinmuxbase := writeb (readb (pinmuxbase s) 0xA00 OR BIT 7 OR BIT 6 OR BIT 5) 0xA00 (pinmuxbase s)\<rparr>;
          s = set_pwrsw 0xB s
      in s\<lparr>sdio0_voltage_1_8_v := 1\<rparr>)"

definition sdhci_cv181x_sd_voltage_restore :: "bool \<Rightarrow> cvi_host \<Rightarrow> cvi_host" where
  "sdhci_cv181x_sd_voltage_restore bunplug s =
     (let s = (if bunplug then (set_pwrsw 0xE s)\<lparr>sdio0_voltage_1_8_v := 0\<rparr>
               else if sdio0_voltage_1_8_v s = 0 then set_pwrsw 0x9 s else s);
          s = setl (BIT 1 OR BIT 8 OR BIT 9) VENDOR_MSHC_CTRL_R s;
          s = sdhci_writel 0x1000100 PHY_TX_RX_DLY s
      in sdhci_writel 1 PHY_CONFIG s)"

datatype power_mode = MMC_POWER_OFF | MMC_POWER_UP | MMC_POWER_ON | MMC_POWER_UNDEFINED

text \<open>\<open>cd\<close> is the answer of \<open>get_cd\<close>; \<open>noreg\<close> is \<open>sdhci_set_power_noreg\<close> for the mode and voltage asked for.\<close>

definition sdhci_cv181x_sd_set_power :: "(mmio \<Rightarrow> mmio) \<Rightarrow> power_mode \<Rightarrow> bool \<Rightarrow> cvi_host \<Rightarrow> cvi_host" where
  "sdhci_cv181x_sd_set_power noreg mode cd s =
     (if mode = MMC_POWER_ON \<and> cd then
        (let s = s\<lparr>ioaddr := noreg (ioaddr s)\<rparr>;
             s = sdhci_cv181x_sd_voltage_restore False s;
             s = sdhci_cv181x_sd_setup_pad False s
         in sdhci_cv181x_sd_setup_io False s)
      else if mode = MMC_POWER_OFF then
        (let s = sdhci_cv181x_sd_setup_pad True s;
             s = sdhci_cv181x_sd_setup_io True s;
             s = sdhci_cv181x_sd_voltage_restore True s
         in s\<lparr>ioaddr := noreg (ioaddr s)\<rparr>)
      else s)"

section \<open>Register dumps\<close>

text \<open>A pad line of the dump: function, pull-up, pull-down, drive strength.\<close>

record pad_line =
  pad_fn :: u8
  pad_pu :: u8
  pad_pd :: u8
  pad_ds2 :: u8
  pad_ds1 :: u8
  pad_ds0 :: u8

definition dump_pad :: "mmio \<Rightarrow> nat \<times> nat \<Rightarrow> pad_line" where
  "dump_pad m = (\<lambda>(pad, reg).
     (let r = readb m reg in
      \<lparr>pad_fn = readb m pad AND 0x07, pad_pu = drop_bit 2 (r AND 0x04), pad_pd = drop_bit 3 (r AND 0x08),
       pad_ds2 = drop_bit 7 (r AND 0x80), pad_ds1 = drop_bit 6 (r AND 0x40), pad_ds0 = drop_bit 5 (r AND 0x20)\<rparr>))"

definition dump_regs :: "cvi_host \<Rightarrow> u32 list" where
  "dump_regs s = [sdhci_readl s VENDOR_MSHC_CTRL_R, sdhci_readl s PHY_TX_RX_DLY, sdhci_readl s PHY_DS_DLY,
     ucast (sdhci_readw s PHY_DLY_STS), sdhci_readl s PHY_CONFIG]"

text \<open>The clock lines: enables, source, divider register, and the rate when the divider is the known one.\<close>

definition dump_clk :: "mmio \<Rightarrow> u8 \<Rightarrow> nat \<Rightarrow> nat \<Rightarrow> nat \<Rightarrow> u32 \<times> u8 \<times> u32 \<times> nat option" where
  "dump_clk m b sh r0 r1 =
     (let sel = drop_bit sh (readb m 0x20 AND b) in
      if sel = 0 then (readl m 0, sel, readl m r0, if readl m r0 = 1 then Some (1188 div 12) else None)
      else (readl m 0, sel, readl m r1, if readl m r1 = 0x00040009 then Some (1500 div 4) else None))"

definition sdhci_cv181x_emmc_dump_vendor_regs ::
  "cvi_host \<Rightarrow> u32 list \<times> pad_line list \<times> u32 \<times> u8 \<times> u32 \<times> nat option" where
  "sdhci_cv181x_emmc_dump_vendor_regs s =
     (dump_regs s,
      map (dump_pad (pinmuxbase s))
        [(0x48, 0x914), (0x50, 0x91D), (0x5C, 0x928), (0x54, 0x920), (0x60, 0x92D), (0x4C, 0x918), (0x58, 0x924)],
      dump_clk (clkgenbase s) 0x20 5 0x68 0x64)"

definition sdhci_cv181x_sd_dump_vendor_regs ::
  "cvi_host \<Rightarrow> u32 list \<times> pad_line list \<times> u32 \<times> u8 \<times> u32 \<times> nat option" where
  "sdhci_cv181x_sd_dump_vendor_regs s =
     (dump_regs s,
      map (dump_pad (pinmuxbase s))
        [(0x38, 0x904), (0x34, 0x900), (0x1C, 0xA00), (0x20, 0xA04), (0x24, 0xA08), (0x28, 0xA0C), (0x2C, 0xA10), (0x30, 0xA14)],
      dump_clk (clkgenbase s) 0x40 6 0x74 0x70)"

section \<open>ADMA descriptors\<close>

definition SZ_128M :: u64 where "SZ_128M = 0x8000000"

definition BOUNDARY_OK :: "u64 \<Rightarrow> int \<Rightarrow> bool" where
  "BOUNDARY_OK addr len \<longleftrightarrow>
     (addr OR (SZ_128M - 1)) = ((addr + word_of_int len - 1) OR (SZ_128M - 1))"

text \<open>The descriptors written, as address, length and command.\<close>

definition cvi_adma_write_desc :: "u64 \<Rightarrow> int \<Rightarrow> u32 \<Rightarrow> (u64 \<times> int \<times> u32) list" where
  "cvi_adma_write_desc addr len cmd =
     (if len = 0 \<or> BOUNDARY_OK addr len then [(addr, len, cmd)]
      else
        (let offset = uint (addr AND (SZ_128M - 1)); tmplen = uint SZ_128M - offset in
         [(addr, tmplen, cmd), (addr + word_of_int tmplen, len - tmplen, cmd)]))"

section \<open>Card detect\<close>

text \<open>
  One turn of the debounce loop reads the clock; when the time is up it reads the pin, and if the
  pin differs it reads pin and clock again. The turns are the argument; \<open>None\<close>: still looping.
\<close>

record cd_turn =
  ct_now :: u64
  ct_cd :: int
  ct_cd2 :: int
  ct_now2 :: u64

definition SDHCI_GPIO_CD_DEBOUNCE_TIME :: u64 where "SDHCI_GPIO_CD_DEBOUNCE_TIME = 10"

fun debounce_loop :: "int \<Rightarrow> u64 \<Rightarrow> cd_turn list \<Rightarrow> int option" where
  "debounce_loop pre start [] = None"
| "debounce_loop pre start (t # ts) =
     (if ct_now t - start \<ge> SDHCI_GPIO_CD_DEBOUNCE_TIME then
        (if pre = ct_cd t then Some pre else debounce_loop (ct_cd2 t) (ct_now2 t) ts)
      else debounce_loop pre start ts)"

text \<open>The first component: whether \<open>card_event\<close> and \<open>mmc_detect_change\<close> ran.\<close>

definition sdhci_cvi_cd_debounce_work :: "u64 \<Rightarrow> cd_turn list \<Rightarrow> cvi_host \<Rightarrow> bool \<times> cvi_host" where
  "sdhci_cvi_cd_debounce_work start ts s =
     (let pre = pre_gpio_cd s; s = s\<lparr>is_debounce_work_running := True\<rparr> in
      case debounce_loop pre start ts of
        None \<Rightarrow> (False, s)
      | Some _ \<Rightarrow> (True, s\<lparr>is_debounce_work_running := False\<rparr>))"

text \<open>The first component: whether the work is (re)scheduled.\<close>

definition sdhci_cvi_cd_handler :: "int \<Rightarrow> cvi_host \<Rightarrow> bool \<times> cvi_host" where
  "sdhci_cvi_cd_handler cd s = (\<not> is_debounce_work_running s, s\<lparr>pre_gpio_cd := cd\<rparr>)"

section \<open>Probe and the WiFi slot\<close>

definition cvi_get_wifi_pwr_on_desc :: "cvi_host \<Rightarrow> nat option" where
  "cvi_get_wifi_pwr_on_desc s = wifi_pwr_on_desc s"

text \<open>The answer and the host a detection was asked of.\<close>

definition cvi_sdio_rescan :: "cvi_host \<Rightarrow> unit res \<times> nat option" where
  "cvi_sdio_rescan s = (case wifi_mmc s of None \<Rightarrow> (Inl EINVAL, None) | Some m \<Rightarrow> (Inr (), Some m))"

definition rescan_store :: "nat \<Rightarrow> cvi_host \<Rightarrow> nat \<times> nat option" where
  "rescan_store count s = (count, snd (cvi_sdio_rescan s))"

text \<open>What the kernel answers in a probe. \<open>cp_regs\<close> are the registers of the new host.\<close>

record cv_probe_env =
  cp_match :: "cv_compat option"
  cp_gpio :: "nat res"
  cp_rtc :: bool
  cp_init :: "unit res"
  cp_id :: nat
  cp_regs :: mmio
  cp_quirks2 :: u32
  cp_f_max :: u32
  cp_adma_cnt :: u32
  cp_parse :: "unit res"
  cp_clk :: "unit res"
  cp_src_freq :: "u32 option"
  cp_rate :: u32
  cp_set_rate :: "u32 \<Rightarrow> u32"
  cp_axi :: bool
  cp_required_mask :: u64
  cp_add_host :: "unit res"
  cp_name_wifi :: bool
  cp_name_emmc :: bool

definition probe_gpio :: "cv_probe_env \<Rightarrow> cvi_host \<Rightarrow> unit res \<times> cvi_host" where
  "probe_gpio e s =
     (if cp_match e \<noteq> Some SDIO then (Inr (), s)
      else case cp_gpio e of
        Inl err \<Rightarrow> (let s = s\<lparr>wifi_pwr_on_desc := None\<rparr> in
                   if err = EPROBE_DEFER then (Inl err, s) else (Inr (), s))
      | Inr d \<Rightarrow> (Inr (), s\<lparr>wifi_pwr_on_desc := Some d\<rparr>))"

definition cv_pads :: "nat list" where "cv_pads = [0x58, 0x5c, 0x60, 0x64, 0x68]"

definition probe_pads :: "cv_probe_env \<Rightarrow> cvi_host \<Rightarrow> cvi_host" where
  "probe_pads e s =
     (if cp_match e = Some SDIO \<and> cp_rtc e
      then s\<lparr>rtcbase := fold (\<lambda>a m. writel ((readl m a OR BIT 2) AND NOT (BIT 3)) a m) cv_pads (rtcbase s)\<rparr>
      else s)"

definition probe_clock :: "cv_probe_env \<Rightarrow> cvi_host \<Rightarrow> cvi_host" where
  "probe_clock e s =
     (if cp_match e \<notin> {Some EMMC, Some SD, Some SDIO} then s
      else
        (let s = (case cp_clk e of
               Inl _ \<Rightarrow> s
             | Inr _ \<Rightarrow>
                 (let src = (case cp_src_freq e of None \<Rightarrow> f_max s | Some f \<Rightarrow> if f = 0 then f_max s else f);
                      rate = (if cp_rate e \<noteq> src then cp_set_rate e src else cp_rate e)
                  in s\<lparr>max_clk := rate, clk_enabled := True\<rparr>))
         in if cp_axi e then s\<lparr>axi_enabled := True\<rparr> else s))"

text \<open>\<open>DIV_ROUND_UP_ULL(mask, SZ_128M)\<close> in 64 bits, then truncated to 32.\<close>

definition adma_extra :: "u64 \<Rightarrow> u32" where
  "adma_extra m =
     (let extra = ucast ((m + SZ_128M - 1) div SZ_128M) in
      if extra > SDHCI_MAX_SEGS then SDHCI_MAX_SEGS else extra)"

definition sdhci_cvi_probe :: "cv_probe_env \<Rightarrow> cvi_host \<Rightarrow> unit res \<times> cvi_host" where
  "sdhci_cvi_probe e s =
     (case cp_match e of
        None \<Rightarrow> (Inl EINVAL, s)
      | Some _ \<Rightarrow>
          (case probe_gpio e s of
             (Inl err, s) \<Rightarrow> (Inl err, s)
           | (Inr _, s) \<Rightarrow>
               (let s = probe_pads e s in
                case cp_init e of
                  Inl err \<Rightarrow> (Inl err, s)
                | Inr _ \<Rightarrow>
                    (let s = s\<lparr>ioaddr := cp_regs e, host_id := cp_id e, ier := 0, host_clock := 0,
                               quirks2 := cp_quirks2 e, f_max := cp_f_max e, max_clk := 0,
                               adma_table_cnt := cp_adma_cnt e, final_tap := 0, sdio0_voltage_1_8_v := 0,
                               clk_enabled := False, axi_enabled := False, pre_gpio_cd := 0,
                               is_debounce_work_running := False\<rparr>;
                         s = sdhci_cv181x_sd_voltage_restore False s
                     in case cp_parse e of
                          Inl err \<Rightarrow> (Inl err, s)
                        | Inr _ \<Rightarrow>
                            (let s = probe_clock e s;
                                 s = s\<lparr>adma_table_cnt := adma_table_cnt s + adma_extra (cp_required_mask e)\<rparr>
                             in case cp_add_host e of
                                  Inl err \<Rightarrow> (Inl err, s)
                                | Inr _ \<Rightarrow>
                                    (let s = s\<lparr>wifi_mmc := (if cp_name_wifi e \<or> cp_match e = Some SDIO
                                                           then Some (host_id s) else None)\<rparr>;
                                         s = (if cp_name_emmc e then sdhci_cv181x_emmc_setup_pad s else s)
                                     in (Inr (), s)))))))"

text \<open>Suspend and resume: what the SDHCI core and the clock answer, and whether the clock is left on.\<close>

definition sdhci_cvi_suspend :: "unit res \<Rightarrow> bool \<Rightarrow> unit res \<times> bool" where
  "sdhci_cvi_suspend core clk = (case core of Inl e \<Rightarrow> (Inl e, clk) | Inr _ \<Rightarrow> (Inr (), False))"

definition sdhci_cvi_resume :: "unit res \<Rightarrow> unit res \<Rightarrow> bool \<Rightarrow> unit res \<times> bool" where
  "sdhci_cvi_resume prep core clk =
     (case prep of Inl e \<Rightarrow> (Inl e, clk)
      | Inr _ \<Rightarrow> (case core of Inl e \<Rightarrow> (Inl e, False) | Inr _ \<Rightarrow> (Inr (), True)))"

section \<open>Registers after the operations\<close>

named_theorems sdhci_regs \<open>what the registers hold after an operation\<close>

lemma bit_BIT [bit_simps]: "bit (BIT n :: 'a::len word) k \<longleftrightarrow> k = n \<and> n < LENGTH('a)"
  by (auto simp: BIT_def bit_simps)

lemma sdhci_io [sdhci_regs]:
  "ioaddr (sdhci_writel v a s) = writel v a (ioaddr s)"
  "ioaddr (sdhci_writew w a s) = writew w a (ioaddr s)"
  "ioaddr (sdhci_writeb b a s) = writeb b a (ioaddr s)"
  "ioaddr (setl v a s) = writel (readl (ioaddr s) a OR v) a (ioaddr s)"
  "ioaddr (clrl v a s) = writel (readl (ioaddr s) a AND NOT v) a (ioaddr s)"
  by (simp_all add: setl_def clrl_def sdhci_accessors)

text \<open>The register writes touch nothing but the host's window.\<close>

definition io_only :: "cvi_host \<Rightarrow> cvi_host \<Rightarrow> bool" where
  "io_only s t \<longleftrightarrow> (\<exists>m. t = s\<lparr>ioaddr := m\<rparr>)"

lemma io_only_refl [simp]: "io_only s s"
  unfolding io_only_def by (rule exI [of _ "ioaddr s"]) simp

lemma io_only_trans: "io_only s t \<Longrightarrow> io_only t u \<Longrightarrow> io_only s u"
  by (auto simp: io_only_def)

lemma io_then:
  assumes "io_only s t"
  shows "io_only s (sdhci_writel v a t)" "io_only s (sdhci_writew w a t)" "io_only s (sdhci_writeb b a t)"
    "io_only s (setl v a t)" "io_only s (clrl v a t)"
  using assms by (auto simp: io_only_def setl_def clrl_def sdhci_accessors)

lemma io_only_sel:
  "io_only s t \<Longrightarrow> final_tap t = final_tap s \<and> ier t = ier s \<and> quirks2 t = quirks2 s \<and> topbase t = topbase s \<and>
     pinmuxbase t = pinmuxbase s \<and> sdio0_voltage_1_8_v t = sdio0_voltage_1_8_v s \<and> host_clock t = host_clock s"
  by (auto simp: io_only_def)

lemma set_tap_io: "io_only s (sdhci_cvi_cv181x_set_tap tap s)"
  unfolding sdhci_cvi_cv181x_set_tap_def Let_def by (intro io_then io_only_refl)

lemma set_tap_regs [sdhci_regs]:
  defines "io \<equiv> \<lambda>tap s. ioaddr (sdhci_cvi_cv181x_set_tap tap s)"
  shows "readl (io tap s) PHY_TX_RX_DLY = BIT 8 OR push_bit 16 tap"
    "readl (io tap s) PHY_CONFIG = 0"
    "readl (io tap s) VENDOR_MSHC_CTRL_R = readl (ioaddr s) VENDOR_MSHC_CTRL_R AND NOT (BIT 1)"
    "readw (io tap s) SDHCI_HOST_CONTROL2 = readw (ioaddr s) SDHCI_HOST_CONTROL2"
    "readw (io tap s) SDHCI_CLOCK_CONTROL = readw (ioaddr s) SDHCI_CLOCK_CONTROL OR BIT 2"
  unfolding io_def sdhci_cvi_cv181x_set_tap_def Let_def
  by (simp_all add: sdhci_io sdhci_accessors sdhci_offsets accessor_simps)
     (auto simp: bit_eq_iff bit_simps)

lemma set_tap_other:
  "a + 2 \<le> 0x2C \<or> a = SDHCI_HOST_CONTROL2 \<Longrightarrow>
   readw (ioaddr (sdhci_cvi_cv181x_set_tap tap s)) a = readw (ioaddr s) a"
  unfolding sdhci_cvi_cv181x_set_tap_def Let_def
  by (auto simp: sdhci_io sdhci_accessors sdhci_offsets accessor_simps)

section \<open>The tuning loop\<close>

text \<open>A tap passes when none of its 51 commands fails.\<close>

definition tap_ok :: "tuning_env \<Rightarrow> nat \<Rightarrow> bool" where
  "tap_ok e k \<longleftrightarrow> (\<forall>i \<le> 50. te_send e k i = 0)"

definition lagging :: "tuning_env \<Rightarrow> nat \<Rightarrow> bool" where
  "lagging e k \<longleftrightarrow> bit (te_sts e k) 1"

definition tune_inv :: "tuning_env \<Rightarrow> nat \<Rightarrow> cvi_host \<Rightarrow> tuning_acc \<times> cvi_host \<Rightarrow> bool" where
  "tune_inv e n s st \<longleftrightarrow> (case st of (t, u) \<Rightarrow>
     length (tuning_result t) = 16 \<and> length (rx_lead_lag_result t) = 16 \<and>
     (\<forall>k < 128. CHECK_MASK_BIT (tuning_result t) k = 0 \<longleftrightarrow> n \<le> k \<or> tap_ok e k) \<and>
     (\<forall>k < 128. CHECK_MASK_BIT (rx_lead_lag_result t) k = 0 \<longleftrightarrow> n \<le> k \<or> \<not> lagging e k) \<and>
     n \<le> tuning_cmds t \<and> tuning_cmds t \<le> 51 * n \<and> io_only s u \<and>
     readw (ioaddr u) SDHCI_HOST_CONTROL2 = readw (ioaddr s) SDHCI_HOST_CONTROL2)"

lemma lag_bit: "te_sts e k AND BIT 1 = 0 \<longleftrightarrow> \<not> lagging e k"
  using and_exp_eq_0_iff_not_bit [of "te_sts e k" 1] by (simp add: lagging_def BIT_def)

lemma tune_one_inv:
  assumes "tune_inv e n s st" and n: "n < 128"
  shows "tune_inv e (Suc n) s (tune_one e n st)"
proof -
  obtain t u where st: "st = (t, u)" by (cases st)
  obtain ret c where rc: "tune_tap (te_send e n) 0 = (ret, c)" by (cases "tune_tap (te_send e n) 0")
  have ret: "ret \<noteq> 0 \<longleftrightarrow> \<not> tap_ok e n" and c: "1 \<le> c" "c \<le> 51"
    using tune_tap_spec [of 0 "te_send e n"] by (auto simp: rc tap_ok_def)
  have "io_only s (sdhci_cvi_cv181x_set_tap (of_nat n) u)"
    using assms(1) set_tap_io by (auto simp: tune_inv_def st intro: io_only_trans)
  moreover have "Suc n \<le> k \<longleftrightarrow> n \<le> k \<and> k \<noteq> n" for k by auto
  ultimately show ?thesis
    using assms(1) n c ret rc
    by (auto simp: tune_inv_def st tune_one_def Let_def check_set_mask set_tap_regs lag_bit simp del: One_nat_def)
qed

lemma tune_all_inv: "tune_inv e 128 s (tune_all e s)"
proof -
  have "tune_inv e n s (fold (tune_one e) [0..<n] (tuning_acc0, s))" if "n \<le> 128" for n
    using that
  proof (induction n)
    case 0
    then show ?case by (simp add: tune_inv_def tuning_acc0_def check_mask0) (simp add: mask0_def)
  next
    case (Suc n)
    then show ?case by (simp add: tune_one_inv)
  qed
  then show ?thesis by (simp add: tune_all_def TUNE_MAX_PHCODE_def)
qed

text \<open>The lead/lag status goes from 0 to 1 somewhere.\<close>

definition lag_rises :: "tuning_env \<Rightarrow> bool" where
  "lag_rises e \<longleftrightarrow> (\<exists>i j. i < j \<and> j < 128 \<and> \<not> lagging e i \<and> lagging e j)"

lemma tuning_pass:
  assumes "tune_inv e 128 s (t, u)"
  shows "k < 128 \<Longrightarrow> tap_ok e k \<longleftrightarrow> CHECK_MASK_BIT (tuning_result t) k = 0"
    and "ll_max_size (max_lead_lag (rx_lead_lag_result t)) = 0 \<longleftrightarrow> \<not> lag_rises e"
proof -
  show "k < 128 \<Longrightarrow> tap_ok e k \<longleftrightarrow> CHECK_MASK_BIT (tuning_result t) k = 0"
    using assms by (auto simp: tune_inv_def)
  have "CHECK_MASK_BIT (rx_lead_lag_result t) k = 0 \<longleftrightarrow> \<not> lagging e k" if "k < 128" for k
    using assms that by (auto simp: tune_inv_def)
  then show "ll_max_size (max_lead_lag (rx_lead_lag_result t)) = 0 \<longleftrightarrow> \<not> lag_rises e"
    unfolding max_lead_lag_zero lag_rises_def by (meson less_trans)
qed

lemma execute_tuning_cases:
  obtains t u where "tune_inv e 128 (tuning_start s) (t, u)"
    and "sdhci_cv181x_general_execute_tuning e s =
      (let v = snd (reset_after_tuning_pass (te_polls e) u) in
       if \<not> wait_reset (te_polls e) then (Reset_stuck, tuning_cmds t, v) else tuning_finish e t v)"
proof -
  obtain t u where tu: "tune_all e (tuning_start s) = (t, u)" by fastforce
  show ?thesis
    by (rule that [of t u])
       (use tune_all_inv [of e "tuning_start s"] in
         \<open>simp_all add: tu sdhci_cv181x_general_execute_tuning_def reset_after_tuning_pass_def Let_def\<close>)
qed

lemma tuning_finish_eq:
  assumes "tune_inv e 128 s (t, u)"
  shows "tuning_finish e t v =
    (if lag_rises e
     then let tap = win_tap (find_window (tuning_result t)) in
       (Tuned (te_last e), tuning_cmds t + 1, (sdhci_cvi_cv181x_set_tap (word_of_int tap) v)\<lparr>final_tap := word_of_int tap\<rparr>)
     else (Div_by_zero, tuning_cmds t, v))"
  using tuning_pass(2) [OF assms] by (simp add: tuning_finish_def tuning_rate_def Let_def)

lemma tuning_ends:
  "let (r, n, s') = sdhci_cv181x_general_execute_tuning e s in
   128 \<le> n \<and> n \<le> 6529 \<and>
   r = (if \<not> wait_reset (te_polls e) then Reset_stuck
        else if lag_rises e then Tuned (te_last e) else Div_by_zero)"
proof -
  obtain t u where i: "tune_inv e 128 (tuning_start s) (t, u)"
    and eq: "sdhci_cv181x_general_execute_tuning e s =
      (let v = snd (reset_after_tuning_pass (te_polls e) u) in
       if \<not> wait_reset (te_polls e) then (Reset_stuck, tuning_cmds t, v) else tuning_finish e t v)"
    by (rule execute_tuning_cases)
  have "128 \<le> tuning_cmds t" "tuning_cmds t \<le> 6528" using i by (auto simp: tune_inv_def)
  then show ?thesis by (simp add: eq Let_def tuning_finish_eq [OF i])
qed


lemma tap_word_of_nat:
  assumes "n < 128"
  shows "BIT 8 OR push_bit 16 (of_nat n :: u32) = tap_word (of_nat n)"
proof -
  have "unat (of_nat n :: u8) = n" using assms by (simp add: unat_word_of_nat)
  then have "unat (ucast (of_nat n :: u8) :: u32) = n" by (simp add: unat_ucast_up)
  then have "unat (take_bit 7 (ucast (of_nat n :: u8) :: u32)) = n"
    using assms by (simp add: unsigned_take_bit_eq take_bit_nat_eq_self)
  moreover have "(ucast (of_nat n :: u8) :: u32) AND 0x7F = take_bit 7 (ucast (of_nat n :: u8))"
    by (simp add: take_bit_eq_mask mask_eq_exp_minus_1)
  ultimately have "ucast (of_nat n :: u8) AND 0x7F = (of_nat n :: u32)"
    using assms by (intro unsigned_word_eqI [where ?'a = nat]) (simp add: unat_word_of_nat)
  then show ?thesis by (simp add: tap_word_def)
qed

lemma widest_centre:
  assumes "widest p n m l" and "20 \<le> l"
  shows "pass_run p (m + l div 2 - 10) 20" and "m + l div 2 < n"
proof -
  have h: "l div 2 + 10 \<le> l" "10 \<le> l div 2" using assms(2) by linarith+
  have "m + l \<le> n" "pass_run p m l" using assms(1) by (auto simp: widest_def)
  then show "m + l div 2 < n" using h by linarith
  have "m \<le> j \<and> j < m + l" if "m + l div 2 - 10 \<le> j \<and> j < m + l div 2 - 10 + 20" for j
    using that h by linarith
  then show "pass_run p (m + l div 2 - 10) 20" using \<open>pass_run p m l\<close> unfolding pass_run_def by blast
qed

lemma no_wide_window:
  "widest p n m l \<Longrightarrow> (\<exists>i. i + 20 \<le> n \<and> pass_run p i 20) \<longleftrightarrow> 20 \<le> l"
proof
  assume w: "widest p n m l" and l: "20 \<le> l"
  then have "m + 20 \<le> n \<and> pass_run p m 20" by (auto simp: widest_def pass_run_def)
  then show "\<exists>i. i + 20 \<le> n \<and> pass_run p i 20" by blast
qed (auto simp: widest_def)

text \<open>A window of 20 passing taps among the 128.\<close>

definition has_window :: "tuning_env \<Rightarrow> bool" where
  "has_window e \<longleftrightarrow> (\<exists>i. i + 20 \<le> 128 \<and> pass_run (tap_ok e) i 20)"

lemma tuned_state:
  assumes "sdhci_cv181x_general_execute_tuning e s = (Tuned ret, n, s')"
  shows "ret = te_last e \<and> (\<exists>m l. widest (tap_ok e) 128 m l \<and>
     (if has_window e
      then 20 \<le> l \<and> final_tap s' = of_nat (m + l div 2) \<and> sdhci_readl s' PHY_TX_RX_DLY = tap_word (final_tap s')
      else l < 20 \<and> final_tap s' = 255 \<and> sdhci_readl s' PHY_TX_RX_DLY = 0xFFFF0100)) \<and>
     sdhci_readl s' PHY_CONFIG = 0 \<and> \<not> bit (sdhci_readl s' VENDOR_MSHC_CTRL_R) 1"
proof -
  obtain t u where i: "tune_inv e 128 (tuning_start s) (t, u)"
    and eq: "sdhci_cv181x_general_execute_tuning e s =
      (let v = snd (reset_after_tuning_pass (te_polls e) u) in
       if \<not> wait_reset (te_polls e) then (Reset_stuck, tuning_cmds t, v) else tuning_finish e t v)"
    by (rule execute_tuning_cases)
  define tap where "tap = win_tap (find_window (tuning_result t))"
  define v where "v = snd (reset_after_tuning_pass (te_polls e) u)"
  have s': "ret = te_last e" "s' = (sdhci_cvi_cv181x_set_tap (word_of_int tap) v)\<lparr>final_tap := word_of_int tap\<rparr>"
    using assms by (auto simp: eq Let_def tuning_finish_eq [OF i] tap_def v_def split: if_splits)
  obtain m where w: "widest (tap_ok e) 128 m (unat (max_window_size (find_window (tuning_result t))))"
    and wt: "tap = (if 20 \<le> unat (max_window_size (find_window (tuning_result t)))
       then int (m + unat (max_window_size (find_window (tuning_result t))) div 2) else -1)"
    using find_window_widest [of "tap_ok e" "tuning_result t"] tuning_pass(1) [OF i] unfolding tap_def by metis
  have h: "has_window e \<longleftrightarrow> 20 \<le> unat (max_window_size (find_window (tuning_result t)))"
    unfolding has_window_def by (rule no_wide_window [OF w])
  have reg: "sdhci_readl s' PHY_TX_RX_DLY = BIT 8 OR push_bit 16 (word_of_int tap)"
    "sdhci_readl s' PHY_CONFIG = 0" "\<not> bit (sdhci_readl s' VENDOR_MSHC_CTRL_R) 1"
    by (simp_all add: s' sdhci_readl_def set_tap_regs bit_simps)
  show ?thesis
  proof (cases "has_window e")
    case True
    then have l: "20 \<le> unat (max_window_size (find_window (tuning_result t)))" using h by simp
    then have "tap = int (m + unat (max_window_size (find_window (tuning_result t))) div 2)" using wt by simp
    moreover have "m + unat (max_window_size (find_window (tuning_result t))) div 2 < 128"
      by (rule widest_centre(2) [OF w l])
    ultimately show ?thesis
      using True w l reg s' tap_word_of_nat by (auto simp: of_int_of_nat_eq simp del: of_nat_add)
  next
    case False
    have "BIT 8 OR push_bit 16 (- 1) = (0xFFFF0100 :: u32)"
      by (simp add: BIT_def push_bit_eq_mult del: push_bit_minus_one_eq_not_mask)
    moreover have "tap = - 1" "unat (max_window_size (find_window (tuning_result t))) < 20"
      using False h wt by simp_all
    ultimately show ?thesis using False w reg s' by (intro conjI exI [of _ m] exI) simp_all
  qed
qed

text \<open>
  C18. The tap is the middle of the widest window. When some 20 neighbouring taps pass all their
  commands, the tap written and remembered is the middle of the first widest window: the ten taps
  below it and the nine above pass as well. When there is no such window, tuning does not fail:
  it writes \<open>0xffff0100\<close> into the delay register, remembers tap 255 and returns what one more
  tuning command returns.
\<close>

theorem execute_tuning_median:
  assumes "sdhci_cv181x_general_execute_tuning e s = (Tuned ret, n, s')"
  shows "ret = te_last e \<and>
    (if has_window e then
       (\<exists>m l. widest (tap_ok e) 128 m l \<and> 20 \<le> l \<and> unat (final_tap s') = m + l div 2 \<and>
          pass_run (tap_ok e) (unat (final_tap s') - 10) 20) \<and>
       sdhci_readl s' PHY_TX_RX_DLY = tap_word (final_tap s')
     else final_tap s' = 255 \<and> sdhci_readl s' PHY_TX_RX_DLY = 0xFFFF0100)"
proof -
  obtain m l where w: "widest (tap_ok e) 128 m l" and r: "ret = te_last e"
    and st: "if has_window e
      then 20 \<le> l \<and> final_tap s' = of_nat (m + l div 2) \<and> sdhci_readl s' PHY_TX_RX_DLY = tap_word (final_tap s')
      else l < 20 \<and> final_tap s' = 255 \<and> sdhci_readl s' PHY_TX_RX_DLY = 0xFFFF0100"
    using tuned_state [OF assms] by blast
  show ?thesis
  proof (cases "has_window e")
    case True
    then have l: "20 \<le> l" using st by simp
    have "unat (of_nat (m + l div 2) :: u8) = m + l div 2"
      using widest_centre(2) [OF w l] by (intro unat_word_of_nat) simp
    then have "widest (tap_ok e) 128 m l \<and> 20 \<le> l \<and> unat (final_tap s') = m + l div 2 \<and>
        pass_run (tap_ok e) (unat (final_tap s') - 10) 20"
      using w l st True widest_centre(1) [OF w l] by simp
    then show ?thesis using r st unfolding if_P [OF True] by blast
  qed (use r st in simp)
qed

text \<open>A card that passes at taps 40 to 79, on a host with all registers zero.\<close>

definition host0 :: cvi_host where
  "host0 = \<lparr>ioaddr = (\<lambda>_. 0), pinmuxbase = (\<lambda>_. 0), topbase = (\<lambda>_. 0), clkgenbase = (\<lambda>_. 0), rtcbase = (\<lambda>_. 0),
     host_id = 0, ier = 0x3, host_clock = 200000000, quirks2 = 0, f_max = 200000000, max_clk = 375000000,
     adma_table_cnt = 257, final_tap = 0, sdio0_voltage_1_8_v = 0, clk_enabled = True, axi_enabled = True,
     pre_gpio_cd = 0, is_debounce_work_running = False, wifi_mmc = None, wifi_pwr_on_desc = None\<rparr>"

definition card40 :: tuning_env where
  "card40 = \<lparr>te_send = (\<lambda>k i. if 40 \<le> k \<and> k < 80 then 0 else -84), te_sts = (\<lambda>k. if 64 \<le> k then 2 else 0),
     te_polls = [2, 0], te_last = 0\<rparr>"

lemma card40_window: "has_window card40"
  unfolding has_window_def
  by (rule exI [of _ 40]) (auto simp: pass_run_def tap_ok_def card40_def)

lemma card40_tuned:
  obtains n s' where "sdhci_cv181x_general_execute_tuning card40 host0 = (Tuned 0, n, s')"
proof -
  obtain r n s' where eq: "sdhci_cv181x_general_execute_tuning card40 host0 = (r, n, s')"
    by (cases "sdhci_cv181x_general_execute_tuning card40 host0")
  have "lag_rises card40"
    unfolding lag_rises_def by (rule exI [of _ 0], rule exI [of _ 64]) (simp add: lagging_def card40_def)
  moreover have "wait_reset (te_polls card40)" "te_last card40 = 0" by (simp_all add: card40_def)
  ultimately have "r = Tuned 0" using tuning_ends [of card40 host0] by (simp add: eq Let_def)
  with eq that show ?thesis by blast
qed

theorem execute_tuning_median_witness:
  "pass_run (tap_ok card40) (unat (final_tap (snd (snd (sdhci_cv181x_general_execute_tuning card40 host0)))) - 10) 20"
proof -
  obtain n s' where eq: "sdhci_cv181x_general_execute_tuning card40 host0 = (Tuned 0, n, s')" by (rule card40_tuned)
  from execute_tuning_median [OF this] show ?thesis unfolding if_P [OF card40_window] eq by auto
qed

section \<open>Resets\<close>

lemma helper_sel [sdhci_regs]:
  "final_tap (sdhci_cvi_reset_helper rst msk s) = final_tap s" "quirks2 (sdhci_cvi_reset_helper rst msk s) = quirks2 s"
  "readl (ioaddr (sdhci_cvi_reset_helper rst msk s)) SDHCI_INT_ENABLE = ier s"
  "readl (ioaddr (sdhci_cvi_reset_helper rst msk s)) SDHCI_SIGNAL_ENABLE = ier s"
  by (simp_all add: sdhci_cvi_reset_helper_def sdhci_reset_def sdhci_accessors sdhci_offsets accessor_simps
      split: prod.splits)

definition in_sdr104 :: "cvi_host \<Rightarrow> bool" where
  "in_sdr104 s \<longleftrightarrow> sdhci_readw s SDHCI_HOST_CONTROL2 AND SDHCI_CTRL_UHS_MASK = SDHCI_CTRL_UHS_SDR104"

text \<open>The PHY is set for a tap: no feedback clock, the DLL in use, the tap in the delay register.\<close>

definition phy_at_tap :: "u8 \<Rightarrow> cvi_host \<Rightarrow> bool" where
  "phy_at_tap tap s \<longleftrightarrow> sdhci_readl s PHY_TX_RX_DLY = tap_word tap \<and>
     \<not> bit (sdhci_readl s PHY_CONFIG) 0 \<and> \<not> bit (sdhci_readl s VENDOR_MSHC_CTRL_R) 1"

definition phy_ds_hs :: "u32 \<Rightarrow> cvi_host \<Rightarrow> bool" where
  "phy_ds_hs q s \<longleftrightarrow> sdhci_readl s PHY_TX_RX_DLY = ds_hs_word q \<and>
     bit (sdhci_readl s PHY_CONFIG) 0 \<and> bit (sdhci_readl s VENDOR_MSHC_CTRL_R) 1"

lemma phy_restore_phy:
  "if in_sdr104 s then phy_at_tap (final_tap s) (phy_restore sd1 s) else phy_ds_hs (quirks2 s) (phy_restore sd1 s)"
  by (simp add: in_sdr104_def phy_at_tap_def phy_ds_hs_def phy_restore_def Let_def sdhci_accessors setl_def clrl_def
      sdhci_offsets accessor_simps bit_simps)

lemma phy_restore_regs:
  "readl (ioaddr (phy_restore sd1 s)) SDHCI_INT_ENABLE = readl (ioaddr s) SDHCI_INT_ENABLE"
  "readl (ioaddr (phy_restore sd1 s)) SDHCI_SIGNAL_ENABLE = readl (ioaddr s) SDHCI_SIGNAL_ENABLE"
  "bit (readl (ioaddr (phy_restore sd1 s)) VENDOR_MSHC_CTRL_R) k \<longleftrightarrow>
     (if k = 1 then \<not> in_sdr104 s
      else bit (readl (ioaddr s) VENDOR_MSHC_CTRL_R) k \<or> (sd1 \<and> k = 16))"
  by (simp_all add: in_sdr104_def phy_restore_def Let_def sdhci_accessors setl_def clrl_def
      sdhci_offsets accessor_simps bit_simps) (auto simp: bit_simps dest: bit_imp_le_length)

lemma setl_sdr104:
  "in_sdr104 (setl b VENDOR_MSHC_CTRL_R s) = in_sdr104 s" "final_tap (setl b a s) = final_tap s"
  "readl (ioaddr (setl b VENDOR_MSHC_CTRL_R s)) SDHCI_INT_ENABLE = readl (ioaddr s) SDHCI_INT_ENABLE"
  "readl (ioaddr (setl b VENDOR_MSHC_CTRL_R s)) SDHCI_SIGNAL_ENABLE = readl (ioaddr s) SDHCI_SIGNAL_ENABLE"
  "bit (readl (ioaddr (setl (BIT k) a s)) a) k \<longleftrightarrow> k < 32"
  by (auto simp: in_sdr104_def setl_def sdhci_accessors sdhci_offsets accessor_simps bit_simps dest: bit_imp_le_length)

lemma phy_restore_tap: "in_sdr104 s \<Longrightarrow> phy_at_tap (final_tap s) (phy_restore sd1 s)"
  using phy_restore_phy [of s sd1] by simp

text \<open>The interrupt enables are the ones the core asked for.\<close>

definition ints_on :: "cvi_host \<Rightarrow> cvi_host \<Rightarrow> bool" where
  "ints_on s t \<longleftrightarrow> sdhci_readl t SDHCI_INT_ENABLE = ier s \<and> sdhci_readl t SDHCI_SIGNAL_ENABLE = ier s"

text \<open>
  C21. A reset keeps the tuning. After a tuning that found a window, the reset routine of any kind of
  host, if the core's reset leaves the host in SDR104, puts the PHY back exactly where the tuning
  left it, restores the interrupt enables, and sets the mode bit of its kind of host.
\<close>

theorem reset_keeps_tuning:
  assumes tuned: "sdhci_cv181x_general_execute_tuning e s = (Tuned ret, n, s')" and win: "has_window e"
    and mode: "in_sdr104 (sdhci_cvi_reset_helper rst msk s')"
  shows "phy_at_tap (final_tap s') s' \<and> phy_at_tap (final_tap s') (reset_op c rst msk s') \<and>
    ints_on s' (reset_op c rst msk s') \<and> bit (sdhci_readl (reset_op EMMC rst msk s') VENDOR_MSHC_CTRL_R) 0 \<and>
    bit (sdhci_readl (reset_op SDIO rst msk s') VENDOR_MSHC_CTRL_R) 16"
proof -
  let ?h = "sdhci_cvi_reset_helper rst msk s'"
  have "phy_at_tap (final_tap s') s'" using tuned_state [OF tuned] win by (auto simp: phy_at_tap_def)
  moreover have "phy_at_tap (final_tap s') (phy_restore sd1 ?h)" for sd1
    using phy_restore_tap [OF mode, of sd1] by (simp add: helper_sel)
  moreover have "phy_at_tap (final_tap s') (phy_restore False (setl (BIT 0) VENDOR_MSHC_CTRL_R ?h))"
    using phy_restore_tap [of "setl (BIT 0) VENDOR_MSHC_CTRL_R ?h" False] mode by (simp add: helper_sel setl_sdr104)
  ultimately show ?thesis
    by (cases c) (simp_all add: Let_def sdhci_cv181x_emmc_reset_def sdhci_cv181x_sd_reset_def sdhci_cv181x_sdio_reset_def
        ints_on_def sdhci_readl_def phy_restore_regs helper_sel setl_sdr104)
qed

text \<open>A core reset that clears nothing, after a tuning in SDR104.\<close>

theorem reset_keeps_tuning_witness:
  "\<exists>s'. phy_at_tap (final_tap s') (reset_op SD (\<lambda>_ (m, c). (writew 3 SDHCI_HOST_CONTROL2 m, 0)) 1 s')"
proof -
  obtain n s' where eq: "sdhci_cv181x_general_execute_tuning card40 host0 = (Tuned 0, n, s')" by (rule card40_tuned)
  have "in_sdr104 (sdhci_cvi_reset_helper (\<lambda>_ (m, c). (writew 3 SDHCI_HOST_CONTROL2 m, 0)) 1 s')"
    by (simp add: in_sdr104_def sdhci_cvi_reset_helper_def sdhci_reset_def Let_def sdhci_accessors sdhci_offsets
        accessor_simps SDHCI_CTRL_UHS_MASK_def SDHCI_CTRL_UHS_SDR104_def)
  from reset_keeps_tuning [OF eq card40_window this, of SD] show ?thesis by blast
qed

section \<open>The rail refines a three-state machine\<close>

datatype rail = Rail_off | Rail_3v3 | Rail_1v8

text \<open>Bit 0 enables the switch, bit 1 selects 1.8 V.\<close>

definition rail_of :: "cvi_host \<Rightarrow> rail" where
  "rail_of s =
     (let v = readl (topbase s) OFFSET_SD_PWRSW_CTRL in
      if \<not> bit v 0 then Rail_off else if bit v 1 then Rail_1v8 else Rail_3v3)"

inductive rail_step :: "rail \<Rightarrow> rail \<Rightarrow> bool" where
  to_1v8: "rail_step r Rail_1v8"
| to_off: "rail_step r Rail_off"
| power_up: "rail_step Rail_off Rail_3v3"

inductive_simps rail_step_1v8 [simp]: "rail_step Rail_1v8 r"

text \<open>What the core may ask of an SD host once it is probed, in any order.\<close>

inductive sd_step :: "cvi_host \<Rightarrow> cvi_host \<Rightarrow> bool" where
  power: "sd_step s (sdhci_cv181x_sd_set_power noreg mode cd s)"
| switch: "sd_step s (sdhci_cv181x_sd_voltage_switch s)"
| reset: "sd_step s (sdhci_cv181x_sd_reset rst msk s)"
| uhs: "sd_step s (sdhci_cvi_general_set_uhs_signaling t s)"
| tune: "sdhci_cv181x_general_execute_tuning e s = (r, n, s') \<Longrightarrow> sd_step s s'"
| clock: "sd_step s (s\<lparr>host_clock := c\<rparr>)"

definition sd_start :: "cvi_host \<Rightarrow> cvi_host" where
  "sd_start s = sdhci_cv181x_sd_voltage_restore False (s\<lparr>sdio0_voltage_1_8_v := 0\<rparr>)"

definition sd_inv :: "cvi_host \<Rightarrow> bool" where
  "sd_inv s \<longleftrightarrow> sdio0_voltage_1_8_v s = (if rail_of s = Rail_1v8 then 1 else 0)"

lemma pwrsw_read: "readl (topbase (set_pwrsw v s)) OFFSET_SD_PWRSW_CTRL =
    v OR (readl (topbase s) OFFSET_SD_PWRSW_CTRL AND 0xFFFFFFF0)"
  by (simp add: set_pwrsw_def ml.rd_wr_same)

lemma rail_pwrsw:
  "rail_of (set_pwrsw 0xB s) = Rail_1v8" "rail_of (set_pwrsw 0xE s) = Rail_off" "rail_of (set_pwrsw 0x9 s) = Rail_3v3"
  by (simp_all add: rail_of_def pwrsw_read Let_def bit_simps)

text \<open>The slot is untouched: same rail register, same flag.\<close>

definition same_slot :: "cvi_host \<Rightarrow> cvi_host \<Rightarrow> bool" where
  "same_slot s t \<longleftrightarrow> topbase t = topbase s \<and> sdio0_voltage_1_8_v t = sdio0_voltage_1_8_v s"

lemma same_slot_rail: "same_slot s t \<Longrightarrow> rail_of t = rail_of s \<and> sdio0_voltage_1_8_v t = sdio0_voltage_1_8_v s"
  by (simp add: same_slot_def rail_of_def)

lemma io_only_slot: "io_only s t \<Longrightarrow> same_slot s t"
  by (auto simp: io_only_def same_slot_def)

lemma same_slot_trans: "same_slot s t \<Longrightarrow> same_slot t u \<Longrightarrow> same_slot s u"
  by (simp add: same_slot_def)

lemma reset_slot: "same_slot s (sdhci_cv181x_sd_reset rst msk s)"
  by (simp add: sdhci_cv181x_sd_reset_def phy_restore_def sdhci_cvi_reset_helper_def sdhci_reset_def Let_def
      same_slot_def setl_def clrl_def sdhci_accessors split: prod.splits)

lemma tune_slot:
  assumes "sdhci_cv181x_general_execute_tuning e s = (r, n, s')"
  shows "same_slot s s'"
proof -
  obtain t u where i: "tune_inv e 128 (tuning_start s) (t, u)"
    and eq: "sdhci_cv181x_general_execute_tuning e s =
      (let v = snd (reset_after_tuning_pass (te_polls e) u) in
       if \<not> wait_reset (te_polls e) then (Reset_stuck, tuning_cmds t, v) else tuning_finish e t v)"
    by (rule execute_tuning_cases)
  have "same_slot s (tuning_start s)" unfolding tuning_start_def Let_def by (intro io_only_slot io_then io_only_refl)
  moreover have "same_slot (tuning_start s) u" using i by (auto simp: tune_inv_def intro: io_only_slot)
  moreover have "same_slot u (snd (reset_after_tuning_pass (te_polls e) u))"
    by (simp add: reset_after_tuning_pass_def Let_def same_slot_def sdhci_accessors)
  ultimately have v: "same_slot s (snd (reset_after_tuning_pass (te_polls e) u))" by (blast intro: same_slot_trans)
  then have "same_slot s ((sdhci_cvi_cv181x_set_tap tap (snd (reset_after_tuning_pass (te_polls e) u)))\<lparr>final_tap := k\<rparr>)"
    for tap k
    using io_only_slot [OF set_tap_io, of "snd (reset_after_tuning_pass (te_polls e) u)" tap] by (simp add: same_slot_def)
  with v show ?thesis
    using assms by (auto simp: eq Let_def tuning_finish_eq [OF i] split: if_splits)
qed

lemma restore_slot:
  "rail_of (sdhci_cv181x_sd_voltage_restore unplug s) =
     (if unplug then Rail_off else if sdio0_voltage_1_8_v s = 0 then Rail_3v3 else rail_of s)"
  "sdio0_voltage_1_8_v (sdhci_cv181x_sd_voltage_restore unplug s) = (if unplug then 0 else sdio0_voltage_1_8_v s)"
proof -
  have r: "rail_of (s\<lparr>ioaddr := m\<rparr>) = rail_of s" "rail_of (s\<lparr>sdio0_voltage_1_8_v := f\<rparr>) = rail_of s" for m f s
    by (simp_all add: rail_of_def)
  show "rail_of (sdhci_cv181x_sd_voltage_restore unplug s) =
     (if unplug then Rail_off else if sdio0_voltage_1_8_v s = 0 then Rail_3v3 else rail_of s)"
    by (simp add: sdhci_cv181x_sd_voltage_restore_def Let_def setl_def sdhci_accessors r rail_pwrsw)
  show "sdio0_voltage_1_8_v (sdhci_cv181x_sd_voltage_restore unplug s) = (if unplug then 0 else sdio0_voltage_1_8_v s)"
    by (simp add: sdhci_cv181x_sd_voltage_restore_def Let_def setl_def sdhci_accessors set_pwrsw_def)
qed

lemma power_slot:
  "rail_of (sdhci_cv181x_sd_set_power noreg mode cd s) =
     (if mode = MMC_POWER_ON \<and> cd then (if sdio0_voltage_1_8_v s = 0 then Rail_3v3 else rail_of s)
      else if mode = MMC_POWER_OFF then Rail_off else rail_of s)"
  "sdio0_voltage_1_8_v (sdhci_cv181x_sd_set_power noreg mode cd s) =
     (if mode = MMC_POWER_OFF then 0 else sdio0_voltage_1_8_v s)"
proof -
  have r: "rail_of (s\<lparr>ioaddr := m\<rparr>) = rail_of s" "rail_of (s\<lparr>pinmuxbase := m\<rparr>) = rail_of s" for m s
    by (simp_all add: rail_of_def)
  show "rail_of (sdhci_cv181x_sd_set_power noreg mode cd s) =
     (if mode = MMC_POWER_ON \<and> cd then (if sdio0_voltage_1_8_v s = 0 then Rail_3v3 else rail_of s)
      else if mode = MMC_POWER_OFF then Rail_off else rail_of s)"
    by (auto simp: sdhci_cv181x_sd_set_power_def sdhci_cv181x_sd_setup_pad_def sdhci_cv181x_sd_setup_io_def Let_def
        restore_slot r)
  show "sdio0_voltage_1_8_v (sdhci_cv181x_sd_set_power noreg mode cd s) =
     (if mode = MMC_POWER_OFF then 0 else sdio0_voltage_1_8_v s)"
    by (auto simp: sdhci_cv181x_sd_set_power_def sdhci_cv181x_sd_setup_pad_def sdhci_cv181x_sd_setup_io_def Let_def
        restore_slot)
qed

lemma switch_slot:
  "rail_of (sdhci_cv181x_sd_voltage_switch s) = Rail_1v8" "sdio0_voltage_1_8_v (sdhci_cv181x_sd_voltage_switch s) = 1"
proof -
  have "rail_of (s\<lparr>sdio0_voltage_1_8_v := f\<rparr>) = rail_of s" for f s by (simp add: rail_of_def)
  then show "rail_of (sdhci_cv181x_sd_voltage_switch s) = Rail_1v8"
    by (simp add: sdhci_cv181x_sd_voltage_switch_def Let_def rail_pwrsw)
  show "sdio0_voltage_1_8_v (sdhci_cv181x_sd_voltage_switch s) = 1"
    by (simp add: sdhci_cv181x_sd_voltage_switch_def Let_def)
qed

text \<open>Every step either leaves the slot alone or is one of the three moves of the rail.\<close>

lemma sd_step_slot:
  assumes "sd_step s t" and "sd_inv s"
  shows "sd_inv t \<and> (rail_of t = rail_of s \<or> rail_step (rail_of s) (rail_of t))"
  using assms
proof (induction rule: sd_step.cases)
  case (power s noreg mode cd)
  then show ?case
    by (cases "rail_of s") (auto simp: sd_inv_def power_slot intro: rail_step.intros)
next
  case (switch s)
  then show ?case by (auto simp: sd_inv_def switch_slot intro: rail_step.intros)
next
  case (reset s rst msk)
  then show ?case using same_slot_rail [OF reset_slot [of s rst msk]] by (simp add: sd_inv_def)
next
  case (uhs s m)
  have "same_slot s (sdhci_cvi_general_set_uhs_signaling m s)"
    by (simp add: sdhci_cvi_general_set_uhs_signaling_def Let_def same_slot_def sdhci_accessors)
  from same_slot_rail [OF this] uhs show ?case by (simp add: sd_inv_def)
next
  case (tune e s r n s')
  then show ?case using same_slot_rail [OF tune_slot [OF tune(3)]] by (simp add: sd_inv_def)
next
  case (clock s c)
  then show ?case by (simp add: sd_inv_def rail_of_def)
qed

interpretation sdv: simulation "sd_start s" sd_step sd_inv rail_of Rail_3v3 rail_step for s
proof unfold_locales
  show "sd_inv (sd_start s)" "rail_of (sd_start s) = Rail_3v3"
    by (simp_all add: sd_start_def sd_inv_def restore_slot)
qed (use sd_step_slot in blast)+



section \<open>A power cycle of the slot\<close>

lemma dump_bit: "drop_bit k r AND 1 = (of_bool (bit r k) :: 'a::len word)"
  by (simp add: and_one_eq mod_2_eq_odd bit_iff_odd_drop_bit)

text \<open>The pad lines of the dump of an SD host: power enable, card detect, clock, command, data 0 to 3.\<close>

definition sd_pads :: "cvi_host \<Rightarrow> pad_line list" where
  "sd_pads s = fst (snd (sdhci_cv181x_sd_dump_vendor_regs s))"

lemma pull_bits:
  "bit (readb (pull up down a m) b) k \<longleftrightarrow>
   (if b = a then (bit (readb m a) k \<or> bit up k) \<and> \<not> bit down k else bit (readb m b) k)"
  by (auto simp: pull_def readb_def writeb_def bit_simps dest: bit_imp_le_length)

lemma pull_other: "b \<noteq> a \<Longrightarrow> readb (pull up down a m) b = readb m b"
  by (simp add: pull_def readb_def writeb_def)

definition sd_pad_offsets :: "(nat \<times> nat) list" where
  "sd_pad_offsets = [(0x38, 0x904), (0x34, 0x900), (0x1C, 0xA00), (0x20, 0xA04), (0x24, 0xA08), (0x28, 0xA0C),
     (0x2C, 0xA10), (0x30, 0xA14)]"

lemma setup_pads:
  defines "m \<equiv> \<lambda>off s. pinmuxbase (sdhci_cv181x_sd_setup_io off (sdhci_cv181x_sd_setup_pad off s))"
  shows "map (\<lambda>(p, r). readb (m off s) p AND 7) sd_pad_offsets = (if off then [0, 0, 3, 3, 3, 3, 3, 3] else replicate 8 0)"
    "map (\<lambda>(p, r). bit (readb (m off s) r) 2) sd_pad_offsets =
       (if off then [False, True, False, False, False, False, False, False]
        else [False, True, False, True, True, True, True, True])"
    "map (\<lambda>(p, r). bit (readb (m off s) r) 3) sd_pad_offsets =
       (if off then [True, False, True, True, True, True, True, True]
        else [True, False, True, False, False, False, False, False])"
proof -
  show "map (\<lambda>(p, r). readb (m off s) p AND 7) sd_pad_offsets = (if off then [0, 0, 3, 3, 3, 3, 3, 3] else replicate 8 0)"
    by (simp add: m_def sd_pad_offsets_def sdhci_cv181x_sd_setup_io_def sdhci_cv181x_sd_setup_pad_def Let_def
        pull_other mb.rd_wr_other mb.rd_wr_same numeral_eq_Suc)
  show "map (\<lambda>(p, r). bit (readb (m off s) r) 2) sd_pad_offsets =
       (if off then [False, True, False, False, False, False, False, False]
        else [False, True, False, True, True, True, True, True])"
    by (simp add: m_def sd_pad_offsets_def sdhci_cv181x_sd_setup_io_def Let_def pull_bits bit_BIT)
  show "map (\<lambda>(p, r). bit (readb (m off s) r) 3) sd_pad_offsets =
       (if off then [True, False, True, True, True, True, True, True]
        else [True, False, True, False, False, False, False, False])"
    by (simp add: m_def sd_pad_offsets_def sdhci_cv181x_sd_setup_io_def Let_def pull_bits bit_BIT)
qed

lemma restore_pinmux: "pinmuxbase (sdhci_cv181x_sd_voltage_restore unplug s) = pinmuxbase s"
  by (simp add: sdhci_cv181x_sd_voltage_restore_def Let_def setl_def sdhci_accessors set_pwrsw_def)

lemma sd_pads_eq:
  "map pad_fn (sd_pads s) = map (\<lambda>(p, r). readb (pinmuxbase s) p AND 7) sd_pad_offsets"
  "map pad_pu (sd_pads s) = map of_bool (map (\<lambda>(p, r). bit (readb (pinmuxbase s) r) 2) sd_pad_offsets)"
  "map pad_pd (sd_pads s) = map of_bool (map (\<lambda>(p, r). bit (readb (pinmuxbase s) r) 3) sd_pad_offsets)"
  by (simp_all add: sd_pads_def sdhci_cv181x_sd_dump_vendor_regs_def sd_pad_offsets_def dump_pad_def Let_def dump_bit)

lemma power_pinmux:
  "pinmuxbase (sdhci_cv181x_sd_set_power noreg MMC_POWER_OFF cd s) =
     pinmuxbase (sdhci_cv181x_sd_setup_io True (sdhci_cv181x_sd_setup_pad True s))"
  "pinmuxbase (sdhci_cv181x_sd_set_power noreg MMC_POWER_ON True s) =
     pinmuxbase (sdhci_cv181x_sd_setup_io False (sdhci_cv181x_sd_setup_pad False s))"
  by (simp_all add: sdhci_cv181x_sd_set_power_def Let_def sdhci_cv181x_sd_setup_io_def sdhci_cv181x_sd_setup_pad_def
      restore_pinmux)

text \<open>
  A power cycle of the slot. Powering off parks the pads as GPIOs pulled down and turns the rail
  off; powering on again with a card in gives the pads back to the controller with the command and
  data lines pulled up, at 3.3 V, whatever the slot was at before. The dump shows exactly that.
\<close>

theorem sd_power_cycle:
  "let off = sdhci_cv181x_sd_set_power noreg MMC_POWER_OFF cd s;
       on = sdhci_cv181x_sd_set_power noreg' MMC_POWER_ON True off in
   rail_of off = Rail_off \<and> rail_of on = Rail_3v3 \<and>
   map pad_fn (sd_pads off) = [0, 0, 3, 3, 3, 3, 3, 3] \<and> map pad_fn (sd_pads on) = [0, 0, 0, 0, 0, 0, 0, 0] \<and>
   map pad_pu (sd_pads off) = [0, 1, 0, 0, 0, 0, 0, 0] \<and> map pad_pu (sd_pads on) = [0, 1, 0, 1, 1, 1, 1, 1] \<and>
   map pad_pd (sd_pads off) = [1, 0, 1, 1, 1, 1, 1, 1] \<and> map pad_pd (sd_pads on) = [1, 0, 1, 0, 0, 0, 0, 0]"
proof -
  have "replicate 8 (0 :: u8) = [0, 0, 0, 0, 0, 0, 0, 0]" by (simp add: numeral_eq_Suc)
  then show ?thesis
    unfolding Let_def sd_pads_eq power_pinmux setup_pads by (simp add: power_slot)
qed

section \<open>The ADMA split\<close>

lemma or_mask_eq_iff: "x OR mask n = y OR mask n \<longleftrightarrow> drop_bit n x = drop_bit n (y :: 'a::len word)"
proof
  assume "x OR mask n = y OR mask n"
  then have "drop_bit n (x OR mask n) = drop_bit n (y OR mask n)" by simp
  moreover have "drop_bit n (mask n :: 'a word) = 0" by (rule bit_word_eqI) (simp add: bit_simps)
  ultimately show "drop_bit n x = drop_bit n y" by simp
next
  assume eq: "drop_bit n x = drop_bit n y"
  show "x OR mask n = y OR mask n"
  proof (rule bit_word_eqI)
    fix k assume k: "k < LENGTH('a)"
    have "n \<le> k \<Longrightarrow> bit x k = bit y k"
      using eq by (metis bit_drop_bit_eq comp_apply le_add_diff_inverse)
    then show "bit (x OR mask n) k = bit (y OR mask n) k" by (cases "n \<le> k") (simp_all add: bit_simps k)
  qed
qed

lemma uint_word_of_int_small:
  "0 \<le> k \<Longrightarrow> k < 2 ^ LENGTH('a) \<Longrightarrow> uint (word_of_int k :: 'a::len word) = k"
  by (simp add: unsigned_of_int take_bit_int_eq_self)

lemma boundary_ok:
  assumes "0 < len" and "uint addr + len \<le> 2 ^ 64"
  shows "BOUNDARY_OK addr len \<longleftrightarrow> uint addr div 2 ^ 27 = (uint addr + len - 1) div 2 ^ 27"
proof -
  have last: "uint (addr + word_of_int len - 1) = uint addr + len - 1"
  proof -
    have "0 \<le> uint addr + len - 1" "uint addr + len - 1 < 2 ^ 64"
      using assms uint_ge_0 [of addr] by linarith+
    then have "uint (word_of_int (uint addr + len - 1) :: u64) = uint addr + len - 1"
      by (intro uint_word_of_int_small) simp_all
    then show ?thesis by simp
  qed
  have m: "SZ_128M - 1 = (mask 27 :: u64)" by (simp add: SZ_128M_def mask_eq_exp_minus_1)
  have "BOUNDARY_OK addr len \<longleftrightarrow> uint (drop_bit 27 addr) = uint (drop_bit 27 (addr + word_of_int len - 1))"
    unfolding BOUNDARY_OK_def m or_mask_eq_iff by (simp add: word_uint_eq_iff)
  then show ?thesis by (simp add: drop_bit_eq_div uint_div last)
qed

text \<open>The addresses a list of descriptors transfers, in order.\<close>

definition desc_bytes :: "(u64 \<times> int \<times> u32) list \<Rightarrow> int list" where
  "desc_bytes ds = concat (map (\<lambda>(a, l, c). [uint a .. uint a + l - 1]) ds)"

definition in_window :: "u64 \<times> int \<times> u32 \<Rightarrow> bool" where
  "in_window d = (case d of (a, l, c) \<Rightarrow> 0 < l \<and> uint a div 2 ^ 27 = (uint a + l - 1) div 2 ^ 27)"

text \<open>
  C22. Descriptors never cross a 128 MiB line. For a transfer of up to 128 MiB that ends within the
  address space, the one or two descriptors written transfer exactly the bytes of the request in
  order, each within one 128 MiB window and with the command of the request.
\<close>

theorem adma_split:
  assumes "0 < len" and "len \<le> 2 ^ 27" and "uint addr + len \<le> 2 ^ 64"
  shows "let ds = cvi_adma_write_desc addr len cmd in
    length ds \<le> 2 \<and> list_all in_window ds \<and> list_all (\<lambda>(a, l, c). c = cmd) ds \<and>
    desc_bytes ds = [uint addr .. uint addr + len - 1]"
proof (cases "BOUNDARY_OK addr len")
  case True
  then show ?thesis
    using assms boundary_ok [OF assms(1,3)] by (simp add: cvi_adma_write_desc_def in_window_def desc_bytes_def)
next
  case False
  define off where "off = uint addr mod 2 ^ 27"
  define tmp where "tmp = 2 ^ 27 - off"
  have o: "uint (addr AND (SZ_128M - 1)) = off"
  proof -
    have "SZ_128M - 1 = (mask 27 :: u64)" by (simp add: SZ_128M_def mask_eq_exp_minus_1)
    then show ?thesis unfolding off_def by (metis take_bit_eq_mask unsigned_take_bit_eq take_bit_eq_mod)
  qed
  have b: "0 \<le> off" "off < 2 ^ 27" by (simp_all add: off_def)
  then have "0 < tmp" by (simp add: tmp_def)
  obtain q where q: "uint addr = 2 ^ 27 * q + off" unfolding off_def by (metis mult_div_mod_eq)
  have div: "(2 ^ 27 * q + r) div 2 ^ 27 = q" if "0 \<le> r" "r < 2 ^ 27" for r :: int
    using that by simp
  have tl: "tmp < len"
  proof (rule ccontr)
    assume "\<not> tmp < len"
    then have "0 \<le> off + len - 1" "off + len - 1 < 2 ^ 27" using assms(1) b by (auto simp: tmp_def)
    then have "(uint addr + len - 1) div 2 ^ 27 = q" using div [of "off + len - 1"] q by (simp add: algebra_simps)
    then show False using False boundary_ok [OF assms(1,3)] div [OF b] q by simp
  qed
  have a2: "uint (addr + word_of_int tmp) = 2 ^ 27 * (q + 1)"
  proof -
    have "uint addr + tmp < 2 ^ 64" "0 \<le> uint addr + tmp"
      using assms(3) tl b uint_ge_0 [of addr] by (simp_all add: tmp_def)
    then have u: "uint (word_of_int (uint addr + tmp) :: u64) = uint addr + tmp"
      by (intro uint_word_of_int_small) simp_all
    have "addr + word_of_int tmp = word_of_int (uint addr + tmp)" by simp
    then have "uint (addr + word_of_int tmp) = uint addr + tmp" using u by (simp only:)
    then show ?thesis using q by (simp add: tmp_def)
  qed
  have ds: "cvi_adma_write_desc addr len cmd = [(addr, tmp, cmd), (addr + word_of_int tmp, len - tmp, cmd)]"
    using False assms(1) o by (simp add: cvi_adma_write_desc_def Let_def tmp_def SZ_128M_def)
  have w1: "uint addr div 2 ^ 27 = (uint addr + tmp - 1) div 2 ^ 27"
    using div [OF b] div [of "2 ^ 27 - 1"] q by (simp add: tmp_def algebra_simps)
  have w2: "2 ^ 27 * (q + 1) div 2 ^ 27 = (2 ^ 27 * (q + 1) + (len - tmp) - 1) div (2 ^ 27 :: int)"
  proof -
    have "0 \<le> len - tmp - 1" "len - tmp - 1 < 2 ^ 27" using tl assms(2) b by (auto simp: tmp_def)
    then show ?thesis by (simp add: algebra_simps)
  qed
  have cat: "[uint addr .. uint addr + tmp - 1] @ [2 ^ 27 * (q + 1) .. 2 ^ 27 * (q + 1) + (len - tmp) - 1] =
      [uint addr .. uint addr + len - 1]"
    using upto_split2 [of "uint addr" "uint addr + tmp - 1" "uint addr + len - 1"] q tl b
    by (simp add: tmp_def algebra_simps)
  show ?thesis
    unfolding ds using w1 w2 cat tl \<open>0 < tmp\<close> by (simp add: in_window_def desc_bytes_def a2)
qed

theorem adma_split_witness:
  "desc_bytes (cvi_adma_write_desc 0x87FFFFF0 0x20 0x21) = [0x87FFFFF0 .. 0x8800000F] \<and>
   list_all in_window (cvi_adma_write_desc 0x87FFFFF0 0x20 0x21)"
  using adma_split [of "0x20" "0x87FFFFF0" "0x21"] by (simp add: Let_def)

section \<open>Bus modes\<close>

text \<open>The mode field a timing asks for.\<close>

fun uhs_mode :: "mmc_timing \<Rightarrow> u16" where
  "uhs_mode UHS_SDR25 = 1"
| "uhs_mode UHS_SDR50 = 2"
| "uhs_mode MMC_HS200 = 3"
| "uhs_mode UHS_SDR104 = 3"
| "uhs_mode UHS_DDR50 = 4"
| "uhs_mode MMC_DDR52 = 4"
| "uhs_mode _ = 0"

text \<open>
  UHS signalling changes the mode field only: to the mode of the timing, but to 0 for the
  timings that need tuning when the clock is at most 100 MHz, so a host is in the tuned mode
  exactly when it runs HS200 or SDR104 above 100 MHz.
\<close>

lemma set_uhs_mode:
  "let t = sdhci_cvi_general_set_uhs_signaling uhs s;
       slow = (host_clock s \<le> 100000000 \<and> (uhs = MMC_HS400 \<or> uhs = MMC_HS200 \<or> uhs = UHS_SDR104)) in
   sdhci_readw t SDHCI_HOST_CONTROL2 =
     (sdhci_readw s SDHCI_HOST_CONTROL2 AND NOT 7) OR (if slow then 0 else uhs_mode uhs) \<and>
   (in_sdr104 t \<longleftrightarrow> host_clock s > 100000000 \<and> uhs \<in> {MMC_HS200, UHS_SDR104})"
proof -
  have k: "((x AND NOT k) OR m) AND k = m AND k" "((x AND NOT k) OR m) AND NOT k = (x AND NOT k) OR (m AND NOT k)"
    "(x AND NOT k) AND k = 0" "(x AND NOT k) AND NOT k = x AND NOT k" for x m k :: u16
    by (auto simp: bit_eq_iff bit_simps)
  note f = k [where k = 7, simplified]
  show ?thesis
    by (cases "host_clock s \<le> 100000000"; cases uhs) (simp_all add: sdhci_cvi_general_set_uhs_signaling_def Let_def sdhci_accessors mw.rd_wr_same
        in_sdr104_def SDHCI_CTRL_UHS_MASK_def SDHCI_CTRL_UHS_SDR12_def SDHCI_CTRL_UHS_SDR25_def
        SDHCI_CTRL_UHS_SDR50_def SDHCI_CTRL_UHS_SDR104_def SDHCI_CTRL_UHS_DDR50_def f not_le [symmetric])
qed

section \<open>Probe\<close>

lemma rtc_pads:
  "map (readl (fold (\<lambda>a m. writel ((readl m a OR BIT 2) AND NOT (BIT 3)) a m) cv_pads m)) cv_pads =
   map (\<lambda>a. (readl m a OR BIT 2) AND NOT (BIT 3)) cv_pads"
proof -
  have "distinct cv_pads" by (simp add: cv_pads_def)
  moreover have "x + 4 \<le> y \<or> y + 4 \<le> x" if "x \<in> set cv_pads" "y \<in> set cv_pads" "x \<noteq> y" for x y
    using that by (auto simp: cv_pads_def)
  ultimately have "readl (fold (\<lambda>a m. writel ((readl m a OR BIT 2) AND NOT (BIT 3)) a m) cv_pads m) a =
      (readl m a OR BIT 2) AND NOT (BIT 3)" if "a \<in> set cv_pads" for a
    using that by (intro ml.fold_rmw [where f = "\<lambda>v. (v OR BIT 2) AND NOT (BIT 3)"]) auto
  then show ?thesis by simp
qed

lemma probe_fields:
  "rail_of (probe_clock e s) = rail_of s" "host_id (probe_clock e s) = host_id s"
  "wifi_mmc (probe_clock e s) = wifi_mmc s" "rtcbase (probe_clock e s) = rtcbase s"
  "rail_of (sdhci_cv181x_emmc_setup_pad s) = rail_of s" "wifi_mmc (sdhci_cv181x_emmc_setup_pad s) = wifi_mmc s"
  "rtcbase (sdhci_cv181x_emmc_setup_pad s) = rtcbase s"
  "wifi_mmc (sdhci_cv181x_sd_voltage_restore b s) = wifi_mmc s" "host_id (sdhci_cv181x_sd_voltage_restore b s) = host_id s"
  "rtcbase (sdhci_cv181x_sd_voltage_restore b s) = rtcbase s"
  "wifi_mmc (probe_pads e s) = wifi_mmc s"
  by (simp_all add: probe_clock_def rail_of_def sdhci_cv181x_emmc_setup_pad_def sdhci_cv181x_sd_voltage_restore_def
      set_pwrsw_def setl_def sdhci_accessors probe_pads_def Let_def split: sum.splits)

lemma probe_gpio_fields:
  assumes "probe_gpio e s = (r, t)"
  shows "wifi_mmc t = wifi_mmc s" "rtcbase t = rtcbase s"
    "r = (if cp_match e = Some SDIO \<and> cp_gpio e = Inl EPROBE_DEFER then Inl EPROBE_DEFER else Inr ())"
  using assms by (auto simp: probe_gpio_def Let_def split: if_splits sum.splits)

lemma rail_update:
  "rail_of (s\<lparr>wifi_mmc := w\<rparr>) = rail_of s" "rail_of (s\<lparr>adma_table_cnt := c\<rparr>) = rail_of s"
  by (simp_all add: rail_of_def)


end
