(* ===== verification/Btnwait.thy ===== *)
theory Btnwait
  imports Prelude
begin

text \<open>
  The button waiter of the video player (\<open>nix-badge-video/btnwait.c\<close>): the search for the named GPIO
  line, the argument parsing and the polling loop that tells a short press from a long one.
  What the kernel answers (which chips open, the line names, each poll of the line and the clock) is
  an argument; a loop that is still waiting when the polls are used up returns \<open>None\<close>.
\<close>

section \<open>Finding the line\<close>

text \<open>What \<open>/dev/gpiochip<c>\<close> answers: it does not open, its information is refused, or it has
  lines, each with a name or with its information refused.\<close>

datatype chip = No_chip | No_info | Chip "string option list"

fun find_offset :: "string \<Rightarrow> string option list \<Rightarrow> nat \<Rightarrow> nat option" where
  "find_offset name [] l = None"
| "find_offset name (n # ns) l = (if n = Some name then Some l else find_offset name ns (l + 1))"

text \<open>The chip's number (its descriptor) and the offset; the second component counts the descriptors
  left open.\<close>

fun find_line :: "string \<Rightarrow> chip list \<Rightarrow> nat \<Rightarrow> (nat \<times> nat) option \<times> nat" where
  "find_line name [] c = (None, 0)"
| "find_line name (No_chip # cs) c = find_line name cs (c + 1)"
| "find_line name (No_info # cs) c = find_line name cs (c + 1)"
| "find_line name (Chip ns # cs) c =
     (case find_offset name ns 0 of
        Some l \<Rightarrow> (Some (c, l), 1)
      | None \<Rightarrow> find_line name cs (c + 1))"

section \<open>The loop\<close>

definition now_ms :: "int \<Rightarrow> int \<Rightarrow> int" where
  "now_ms tv_sec tv_nsec = tv_sec * 1000 + cdiv tv_nsec 1000000"

text \<open>One poll: the line values (\<open>None\<close>: the request failed) and the clock at that time.\<close>

record poll =
  poll_bits :: "u64 option"
  poll_now :: int

datatype btn_end = Short_press | Long_press | Get_values_failed

definition cur_level :: "u64 \<Rightarrow> int" where
  "cur_level bits = (if bits AND 1 \<noteq> 0 then 1 else 0)"

fun btn_loop :: "int \<Rightarrow> int \<Rightarrow> int \<Rightarrow> poll list \<Rightarrow> btn_end option" where
  "btn_loop long_ms prev pressed_at [] = None"
| "btn_loop long_ms prev pressed_at (p # ps) =
     (case poll_bits p of
        None \<Rightarrow> Some Get_values_failed
      | Some bits \<Rightarrow>
          (let cur = cur_level bits in
           if prev = 1 \<and> cur = 0 then btn_loop long_ms cur (poll_now p) ps
           else if prev = 0 \<and> cur = 1 \<and> pressed_at \<noteq> 0 then
             (let held = poll_now p - pressed_at in
              if held \<ge> 30 then Some (if held \<ge> long_ms then Long_press else Short_press)
              else btn_loop long_ms cur 0 ps)
           else btn_loop long_ms cur pressed_at ps))"

section \<open>Arguments\<close>

text \<open>\<open>atol\<close>: blanks, a sign, digits; anything else ends the number.\<close>

definition atol :: "string \<Rightarrow> int" where
  "atol s =
     (let s = dropWhile blank s;
          (neg, s) = (case s of [] \<Rightarrow> (False, s)
                      | c # r \<Rightarrow> if c = CHR ''-'' then (True, r) else if c = CHR ''+'' then (False, r) else (False, s));
          v = digits_value (takeWhile digit s)
      in if neg then - v else v)"

datatype btn_exit = No_line | Get_line_failed | Ended btn_end

text \<open>\<open>args\<close> are the arguments after the program name; \<open>req\<close> is whether the line request succeeds.\<close>

definition btn_main :: "string list \<Rightarrow> chip list \<Rightarrow> bool \<Rightarrow> poll list \<Rightarrow> btn_exit option" where
  "btn_main args chips req polls =
     (let name = (case args of [] \<Rightarrow> ''user-btn'' | n # _ \<Rightarrow> n);
          long_ms = (case args of _ # l # _ \<Rightarrow> atol l | _ \<Rightarrow> 600)
      in case fst (find_line name (take 16 chips) 0) of
           None \<Rightarrow> Some No_line
         | Some _ \<Rightarrow>
             if \<not> req then Some Get_line_failed
             else map_option Ended (btn_loop long_ms 1 0 polls))"

text \<open>The exit status and the line printed.\<close>

fun exit_status :: "btn_exit \<Rightarrow> nat \<times> string" where
  "exit_status (Ended Short_press) = (0, ''short'')"
| "exit_status (Ended Long_press) = (0, ''long'')"
| "exit_status _ = (2, '''')"

section \<open>The loop reports the first press\<close>

definition down :: "poll list \<Rightarrow> nat \<Rightarrow> bool" where
  "down ps i \<longleftrightarrow> (case poll_bits (ps ! i) of Some b \<Rightarrow> \<not> bit b 0 | None \<Rightarrow> False)"

text \<open>A press: the line is down from poll \<open>i\<close> to just before poll \<open>j\<close>, and not before or at \<open>j\<close>.\<close>

definition press :: "poll list \<Rightarrow> nat \<Rightarrow> nat \<Rightarrow> bool" where
  "press ps i j \<longleftrightarrow> i < j \<and> j < length ps \<and> (i = 0 \<or> \<not> down ps (i - 1)) \<and>
     (\<forall>k. i \<le> k \<and> k < j \<longrightarrow> down ps k) \<and> \<not> down ps j"

definition held :: "poll list \<Rightarrow> nat \<Rightarrow> nat \<Rightarrow> int" where
  "held ps i j = poll_now (ps ! j) - poll_now (ps ! i)"

text \<open>All polls answer, and the clock never reads zero (it counts from boot).\<close>

definition polls_ok :: "poll list \<Rightarrow> bool" where
  "polls_ok ps \<longleftrightarrow> list_all (\<lambda>p. poll_bits p \<noteq> None \<and> poll_now p \<noteq> 0) ps"

definition first_long_enough :: "poll list \<Rightarrow> nat \<Rightarrow> nat \<Rightarrow> nat \<Rightarrow> bool" where
  "first_long_enough ps n i j \<longleftrightarrow> press ps i j \<and> 30 \<le> held ps i j \<and> n \<le> j \<and>
     (\<forall>i' j'. press ps i' j' \<and> 30 \<le> held ps i' j' \<and> n \<le> j' \<longrightarrow> j \<le> j')"

text \<open>The loop's variables after \<open>n\<close> polls.\<close>

definition loop_at :: "poll list \<Rightarrow> nat \<Rightarrow> int \<Rightarrow> int \<Rightarrow> bool" where
  "loop_at ps n prev pa \<longleftrightarrow> prev = (if n = 0 \<or> \<not> down ps (n - 1) then 1 else 0) \<and>
     (prev = 0 \<longrightarrow> (\<exists>a < n. (a = 0 \<or> \<not> down ps (a - 1)) \<and> (\<forall>k. a \<le> k \<and> k < n \<longrightarrow> down ps k) \<and>
        pa = poll_now (ps ! a)))"

lemma cur_level_bit: "cur_level b = (if bit b 0 then 1 else 0)"
  by (simp add: cur_level_def and_one_eq bit_0 odd_iff_mod_2_eq_one)

lemma press_start_le:
  assumes "press ps i j" and "press ps i' j"
  shows "i \<le> i'"
proof (rule ccontr)
  assume "\<not> i \<le> i'"
  then have "i' \<le> i - 1" "i - 1 < j" "i \<noteq> 0" using assms(1) by (auto simp: press_def)
  then show False using assms by (auto simp: press_def)
qed

lemma press_unique: "press ps i j \<Longrightarrow> press ps i' j \<Longrightarrow> i = i'"
  using press_start_le by (meson le_antisym)

text \<open>What the rest of the polls, from \<open>n\<close> on, should give.\<close>

definition outcome :: "int \<Rightarrow> poll list \<Rightarrow> nat \<Rightarrow> btn_end option \<Rightarrow> bool" where
  "outcome long_ms ps n r \<longleftrightarrow>
     (case r of
        None \<Rightarrow> \<not> (\<exists>i j. press ps i j \<and> 30 \<le> held ps i j \<and> n \<le> j)
      | Some e \<Rightarrow> \<exists>i j. first_long_enough ps n i j \<and>
                    e = (if long_ms \<le> held ps i j then Long_press else Short_press))"

lemma outcome_skip:
  assumes "\<not> (\<exists>i. press ps i n \<and> 30 \<le> held ps i n)" and "outcome long_ms ps (Suc n) r"
  shows "outcome long_ms ps n r"
proof -
  have n: "n \<le> j \<longleftrightarrow> Suc n \<le> j" if "press ps i j" "30 \<le> held ps i j" for i j
    using that assms(1) by (cases "j = n") auto
  show ?thesis
  proof (cases r)
    case None
    then show ?thesis using assms(2) n by (auto simp: outcome_def)
  next
    case (Some e)
    then obtain i j where f: "first_long_enough ps (Suc n) i j"
      and e: "e = (if long_ms \<le> held ps i j then Long_press else Short_press)"
      using assms(2) by (auto simp: outcome_def)
    have "first_long_enough ps n i j" using f n unfolding first_long_enough_def by (meson Suc_leD)
    with Some e show ?thesis by (auto simp: outcome_def)
  qed
qed

lemma loop_at_Suc:
  assumes "loop_at ps n prev pa" and "n < length ps"
  shows "\<not> down ps n \<Longrightarrow> loop_at ps (Suc n) 1 pb"
    and "down ps n \<Longrightarrow> prev = 1 \<Longrightarrow> loop_at ps (Suc n) 0 (poll_now (ps ! n))"
    and "down ps n \<Longrightarrow> prev = 0 \<Longrightarrow> loop_at ps (Suc n) 0 pa"
    and "\<not> down ps n \<Longrightarrow> prev = 0 \<Longrightarrow> \<exists>a. press ps a n \<and> pa = poll_now (ps ! a)"
    and "prev = 1 \<Longrightarrow> \<not> press ps i n" and "down ps n \<Longrightarrow> \<not> press ps i n"
proof -
  show "\<not> down ps n \<Longrightarrow> loop_at ps (Suc n) 1 pb" by (simp add: loop_at_def)
  show "down ps n \<Longrightarrow> prev = 1 \<Longrightarrow> loop_at ps (Suc n) 0 (poll_now (ps ! n))"
    using assms by (auto simp: loop_at_def less_Suc_eq split: if_splits intro!: exI [of _ n])
  show "down ps n \<Longrightarrow> prev = 0 \<Longrightarrow> loop_at ps (Suc n) 0 pa"
    using assms(1) unfolding loop_at_def by (auto simp: less_Suc_eq)
  show "\<not> down ps n \<Longrightarrow> prev = 0 \<Longrightarrow> \<exists>a. press ps a n \<and> pa = poll_now (ps ! a)"
    using assms by (auto simp: loop_at_def press_def split: if_splits)
  show "prev = 1 \<Longrightarrow> \<not> press ps i n"
    using assms(1) by (auto simp: loop_at_def press_def split: if_splits dest: spec [of _ "n - 1"])
  show "down ps n \<Longrightarrow> \<not> press ps i n" by (simp add: press_def)
qed

lemma btn_loop_outcome:
  assumes "polls_ok ps" and "n \<le> length ps" and "loop_at ps n prev pa"
  shows "outcome long_ms ps n (btn_loop long_ms prev pa (drop n ps))"
  using assms(2,3)
proof (induction "length ps - n" arbitrary: n prev pa)
  case 0
  then show ?case by (auto simp: outcome_def press_def)
next
  case (Suc d)
  then have n: "n < length ps" and d: "d = length ps - Suc n" by simp_all
  have drop: "drop n ps = ps ! n # drop (Suc n) ps" using n by (simp add: Cons_nth_drop_Suc)
  obtain b where b: "poll_bits (ps ! n) = Some b" using assms(1) n by (auto simp: polls_ok_def list_all_length)
  have lvl: "cur_level b = (if down ps n then 0 else 1)" by (simp add: cur_level_bit down_def b)
  note IH = Suc.hyps(1) [OF d Suc_leI [OF n]]
  note next_at = loop_at_Suc [OF Suc.prems(2) n]
  have prev: "prev = 0 \<or> prev = 1" using Suc.prems(2) by (auto simp: loop_at_def)
  show ?case
  proof (cases "down ps n")
    case True
    have "loop_at ps (Suc n) 0 (if prev = 1 then poll_now (ps ! n) else pa)"
      using prev next_at(2,3) True by auto
    then have "outcome long_ms ps (Suc n) (btn_loop long_ms 0 (if prev = 1 then poll_now (ps ! n) else pa) (drop (Suc n) ps))"
      by (rule IH)
    moreover have "btn_loop long_ms prev pa (drop n ps) =
        btn_loop long_ms 0 (if prev = 1 then poll_now (ps ! n) else pa) (drop (Suc n) ps)"
      using prev True by (auto simp: drop b lvl)
    ultimately show ?thesis using next_at(6) [OF True] by (simp add: outcome_skip)
  next
    case False
    show ?thesis
    proof (cases "prev = 0")
      case True
      then obtain a where a: "press ps a n" "pa = poll_now (ps ! a)" using False next_at(4) by blast
      then have "pa \<noteq> 0" using assms(1) by (auto simp: polls_ok_def list_all_length press_def)
      have "first_long_enough ps n a n" if "30 \<le> held ps a n"
        using that a by (auto simp: first_long_enough_def)
      moreover have rest: "outcome long_ms ps (Suc n) (btn_loop long_ms 1 0 (drop (Suc n) ps))"
        by (rule IH [OF next_at(1) [OF False]])
      moreover have "outcome long_ms ps n (btn_loop long_ms 1 0 (drop (Suc n) ps))" if "\<not> 30 \<le> held ps a n"
        by (rule outcome_skip [OF _ rest]) (use that press_unique [OF a(1)] in blast)
      ultimately show ?thesis
        using False True a \<open>pa \<noteq> 0\<close> by (auto simp: drop b lvl Let_def held_def outcome_def)
    next
      case up: False
      then have "prev = 1" using prev by simp
      moreover have "outcome long_ms ps (Suc n) (btn_loop long_ms 1 pa (drop (Suc n) ps))"
        using False next_at(1) by (intro IH)
      ultimately show ?thesis using False next_at(5) by (auto simp: drop b lvl intro!: outcome_skip)
    qed
  qed
qed

text \<open>
  C37. The waiter reports the first real press. While the polls answer, it returns exactly when some
  press, from the poll that saw the line go down to the poll that saw it come up, lasted 30 ms or
  more; it reports the first such press, and as long exactly when it lasted \<open>long_ms\<close> or more.
  Shorter bounces are ignored.
\<close>

theorem btn_loop_first_press:
  assumes "polls_ok ps"
  shows "case btn_loop long_ms 1 0 ps of
      None \<Rightarrow> \<not> (\<exists>i j. press ps i j \<and> 30 \<le> held ps i j)
    | Some e \<Rightarrow> \<exists>i j. press ps i j \<and> 30 \<le> held ps i j \<and>
        (\<forall>i' j'. press ps i' j' \<and> 30 \<le> held ps i' j' \<longrightarrow> j \<le> j') \<and>
        e = (if long_ms \<le> held ps i j then Long_press else Short_press)"
proof -
  have "loop_at ps 0 1 0" by (simp add: loop_at_def)
  from btn_loop_outcome [OF assms _ this, of long_ms] show ?thesis
    by (cases "btn_loop long_ms 1 0 ps") (simp_all add: outcome_def first_long_enough_def conj_assoc)
qed

definition tap_polls :: "poll list" where
  "tap_polls = map (\<lambda>(b, t). \<lparr>poll_bits = Some b, poll_now = t\<rparr>)
     [(1, 5000), (0, 5010), (1, 5020), (0, 5030), (0, 5040), (0, 5700), (1, 5710)]"

theorem btn_loop_first_press_witness:
  "btn_loop 600 1 0 tap_polls = Some Long_press \<and> (\<exists>i j. press tap_polls i j \<and> 600 \<le> held tap_polls i j)"
proof -
  have r: "btn_loop 600 1 0 tap_polls = Some Long_press" by (simp add: tap_polls_def cur_level_def)
  have "polls_ok tap_polls" by (simp add: polls_ok_def tap_polls_def)
  from btn_loop_first_press [OF this, of 600] r show ?thesis by (auto split: if_splits)
qed

section \<open>The line search\<close>

lemma find_offset_sound:
  "find_offset name ns l = Some k \<Longrightarrow> l \<le> k \<and> k - l < length ns \<and> ns ! (k - l) = Some name"
proof (induction ns arbitrary: l)
  case (Cons n ns)
  then show ?case
    by (cases "n = Some name") (fastforce simp: nth_Cons' Suc_le_eq)+
qed simp

lemma find_offset_None: "find_offset name ns l = None \<longleftrightarrow> Some name \<notin> set ns"
  by (induction ns arbitrary: l) auto

text \<open>
  The line search. It finds a line exactly when some chip that answers has a line of that name,
  the line it returns is one, and it leaves exactly that chip's descriptor open; a search that fails
  leaves none.
\<close>

lemma find_line_correct:
  "case find_line name cs b of
     (None, n) \<Rightarrow> n = 0 \<and> \<not> (\<exists>ns. Chip ns \<in> set cs \<and> Some name \<in> set ns)
   | (Some (c, l), n) \<Rightarrow> n = 1 \<and> b \<le> c \<and> c - b < length cs \<and>
       (\<exists>ns. cs ! (c - b) = Chip ns \<and> l < length ns \<and> ns ! l = Some name)"
proof (induction name cs b rule: find_line.induct)
  case (4 name ns cs c)
  show ?case
  proof (cases "find_offset name ns 0")
    case None
    then have eq: "find_line name (Chip ns # cs) c = find_line name cs (c + 1)" by simp
    have "Some name \<notin> set ns" using None by (simp add: find_offset_None)
    then show ?thesis
      using 4 [OF None] unfolding eq by (auto simp: nth_Cons' split: prod.splits option.splits)
  next
    case (Some l)
    then show ?thesis using find_offset_sound [OF Some] by simp
  qed
qed (auto simp: nth_Cons' split: prod.splits option.splits)

end
