(* ===== verification/Ephy.thy ===== *)
theory Ephy
  imports Prelude
begin

text \<open>
  The board initialisation of U-Boot on the LicheeRV Nano
  (\<open>sg2k-fips-licheerv-nano/cvi_board_init.c\<close>): the bring-up of the internal Ethernet PHY, with
  the trim values of the fuses, and the reset key. The registers of the PHY at 0x03009000 are banked
  by the page register 0x0300907c, as the comments of the source number them; the state holds one
  value for every page and address. The functions of U-Boot's \<open>mmio.h\<close> are plain reads and writes.
\<close>

section \<open>Banked registers\<close>

definition PAGE_SEL :: u32 where "PAGE_SEL = 0x0300907c"

record board =
  page :: u32
  cells :: "u32 \<times> u32 \<Rightarrow> u32"

definition banked :: "u32 \<Rightarrow> bool" where
  "banked a \<longleftrightarrow> 0x03009000 \<le> a \<and> a < PAGE_SEL"

definition cell :: "board \<Rightarrow> u32 \<Rightarrow> u32 \<times> u32" where
  "cell s a = (if banked a then page s else 0, a)"

definition mmio_read_32 :: "u32 \<Rightarrow> board \<Rightarrow> u32" where
  "mmio_read_32 a s = cells s (cell s a)"

definition mmio_write_32 :: "u32 \<Rightarrow> u32 \<Rightarrow> board \<Rightarrow> board" where
  "mmio_write_32 a v s =
     s\<lparr>cells := (cells s)(cell s a := v), page := (if a = PAGE_SEL then drop_bit 8 v else page s)\<rparr>"

definition mmio_clrsetbits_32 :: "u32 \<Rightarrow> u32 \<Rightarrow> u32 \<Rightarrow> board \<Rightarrow> board" where
  "mmio_clrsetbits_32 a c v s = mmio_write_32 a ((mmio_read_32 a s AND NOT c) OR v) s"

text \<open>A run of plain writes.\<close>

definition writes :: "(u32 \<times> u32) list \<Rightarrow> board \<Rightarrow> board" where
  "writes ws s = fold (\<lambda>(a, v). mmio_write_32 a v) ws s"

section \<open>The sequence\<close>

definition EPHY_EFUSE_VALID_BIT_BASE :: u32 where "EPHY_EFUSE_VALID_BIT_BASE = 0x03050120"
definition EPHY_EFUSE_ECO_BIT_BASE :: u32 where "EPHY_EFUSE_ECO_BIT_BASE = 0x03050108"
definition EFUSE_MARSE_FLAG :: u32 where "EFUSE_MARSE_FLAG = 0x100"
definition EPHY_EFUSE_TXECHORC_FLAG :: u32 where "EPHY_EFUSE_TXECHORC_FLAG = 0x100"
definition EPHY_EFUSE_TXITUNE_FLAG :: u32 where "EPHY_EFUSE_TXITUNE_FLAG = 0x200"
definition EPHY_EFUSE_TXRXTERM_FLAG :: u32 where "EPHY_EFUSE_TXRXTERM_FLAG = 0x800"

definition ephy_power :: "(u32 \<times> u32) list" where
  "ephy_power =
     [(0x03009804, 0x0001), (0x03009800, 0x0900), (0x03009800, 0x0904),
      (0x0300907c, 0x0500), (0x03009040, 0x0c00), (0x03009040, 0x0c7e),
      (0x03009800, 0x0906), (0x0300907c, 0x0500)]"

definition txitune :: "board \<Rightarrow> board" where
  "txitune s =
     (let s = (if mmio_read_32 EPHY_EFUSE_VALID_BIT_BASE s AND EPHY_EFUSE_TXITUNE_FLAG = EPHY_EFUSE_TXITUNE_FLAG then
                 mmio_clrsetbits_32 0x03009064 0xFFFF
                   ((drop_bit 24 (mmio_read_32 0x03050124 s) AND 0xFF) OR
                    push_bit 8 (drop_bit 16 (mmio_read_32 0x03050124 s) AND 0xFF)) s
               else mmio_write_32 0x03009064 0x5a5a s)
      in mmio_write_32 0x03009064 0x5a5a s)"

definition txechoiadj :: "board \<Rightarrow> board" where
  "txechoiadj s =
     (if mmio_read_32 EPHY_EFUSE_VALID_BIT_BASE s AND EPHY_EFUSE_TXECHORC_FLAG = EPHY_EFUSE_TXECHORC_FLAG then
        mmio_clrsetbits_32 0x03009054 0xFF00 (push_bit 8 (drop_bit 8 (mmio_read_32 0x03050124 s) AND 0xFF)) s
      else mmio_write_32 0x03009054 0x0000 s)"

definition txrterm :: "board \<Rightarrow> board" where
  "txrterm s =
     (let s = (if mmio_read_32 EPHY_EFUSE_VALID_BIT_BASE s AND EPHY_EFUSE_TXRXTERM_FLAG = EPHY_EFUSE_TXRXTERM_FLAG then
                 mmio_clrsetbits_32 0x03009058 0xFF0
                   (push_bit 4 (drop_bit 28 (mmio_read_32 0x03050120 s) AND 0xF) OR
                    push_bit 8 (drop_bit 24 (mmio_read_32 0x03050120 s) AND 0xF)) s
               else mmio_write_32 0x03009058 0x0bb0 s)
      in mmio_write_32 0x03009058 0x0bb0 s)"

definition eth_100baset :: "(u32 \<times> u32) list" where
  "eth_100baset = [(0x0300905c, 0x0c10), (0x03009068, 0x0003), (0x03009054, 0x0000)]"

definition marse_pll :: "board \<Rightarrow> board" where
  "marse_pll s =
     (if mmio_read_32 EPHY_EFUSE_ECO_BIT_BASE s AND EFUSE_MARSE_FLAG = EFUSE_MARSE_FLAG
      then writes [(0x03009044, 0x64), (0x0300906c, 0x200)] s else s)"

definition page16_mlt3 :: "(u32 \<times> u32) list" where
  "page16_mlt3 =
     [(0x0300907c, 0x1000), (0x03009068, 0x1000), (0x0300906c, 0x3020), (0x03009070, 0x5040), (0x03009074, 0x7060),
      (0x03009058, 0x1708), (0x0300905c, 0x3827), (0x03009060, 0x5748), (0x03009064, 0x7867)]"

definition page17_mlt3 :: "(u32 \<times> u32) list" where
  "page17_mlt3 =
     [(0x0300907c, 0x1100), (0x03009040, 0x9080), (0x03009044, 0xb0a0), (0x03009048, 0xd0c0), (0x0300904c, 0xf0e0),
      (0x03009050, 0x9788), (0x03009054, 0xb8a7), (0x03009058, 0xd7c8), (0x0300905c, 0xf8e7)]"

definition page5_rterm :: "board \<Rightarrow> board" where
  "page5_rterm s =
     (let s = mmio_write_32 0x0300907c 0x0500 s;
          s = mmio_write_32 0x03009040 (0x0001 OR mmio_read_32 0x03009040 s) s
      in mmio_write_32 0x0300904c (0x820 OR mmio_read_32 0x0300904c s) s)"

definition page10_link_pulse :: "(u32 \<times> u32) list" where
  "page10_link_pulse =
     [(0x0300907c, 0x0a00), (0x03009040, 0x3e00), (0x03009044, 0x7864), (0x03009048, 0x6470), (0x0300904c, 0x5f62),
      (0x03009050, 0x5a5a), (0x03009054, 0x5458), (0x03009058, 0xb23a), (0x0300905c, 0x94a0), (0x03009060, 0x9092),
      (0x03009064, 0x8a8e), (0x03009068, 0x8688), (0x0300906c, 0x8484), (0x03009070, 0x0082)]"

definition page11_tp_idle :: "(u32 \<times> u32) list" where
  "page11_tp_idle =
     [(0x0300907c, 0x0b00), (0x03009040, 0x5252), (0x03009044, 0x5252), (0x03009048, 0x4B52), (0x0300904c, 0x3D47),
      (0x03009050, 0xAA99), (0x03009054, 0x989E), (0x03009058, 0x9395), (0x0300905C, 0x9091), (0x03009060, 0x8E8F),
      (0x03009064, 0x8D8E), (0x03009068, 0x8C8C), (0x0300906C, 0x8B8B), (0x03009070, 0x008A)]"

definition page13_10baset :: "(u32 \<times> u32) list" where
  "page13_10baset =
     [(0x0300907c, 0x0d00), (0x03009040, 0x1E0A), (0x03009044, 0x3862), (0x03009048, 0x1E62), (0x0300904c, 0x2A08),
      (0x03009050, 0x244C), (0x03009054, 0x1A44), (0x03009058, 0x061C),
      (0x0300907c, 0x0e00), (0x03009040, 0x2D30), (0x03009044, 0x3470), (0x03009048, 0x0648), (0x0300904c, 0x261C),
      (0x03009050, 0x3160), (0x03009054, 0x2D5E),
      (0x0300907c, 0x0f00), (0x03009040, 0x2922), (0x03009044, 0x366E), (0x03009048, 0x0752), (0x0300904c, 0x2556),
      (0x03009050, 0x2348), (0x03009054, 0x0C30),
      (0x0300907c, 0x1000), (0x03009040, 0x1E08), (0x03009044, 0x3868), (0x03009048, 0x1462), (0x0300904c, 0x1A0E),
      (0x03009050, 0x305E), (0x03009054, 0x2F62)]"

definition page1_led :: "board \<Rightarrow> board" where
  "page1_led s =
     (let s = mmio_write_32 0x0300907c 0x0100 s
      in mmio_write_32 0x03009068 (mmio_read_32 0x03009068 s AND NOT 0x0f00) s)"

definition page19_18 :: "(u32 \<times> u32) list" where
  "page19_18 =
     [(0x0300907c, 0x1300), (0x03009058, 0x0012), (0x0300905C, 0x6848),
      (0x0300907c, 0x1200), (0x03009048, 0x0808), (0x0300904C, 0x0808), (0x03009050, 0x32f8), (0x03009054, 0xf8dc)]"

definition page0_start :: "board \<Rightarrow> board" where
  "page0_start s =
     (let s = writes [(0x0300907c, 0x0000), (0x03009008, 0x0043), (0x0300900c, 0x5649), (0x03009800, 0x090e)] s
      in mmio_write_32 0x03009000 (mmio_read_32 0x03009000 s OR 0x100) s)"

definition cvi_ephy_init :: "board \<Rightarrow> board" where
  "cvi_ephy_init s =
     (let s = writes ephy_power s;
          s = txitune s;
          s = txechoiadj s;
          s = txrterm s;
          s = writes eth_100baset s;
          s = marse_pll s;
          s = writes page16_mlt3 s;
          s = writes page17_mlt3 s;
          s = page5_rterm s;
          s = writes page10_link_pulse s;
          s = writes page11_tp_idle s;
          s = writes page13_10baset s;
          s = page1_led s;
          s = writes page19_18 s;
          s = page0_start s
      in mmio_write_32 0x03009804 0x0000 s)"

definition set_rtc_register_for_power :: "board \<Rightarrow> board" where
  "set_rtc_register_for_power s = mmio_write_32 0x050260D0 0x7 s"

definition cvi_board_init :: "board \<Rightarrow> board" where
  "cvi_board_init s = set_rtc_register_for_power (cvi_ephy_init s)"

section \<open>Which fuses matter\<close>

text \<open>Two boards that agree on the page and on every register outside \<open>K\<close>.\<close>

definition same_but :: "(u32 \<times> u32) set \<Rightarrow> board \<Rightarrow> board \<Rightarrow> bool" where
  "same_but K s t \<longleftrightarrow> page s = page t \<and> (\<forall>k. k \<notin> K \<longrightarrow> cells s k = cells t k)"

lemma same_but_cell: "same_but K s t \<Longrightarrow> cell t a = cell s a"
  by (simp add: same_but_def cell_def)

lemma same_but_read: "same_but K s t \<Longrightarrow> cell s a \<notin> K \<Longrightarrow> mmio_read_32 a t = mmio_read_32 a s"
  by (simp add: same_but_def mmio_read_32_def cell_def)

lemma same_but_write:
  assumes "same_but K s t"
  shows "same_but (K - {cell s a}) (mmio_write_32 a v s) (mmio_write_32 a v t)"
  using assms same_but_cell [OF assms, of a] by (auto simp: same_but_def mmio_write_32_def)

lemma same_but_write_diff:
  assumes "same_but K s t" and "a \<noteq> PAGE_SEL"
  shows "same_but (insert (cell s a) K) (mmio_write_32 a v s) (mmio_write_32 a w t)"
  using assms same_but_cell [OF assms(1), of a] by (auto simp: same_but_def mmio_write_32_def)

lemma same_but_mono: "same_but K s t \<Longrightarrow> K \<subseteq> L \<Longrightarrow> same_but L s t"
  by (auto simp: same_but_def)

lemma same_but_write1: "same_but K s t \<Longrightarrow> same_but K (mmio_write_32 a v s) (mmio_write_32 a v t)"
  by (auto simp: same_but_def mmio_write_32_def cell_def)

lemma same_but_writes: "same_but K s t \<Longrightarrow> same_but K (writes ws s) (writes ws t)"
proof (induction ws arbitrary: s t)
  case (Cons w ws)
  obtain a v where w: "w = (a, v)" by (cases w)
  have "same_but K (mmio_write_32 a v s) (mmio_write_32 a v t)"
    using same_but_write [OF Cons.prems, of a v] by (rule same_but_mono) blast
  from Cons.IH [OF this] show ?case by (simp add: writes_def w)
qed (simp add: writes_def)

lemma write_write: "a \<noteq> PAGE_SEL \<Longrightarrow> mmio_write_32 a u (mmio_write_32 a v s) = mmio_write_32 a u s"
  by (simp add: mmio_write_32_def cell_def)

lemma txitune_eq: "txitune s = mmio_write_32 0x03009064 0x5a5a s"
  by (simp add: txitune_def mmio_clrsetbits_32_def write_write PAGE_SEL_def)

lemma txrterm_eq: "txrterm s = mmio_write_32 0x03009058 0x0bb0 s"
  by (simp add: txrterm_def mmio_clrsetbits_32_def write_write PAGE_SEL_def)

lemma txechoiadj_writes: "\<exists>v. txechoiadj s = mmio_write_32 0x03009054 v s"
  by (auto simp: txechoiadj_def mmio_clrsetbits_32_def)

lemma write_page [simp]: "page (mmio_write_32 a v s) = (if a = PAGE_SEL then drop_bit 8 v else page s)"
  by (simp add: mmio_write_32_def)

lemma writes_simps [simp]:
  "writes [] s = s" "writes ((a, v) # ws) s = writes ws (mmio_write_32 a v s)"
  by (simp_all add: writes_def)

definition fuses :: "(u32 \<times> u32) set" where
  "fuses = {(0, 0x03050120), (0, 0x03050124)}"

text \<open>The analog section, up to the tables.\<close>

definition ephy_analog :: "board \<Rightarrow> board" where
  "ephy_analog s = writes eth_100baset (txrterm (txechoiadj (txitune (writes ephy_power s))))"

lemma ephy_analog_page: "page (ephy_analog s) = 5"
proof -
  obtain v where v: "txechoiadj (txitune (writes ephy_power s)) = mmio_write_32 0x03009054 v (txitune (writes ephy_power s))"
    using txechoiadj_writes by blast
  show ?thesis unfolding ephy_analog_def v
    by (simp add: txitune_eq txrterm_eq eth_100baset_def ephy_power_def PAGE_SEL_def)
qed

lemma same_but_analog:
  assumes "same_but fuses s t"
  shows "same_but fuses (ephy_analog s) (ephy_analog t)"
proof -
  let ?s = "txitune (writes ephy_power s)" and ?t = "txitune (writes ephy_power t)"
  have 1: "same_but fuses ?s ?t" unfolding txitune_eq
    using same_but_write [OF same_but_writes [OF assms]] by (rule same_but_mono) blast
  obtain v w where v: "txechoiadj ?s = mmio_write_32 0x03009054 v ?s" and w: "txechoiadj ?t = mmio_write_32 0x03009054 w ?t"
    using txechoiadj_writes by metis
  have "same_but (insert (cell ?s 0x03009054) fuses) (txechoiadj ?s) (txechoiadj ?t)"
    unfolding v w by (rule same_but_write_diff [OF 1]) (simp add: PAGE_SEL_def)
  then have "same_but (insert (cell ?s 0x03009054) fuses) (txrterm (txechoiadj ?s)) (txrterm (txechoiadj ?t))"
    unfolding txrterm_eq by (rule same_but_write1)
  from same_but_writes [OF this, of "[(0x0300905c, 0x0c10), (0x03009068, 0x0003)]"]
  have 2: "same_but (insert (cell ?s 0x03009054) fuses)
    (mmio_write_32 0x03009068 0x0003 (mmio_write_32 0x0300905c 0x0c10 (txrterm (txechoiadj ?s))))
    (mmio_write_32 0x03009068 0x0003 (mmio_write_32 0x0300905c 0x0c10 (txrterm (txechoiadj ?t))))" by simp
  have c: "cell (mmio_write_32 0x03009068 0x0003 (mmio_write_32 0x0300905c 0x0c10 (txrterm (txechoiadj ?s)))) 0x03009054 =
    cell ?s 0x03009054"
    unfolding v by (simp add: cell_def txrterm_eq PAGE_SEL_def)
  from same_but_write [OF 2, of "0x03009054" 0]
  show ?thesis unfolding ephy_analog_def eth_100baset_def c by (simp add: same_but_mono)
qed

text \<open>A read-modify-write of a register that is not a fuse.\<close>

lemma same_but_rmw:
  assumes "same_but fuses s t" "banked a \<or> a \<notin> {0x03050120, 0x03050124}"
  shows "same_but fuses (mmio_write_32 a (f (mmio_read_32 a s)) s) (mmio_write_32 a (f (mmio_read_32 a t)) t)"
proof -
  have "\<not> banked 0x03050120" "\<not> banked 0x03050124" by (simp_all add: banked_def PAGE_SEL_def)
  then have "cell s a \<notin> fuses" using assms(2) by (auto simp: cell_def fuses_def)
  then show ?thesis using same_but_write1 [OF assms(1)] by (simp add: same_but_read [OF assms(1)])
qed

lemma same_but_marse: "same_but fuses s t \<Longrightarrow> same_but fuses (marse_pll s) (marse_pll t)"
proof -
  assume st: "same_but fuses s t"
  have "cell s EPHY_EFUSE_ECO_BIT_BASE \<notin> fuses"
    by (simp add: cell_def fuses_def EPHY_EFUSE_ECO_BIT_BASE_def)
  from same_but_read [OF st this] st show ?thesis
    by (simp add: marse_pll_def same_but_write1)
qed

lemma same_but_pages:
  assumes "same_but fuses s t"
  shows "same_but fuses (page5_rterm s) (page5_rterm t)" "same_but fuses (page1_led s) (page1_led t)"
    "same_but fuses (page0_start s) (page0_start t)"
proof -
  have b: "banked 0x03009040" "banked 0x0300904c" "banked 0x03009068" "banked 0x03009000"
    by (simp_all add: banked_def PAGE_SEL_def)
  show "same_but fuses (page5_rterm s) (page5_rterm t)" unfolding page5_rterm_def Let_def
    using b by (intro same_but_rmw [where f = "\<lambda>r. 0x820 OR r"] same_but_rmw [where f = "\<lambda>r. 0x0001 OR r"]
      same_but_write1 assms) simp_all
  show "same_but fuses (page1_led s) (page1_led t)" unfolding page1_led_def Let_def
    using b by (intro same_but_rmw [where f = "\<lambda>r. r AND NOT 0x0f00"] same_but_write1 assms) simp_all
  show "same_but fuses (page0_start s) (page0_start t)" unfolding page0_start_def Let_def
    using b by (intro same_but_rmw [where f = "\<lambda>r. r OR 0x100"] same_but_writes assms) simp_all
qed

lemma cvi_ephy_init_analog: "cvi_ephy_init s =
  mmio_write_32 0x03009804 0 (page0_start (writes page19_18 (page1_led (writes page13_10baset (writes page11_tp_idle
    (writes page10_link_pulse (page5_rterm (writes page17_mlt3 (writes page16_mlt3 (marse_pll (ephy_analog s)))))))))))"
  by (simp add: cvi_ephy_init_def ephy_analog_def Let_def)

lemma same_but_init: "same_but fuses s t \<Longrightarrow> same_but fuses (cvi_board_init s) (cvi_board_init t)"
  unfolding cvi_board_init_def set_rtc_register_for_power_def cvi_ephy_init_analog
  by (intro same_but_write1 same_but_pages same_but_writes same_but_marse same_but_analog)

section \<open>The registers at the end\<close>

text \<open>The page after a run of writes, and whether a register keeps its value over it.\<close>

fun end_page :: "u32 \<Rightarrow> (u32 \<times> u32) list \<Rightarrow> u32" where
  "end_page p [] = p"
| "end_page p ((a, v) # ws) = end_page (if a = PAGE_SEL then drop_bit 8 v else p) ws"

fun untouched :: "u32 \<times> u32 \<Rightarrow> u32 \<Rightarrow> (u32 \<times> u32) list \<Rightarrow> bool" where
  "untouched k p [] \<longleftrightarrow> True"
| "untouched k p ((a, v) # ws) \<longleftrightarrow>
     (if banked a then p else 0, a) \<noteq> k \<and> untouched k (if a = PAGE_SEL then drop_bit 8 v else p) ws"

lemma page_writes: "page (writes ws s) = end_page (page s) ws"
  by (induction ws arbitrary: s) auto

lemma cells_write: "cells (mmio_write_32 a v s) k = (if k = cell s a then v else cells s k)"
  by (simp add: mmio_write_32_def)

lemma cells_writes: "untouched k (page s) ws \<Longrightarrow> cells (writes ws s) k = cells s k"
  by (induction ws arbitrary: s) (auto simp: cells_write cell_def)

definition table_keys :: "(u32 \<times> u32) set" where
  "table_keys = {(5, 0x03009064), (5, 0x03009058), (5, 0x03009054)}"

lemmas addr_simps = banked_def PAGE_SEL_def

lemma tables_keep:
  assumes "k \<in> table_keys"
  shows "cells (writes page16_mlt3 s) k = cells s k" "cells (writes page17_mlt3 s) k = cells s k"
    "cells (writes page10_link_pulse s) k = cells s k" "cells (writes page11_tp_idle s) k = cells s k"
    "cells (writes page13_10baset s) k = cells s k" "cells (writes page19_18 s) k = cells s k"
  using assms
  by (auto intro!: cells_writes simp del: writes_simps simp: table_keys_def addr_simps page16_mlt3_def page17_mlt3_def
      page10_link_pulse_def page11_tp_idle_def page13_10baset_def page19_18_def)

lemma pages_keep:
  assumes "k \<in> table_keys"
  shows "cells (page5_rterm s) k = cells s k" "cells (page1_led s) k = cells s k" "cells (page0_start s) k = cells s k"
  using assms
  by (auto simp: table_keys_def addr_simps page5_rterm_def page1_led_def page0_start_def Let_def cells_write cell_def)

lemma marse_keep: "k \<in> table_keys \<Longrightarrow> cells (marse_pll s) k = cells s k"
  by (auto simp: table_keys_def marse_pll_def cells_write cell_def addr_simps)

lemma analog_end:
  "cells (ephy_analog s) (5, 0x03009064) = 0x5a5a" "cells (ephy_analog s) (5, 0x03009058) = 0x0bb0"
  "cells (ephy_analog s) (5, 0x03009054) = 0"
proof -
  obtain v where v: "txechoiadj (txitune (writes ephy_power s)) = mmio_write_32 0x03009054 v (txitune (writes ephy_power s))"
    using txechoiadj_writes by blast
  show "cells (ephy_analog s) (5, 0x03009064) = 0x5a5a" "cells (ephy_analog s) (5, 0x03009058) = 0x0bb0"
    "cells (ephy_analog s) (5, 0x03009054) = 0"
    unfolding ephy_analog_def v
    by (simp_all add: txitune_eq txrterm_eq eth_100baset_def ephy_power_def cells_write cell_def addr_simps)
qed

text \<open>
  C34. The Ethernet PHY at the end of the board initialisation. The trim fuses have no effect: two
  boards that differ only in the fuse words 0x03050120 and 0x03050124 end with the same registers,
  because the three values computed from the fuses are overwritten by constants. The PHY then has
  the identifier 0x00435649 and full duplex forced, page 0 is selected, and MDIO is handed back.
\<close>

theorem cvi_board_init_fuses:
  assumes "same_but fuses s t"
  shows "same_but fuses (cvi_board_init s) (cvi_board_init t) \<and>
    cells (cvi_board_init s) (5, 0x03009064) = 0x5a5a \<and> cells (cvi_board_init s) (5, 0x03009058) = 0x0bb0 \<and>
    cells (cvi_board_init s) (5, 0x03009054) = 0 \<and> page (cvi_board_init s) = 0 \<and>
    cells (cvi_board_init s) (0, 0x03009008) = 0x0043 \<and> cells (cvi_board_init s) (0, 0x0300900c) = 0x5649 \<and>
    bit (cells (cvi_board_init s) (0, 0x03009000)) 8 \<and> cells (cvi_board_init s) (0, 0x03009804) = 0"
proof -
  have k: "cells (cvi_board_init u) k = cells (ephy_analog u) k" if "k \<in> table_keys" for k u
  proof -
    have "cells (cvi_board_init u) k = cells (page0_start (writes page19_18 (page1_led (writes page13_10baset
      (writes page11_tp_idle (writes page10_link_pulse (page5_rterm (writes page17_mlt3 (writes page16_mlt3
        (marse_pll (ephy_analog u))))))))))) k"
      using that by (auto simp: cvi_board_init_def set_rtc_register_for_power_def cvi_ephy_init_analog cells_write
        cell_def table_keys_def addr_simps)
    then show ?thesis using that by (simp add: pages_keep tables_keep marse_keep)
  qed
  have "page (cvi_board_init s) = 0 \<and>
    cells (cvi_board_init s) (0, 0x03009008) = 0x0043 \<and> cells (cvi_board_init s) (0, 0x0300900c) = 0x5649 \<and>
    bit (cells (cvi_board_init s) (0, 0x03009000)) 8 \<and> cells (cvi_board_init s) (0, 0x03009804) = 0"
    by (simp add: cvi_board_init_def set_rtc_register_for_power_def cvi_ephy_init_analog page0_start_def Let_def
      cells_write cell_def addr_simps mmio_read_32_def bit_simps)
  with same_but_init [OF assms] show ?thesis by (simp add: k table_keys_def analog_end)
qed

definition blank_board :: board where
  "blank_board = \<lparr>page = 0, cells = (\<lambda>_. 0)\<rparr>"

definition trimmed_board :: board where
  "trimmed_board = mmio_write_32 0x03050124 0xaabbccdd (mmio_write_32 0x03050120 0xffffffff blank_board)"

theorem cvi_board_init_fuses_witness:
  "same_but fuses (cvi_board_init blank_board) (cvi_board_init trimmed_board) \<and>
   mmio_read_32 0x03050124 trimmed_board \<noteq> mmio_read_32 0x03050124 blank_board"
proof -
  have "same_but fuses blank_board trimmed_board"
    by (auto simp: same_but_def fuses_def trimmed_board_def blank_board_def mmio_write_32_def cell_def addr_simps)
  then have "same_but fuses (cvi_board_init blank_board) (cvi_board_init trimmed_board)"
    using cvi_board_init_fuses [of blank_board trimmed_board] by blast
  then show ?thesis
    by (simp add: trimmed_board_def blank_board_def mmio_write_32_def mmio_read_32_def cell_def addr_simps)
qed

end
