(* ===== verification/Ltregs.thy ===== *)
theory Ltregs
  imports Mmio Pixels
begin

text \<open>
  Registers and state of the HDMI bring-up module
  (\<open>lt8912b-bringup/lt8912b-bringup/lt8912b-bringup.c\<close>): the scaler, D-PHY and VIP system windows
  with the access helpers the whole module uses, its globals and its parameters. The display
  registers are plain here, as they are in the raw register mode the module selects. The DSI mode
  register is not: what a write does to it is an argument of the functions that write it.
\<close>

section \<open>Register map\<close>

definition SCL_TOP_CFG0 :: nat where "SCL_TOP_CFG0 = 0x0"
definition SCL_TOP_CFG1 :: nat where "SCL_TOP_CFG1 = 0x4"
definition SCL_TOP_SHD :: nat where "SCL_TOP_SHD = 0x10"
definition SCL_TOP_PG :: nat where "SCL_TOP_PG = 0x4C"
definition SCL_TOP_VO_MUX :: nat where "SCL_TOP_VO_MUX = 0x70"
definition SCL_DISP_CFG :: nat where "SCL_DISP_CFG = 0x8000"
definition SCL_DISP_TOTAL :: nat where "SCL_DISP_TOTAL = 0x8004"
definition SCL_DISP_VSYNC :: nat where "SCL_DISP_VSYNC = 0x8008"
definition SCL_DISP_VFDE :: nat where "SCL_DISP_VFDE = 0x800C"
definition SCL_DISP_VMDE :: nat where "SCL_DISP_VMDE = 0x8010"
definition SCL_DISP_HSYNC :: nat where "SCL_DISP_HSYNC = 0x8014"
definition SCL_DISP_HFDE :: nat where "SCL_DISP_HFDE = 0x8018"
definition SCL_DISP_HMDE :: nat where "SCL_DISP_HMDE = 0x801C"
definition SCL_DISP_FIFO_THR :: nat where "SCL_DISP_FIFO_THR = 0x8030"
definition SCL_DISP_ADDR0_L :: nat where "SCL_DISP_ADDR0_L = 0x8034"
definition SCL_DISP_ADDR0_H :: nat where "SCL_DISP_ADDR0_H = 0x8038"
definition SCL_DISP_ADDR1_L :: nat where "SCL_DISP_ADDR1_L = 0x803C"
definition SCL_DISP_ADDR1_H :: nat where "SCL_DISP_ADDR1_H = 0x8040"
definition SCL_DISP_ADDR2_L :: nat where "SCL_DISP_ADDR2_L = 0x8044"
definition SCL_DISP_ADDR2_H :: nat where "SCL_DISP_ADDR2_H = 0x8048"
definition SCL_DISP_PITCH_Y :: nat where "SCL_DISP_PITCH_Y = 0x804C"
definition SCL_DISP_PITCH_C :: nat where "SCL_DISP_PITCH_C = 0x8050"
definition SCL_DISP_OFFSET :: nat where "SCL_DISP_OFFSET = 0x8054"
definition SCL_DISP_SIZE :: nat where "SCL_DISP_SIZE = 0x8058"
definition SCL_DISP_OUT_CSC0 :: nat where "SCL_DISP_OUT_CSC0 = 0x805C"
definition SCL_DISP_IN_CSC0 :: nat where "SCL_DISP_IN_CSC0 = 0x8078"
definition SCL_DISP_PAT_CFG :: nat where "SCL_DISP_PAT_CFG = 0x8094"
definition SCL_DISP_CACHE :: nat where "SCL_DISP_CACHE = 0x80C0"
definition SCL_DISP_PAT_COLOR0 :: nat where "SCL_DISP_PAT_COLOR0 = 0x8098"
definition SCL_DISP_PAT_COLOR1 :: nat where "SCL_DISP_PAT_COLOR1 = 0x809C"
definition SCL_DISP_PAT_COLOR2 :: nat where "SCL_DISP_PAT_COLOR2 = 0x80A0"
definition SCL_DISP_PAT_COLOR3 :: nat where "SCL_DISP_PAT_COLOR3 = 0x80A4"
definition SCL_DISP_PAT_COLOR4 :: nat where "SCL_DISP_PAT_COLOR4 = 0x80A8"
definition SCL_DSI_MAC_EN :: nat where "SCL_DSI_MAC_EN = 0xA000"
definition SCL_DSI_HS_0 :: nat where "SCL_DSI_HS_0 = 0xA004"
definition SCL_DSI_HS_1 :: nat where "SCL_DSI_HS_1 = 0xA008"

lemmas scl_regs = SCL_TOP_CFG0_def SCL_TOP_CFG1_def SCL_TOP_SHD_def SCL_TOP_PG_def SCL_TOP_VO_MUX_def SCL_DISP_CFG_def SCL_DISP_TOTAL_def SCL_DISP_VSYNC_def SCL_DISP_VFDE_def SCL_DISP_VMDE_def SCL_DISP_HSYNC_def SCL_DISP_HFDE_def SCL_DISP_HMDE_def SCL_DISP_FIFO_THR_def SCL_DISP_ADDR0_L_def SCL_DISP_ADDR0_H_def SCL_DISP_ADDR1_L_def SCL_DISP_ADDR1_H_def SCL_DISP_ADDR2_L_def SCL_DISP_ADDR2_H_def SCL_DISP_PITCH_Y_def SCL_DISP_PITCH_C_def SCL_DISP_OFFSET_def SCL_DISP_SIZE_def SCL_DISP_OUT_CSC0_def SCL_DISP_IN_CSC0_def SCL_DISP_PAT_CFG_def SCL_DISP_CACHE_def SCL_DISP_PAT_COLOR0_def SCL_DISP_PAT_COLOR1_def SCL_DISP_PAT_COLOR2_def SCL_DISP_PAT_COLOR3_def SCL_DISP_PAT_COLOR4_def SCL_DSI_MAC_EN_def SCL_DSI_HS_0_def SCL_DSI_HS_1_def

definition PHY_EN :: nat where "PHY_EN = 0x0"
definition PHY_ESC_INIT :: nat where "PHY_ESC_INIT = 0xC"
definition PHY_ESC_WAKE :: nat where "PHY_ESC_WAKE = 0x10"
definition PHY_HS_CFG1 :: nat where "PHY_HS_CFG1 = 0x14"
definition PHY_DATA_OV :: nat where "PHY_DATA_OV = 0x44"
definition PHY_LPTX_OV :: nat where "PHY_LPTX_OV = 0x4C"
definition PHY_PD_TXDRV :: nat where "PHY_PD_TXDRV = 0x50"
definition PHY_PD_EN_TX :: nat where "PHY_PD_EN_TX = 0x54"
definition PHY_EN_SUBLVDS :: nat where "PHY_EN_SUBLVDS = 0x5C"
definition PHY_EN_TXBIAS_OP :: nat where "PHY_EN_TXBIAS_OP = 0x60"
definition PHY_PD :: nat where "PHY_PD = 0x64"
definition PHY_TXPLL :: nat where "PHY_TXPLL = 0x6C"
definition PHY_REG_74 :: nat where "PHY_REG_74 = 0x74"
definition PHY_VSEL :: nat where "PHY_VSEL = 0x88"
definition PHY_REG_8C :: nat where "PHY_REG_8C = 0x8C"
definition PHY_REG_SET :: nat where "PHY_REG_SET = 0x90"
definition PHY_LANE_SEL :: nat where "PHY_LANE_SEL = 0x9C"
definition PHY_LANE_PN_SWAP :: nat where "PHY_LANE_PN_SWAP = 0xA0"
definition PHY_LVDS_EN :: nat where "PHY_LVDS_EN = 0xB4"
definition PHY_EXT_GPIO :: nat where "PHY_EXT_GPIO = 0xC0"
definition PHY_GPO :: nat where "PHY_GPO = 0xC4"
definition PHY_GPI :: nat where "PHY_GPI = 0xC8"

lemmas phy_regs = PHY_EN_def PHY_ESC_INIT_def PHY_ESC_WAKE_def PHY_HS_CFG1_def PHY_DATA_OV_def PHY_LPTX_OV_def PHY_PD_TXDRV_def PHY_PD_EN_TX_def PHY_EN_SUBLVDS_def PHY_EN_TXBIAS_OP_def PHY_PD_def PHY_TXPLL_def PHY_REG_74_def PHY_VSEL_def PHY_REG_8C_def PHY_REG_SET_def PHY_LANE_SEL_def PHY_LANE_PN_SWAP_def PHY_LVDS_EN_def PHY_EXT_GPIO_def PHY_GPO_def PHY_GPI_def

definition VIP_RESETS :: nat where "VIP_RESETS = 0x0"
definition VIP_CLK_CTRL0 :: nat where "VIP_CLK_CTRL0 = 0x18"
definition VIP_APB_CLK_EN :: nat where "VIP_APB_CLK_EN = 0x14"
definition VIP_AXI_FAB_PRI :: nat where "VIP_AXI_FAB_PRI = 0x70"

lemmas vip_regs = VIP_RESETS_def VIP_CLK_CTRL0_def VIP_APB_CLK_EN_def VIP_AXI_FAB_PRI_def

definition VIPRST_DISP :: u32 where
  "VIPRST_DISP = push_bit 2 1 OR push_bit 3 1 OR push_bit 4 1 OR push_bit 5 1 OR push_bit 6 1 OR push_bit 7 1 OR push_bit 8 1 OR
     push_bit 9 1 OR push_bit 11 1 OR push_bit 18 1 OR push_bit 20 1 OR push_bit 23 1 OR push_bit 26 1"
definition VIPAPB_DISP :: u32 where "VIPAPB_DISP = push_bit 0 1 OR push_bit 4 1 OR push_bit 6 1"

definition LANE_CLK :: u8 where "LANE_CLK = 0"
definition LANE_D3 :: u8 where "LANE_D3 = 4"
definition lane_map4 :: "u8 list" where "lane_map4 = [1, 2, 0, 3, 4]"
definition lane_map2 :: "u8 list" where "lane_map2 = [1, 2, 0, 7, 7]"

definition DSI_MODE_IDLE :: u32 where "DSI_MODE_IDLE = 0"
definition DSI_MODE_HS :: u32 where "DSI_MODE_HS = 4"

definition PAT_TYPE_FULL :: u8 where "PAT_TYPE_FULL = 0"
definition PAT_TYPE_V_GRAD :: u8 where "PAT_TYPE_V_GRAD = 2"
definition PAT_TYPE_OFF :: u8 where "PAT_TYPE_OFF = 5"
definition PAT_COLOR_BAR :: u8 where "PAT_COLOR_BAR = 7"

text \<open>The one video mode: sync, back porch, active and front porch, then the framebuffer.\<close>

definition VID_HSA :: u32 where "VID_HSA = 40"
definition VID_HBP :: u32 where "VID_HBP = 220"
definition VID_HACT :: nat where "VID_HACT = 1280"
definition VID_HFP :: u32 where "VID_HFP = 110"
definition VID_VSA :: u32 where "VID_VSA = 5"
definition VID_VBP :: u32 where "VID_VBP = 20"
definition VID_VACT :: nat where "VID_VACT = 720"
definition VID_VFP :: u32 where "VID_VFP = 5"
definition VID_BITS :: u32 where "VID_BITS = 24"
definition VID_PITCH :: nat where "VID_PITCH = VID_HACT * 3"
definition VID_FB_SIZE :: nat where "VID_FB_SIZE = VID_PITCH * VID_VACT"
definition VID_PLANE :: nat where "VID_PLANE = VID_HACT * VID_VACT"

lemmas vid_defs = VID_HSA_def VID_HBP_def VID_HACT_def VID_HFP_def VID_VSA_def VID_VBP_def VID_VACT_def VID_VFP_def
  VID_BITS_def VID_PITCH_def VID_FB_SIZE_def VID_PLANE_def

section \<open>State\<close>

text \<open>Module parameters.\<close>

record bparams =
  sync_pol :: u32
  disppll_fix_div :: bool
  clkgen_or :: u32
  planar :: bool
  use_fb :: bool
  pixclk_khz :: int
  lp11 :: bool
  hs0_or :: u32
  hs0_clr :: u32
  pn_swap :: u32
  lanes :: int
  disp_src_off :: bool

text \<open>Calls on the way out, and mappings of the framebuffer.\<close>

datatype bcall = B_misc_register | B_misc_deregister | B_debugfs string | B_debugfs_remove | B_cancel_scroll
  | B_dma_free bool | B_put_adapter | B_dma_mmap u64 | B_remap_pfn u64

record bringup =
  scaler :: mmio
  phy :: mmio
  vipsys :: mmio
  clkgen :: mmio
  mac_en :: u32
  g_disp_cfg :: u32
  nlanes :: u32
  clks :: "(string \<times> int) list"
  disp_src_gated :: bool
  g_bound :: bool
  adap :: bool
  bfb_cpu :: bool
  bfb_mem :: "nat \<Rightarrow> u8"
  bfb_dma :: u64
  scroll_x :: u32
  scroll_on :: bool
  scroll_queued :: bool
  bcalls :: "bcall list"

definition scl_r :: "nat \<Rightarrow> bringup \<Rightarrow> u32" where "scl_r a s = readl (scaler s) a"
definition scl_w :: "nat \<Rightarrow> u32 \<Rightarrow> bringup \<Rightarrow> bringup" where "scl_w a v s = s\<lparr>scaler := writel v a (scaler s)\<rparr>"
definition scl_m :: "nat \<Rightarrow> u32 \<Rightarrow> u32 \<Rightarrow> bringup \<Rightarrow> bringup" where
  "scl_m a m v s = scl_w a ((scl_r a s AND NOT m) OR (v AND m)) s"
definition phy_r :: "nat \<Rightarrow> bringup \<Rightarrow> u32" where "phy_r a s = readl (phy s) a"
definition phy_w :: "nat \<Rightarrow> u32 \<Rightarrow> bringup \<Rightarrow> bringup" where "phy_w a v s = s\<lparr>phy := writel v a (phy s)\<rparr>"
definition phy_m :: "nat \<Rightarrow> u32 \<Rightarrow> u32 \<Rightarrow> bringup \<Rightarrow> bringup" where
  "phy_m a m v s = phy_w a ((phy_r a s AND NOT m) OR (v AND m)) s"
definition vip_r :: "nat \<Rightarrow> bringup \<Rightarrow> u32" where "vip_r a s = readl (vipsys s) a"
definition vip_w :: "nat \<Rightarrow> u32 \<Rightarrow> bringup \<Rightarrow> bringup" where "vip_w a v s = s\<lparr>vipsys := writel v a (vipsys s)\<rparr>"
definition vip_m :: "nat \<Rightarrow> u32 \<Rightarrow> u32 \<Rightarrow> bringup \<Rightarrow> bringup" where
  "vip_m a m v s = vip_w a ((vip_r a s AND NOT m) OR (v AND m)) s"

section \<open>Reads after writes\<close>

text \<open>The part of the state that is not a register window.\<close>

definition soft :: "bringup \<Rightarrow> bringup" where
  "soft s = s\<lparr>scaler := (\<lambda>_. 0), phy := (\<lambda>_. 0), vipsys := (\<lambda>_. 0), clkgen := (\<lambda>_. 0)\<rparr>"

lemma window_r [accessor_simps]:
  "scl_r a (scl_w a v s) = v" "phy_r a (phy_w a v s) = v" "vip_r a (vip_w a v s) = v"
  "scl_r a (scl_m a m v s) = (scl_r a s AND NOT m) OR (v AND m)"
  "phy_r a (phy_m a m v s) = (phy_r a s AND NOT m) OR (v AND m)"
  "vip_r a (vip_m a m v s) = (vip_r a s AND NOT m) OR (v AND m)"
  by (simp_all add: scl_r_def scl_w_def scl_m_def phy_r_def phy_w_def phy_m_def vip_r_def vip_w_def vip_m_def
      ml.rd_wr_same)

lemma window_other [accessor_simps]:
  "a + 4 \<le> b \<or> b + 4 \<le> a \<Longrightarrow> scl_r a (scl_w b v s) = scl_r a s"
  "a + 4 \<le> b \<or> b + 4 \<le> a \<Longrightarrow> scl_r a (scl_m b m v s) = scl_r a s"
  "a + 4 \<le> b \<or> b + 4 \<le> a \<Longrightarrow> phy_r a (phy_w b v s) = phy_r a s"
  "a + 4 \<le> b \<or> b + 4 \<le> a \<Longrightarrow> phy_r a (phy_m b m v s) = phy_r a s"
  "a + 4 \<le> b \<or> b + 4 \<le> a \<Longrightarrow> vip_r a (vip_w b v s) = vip_r a s"
  "a + 4 \<le> b \<or> b + 4 \<le> a \<Longrightarrow> vip_r a (vip_m b m v s) = vip_r a s"
  by (auto simp: scl_r_def scl_w_def scl_m_def phy_r_def phy_w_def phy_m_def vip_r_def vip_w_def vip_m_def
      ml.rd_wr_other)

lemma window_cross [accessor_simps]:
  "scl_r a (phy_w b v s) = scl_r a s" "scl_r a (phy_m b m v s) = scl_r a s"
  "scl_r a (vip_w b v s) = scl_r a s" "scl_r a (vip_m b m v s) = scl_r a s"
  "phy_r a (scl_w b v s) = phy_r a s" "phy_r a (scl_m b m v s) = phy_r a s"
  "phy_r a (vip_w b v s) = phy_r a s" "phy_r a (vip_m b m v s) = phy_r a s"
  "vip_r a (scl_w b v s) = vip_r a s" "vip_r a (scl_m b m v s) = vip_r a s"
  "vip_r a (phy_w b v s) = vip_r a s" "vip_r a (phy_m b m v s) = vip_r a s"
  by (simp_all add: scl_r_def scl_w_def scl_m_def phy_r_def phy_w_def phy_m_def vip_r_def vip_w_def vip_m_def)

lemma window_soft [accessor_simps]:
  "soft (scl_w a v s) = soft s" "soft (scl_m a m v s) = soft s" "soft (phy_w a v s) = soft s"
  "soft (phy_m a m v s) = soft s" "soft (vip_w a v s) = soft s" "soft (vip_m a m v s) = soft s"
  by (simp_all add: soft_def scl_w_def scl_m_def phy_w_def phy_m_def vip_w_def vip_m_def)

text \<open>Updates of the other fields do not reach the windows.\<close>

lemma field_window [accessor_simps]:
  "scl_r a (s\<lparr>mac_en := m\<rparr>) = scl_r a s" "phy_r a (s\<lparr>mac_en := m\<rparr>) = phy_r a s" "vip_r a (s\<lparr>mac_en := m\<rparr>) = vip_r a s"
  "scl_r a (s\<lparr>g_disp_cfg := c\<rparr>) = scl_r a s" "phy_r a (s\<lparr>g_disp_cfg := c\<rparr>) = phy_r a s" "vip_r a (s\<lparr>g_disp_cfg := c\<rparr>) = vip_r a s"
  "scl_r a (s\<lparr>nlanes := n\<rparr>) = scl_r a s" "phy_r a (s\<lparr>nlanes := n\<rparr>) = phy_r a s" "vip_r a (s\<lparr>nlanes := n\<rparr>) = vip_r a s"
  "scl_r a (s\<lparr>clkgen := g\<rparr>) = scl_r a s" "phy_r a (s\<lparr>clkgen := g\<rparr>) = phy_r a s" "vip_r a (s\<lparr>clkgen := g\<rparr>) = vip_r a s"
  "scl_r a (s\<lparr>clks := k\<rparr>) = scl_r a s" "phy_r a (s\<lparr>clks := k\<rparr>) = phy_r a s" "vip_r a (s\<lparr>clks := k\<rparr>) = vip_r a s"
  "scl_r a (s\<lparr>disp_src_gated := d\<rparr>) = scl_r a s" "phy_r a (s\<lparr>disp_src_gated := d\<rparr>) = phy_r a s"
  "vip_r a (s\<lparr>disp_src_gated := d\<rparr>) = vip_r a s"
  by (simp_all add: scl_r_def phy_r_def vip_r_def)

text \<open>Writes to the windows keep the other fields.\<close>

lemma window_field [accessor_simps]:
  "mac_en (scl_w a v s) = mac_en s" "mac_en (scl_m a m v s) = mac_en s" "mac_en (phy_w a v s) = mac_en s"
  "mac_en (phy_m a m v s) = mac_en s" "mac_en (vip_w a v s) = mac_en s" "mac_en (vip_m a m v s) = mac_en s"
  "g_disp_cfg (scl_w a v s) = g_disp_cfg s" "g_disp_cfg (scl_m a m v s) = g_disp_cfg s" "g_disp_cfg (phy_w a v s) = g_disp_cfg s"
  "g_disp_cfg (phy_m a m v s) = g_disp_cfg s" "g_disp_cfg (vip_w a v s) = g_disp_cfg s" "g_disp_cfg (vip_m a m v s) = g_disp_cfg s"
  "nlanes (scl_w a v s) = nlanes s" "nlanes (scl_m a m v s) = nlanes s" "nlanes (phy_w a v s) = nlanes s"
  "nlanes (phy_m a m v s) = nlanes s" "nlanes (vip_w a v s) = nlanes s" "nlanes (vip_m a m v s) = nlanes s"
  "clks (scl_w a v s) = clks s" "clks (scl_m a m v s) = clks s" "clks (phy_w a v s) = clks s"
  "clks (phy_m a m v s) = clks s" "clks (vip_w a v s) = clks s" "clks (vip_m a m v s) = clks s"
  "disp_src_gated (scl_w a v s) = disp_src_gated s" "disp_src_gated (scl_m a m v s) = disp_src_gated s" "disp_src_gated (phy_w a v s) = disp_src_gated s"
  "disp_src_gated (phy_m a m v s) = disp_src_gated s" "disp_src_gated (vip_w a v s) = disp_src_gated s" "disp_src_gated (vip_m a m v s) = disp_src_gated s"
  "bfb_mem (scl_w a v s) = bfb_mem s" "bfb_mem (scl_m a m v s) = bfb_mem s" "bfb_mem (phy_w a v s) = bfb_mem s"
  "bfb_mem (phy_m a m v s) = bfb_mem s" "bfb_mem (vip_w a v s) = bfb_mem s" "bfb_mem (vip_m a m v s) = bfb_mem s"
  "bfb_dma (scl_w a v s) = bfb_dma s" "bfb_dma (scl_m a m v s) = bfb_dma s" "bfb_dma (phy_w a v s) = bfb_dma s"
  "bfb_dma (phy_m a m v s) = bfb_dma s" "bfb_dma (vip_w a v s) = bfb_dma s" "bfb_dma (vip_m a m v s) = bfb_dma s"
  by (simp_all add: scl_w_def scl_m_def phy_w_def phy_m_def vip_w_def vip_m_def)

lemma soft_upd [accessor_simps]:
  "soft (s\<lparr>mac_en := c0\<rparr>) = (soft s)\<lparr>mac_en := c0\<rparr>"
  "soft (s\<lparr>g_disp_cfg := c1\<rparr>) = (soft s)\<lparr>g_disp_cfg := c1\<rparr>"
  "soft (s\<lparr>nlanes := c2\<rparr>) = (soft s)\<lparr>nlanes := c2\<rparr>"
  "soft (s\<lparr>clks := c3\<rparr>) = (soft s)\<lparr>clks := c3\<rparr>"
  "soft (s\<lparr>disp_src_gated := c4\<rparr>) = (soft s)\<lparr>disp_src_gated := c4\<rparr>"
  "soft (s\<lparr>clkgen := k\<rparr>) = soft s"
  by (simp_all add: soft_def)

lemma soft_fields:
  assumes "soft s = soft t"
  shows "mac_en s = mac_en t" "g_disp_cfg s = g_disp_cfg t" "nlanes s = nlanes t" "clks s = clks t"
    "disp_src_gated s = disp_src_gated t" "g_bound s = g_bound t" "adap s = adap t" "bfb_cpu s = bfb_cpu t"
    "bfb_mem s = bfb_mem t" "bfb_dma s = bfb_dma t" "scroll_x s = scroll_x t" "scroll_on s = scroll_on t"
    "scroll_queued s = scroll_queued t" "bcalls s = bcalls t"
  using assms by (cases s; cases t; simp add: soft_def)+

end
