(* ===== verification/Bringup.thy ===== *)
theory Bringup
  imports Ltregs
begin

text \<open>
  The DSI bring-up sequence (\<open>lt8912b-bringup.c\<close>, from \<open>vip_cold_init\<close> to \<open>do_bringup\<close>): resets and
  clocks of the display block, the D-PHY lanes and the arithmetic of its PLL, the DSI packet
  format, the display timing, and the scanout of the framebuffer or the pattern generator.
  A division by zero in the PLL arithmetic is the result \<open>None\<close>.
\<close>

section \<open>Resets and promotion\<close>

definition vip_cold_init :: "bringup \<Rightarrow> bringup" where
  "vip_cold_init s =
     (let apb = vip_r VIP_APB_CLK_EN s; rst = vip_r VIP_RESETS s;
          s = vip_w VIP_APB_CLK_EN (apb OR VIPAPB_DISP) s;
          s = vip_w VIP_RESETS (rst OR VIPRST_DISP) s;
          s = vip_w VIP_RESETS (rst AND NOT VIPRST_DISP) s
      in vip_w VIP_AXI_FAB_PRI 0x1032AA0F s)"

definition scl_top_init :: "bringup \<Rightarrow> bringup" where
  "scl_top_init s =
     (let s = scl_w SCL_TOP_CFG0 (push_bit 31 1 OR push_bit 3 1) s;
          s = scl_w SCL_TOP_CFG1 (push_bit 9 1 OR push_bit 12 1 OR push_bit 16 0xff) s;
          s = scl_w SCL_DISP_FIFO_THR 0x10201020 s;
          s = scl_w SCL_TOP_SHD (push_bit 9 1) s;
          s = scl_m SCL_TOP_CFG0 (push_bit 0 1) (push_bit 0 1) s;
          s = scl_m SCL_TOP_SHD 0x00ff 0x00ff s
      in scl_m SCL_TOP_PG 0x0f0000 0x80000 s)"

definition scl_promote :: "bringup \<Rightarrow> bringup" where
  "scl_promote s = scl_m SCL_TOP_SHD 0x00ff 0x00ff (scl_m SCL_TOP_CFG0 (push_bit 0 1) (push_bit 0 1) s)"

definition disp_cfg_commit :: "bringup \<Rightarrow> bringup" where
  "disp_cfg_commit s =
     (let s = scl_m SCL_DISP_CFG 0xf071 (g_disp_cfg s) s;
          s = scl_m SCL_DISP_CFG (push_bit 16 1) (push_bit 16 1) s
      in scl_promote s)"

section \<open>D-PHY\<close>

definition dphy_disable_lanes :: "bringup \<Rightarrow> bringup" where
  "dphy_disable_lanes s = phy_m PHY_LANE_SEL 0xfffff 0 (phy_m PHY_EN 0x3f 0 s)"

definition dphy_set_lane :: "nat \<Rightarrow> u8 \<Rightarrow> bool \<Rightarrow> bool \<Rightarrow> bringup \<Rightarrow> bringup" where
  "dphy_set_lane lane_num role pn clk_phase_shift s =
     (let s = phy_m PHY_LANE_SEL (push_bit (4 * lane_num) 0x7) (push_bit (4 * lane_num) (ucast role)) s;
          s = phy_m PHY_LANE_PN_SWAP (push_bit lane_num 1) (push_bit lane_num (of_bool pn)) s
      in if role = LANE_CLK
         then phy_m PHY_LANE_SEL (push_bit 24 0x1f) (if clk_phase_shift then push_bit lane_num (push_bit 24 1) else 0) s
         else s)"

definition dphy_lane_en :: "bool \<Rightarrow> bool list \<Rightarrow> bool \<Rightarrow> bringup \<Rightarrow> bringup" where
  "dphy_lane_en clk_en data_en preamble_en s =
     (let val = fold (\<lambda>i v. v OR push_bit (i + 1) (of_bool (data_en ! i))) [0..<4] (of_bool clk_en) :: u8;
          val = (if preamble_en then val OR 0x20 else val)
      in phy_m PHY_EN 0x3f (ucast val) s)"

fun ilog2 :: "nat \<Rightarrow> nat" where
  "ilog2 n = (if n < 2 then 0 else Suc (ilog2 (n div 2)))"

declare ilog2.simps [simp del]

definition cal_pll_reg :: "u32 \<Rightarrow> u32 \<Rightarrow> u32 \<Rightarrow> bringup \<Rightarrow> ((u32 \<times> u32) \<times> bringup) option" where
  "cal_pll_reg clkkHz VCORx10000 factor s =
     (if VCORx10000 = 0 then None
      else
        (let gain = word_of_nat (2 ^ ilog2 (max 1 (25000000 div unat VCORx10000))) :: u8;
             VCOCx1000 = VCORx10000 * ucast gain div 10
         in if clkkHz = 0 \<or> VCOCx1000 = 0 then None
            else
              (let reg_disp_div_sel = ucast (VCOCx1000 div clkkHz) :: u8;
                   dig_dig = word_of_nat (ilog2 (unat gain)) :: u8;
                   reg_divout_sel = (if 3 < dig_dig then 3 else dig_dig);
                   reg_div_sel = dig_dig - reg_divout_sel;
                   loop_gainx1000 = VCOCx1000 div 133;
                   bt_div = reg_disp_div_sel > 0x7f;
                   loop_c = 8 * ((loop_gainx1000 div 8) div 1000);
                   div_loop = (if loop_c > 32 then 3 else ucast (loop_c div 8)) :: u8;
                   loop_gain1 = div_loop * 8;
                   modifies = push_bit 26 (ucast (factor * ucast loop_gain1)) div ucast VCOCx1000 :: u64;
                   reg_set = ucast modifies;
                   s = vip_m VIP_CLK_CTRL0 0x10 (if bt_div then 0 else 0x10) s;
                   reg_disp_div_sel = (if bt_div then drop_bit 1 reg_disp_div_sel else reg_disp_div_sel);
                   s = phy_m PHY_TXPLL 0x300000 (push_bit 20 (ucast div_loop)) s;
                   reg_txpll = push_bit 10 (ucast reg_div_sel) OR push_bit 8 (ucast reg_divout_sel) OR ucast reg_disp_div_sel
               in Some ((reg_txpll, reg_set), s))))"

definition dphy_set_pll :: "u32 \<Rightarrow> u32 \<Rightarrow> u32 \<Rightarrow> bringup \<Rightarrow> bringup option" where
  "dphy_set_pll clkkHz lane bits s =
     (let VCORx10000 = clkkHz * bits * 10 div lane
      in case cal_pll_reg clkkHz VCORx10000 900000 s of
           None \<Rightarrow> None
         | Some ((reg_txpll, reg_set), s) \<Rightarrow>
             (let s = phy_m PHY_TXPLL 0x7ff reg_txpll s;
                  s = phy_w PHY_REG_SET reg_set s;
                  s = phy_m PHY_REG_8C (push_bit 0 1) 0 s
              in Some (phy_m PHY_REG_8C (push_bit 0 1) 1 s)))"

text \<open>The power-down words of the unused lanes: one function per word, folded over the lanes.\<close>

definition unused_lane :: "u32 \<Rightarrow> nat \<Rightarrow> bool" where
  "unused_lane lane_sel i \<longleftrightarrow> drop_bit (i * 4) lane_sel AND 0x0F > 4"

definition lane_word :: "u32 \<Rightarrow> nat list \<Rightarrow> u32" where
  "lane_word lane_sel shifts =
     fold (\<lambda>i v. if unused_lane lane_sel i then fold (\<lambda>k v. v OR push_bit (k + i) 1) shifts v else v) [0..<5] 0"

definition dphy_init_mipi :: "bringup \<Rightarrow> bringup" where
  "dphy_init_mipi s =
     (let lane_sel = phy_r PHY_LANE_SEL s;
          lptrx = lane_word lane_sel [0, 8];
          lptx_rx = lane_word lane_sel [0, 16];
          hstx = lane_word lane_sel [0, 8, 16, 24];
          s = phy_w PHY_PD lptrx s;
          s = phy_w PHY_LPTX_OV lptx_rx s;
          s = phy_w PHY_PD_EN_TX lptrx s;
          s = phy_w PHY_PD_TXDRV hstx s;
          s = phy_w PHY_GPO lptrx s;
          s = phy_w PHY_GPI lptrx s;
          s = phy_w PHY_ESC_INIT 0x100 s;
          s = phy_w PHY_ESC_WAKE 0x100 s;
          s = phy_w PHY_EXT_GPIO 0x0 s;
          s = phy_w PHY_LVDS_EN 0 s;
          s = phy_m PHY_EN_TXBIAS_OP 0x10000 0 s;
          s = phy_m PHY_EN_SUBLVDS 0x1F000000 0 s;
          s = phy_m PHY_VSEL 0xFFFFF 0 s
      in phy_m PHY_REG_74 0x3ff 0 s)"

definition dphy_set_hs_settle :: "u32 \<Rightarrow> u32 \<Rightarrow> u32 \<Rightarrow> bringup \<Rightarrow> bringup" where
  "dphy_set_hs_settle prepare zero trail s =
     phy_m PHY_HS_CFG1 0xffffff00 (push_bit 24 trail OR push_bit 16 zero OR push_bit 8 prepare) s"

section \<open>Display and DSI\<close>

text \<open>\<open>pll_reg\<close> and \<open>syn\<close> are whether the two mappings of the clock generator succeed.\<close>

definition disp_set_intf_mipi :: "bparams \<Rightarrow> bool \<Rightarrow> bool \<Rightarrow> bringup \<Rightarrow> bringup" where
  "disp_set_intf_mipi p pll_reg syn s =
     (let s = (if pll_reg then
                 s\<lparr>clkgen := writel ((readl (clkgen s) 0x03002840 AND 0xf5) OR clkgen_or p) 0x03002840 (clkgen s)\<rparr>
               else s);
          s = (if disppll_fix_div p \<and> syn then
                 s\<lparr>clkgen := writel (push_bit 6 1 OR push_bit 0 1) 0x03002860 (writel (push_bit 6 1) 0x03002860 (clkgen s))\<rparr>
               else s);
          s = dphy_init_mipi s
      in scl_m SCL_TOP_VO_MUX 0xF 0 s)"

definition UPPER :: "u32 \<Rightarrow> nat \<Rightarrow> u32" where
  "UPPER x y = drop_bit y (x + (push_bit y 1 - 1))"

definition dsi_config :: "bparams \<Rightarrow> bringup \<Rightarrow> bringup" where
  "dsi_config p s =
     (let s = scl_m SCL_DSI_HS_0 0xc3000000 (push_bit 24 (drop_bit 1 (nlanes s))) s;
          s = (if hs0_or p \<noteq> 0 then scl_m SCL_DSI_HS_0 (hs0_or p) (hs0_or p) s else s);
          s = (if hs0_clr p \<noteq> 0 then scl_m SCL_DSI_HS_0 (hs0_clr p) 0 s else s)
      in scl_w SCL_DSI_HS_1 (push_bit 16 (of_nat (VID_HACT div 10)) OR UPPER (of_nat VID_HACT * VID_BITS) 3) s)"

text \<open>A start in the low half and an end in the high half of a word.\<close>

definition span :: "u32 \<Rightarrow> u32 \<Rightarrow> u32" where
  "span a b = push_bit 16 b OR a"

definition disp_set_timing :: "bparams \<Rightarrow> bringup \<Rightarrow> bringup" where
  "disp_set_timing p s =
     (let vtotal = VID_VSA + VID_VBP + of_nat VID_VACT + VID_VFP - 1;
          htotal = VID_HSA + VID_HBP + of_nat VID_HACT + VID_HFP - 1;
          vsync_start = 1; vsync_end = vsync_start + VID_VSA - 1;
          vde_start = vsync_start + VID_VSA + VID_VBP; vde_end = vde_start + of_nat VID_VACT - 1;
          hsync_start = 1; hsync_end = hsync_start + VID_HSA - 1;
          hde_start = hsync_start + VID_HSA + VID_HBP; hde_end = hde_start + of_nat VID_HACT - 1;
          s = scl_w SCL_DISP_TOTAL (span vtotal htotal) s;
          s = scl_w SCL_DISP_VSYNC (span vsync_start vsync_end) s;
          s = scl_w SCL_DISP_VFDE (span vde_start vde_end) s;
          s = scl_w SCL_DISP_VMDE (span vde_start vde_end) s;
          s = scl_w SCL_DISP_HSYNC (span hsync_start hsync_end) s;
          s = scl_w SCL_DISP_HFDE (span hde_start hde_end) s;
          s = scl_w SCL_DISP_HMDE (span hde_start hde_end) s;
          s = s\<lparr>g_disp_cfg := (g_disp_cfg s AND NOT 0x0060) OR (sync_pol p AND 0x60)\<rparr>
      in disp_cfg_commit s)"

definition disp_tgen_enable :: "bool \<Rightarrow> bringup \<Rightarrow> bringup" where
  "disp_tgen_enable en s = scl_m SCL_DISP_CFG 0x80 (if en then 0x80 else 0) s"

definition disp_window :: "bringup \<Rightarrow> bringup" where
  "disp_window s =
     scl_w SCL_DISP_SIZE (push_bit 16 (of_nat VID_VACT - 1) OR (of_nat VID_HACT - 1)) (scl_w SCL_DISP_OFFSET 0 s)"

definition disp_set_pattern :: "u8 \<Rightarrow> u8 \<Rightarrow> bringup \<Rightarrow> bringup" where
  "disp_set_pattern ty color s =
     (if ty > PAT_TYPE_V_GRAD then scl_promote (scl_w SCL_DISP_PAT_CFG 0 s)
      else
        (let s = disp_window s;
             s = scl_w SCL_DISP_PAT_COLOR0 0x03ff03ff s;
             s = scl_m SCL_DISP_PAT_COLOR1 0x000003ff 0x3ff s;
             s = scl_m SCL_DISP_PAT_CFG 0x1f000016 (push_bit 27 (ucast ty) OR push_bit 24 (ucast color) OR 0x0002) s
         in disp_cfg_commit s))"

text \<open>\<open>lower_32_bits\<close> and \<open>upper_32_bits\<close> of a plane's address.\<close>

definition set_addr :: "nat \<Rightarrow> nat \<Rightarrow> u64 \<Rightarrow> bringup \<Rightarrow> bringup" where
  "set_addr lo hi a s = scl_w hi (ucast (drop_bit 32 a)) (scl_w lo (ucast a) s)"

definition scan_pitch :: "u32 \<Rightarrow> u32" where
  "scan_pitch n = push_bit 28 0x7 OR push_bit 24 0x7 OR n"

definition disp_set_scanout :: "bparams \<Rightarrow> u64 \<Rightarrow> bringup \<Rightarrow> bringup" where
  "disp_set_scanout p fb s =
     (let s = disp_window s;
          s = (if planar p then
                 (let s = scl_w SCL_DISP_PITCH_Y (scan_pitch (of_nat VID_HACT)) s;
                      s = scl_w SCL_DISP_PITCH_C (scan_pitch (of_nat VID_HACT)) s;
                      s = set_addr SCL_DISP_ADDR0_L SCL_DISP_ADDR0_H fb s;
                      s = set_addr SCL_DISP_ADDR1_L SCL_DISP_ADDR1_H (fb + of_nat VID_PLANE) s
                  in set_addr SCL_DISP_ADDR2_L SCL_DISP_ADDR2_H (fb + 2 * of_nat VID_PLANE) s)
               else
                 (let s = scl_w SCL_DISP_PITCH_Y (scan_pitch (of_nat VID_PITCH AND 0x00ffffff)) s;
                      s = scl_w SCL_DISP_PITCH_C 0 s;
                      s = set_addr SCL_DISP_ADDR0_L SCL_DISP_ADDR0_H fb s;
                      s = set_addr SCL_DISP_ADDR1_L SCL_DISP_ADDR1_H 0 s
                  in set_addr SCL_DISP_ADDR2_L SCL_DISP_ADDR2_H 0 s));
          s = scl_w SCL_DISP_IN_CSC0 0 s;
          s = scl_w SCL_DISP_OUT_CSC0 0 s;
          s = scl_m SCL_DISP_CACHE (push_bit 0 1) (push_bit 0 1) s;
          s = scl_w SCL_DISP_PAT_COLOR4 (push_bit 16 6) s;
          s = s\<lparr>g_disp_cfg := (g_disp_cfg s AND NOT 0x0000f011) OR push_bit 12 (if planar p then 2 else 4)\<rparr>
      in disp_cfg_commit s)"

text \<open>The bars in the scanout buffer, as three planes or as packed pixels.\<close>

definition lt_fill_colorbar :: "bool \<Rightarrow> store list" where
  "lt_fill_colorbar plan = raster VID_HACT VID_VACT (\<lambda>x y.
     (case bars ! (x * 8 div VID_HACT) of (r, g, b) \<Rightarrow>
        if plan then
          [(y * VID_HACT + x, r), (y * VID_HACT + (x + VID_PLANE), g), (y * VID_HACT + (x + 2 * VID_PLANE), b)]
        else
          [(y * VID_PITCH + (x * 3 + 0), r), (y * VID_PITCH + (x * 3 + 1), g), (y * VID_PITCH + (x * 3 + 2), b)]))"

text \<open>\<open>mac old v\<close> is the mode register after \<open>v\<close> is written to it.\<close>

definition dsi_set_mode :: "(u32 \<Rightarrow> u32 \<Rightarrow> u32) \<Rightarrow> u32 \<Rightarrow> bringup \<Rightarrow> bringup" where
  "dsi_set_mode mac mode s =
     (if mode = DSI_MODE_IDLE then
        (let m = mac_en s in if m \<noteq> DSI_MODE_IDLE then s\<lparr>mac_en := mac m m\<rparr> else s)
      else
        (let s = (if mac_en s \<noteq> 0 then s\<lparr>mac_en := mac (mac_en s) (mac_en s)\<rparr> else s)
         in s\<lparr>mac_en := mac (mac_en s) mode\<rparr>))"

section \<open>The whole sequence\<close>

text \<open>One PHY lane of the loop; the list is the enabled data lanes so far.\<close>

definition lane_step :: "bparams \<Rightarrow> u8 list \<Rightarrow> nat \<Rightarrow> bool list \<times> bringup \<Rightarrow> bool list \<times> bringup" where
  "lane_step p lm i c = (case c of (data_en, s) \<Rightarrow>
     if lm ! i > LANE_D3 then (data_en, phy_m PHY_LANE_SEL (push_bit (4 * i) 0x7) (push_bit (4 * i) (ucast (lm ! i))) s)
     else
       (if lm ! i \<noteq> LANE_CLK then data_en[unat (lm ! i) - 1 := True] else data_en,
        dphy_set_lane i (lm ! i) (drop_bit i (pn_swap p) AND 1 \<noteq> 0) True s))"

text \<open>Enable or disable the first clock with that name.\<close>

fun clk_adj :: "string \<Rightarrow> int \<Rightarrow> (string \<times> int) list \<Rightarrow> (string \<times> int) list option" where
  "clk_adj nm d [] = None"
| "clk_adj nm d ((n, c) # cs) =
     (if n = nm then Some ((n, c + d) # cs) else map_option ((#) (n, c)) (clk_adj nm d cs))"

definition gate_disp_src :: "bparams \<Rightarrow> bringup \<Rightarrow> bringup" where
  "gate_disp_src p s =
     (if disp_src_off p \<and> \<not> disp_src_gated s then
        (case clk_adj ''disp-src'' (-1) (clks s) of
           None \<Rightarrow> s | Some cs \<Rightarrow> s\<lparr>clks := cs, disp_src_gated := True\<rparr>)
      else if \<not> disp_src_off p \<and> disp_src_gated s then
        (case clk_adj ''disp-src'' 1 (clks s) of
           None \<Rightarrow> s | Some cs \<Rightarrow> s\<lparr>clks := cs, disp_src_gated := False\<rparr>)
      else s)"

definition bringup_lanes :: "bparams \<Rightarrow> bringup \<Rightarrow> bringup" where
  "bringup_lanes p s =
     (let lm = (if lanes p = 2 then lane_map2 else lane_map4);
          s = s\<lparr>nlanes := (if lanes p = 2 then 2 else 4)\<rparr>;
          s = s\<lparr>g_disp_cfg := 0\<rparr>;
          s = vip_cold_init s;
          s = scl_top_init s;
          s = scl_m SCL_DISP_CFG (push_bit 31 1 OR push_bit 18 1) (push_bit 31 1 OR push_bit 18 1) s;
          s = dphy_disable_lanes s;
          (data_en, s) = fold (lane_step p lm) [0..<5] (replicate 4 False, s)
      in dphy_lane_en True data_en (word_of_int (pixclk_khz p) * VID_BITS div nlanes s > 1500000) s)"

definition bringup_video :: "bparams \<Rightarrow> (u32 \<Rightarrow> u32 \<Rightarrow> u32) \<Rightarrow> bool \<Rightarrow> bool \<Rightarrow> bringup \<Rightarrow> bringup" where
  "bringup_video p mac pll_reg syn s =
     (let s = vip_m VIP_CLK_CTRL0 (push_bit 16 1) (push_bit 16 1) s;
          s = dphy_set_hs_settle 6 32 5 s;
          s = gate_disp_src p s;
          s = disp_set_intf_mipi p pll_reg syn s;
          s = dsi_config p s;
          s = disp_set_timing p s;
          s = (if use_fb p \<and> bfb_dma s \<noteq> 0 then disp_set_scanout p (bfb_dma s) s
               else disp_set_pattern PAT_TYPE_FULL PAT_COLOR_BAR s);
          s = disp_tgen_enable True s;
          s = (if lp11 p then
                 phy_w PHY_DATA_OV 0 (dsi_set_mode mac DSI_MODE_IDLE (phy_w PHY_DATA_OV 0x1f1f1f1f s))
               else s)
      in dsi_set_mode mac DSI_MODE_HS s)"

definition do_bringup :: "bparams \<Rightarrow> (u32 \<Rightarrow> u32 \<Rightarrow> u32) \<Rightarrow> bool \<Rightarrow> bool \<Rightarrow> bringup \<Rightarrow> bringup option" where
  "do_bringup p mac pll_reg syn s =
     (let s = bringup_lanes p s
      in map_option (bringup_video p mac pll_reg syn) (dphy_set_pll (word_of_int (pixclk_khz p)) (nlanes s) VID_BITS s))"

text \<open>The module before it is loaded.\<close>

definition bringup0 :: bringup where
  "bringup0 = \<lparr>scaler = (\<lambda>_. 0), phy = (\<lambda>_. 0), vipsys = (\<lambda>_. 0), clkgen = (\<lambda>_. 0), mac_en = 0, g_disp_cfg = 0, nlanes = 4,
     clks = [], disp_src_gated = False, g_bound = False, adap = False, bfb_cpu = False, bfb_mem = (\<lambda>_. 0), bfb_dma = 0,
     scroll_x = 0, scroll_on = False, scroll_queued = False, bcalls = []\<rparr>"

end
