(* ===== verification/Pll.thy ===== *)
theory Pll
  imports Bringup
begin

text \<open>
  The PLL of the D-PHY: for the pixel clocks the arithmetic of \<open>cal_pll_reg\<close> is meant for, the
  registers it leaves divide the VCO down to exactly the pixel clock.
\<close>

section \<open>Gain and dividers\<close>

lemma ilog2_bounds: "0 < n \<Longrightarrow> 2 ^ ilog2 n \<le> n \<and> n < 2 ^ Suc (ilog2 n)"
proof (induction n rule: ilog2.induct)
  case (1 n)
  show ?case
  proof (cases "n < 2")
    case True
    then have "n = 1" using 1(2) by simp
    then show ?thesis by (simp add: ilog2.simps)
  next
    case False
    then have "0 < n div 2" by linarith
    then have "2 ^ ilog2 (n div 2) \<le> n div 2 \<and> n div 2 < 2 * 2 ^ ilog2 (n div 2)" using 1(1) [OF False] by simp
    moreover have "ilog2 n = Suc (ilog2 (n div 2))" using False by (subst ilog2.simps) simp
    ultimately show ?thesis by simp linarith
  qed
qed

lemma ilog2_pow: "ilog2 (2 ^ g) = g"
  by (induction g) (simp_all add: ilog2.simps)

lemma pow2_cases: "g \<le> 4 \<Longrightarrow> (g :: nat) = 0 \<or> g = 1 \<or> g = 2 \<or> g = 3 \<or> g = 4"
  by auto

text \<open>The loop gain for a VCO of \<open>V\<close> times the gain, in tenths of a kHz.\<close>

lemma gain_range:
  assumes "0 < V" "V \<le> 25000000" "25000000 < V * 32"
  obtains g where "ilog2 (max 1 (25000000 div V)) = g" "g \<le> 4" "V * 2 ^ g \<le> 25000000" "25000000 < V * 2 ^ g * 2"
proof -
  let ?k = "25000000 div V" and ?g = "ilog2 (25000000 div V)"
  have k: "1 \<le> ?k" using assms(1,2) by (simp add: Suc_le_eq div_greater_zero_iff)
  have b: "2 ^ ?g \<le> ?k" "?k < 2 ^ Suc ?g" using ilog2_bounds [of ?k] k by simp_all
  have le: "V * 2 ^ ?g \<le> 25000000"
    using order_trans [OF mult_le_mono2 [OF b(1), of V] times_div_less_eq_dividend [of V 25000000]] .
  have lt: "25000000 < V * 2 ^ ?g * 2"
  proof -
    have "25000000 < V * Suc ?k" using assms(1) dividend_less_times_div [of V 25000000] by simp
    also have "\<dots> \<le> V * 2 ^ Suc ?g" using b(2) by (intro mult_le_mono2) simp
    finally show ?thesis by simp
  qed
  have "?g \<le> 4"
  proof (rule ccontr)
    assume "\<not> ?g \<le> 4"
    then have "(2 :: nat) ^ 5 \<le> 2 ^ ?g" by (intro power_increasing) simp_all
    then have "V * 32 \<le> V * 2 ^ ?g" by simp
    with le assms(3) show False by linarith
  qed
  with that le lt k show thesis by (simp add: max_def)
qed

lemma unat_mult_small: "unat a * unat b < 2 ^ LENGTH('a) \<Longrightarrow> unat (a * b :: 'a::len word) = unat a * unat b"
  by (simp add: unat_mult_lem)

definition pll_txpll :: "nat \<Rightarrow> nat \<Rightarrow> nat" where
  "pll_txpll q g = 1024 * (g - 3) + 256 * (if 3 < g then 3 else g) + (if 127 < q * 2 ^ g then q * 2 ^ g div 2 else q * 2 ^ g)"

lemma word_of_unat_eq: "unat w = n \<Longrightarrow> w = word_of_nat n"
  by auto

lemma ucast_word_of_nat: "n < 2 ^ LENGTH('a) \<Longrightarrow> ucast (word_of_nat n :: 'a::len word) = (word_of_nat n :: 'b::len word)"
  by (simp add: unsigned_of_nat take_bit_nat_eq_self)

lemma loop_div: "1250000 < W \<Longrightarrow> W \<le> 2500000 \<Longrightarrow> W div 1064000 = 1 \<or> W div 1064000 = (2 :: nat)"
  using div_le_mono [of W 2500000 1064000] div_le_mono [of 1064000 W 1064000] by auto

lemma cal_pll_eq:
  assumes q: "q = 6 \<or> q = 12" and n: "0 < n" "10 * q * n \<le> 25000000" "25000000 < 10 * q * n * 32"
    and w: "unat c = n" "unat v = 10 * q * n"
  obtains g where "g \<le> 4" "1250000 < q * n * 2 ^ g" "q * n * 2 ^ g \<le> 2500000"
    "cal_pll_reg c v 900000 s =
      Some ((word_of_nat (pll_txpll q g), word_of_nat (900000 * 8 * (q * n * 2 ^ g div 1064000) * 2 ^ 26 div (q * n * 2 ^ g))),
        phy_m PHY_TXPLL 0x300000 (push_bit 20 (word_of_nat (q * n * 2 ^ g div 1064000)))
          (vip_m VIP_CLK_CTRL0 0x10 (if 127 < q * 2 ^ g then 0 else 0x10) s))"
proof -
  have V0: "0 < 10 * q * n" using q n by auto
  obtain g where g: "ilog2 (max 1 (25000000 div (10 * q * n))) = g" "g \<le> 4" "10 * q * n * 2 ^ g \<le> 25000000"
      "25000000 < 10 * q * n * 2 ^ g * 2"
    using gain_range [OF V0 n(2,3)] by blast
  define W where "W = q * n * 2 ^ g"
  have W: "1250000 < W" "W \<le> 2500000" using g(3,4) by (simp_all add: W_def algebra_simps)
  define G where "G = (word_of_nat (2 ^ g) :: u8)"
  define C where "C = v * ucast G div 10"
  have g16: "(2 :: nat) ^ g \<le> 16" using pow2_cases [OF g(2)] by auto
  have G: "unat G = 2 ^ g" unfolding G_def using g16 by (intro unat_word_of_nat) simp
  have G32: "unat (ucast G :: u32) = 2 ^ g" using unat_ucast_up [where ?'a = 8 and ?'b = 32, of G] G by simp
  have m: "unat (v * ucast G) = 10 * q * n * 2 ^ g"
    using g(3) by (subst unat_mult_small; simp only: w G32; simp)
  have C: "unat C = W" unfolding C_def W_def unat_div_distrib m by simp
  have nz: "v \<noteq> 0" "c \<noteq> 0" "C \<noteq> 0" using w C V0 n(1) W(1) by auto
  have d: "ucast (C div c) = (word_of_nat (q * 2 ^ g) :: u8)"
  proof -
    have "unat (C div c) = q * 2 ^ g" using n(1) by (simp add: unat_div_distrib C w W_def)
    then have e: "C div c = word_of_nat (q * 2 ^ g)" by (rule word_of_unat_eq)
    show ?thesis unfolding e using q g16 by (intro ucast_word_of_nat) auto
  qed
  define D where "D = W div 1064000"
  have D: "D = 1 \<or> D = 2" unfolding D_def using W by (rule loop_div)
  have l: "8 * ((C div 133) div 8 div 1000) = word_of_nat (8 * D)"
  proof -
    have "unat ((C div 133) div 8 div 1000) = D" by (simp add: unat_div_distrib C D_def flip: div_mult2_eq)
    from word_of_unat_eq [OF this] show ?thesis by (simp only: of_nat_mult of_nat_numeral)
  qed
  have r: "(ucast (push_bit 26 (ucast (900000 * ucast (word_of_nat D * 8 :: u8) :: u32)) div ucast C :: u64) :: u32) =
    word_of_nat (900000 * 8 * D * 2 ^ 26 div W)"
  proof -
    have "push_bit 26 (ucast (900000 * ucast (word_of_nat D * 8 :: u8) :: u32)) = (word_of_nat (900000 * 8 * D * 2 ^ 26) :: u64)"
      using D by (auto simp: push_bit_eq_mult)
    moreover have "unat (word_of_nat (900000 * 8 * D * 2 ^ 26) :: u64) = 900000 * 8 * D * 2 ^ 26"
      using D by (intro unat_word_of_nat) auto
    moreover have "unat (ucast C :: u64) = W" using unat_ucast_up [where ?'a = 32 and ?'b = 64, of C] C by simp
    ultimately have "unat (push_bit 26 (ucast (900000 * ucast (word_of_nat D * 8 :: u8) :: u32)) div ucast C :: u64) =
      900000 * 8 * D * 2 ^ 26 div W"
      by (simp only: unat_div_distrib)
    then have e: "push_bit 26 (ucast (900000 * ucast (word_of_nat D * 8 :: u8) :: u32)) div ucast C =
      (word_of_nat (900000 * 8 * D * 2 ^ 26 div W) :: u64)" by (rule word_of_unat_eq)
    show ?thesis unfolding e using D by (intro ucast_word_of_nat le_less_trans [OF div_le_dividend]) auto
  qed
  have dl: "(if (word_of_nat (8 * D) :: u32) > 32 then 3 else ucast ((word_of_nat (8 * D) :: u32) div 8)) = (word_of_nat D :: u8)"
    using D by auto
  have "cal_pll_reg c v 900000 s =
      Some ((word_of_nat (pll_txpll q g), word_of_nat (900000 * 8 * D * 2 ^ 26 div W)),
        phy_m PHY_TXPLL 0x300000 (push_bit 20 (ucast (word_of_nat D :: u8)))
          (vip_m VIP_CLK_CTRL0 0x10 (if 127 < q * 2 ^ g then 0 else 0x10) s))"
    unfolding cal_pll_reg_def w g(1) G_def [symmetric] Let_def C_def [symmetric] G ilog2_pow d l dl r
    using nz pow2_cases [OF g(2)] q by (auto simp: pll_txpll_def)
  moreover have "ucast (word_of_nat D :: u8) = (word_of_nat D :: u32)" using D by auto
  ultimately show thesis using that [of g] g(2) W by (simp only: D_def W_def)
qed

text \<open>What the PLL registers say: the gain of the output dividers and the divider of the pixel clock.\<close>

definition pll_gain :: "u32 \<Rightarrow> nat" where
  "pll_gain r = 2 ^ (unat (drop_bit 8 r AND 3) + unat (drop_bit 10 r AND 1))"

definition pll_disp_div :: "u32 \<Rightarrow> u32 \<Rightarrow> nat" where
  "pll_disp_div r v = unat (r AND 0xff) * (if bit v 4 then 1 else 2)"

definition set_field :: "u32 \<Rightarrow> u32 \<Rightarrow> u32 \<Rightarrow> u32" where
  "set_field r m v = (r AND NOT m) OR (v AND m)"

lemma txpll_fields:
  fixes r :: u32
  assumes "q = 6 \<and> g \<le> 4 \<or> q = 12 \<and> g \<le> 4" and "D = 1 \<or> D = 2"
  defines "t \<equiv> set_field (set_field r 0x300000 (push_bit 20 (word_of_nat D))) 0x7ff (word_of_nat (pll_txpll q g))"
  shows "pll_gain t = 2 ^ g" "t AND 0xff = word_of_nat (if 127 < q * 2 ^ g then q * 2 ^ g div 2 else q * 2 ^ g)"
    "unat (drop_bit 20 t AND 3) = D"
proof -
  have q: "q = 6 \<or> q = 12" and gc: "g = 0 \<or> g = 1 \<or> g = 2 \<or> g = 3 \<or> g = 4" using assms(1) pow2_cases by blast+
  have m: "(3 :: u32) = mask 2" "(1 :: u32) = mask 1" "(0xff :: u32) = mask 8" "(0x7ff :: u32) = mask 11"
      "(0x300000 :: u32) = push_bit 20 (mask 2)"
    by (simp_all add: mask_eq_exp_minus_1 push_bit_eq_mult)
  have a: "drop_bit 8 t AND 3 = drop_bit 8 (word_of_nat (pll_txpll q g)) AND 3"
      "drop_bit 10 t AND 1 = drop_bit 10 (word_of_nat (pll_txpll q g)) AND 1"
      "t AND 0xff = word_of_nat (pll_txpll q g) AND 0xff"
    unfolding t_def set_field_def m by (rule bit_word_eqI; auto simp: bit_simps)+
  have b: "drop_bit 20 t AND 3 = word_of_nat D AND 3"
    unfolding t_def set_field_def m by (rule bit_word_eqI) (auto simp: bit_simps)
  show "pll_gain t = 2 ^ g" "t AND 0xff = word_of_nat (if 127 < q * 2 ^ g then q * 2 ^ g div 2 else q * 2 ^ g)"
    unfolding pll_gain_def a using q gc by (auto simp: pll_txpll_def)
  show "unat (drop_bit 20 t AND 3) = D" unfolding b using assms(2) by auto
qed

text \<open>
  C32. The PLL divides exactly. For 4 lanes from 13021 kHz to 416666 kHz and 2 lanes from 6511 kHz
  to 208333 kHz the PLL setup succeeds, the VCO (the lane rate times the output divider's gain) lies
  between 1.25 and 2.5 GHz, the pixel divider with its doubler divides it to exactly the pixel
  clock, no field overflows, and the loop setting is the quotient for that VCO. A pixel clock of 0
  divides by zero.
\<close>

theorem dphy_set_pll_exact:
  assumes "L = 2 \<and> 6511 \<le> n \<and> n \<le> 208333 \<or> L = 4 \<and> 13021 \<le> n \<and> n \<le> 416666"
  shows "\<exists>t. dphy_set_pll (word_of_nat n) (word_of_nat L) VID_BITS s = Some t \<and>
    (let r = phy_r PHY_TXPLL t; vco = n * (24 div L) * pll_gain r; D = vco div 1064000
     in 1250000 < vco \<and> vco \<le> 2500000 \<and> pll_disp_div r (vip_r VIP_CLK_CTRL0 t) * n = vco \<and>
        unat (drop_bit 20 r AND 3) = D \<and> 0 < D \<and> unat (phy_r PHY_REG_SET t) = 900000 * 8 * D * 2 ^ 26 div vco) \<and>
    dphy_set_pll 0 (word_of_nat L) VID_BITS s = None"
proof -
  define q where "q = 24 div L"
  have q: "q = 6 \<or> q = 12" and L: "L = 2 \<or> L = 4" using assms by (auto simp: q_def)
  have n: "0 < n" "10 * q * n \<le> 25000000" "25000000 < 10 * q * n * 32" using assms by (auto simp: q_def)
  have un: "unat (word_of_nat n :: u32) = n" using assms by (intro unat_word_of_nat) auto
  have v: "unat (word_of_nat n * VID_BITS * 10 div word_of_nat L :: u32) = 10 * q * n"
  proof -
    have "word_of_nat n * VID_BITS * 10 = (word_of_nat (240 * n) :: u32)" by (simp add: VID_BITS_def)
    moreover have "unat (word_of_nat (240 * n) :: u32) = 240 * n" using assms by (intro unat_word_of_nat) auto
    ultimately have "unat (word_of_nat n * VID_BITS * 10 :: u32) = 240 * n" by simp
    then show ?thesis using L by (auto simp: unat_div_distrib q_def)
  qed
  obtain g where g: "g \<le> 4" "1250000 < q * n * 2 ^ g" "q * n * 2 ^ g \<le> 2500000"
    and e: "cal_pll_reg (word_of_nat n) (word_of_nat n * VID_BITS * 10 div word_of_nat L) 900000 s =
      Some ((word_of_nat (pll_txpll q g), word_of_nat (900000 * 8 * (q * n * 2 ^ g div 1064000) * 2 ^ 26 div (q * n * 2 ^ g))),
        phy_m PHY_TXPLL 0x300000 (push_bit 20 (word_of_nat (q * n * 2 ^ g div 1064000)))
          (vip_m VIP_CLK_CTRL0 0x10 (if 127 < q * 2 ^ g then 0 else 0x10) s))"
    using cal_pll_eq [OF q n un v, of s] by blast
  let ?D = "q * n * 2 ^ g div 1064000"
  define t where "t = phy_m PHY_REG_8C (push_bit 0 1) 1 (phy_m PHY_REG_8C (push_bit 0 1) 0 (phy_w PHY_REG_SET
    (word_of_nat (900000 * 8 * ?D * 2 ^ 26 div (q * n * 2 ^ g))) (phy_m PHY_TXPLL 0x7ff (word_of_nat (pll_txpll q g))
      (phy_m PHY_TXPLL 0x300000 (push_bit 20 (word_of_nat ?D)) (vip_m VIP_CLK_CTRL0 0x10 (if 127 < q * 2 ^ g then 0 else 0x10) s)))))"
  have st: "dphy_set_pll (word_of_nat n) (word_of_nat L) VID_BITS s = Some t"
    unfolding dphy_set_pll_def Let_def e t_def by simp
  have D: "?D = 1 \<or> ?D = 2" by (rule loop_div) (use g in simp_all)
  have r: "phy_r PHY_TXPLL t = set_field (set_field (phy_r PHY_TXPLL s) 0x300000 (push_bit 20 (word_of_nat ?D))) 0x7ff
      (word_of_nat (pll_txpll q g))"
    and rs: "phy_r PHY_REG_SET t = word_of_nat (900000 * 8 * ?D * 2 ^ 26 div (q * n * 2 ^ g))"
    and vp: "vip_r VIP_CLK_CTRL0 t = set_field (vip_r VIP_CLK_CTRL0 s) 0x10 (if 127 < q * 2 ^ g then 0 else 0x10)"
    by (simp_all add: t_def set_field_def phy_regs accessor_simps)
  have qg: "q = 6 \<and> g \<le> 4 \<or> q = 12 \<and> g \<le> 4" using q g(1) by blast
  note f = txpll_fields [OF qg D, of "phy_r PHY_TXPLL s", folded r]
  have b4: "bit (vip_r VIP_CLK_CTRL0 t) 4 \<longleftrightarrow> \<not> 127 < q * 2 ^ g"
    unfolding vp set_field_def by (auto simp: bit_simps)
  have dd: "pll_disp_div (phy_r PHY_TXPLL t) (vip_r VIP_CLK_CTRL0 t) = q * 2 ^ g"
    unfolding pll_disp_div_def f(2) b4 using q pow2_cases [OF g(1)] by auto
  have "unat (phy_r PHY_REG_SET t) = 900000 * 8 * ?D * 2 ^ 26 div (q * n * 2 ^ g)"
  proof -
    have "900000 * 8 * ?D * 2 ^ 26 div (q * n * 2 ^ g) \<le> 900000 * 8 * ?D * 2 ^ 26 div 1250000"
      using g(2) by (intro div_le_mono2) simp_all
    also have "\<dots> < 2 ^ 32" using D by auto
    finally show ?thesis unfolding rs by (intro unat_word_of_nat) simp
  qed
  moreover have "dphy_set_pll 0 (word_of_nat L) VID_BITS s = None"
    by (simp add: dphy_set_pll_def cal_pll_reg_def)
  ultimately show ?thesis
    using st D g dd f(3) unfolding f(1) Let_def q_def [symmetric]
    by (intro exI [of _ t]) (auto simp: f(1) mult.commute mult.left_commute)
qed

theorem dphy_set_pll_exact_witness:
  "\<exists>t. dphy_set_pll 74250 4 VID_BITS bringup0 = Some t \<and>
     pll_disp_div (phy_r PHY_TXPLL t) (vip_r VIP_CLK_CTRL0 t) * 74250 = 74250 * 6 * pll_gain (phy_r PHY_TXPLL t)"
  using dphy_set_pll_exact [of 4 74250 bringup0] by (auto simp: Let_def)

end
