(* ===== verification/Ltctl.thy ===== *)
theory Ltctl
  imports Bringup
begin

text \<open>
  The rest of the HDMI bring-up module (\<open>lt8912b-bringup.c\<close>): the text scroller, the debugfs files,
  the mapping of the framebuffer, and probe and removal. The module's parameters are an argument,
  since most can be changed at any time; \<open>num\<close> is what \<open>kstrtoint_from_user\<close> answers and \<open>copied\<close>
  whether \<open>copy_from_user\<close> succeeds.
\<close>

section \<open>Scroller\<close>

definition SCROLL_SCALE :: nat where "SCROLL_SCALE = 8"
definition SCROLL_H :: nat where "SCROLL_H = 8 * SCROLL_SCALE"
definition SCROLL_ADV :: nat where "SCROLL_ADV = 8 * SCROLL_SCALE"
definition SCROLL_STEP :: u32 where "SCROLL_STEP = 6"

definition font8 :: "u8 list list" where
  "font8 =
     [[0, 0, 0, 0, 0, 0, 0, 0],
      [0x18, 0x18, 0x18, 0x18, 0x18, 0x00, 0x18, 0x00],
      [0x3C, 0x18, 0x18, 0x18, 0x18, 0x18, 0x3C, 0x00],
      [0x60, 0x60, 0x60, 0x60, 0x60, 0x60, 0x7E, 0x00],
      [0x7E, 0x18, 0x18, 0x18, 0x18, 0x18, 0x18, 0x00]]"

definition font_chars :: string where "font_chars = '' !ILT''"
definition scroll_msg :: string where "scroll_msg = ''IT LIT! ''"

fun strchr :: "string \<Rightarrow> char \<Rightarrow> nat option" where
  "strchr [] c = None"
| "strchr (d # ds) c = (if d = c then Some 0 else map_option Suc (strchr ds c))"

definition glyph_of :: "char \<Rightarrow> u8 list" where
  "glyph_of c = font8 ! (case strchr font_chars c of Some i \<Rightarrow> i | None \<Rightarrow> 0)"

definition memset :: "nat \<Rightarrow> u8 \<Rightarrow> nat \<Rightarrow> (nat \<Rightarrow> u8) \<Rightarrow> nat \<Rightarrow> u8" where
  "memset base v n m = (\<lambda>a. if base \<le> a \<and> a < base + n then v else m a)"

text \<open>Whether the pixel in column \<open>x\<close> and row \<open>y\<close> of the text is set; the sum wraps at 32 bits.\<close>

definition scroll_lit :: "u32 \<Rightarrow> nat \<Rightarrow> nat \<Rightarrow> bool" where
  "scroll_lit xoff x y =
     (let total = of_nat (length scroll_msg * SCROLL_ADV);
          gy = y div SCROLL_SCALE;
          sx = unat ((of_nat x + xoff) mod total);
          gl = glyph_of (scroll_msg ! (sx div SCROLL_ADV));
          gx = (sx mod SCROLL_ADV) div SCROLL_SCALE
      in ucast (gl ! gy) AND drop_bit gx 0x80 \<noteq> (0 :: u32))"

definition scroll_stores :: "u32 \<Rightarrow> store list" where
  "scroll_stores xoff = raster VID_HACT SCROLL_H (\<lambda>x y.
     (let y0 = (VID_VACT - SCROLL_H) div 2; row = (y0 + y) * VID_HACT in
      if scroll_lit xoff x y then
        [(row + x, 0xff), (VID_PLANE + (row + x), of_nat (x * 255 div VID_HACT)),
         (2 * VID_PLANE + (row + x), of_nat (255 - x * 255 div VID_HACT))]
      else []))"

definition scroll_render :: "u32 \<Rightarrow> (nat \<Rightarrow> u8) \<Rightarrow> nat \<Rightarrow> u8" where
  "scroll_render xoff m = run_stores (scroll_stores xoff) (memset 0 0 VID_FB_SIZE m)"

text \<open>The work runs once for each time it was queued.\<close>

definition scroll_fn :: "bringup \<Rightarrow> bringup" where
  "scroll_fn s =
     (if \<not> scroll_on s \<or> \<not> g_bound s \<or> \<not> bfb_cpu s then s\<lparr>scroll_queued := False\<rparr>
      else s\<lparr>bfb_mem := scroll_render (scroll_x s) (bfb_mem s), scroll_x := scroll_x s + SCROLL_STEP, scroll_queued := True\<rparr>)"

definition bcall :: "bcall \<Rightarrow> bringup \<Rightarrow> bringup" where
  "bcall c s = s\<lparr>bcalls := bcalls s @ [c]\<rparr>"

definition cancel_scroll :: "bringup \<Rightarrow> bringup" where
  "cancel_scroll s = bcall B_cancel_scroll (s\<lparr>scroll_queued := False\<rparr>)"

definition scroll_write :: "int res \<Rightarrow> nat \<Rightarrow> bringup \<Rightarrow> nat res \<times> bringup" where
  "scroll_write num len s =
     (case num of
        Inl e \<Rightarrow> (Inl e, s)
      | Inr v \<Rightarrow>
          if \<not> g_bound s \<or> \<not> bfb_cpu s then (Inl ENODEV, s)
          else if v \<noteq> 0 then (Inr len, s\<lparr>scroll_on := True, scroll_queued := True\<rparr>)
          else (Inr len, cancel_scroll (s\<lparr>scroll_on := False\<rparr>)))"

section \<open>Framebuffer\<close>

definition packed_stores :: "u8 \<Rightarrow> u8 \<Rightarrow> u8 \<Rightarrow> store list" where
  "packed_stores r g b = concat (map (\<lambda>i. [(3 * i, r), (3 * i + 1, g), (3 * i + 2, b)]) [0..<VID_PLANE])"

definition fbfill_write :: "bparams \<Rightarrow> string \<Rightarrow> bool \<Rightarrow> bringup \<Rightarrow> nat res \<times> bringup" where
  "fbfill_write p u copied s =
     (if \<not> g_bound s \<or> \<not> bfb_cpu s then (Inl ENODEV, s)
      else if length u \<ge> 32 then (Inl EINVAL, s)
      else if \<not> copied then (Inl EFAULT, s)
      else
        (let vs = scan_nums True 3 u; n = length vs in
         if n < 1 then (Inl EINVAL, s)
         else
           (let r = word_of_int (vs ! 0); gg = (if n < 3 then r else word_of_int (vs ! 1));
                b = (if n < 3 then r else word_of_int (vs ! 2));
                s = cancel_scroll (s\<lparr>scroll_on := False\<rparr>);
                m = bfb_mem s;
                m = (if planar p then
                       memset (2 * VID_PLANE) b VID_PLANE (memset VID_PLANE gg VID_PLANE (memset 0 r VID_PLANE m))
                     else run_stores (packed_stores r gg b) m)
            in (Inr (length u), s\<lparr>bfb_mem := m\<rparr>))))"

text \<open>\<open>coherent\<close> is whether \<open>dma_mmap_coherent\<close> succeeds, \<open>remap\<close> what \<open>remap_pfn_range\<close> answers.\<close>

definition lt_fbmap_mmap :: "u64 \<Rightarrow> u64 \<Rightarrow> u64 \<Rightarrow> bool \<Rightarrow> unit res \<Rightarrow> bringup \<Rightarrow> unit res \<times> bringup" where
  "lt_fbmap_mmap vm_start vm_end pgoff coherent remap s =
     (let len = vm_end - vm_start in
      if \<not> g_bound s \<or> \<not> bfb_cpu s then (Inl ENODEV, s)
      else if pgoff \<noteq> 0 \<or> len > of_nat VID_FB_SIZE then (Inl EINVAL, s)
      else
        (let s = cancel_scroll (s\<lparr>scroll_on := False\<rparr>);
             s = bcall (B_dma_mmap len) s
         in if coherent then (Inr (), s) else (remap, bcall (B_remap_pfn (drop_bit 12 (bfb_dma s))) s)))"

definition fbmap_open :: "bringup \<Rightarrow> unit res" where
  "fbmap_open s = (if \<not> g_bound s \<or> \<not> bfb_cpu s then Inl ENODEV else Inr ())"

text \<open>The lit pixels of the first plane and the sum of their values.\<close>

definition fbcheck_show :: "bringup \<Rightarrow> (nat \<times> nat) res" where
  "fbcheck_show s =
     (if \<not> g_bound s \<or> \<not> bfb_cpu s then Inl ENODEV
      else Inr (fold (\<lambda>i (lit, rsum). if bfb_mem s i \<noteq> 0 then (lit + 1, rsum + unat (bfb_mem s i)) else (lit, rsum))
                  [0..<VID_PLANE] (0, 0)))"

section \<open>Triggers\<close>

text \<open>A bring-up that divides by zero does not return.\<close>

definition bringup_write :: "bparams \<Rightarrow> (u32 \<Rightarrow> u32 \<Rightarrow> u32) \<Rightarrow> bool \<Rightarrow> bool \<Rightarrow> int res \<Rightarrow> nat \<Rightarrow> bringup \<Rightarrow> (nat res \<times> bringup) option" where
  "bringup_write p mac pll_reg syn num len s =
     (case num of
        Inl e \<Rightarrow> Some (Inl e, s)
      | Inr v \<Rightarrow>
          if \<not> g_bound s \<or> v \<noteq> 1 then Some (Inl EINVAL, s)
          else map_option (Pair (Inr len)) (do_bringup p mac pll_reg syn s))"

definition lt_pattern_write :: "string \<Rightarrow> bool \<Rightarrow> bringup \<Rightarrow> nat res \<times> bringup" where
  "lt_pattern_write u copied s =
     (if \<not> g_bound s then (Inl EINVAL, s)
      else if length u \<ge> 32 then (Inl EINVAL, s)
      else if \<not> copied then (Inl EFAULT, s)
      else
        (let vs = scan_nums True 2 u; n = length vs in
         if n < 1 then (Inl EINVAL, s)
         else
           (let ty = s32 (vs ! 0); color = s32 (conv vs 1 7);
                (ty, color) = (if n = 1 then (if ty = 0 then uint PAT_TYPE_OFF else uint PAT_TYPE_FULL, ty) else (ty, color))
            in (Inr (length u), disp_set_pattern (word_of_int ty) (word_of_int color) s))))"

definition vipinit_write :: "int res \<Rightarrow> nat \<Rightarrow> bringup \<Rightarrow> nat res \<times> bringup" where
  "vipinit_write num len s =
     (case num of
        Inl e \<Rightarrow> (Inl e, s)
      | Inr v \<Rightarrow> if \<not> g_bound s \<or> v \<noteq> 1 then (Inl EINVAL, s) else (Inr len, vip_cold_init s))"

section \<open>Register access\<close>

datatype blk = Blk_phy | Blk_scl | Blk_vip

definition io_blk :: "string \<Rightarrow> bringup \<Rightarrow> blk option" where
  "io_blk name s =
     (if \<not> g_bound s then None
      else if name = ''phy'' then Some Blk_phy
      else if name = ''scl'' then Some Blk_scl
      else if name = ''vip'' then Some Blk_vip
      else None)"

fun blk_r :: "blk \<Rightarrow> nat \<Rightarrow> bringup \<Rightarrow> u32" where
  "blk_r Blk_phy a s = phy_r a s" | "blk_r Blk_scl a s = scl_r a s" | "blk_r Blk_vip a s = vip_r a s"

fun blk_w :: "blk \<Rightarrow> nat \<Rightarrow> u32 \<Rightarrow> bringup \<Rightarrow> bringup" where
  "blk_w Blk_phy a v s = phy_w a v s" | "blk_w Blk_scl a v s = scl_w a v s" | "blk_w Blk_vip a v s = vip_w a v s"

text \<open>The conversions of the command line: the command letter, the block, and up to three numbers.\<close>

definition io_write :: "nat \<Rightarrow> bool \<Rightarrow> char \<times> string \<times> u32 list \<Rightarrow> bringup \<Rightarrow> nat res \<times> bringup" where
  "io_write len copied line s =
     (if len \<ge> 96 then (Inl EINVAL, s)
      else if \<not> copied then (Inl EFAULT, s)
      else
        (case line of (cmd, name, vs) \<Rightarrow>
           (case io_blk name s of
              None \<Rightarrow> (Inl EINVAL, s)
            | Some base \<Rightarrow>
                if vs = [] then (Inl EINVAL, s)
                else
                  (let off = unat (vs ! 0) in
                   if cmd = CHR ''r'' then (Inr len, s)
                   else if cmd = CHR ''w'' then
                     (if length vs < 2 then (Inl EINVAL, s) else (Inr len, blk_w base off (vs ! 1) s))
                   else if cmd = CHR ''m'' then
                     (if length vs < 3 then (Inl EINVAL, s)
                      else (Inr len, blk_w base off ((blk_r base off s AND NOT (vs ! 1)) OR (vs ! 2 AND vs ! 1)) s))
                   else (Inl EINVAL, s)))))"

section \<open>Probe and removal\<close>

text \<open>Whether the resource is there and whether mapping it succeeds.\<close>

definition map_byname :: "bool \<Rightarrow> bool \<Rightarrow> unit res" where
  "map_byname r p = (if \<not> r then Inl EINVAL else if p then Inr () else Inl ENOMEM)"

record probe_env =
  pe_kzalloc :: bool
  pe_scaler :: "unit res"
  pe_phy :: "unit res"
  pe_vip :: "unit res"
  pe_clks :: "string list res"
  pe_enable :: "unit res"
  pe_alloc :: "u64 option"
  pe_adap :: bool

definition debugfs_files :: "string list" where
  "debugfs_files = [''clocks'', ''lt8912b'', ''bringup'', ''pattern'', ''io'', ''vipinit'', ''scroll'', ''fbcheck'', ''fbfill'']"

definition debugfs_files2 :: "string list" where
  "debugfs_files2 = [''pads'', ''padw'', ''bitbang'', ''gpiop'']"

definition bringup_probe :: "bparams \<Rightarrow> probe_env \<Rightarrow> bringup \<Rightarrow> unit res \<times> bringup" where
  "bringup_probe p e s =
     (if \<not> pe_kzalloc e then (Inl ENOMEM, s)
      else (case pe_scaler e of Inl r \<Rightarrow> (Inl r, s) | Inr _ \<Rightarrow>
       (case pe_phy e of Inl r \<Rightarrow> (Inl r, s) | Inr _ \<Rightarrow>
       (case pe_vip e of Inl r \<Rightarrow> (Inl r, s) | Inr _ \<Rightarrow>
       (case pe_clks e of Inl r \<Rightarrow> (Inl r, s) | Inr names \<Rightarrow>
       (case pe_enable e of Inl r \<Rightarrow> (Inl r, s) | Inr _ \<Rightarrow>
         (let s = s\<lparr>clks := map (\<lambda>n. (n, 1)) names, disp_src_gated := False\<rparr>;
              s = (case pe_alloc e of
                     Some dma \<Rightarrow> s\<lparr>bfb_cpu := True, bfb_dma := dma, bfb_mem := run_stores (lt_fill_colorbar (planar p)) (bfb_mem s)\<rparr>
                   | None \<Rightarrow> s\<lparr>bfb_cpu := False, bfb_dma := 0\<rparr>);
              s = s\<lparr>adap := pe_adap e, g_bound := True\<rparr>;
              s = fold (\<lambda>n. bcall (B_debugfs n)) debugfs_files s;
              s = bcall B_misc_register s
          in (Inr (), fold (\<lambda>n. bcall (B_debugfs n)) debugfs_files2 s))))))))"

text \<open>Only the first statement is under the \<open>if\<close> that tests the framebuffer.\<close>

definition bringup_remove :: "bringup \<Rightarrow> bringup" where
  "bringup_remove s =
     (let s = bcall B_misc_deregister s;
          s = bcall B_debugfs_remove s;
          s = s\<lparr>g_bound := False\<rparr>;
          s = (if bfb_cpu s then s\<lparr>scroll_on := False\<rparr> else s);
          s = cancel_scroll s;
          s = bcall (B_dma_free (bfb_cpu s)) s;
          s = (if adap s then bcall B_put_adapter s else s)
      in s\<lparr>clks := map (\<lambda>(n, c). (n, c - 1)) (clks s)\<rparr>)"

end
