(* ===== verification/Scanout.thy ===== *)
theory Scanout
  imports Ltctl
begin

text \<open>
  What the bring-up leaves in the registers: which registers each stage touches, the lane roles, the
  timing, and the picture the display reads through the format, pitch and addresses it was given.
\<close>

section \<open>Frames\<close>

lemma commit_r:
  "scl_r SCL_DISP_CFG (disp_cfg_commit s) =
     ((scl_r SCL_DISP_CFG s AND NOT 0xf071) OR (g_disp_cfg s AND 0xf071)) AND NOT (push_bit 16 1) OR push_bit 16 1"
  "soft (disp_cfg_commit s) = soft s"
  by (simp_all add: disp_cfg_commit_def scl_promote_def scl_regs accessor_simps)

lemma commit_other:
  "a + 4 \<le> SCL_DISP_CFG \<or> SCL_DISP_CFG + 4 \<le> a \<Longrightarrow> SCL_TOP_SHD + 4 \<le> a \<Longrightarrow>
   scl_r a (disp_cfg_commit s) = scl_r a s" 
  "phy_r a (disp_cfg_commit s) = phy_r a s" "vip_r a (disp_cfg_commit s) = vip_r a s"
  by (auto simp: disp_cfg_commit_def scl_promote_def scl_regs accessor_simps)

lemma pll_frame:
  assumes "dphy_set_pll c l b s = Some t"
  shows "scl_r a t = scl_r a s" "soft t = soft s" "phy_r PHY_LANE_SEL t = phy_r PHY_LANE_SEL s"
    "phy_r PHY_EN t = phy_r PHY_EN s" "vip_r VIP_RESETS t = vip_r VIP_RESETS s"
    "vip_r VIP_APB_CLK_EN t = vip_r VIP_APB_CLK_EN s"
  using assms
  by (auto simp: dphy_set_pll_def cal_pll_reg_def Let_def phy_regs vip_regs accessor_simps split: option.splits if_splits)

lemma lane_step_frame:
  "scl_r a (snd (lane_step p lm i c)) = scl_r a (snd c)" "vip_r a (snd (lane_step p lm i c)) = vip_r a (snd c)"
  "soft (snd (lane_step p lm i c)) = soft (snd c)"
  by (cases c; simp add: lane_step_def dphy_set_lane_def Let_def accessor_simps)+

lemma lanes_frame:
  "scl_r a (snd (fold (lane_step p lm) is c)) = scl_r a (snd c)" "vip_r a (snd (fold (lane_step p lm) is c)) = vip_r a (snd c)"
  "soft (snd (fold (lane_step p lm) is c)) = soft (snd c)"
  by (induction "is" arbitrary: c) (simp_all add: lane_step_frame)

lemma gate_frame:
  "scl_r a (gate_disp_src p s) = scl_r a s" "phy_r a (gate_disp_src p s) = phy_r a s" "vip_r a (gate_disp_src p s) = vip_r a s"
  "bfb_mem (gate_disp_src p s) = bfb_mem s" "bfb_dma (gate_disp_src p s) = bfb_dma s" "g_disp_cfg (gate_disp_src p s) = g_disp_cfg s"
  "nlanes (gate_disp_src p s) = nlanes s" "mac_en (gate_disp_src p s) = mac_en s"
  by (simp_all add: gate_disp_src_def accessor_simps scl_r_def phy_r_def vip_r_def split: option.splits)

section \<open>Lanes\<close>

text \<open>The role field of PHY lane \<open>i\<close>.\<close>

definition nib :: "u32 \<Rightarrow> nat \<Rightarrow> u32" where
  "nib r i = drop_bit (4 * i) r AND 15"

lemma small_masks: "(15 :: u32) = mask 4" "(7 :: u32) = mask 3" "(0xfffff :: u32) = mask 20" "(0x1f :: u32) = mask 5"
  by (simp_all add: mask_eq_exp_minus_1)

lemma nib_set:
  assumes "i < 5" "j < 5"
  shows "nib (r AND NOT (push_bit (4 * j) 7) OR (push_bit (4 * j) v AND push_bit (4 * j) 7)) i =
    (if i = j then nib r i AND NOT 7 OR (v AND 7) else nib r i)"
proof (rule bit_word_eqI)
  fix k assume "k < LENGTH(32)"
  show "bit (nib (r AND NOT (push_bit (4 * j) 7) OR (push_bit (4 * j) v AND push_bit (4 * j) 7)) i) k =
    bit (if i = j then nib r i AND NOT 7 OR (v AND 7) else nib r i) k"
    unfolding nib_def small_masks using assms by (auto simp: bit_simps)
qed

lemma nib_clear: "i < 5 \<Longrightarrow> nib (r AND NOT 0xfffff OR (0 AND 0xfffff)) i = 0"
  by (rule bit_word_eqI) (auto simp: nib_def small_masks bit_simps)

lemma nib_phase: "i < 5 \<Longrightarrow> nib (r AND NOT (push_bit 24 0x1f) OR (v AND push_bit 24 0x1f)) i = nib r i"
  by (rule bit_word_eqI) (auto simp: nib_def small_masks bit_simps)

lemma lane_step_nib:
  assumes "i < 5" "j < 5"
  shows "nib (phy_r PHY_LANE_SEL (snd (lane_step p lm j c))) i =
    (if i = j then nib (phy_r PHY_LANE_SEL (snd c)) i AND NOT 7 OR (ucast (lm ! j) AND 7) else nib (phy_r PHY_LANE_SEL (snd c)) i)"
  using assms
  by (cases c) (simp add: lane_step_def dphy_set_lane_def Let_def accessor_simps phy_regs nib_set nib_set [simplified] nib_phase [simplified])

lemma lanes_start:
  "soft (bringup_lanes p s) = soft (s\<lparr>nlanes := (if lanes p = 2 then 2 else 4), g_disp_cfg := 0\<rparr>)"
  "scl_r SCL_DISP_CFG (bringup_lanes p s) =
     scl_r SCL_DISP_CFG s AND NOT (push_bit 31 1 OR push_bit 18 1) OR (push_bit 31 1 OR push_bit 18 1)"
  "vip_r VIP_RESETS (bringup_lanes p s) = vip_r VIP_RESETS s AND NOT VIPRST_DISP"
  "vip_r VIP_APB_CLK_EN (bringup_lanes p s) = vip_r VIP_APB_CLK_EN s OR VIPAPB_DISP"
  by (simp_all add: bringup_lanes_def Let_def case_prod_beta dphy_lane_en_def accessor_simps lanes_frame dphy_disable_lanes_def
      scl_top_init_def vip_cold_init_def scl_regs vip_regs)

lemma lanes_roles:
  assumes "i < 5"
  shows "nib (phy_r PHY_LANE_SEL (bringup_lanes p s)) i = ucast ((if lanes p = 2 then lane_map2 else lane_map4) ! i)"
proof -
  have u: "[0..<5] = [0, 1, 2, 3, 4 :: nat]" by (simp add: upt_rec)
  have i: "i = 0 \<or> i = 1 \<or> i = 2 \<or> i = 3 \<or> i = 4" using assms by linarith
  have "nib (phy_r PHY_LANE_SEL (snd (fold (lane_step p lm) [0..<5] (d, dphy_disable_lanes t)))) i = ucast (lm ! i) AND 7" for lm d t
  proof -
    have z: "nib (phy_r PHY_LANE_SEL (dphy_disable_lanes t)) i = 0"
      unfolding dphy_disable_lanes_def window_r by (rule nib_clear [OF assms])
    show ?thesis unfolding u using i z by (auto simp: lane_step_nib)
  qed
  moreover have "ucast ((if lanes p = 2 then lane_map2 else lane_map4) ! i) AND 7 =
      (ucast ((if lanes p = 2 then lane_map2 else lane_map4) ! i) :: u32)"
    using i by (auto simp: lane_map2_def lane_map4_def)
  ultimately show ?thesis
    by (simp add: bringup_lanes_def Let_def case_prod_beta dphy_lane_en_def accessor_simps phy_regs)
qed

section \<open>Video\<close>

lemma init_mipi_frame:
  "scl_r a (dphy_init_mipi s) = scl_r a s" "soft (dphy_init_mipi s) = soft s" "vip_r a (dphy_init_mipi s) = vip_r a s"
  "phy_r PHY_LANE_SEL (dphy_init_mipi s) = phy_r PHY_LANE_SEL s"
  "phy_r PHY_PD (dphy_init_mipi s) = lane_word (phy_r PHY_LANE_SEL s) [0, 8]"
  by (simp_all add: dphy_init_mipi_def Let_def accessor_simps phy_regs)

lemma intf_frame:
  "SCL_TOP_VO_MUX + 4 \<le> a \<Longrightarrow> scl_r a (disp_set_intf_mipi p b1 b2 s) = scl_r a s"
  "soft (disp_set_intf_mipi p b1 b2 s) = soft s" "vip_r a (disp_set_intf_mipi p b1 b2 s) = vip_r a s"
  "phy_r PHY_LANE_SEL (disp_set_intf_mipi p b1 b2 s) = phy_r PHY_LANE_SEL s"
  "phy_r PHY_PD (disp_set_intf_mipi p b1 b2 s) = lane_word (phy_r PHY_LANE_SEL s) [0, 8]"
  by (simp_all add: disp_set_intf_mipi_def Let_def init_mipi_frame accessor_simps)

lemma dsi_config_frame:
  "a + 4 \<le> SCL_DSI_HS_0 \<Longrightarrow> scl_r a (dsi_config p s) = scl_r a s" "soft (dsi_config p s) = soft s"
  "phy_r a (dsi_config p s) = phy_r a s" "vip_r a (dsi_config p s) = vip_r a s"
  by (simp_all add: dsi_config_def Let_def accessor_simps scl_regs)

lemma timing_cfg:
  "scl_r SCL_DISP_CFG (disp_set_timing p s) =
    ((scl_r SCL_DISP_CFG s AND NOT 0xf071) OR ((g_disp_cfg s AND NOT 0x0060 OR (sync_pol p AND 0x60)) AND 0xf071))
      AND NOT (push_bit 16 1) OR push_bit 16 1"
  "soft (disp_set_timing p s) = soft (s\<lparr>g_disp_cfg := g_disp_cfg s AND NOT 0x0060 OR (sync_pol p AND 0x60)\<rparr>)"
  "phy_r a (disp_set_timing p s) = phy_r a s" "vip_r a (disp_set_timing p s) = vip_r a s"
  by (simp_all add: disp_set_timing_def Let_def commit_r [unfolded scl_regs] commit_other [unfolded scl_regs] accessor_simps scl_regs)

lemma mode_frame:
  "scl_r a (dsi_set_mode mac m s) = scl_r a s" "phy_r a (dsi_set_mode mac m s) = phy_r a s"
  "vip_r a (dsi_set_mode mac m s) = vip_r a s" "bfb_mem (dsi_set_mode mac m s) = bfb_mem s"
  "bfb_dma (dsi_set_mode mac m s) = bfb_dma s"
  by (simp_all add: dsi_set_mode_def Let_def accessor_simps)

text \<open>What is known of the mode register: writing the mode it has clears it, and an idle one takes the value.\<close>

definition mac_laws :: "(u32 \<Rightarrow> u32 \<Rightarrow> u32) \<Rightarrow> bool" where
  "mac_laws mac \<longleftrightarrow> (\<forall>m. mac m m = 0) \<and> (\<forall>v. mac 0 v = v)"

lemma mode_hs: "mac_laws mac \<Longrightarrow> mac_en (dsi_set_mode mac DSI_MODE_HS s) = DSI_MODE_HS"
  by (simp add: dsi_set_mode_def mac_laws_def DSI_MODE_HS_def DSI_MODE_IDLE_def)

definition plane_addr :: "nat \<Rightarrow> nat \<Rightarrow> bringup \<Rightarrow> u64" where
  "plane_addr lo hi s = ucast (scl_r lo s) OR push_bit 32 (ucast (scl_r hi s))"

lemma addr_split:
  fixes a :: u64
  shows "ucast (ucast a :: u32) OR push_bit 32 (ucast (ucast (drop_bit 32 a) :: u32)) = a" (is "?l = a")
proof (rule bit_word_eqI)
  fix n assume "n < LENGTH(64)"
  then show "bit ?l n = bit a n" by (cases "n < 32") (auto simp: bit_simps)
qed

lemma scanout_frame:
  "phy_r a (disp_set_scanout p fb s) = phy_r a s" "vip_r a (disp_set_scanout p fb s) = vip_r a s"
  "soft (disp_set_scanout p fb s) =
     (soft s)\<lparr>g_disp_cfg := g_disp_cfg s AND NOT 0x0000f011 OR push_bit 12 (if planar p then 2 else 4)\<rparr>"
  by (simp_all add: disp_set_scanout_def disp_window_def set_addr_def Let_def commit_r commit_other accessor_simps)

lemma scanout_regs:
  "scl_r SCL_DISP_CFG (disp_set_scanout p fb s) =
     ((scl_r SCL_DISP_CFG s AND NOT 0xf071) OR
      ((g_disp_cfg s AND NOT 0x0000f011 OR push_bit 12 (if planar p then 2 else 4)) AND 0xf071))
     AND NOT (push_bit 16 1) OR push_bit 16 1"
  "scl_r SCL_DISP_SIZE (disp_set_scanout p fb s) = push_bit 16 719 OR 1279"
  "scl_r SCL_DISP_PITCH_Y (disp_set_scanout p fb s) AND 0xffffff = (if planar p then 1280 else 3840)"
  "plane_addr SCL_DISP_ADDR0_L SCL_DISP_ADDR0_H (disp_set_scanout p fb s) = fb"
  "planar p \<Longrightarrow> plane_addr SCL_DISP_ADDR1_L SCL_DISP_ADDR1_H (disp_set_scanout p fb s) = fb + 921600"
  "planar p \<Longrightarrow> plane_addr SCL_DISP_ADDR2_L SCL_DISP_ADDR2_H (disp_set_scanout p fb s) = fb + 1843200"
  by (simp_all add: disp_set_scanout_def disp_window_def set_addr_def Let_def commit_r [unfolded scl_regs]
      commit_other [unfolded scl_regs] accessor_simps scl_regs vid_defs scan_pitch_def plane_addr_def addr_split)

lemma scanout_timing:
  "a + 4 \<le> SCL_DISP_FIFO_THR \<Longrightarrow> SCL_DISP_TOTAL \<le> a \<Longrightarrow> scl_r a (disp_set_scanout p fb s) = scl_r a s"
  by (simp add: disp_set_scanout_def disp_window_def set_addr_def Let_def
      commit_other [unfolded scl_regs] accessor_simps scl_regs)

lemma timing_regs:
  "scl_r SCL_DISP_TOTAL (disp_set_timing p s) = span 749 1649"
  "scl_r SCL_DISP_HFDE (disp_set_timing p s) = span 261 1540" "scl_r SCL_DISP_VFDE (disp_set_timing p s) = span 26 745"
  "scl_r SCL_DISP_HSYNC (disp_set_timing p s) = span 1 40" "scl_r SCL_DISP_VSYNC (disp_set_timing p s) = span 1 5"
  by (simp_all add: disp_set_timing_def Let_def commit_other [unfolded scl_regs] accessor_simps scl_regs vid_defs)

section \<open>The scanned picture\<close>

lemma packed_bars: "lt_fill_colorbar False = raster 1280 720 (pixel 0 3840 3 (\<lambda>x. channel (bar 1280 x)))"
proof -
  have u: "[0..<3] = [0, 1, 2 :: nat]" by (simp add: upt_rec)
  have v: "VID_HACT = 1280" "VID_VACT = 720" "VID_PITCH = 3840" by (simp_all add: vid_defs)
  show ?thesis unfolding lt_fill_colorbar_def v
    by (rule arg_cong [where f = "raster 1280 720"])
       (auto simp: fun_eq_iff pixel_def u channel_def bar_def split: prod.splits)
qed

lemma planar_bars:
  "lt_fill_colorbar True = raster 1280 720 (\<lambda>x y. map (\<lambda>k. (y * 1280 + (x + k * 921600), channel (bar 1280 x) k)) [0..<3])"
proof -
  have u: "[0..<3] = [0, 1, 2 :: nat]" by (simp add: upt_rec)
  have v: "VID_HACT = 1280" "VID_VACT = 720" "VID_PLANE = 921600" by (simp_all add: vid_defs)
  show ?thesis unfolding lt_fill_colorbar_def v
    by (rule arg_cong [where f = "raster 1280 720"])
       (auto simp: fun_eq_iff u channel_def bar_def split: prod.splits)
qed

lemma planar_byte:
  assumes "x < 1280" "y < 720" "k < 3"
  shows "run_stores (lt_fill_colorbar True) m (y * 1280 + (x + k * 921600)) = channel (bar 1280 x) k"
proof (rule run_stores_hit)
  have "(y * 1280 + (x + k * 921600), channel (bar 1280 x) k) \<in>
    set (map (\<lambda>k. (y * 1280 + (x + k * 921600), channel (bar 1280 x) k)) [0..<3])"
    unfolding set_map using assms(3) by (intro image_eqI [of _ _ k]) auto
  then show "(y * 1280 + (x + k * 921600), channel (bar 1280 x) k) \<in> set (lt_fill_colorbar True)"
    unfolding planar_bars set_raster using assms(1,2) by blast
next
  fix v' assume "(y * 1280 + (x + k * 921600), v') \<in> set (lt_fill_colorbar True)"
  then obtain x' y' where xy: "x' < 1280" "y' < 720"
    and "(y * 1280 + (x + k * 921600), v') \<in> set (map (\<lambda>k. (y' * 1280 + (x' + k * 921600), channel (bar 1280 x') k)) [0..<3])"
    unfolding planar_bars set_raster by blast
  then obtain k' where k: "y * 1280 + (x + k * 921600) = y' * 1280 + (x' + k' * 921600)" "v' = channel (bar 1280 x') k'"
    unfolding set_map by blast
  have "k * 921600 + (y * 1280 + x) = k' * 921600 + (y' * 1280 + x')" using k(1) by simp
  from frame_addr_inj [OF this assms(1) xy(1) assms(2) xy(2)] show "v' = channel (bar 1280 x) k" using k(2) by blast
qed

text \<open>The pixel the display reads, from its registers: format, pitch and plane addresses.\<close>

definition scan_byte :: "bringup \<Rightarrow> u64 \<Rightarrow> nat \<Rightarrow> u8" where
  "scan_byte s a i = bfb_mem s (unat (a - bfb_dma s) + i)"

definition scan_pixel :: "bringup \<Rightarrow> nat \<Rightarrow> nat \<Rightarrow> (u8 \<times> u8 \<times> u8) option" where
  "scan_pixel s x y =
     (let fmt = drop_bit 12 (scl_r SCL_DISP_CFG s) AND 15;
          P = unat (scl_r SCL_DISP_PITCH_Y s AND 0xffffff);
          a0 = plane_addr SCL_DISP_ADDR0_L SCL_DISP_ADDR0_H s;
          a1 = plane_addr SCL_DISP_ADDR1_L SCL_DISP_ADDR1_H s;
          a2 = plane_addr SCL_DISP_ADDR2_L SCL_DISP_ADDR2_H s
      in if fmt = 2 then Some (scan_byte s a0 (y * P + x), scan_byte s a1 (y * P + x), scan_byte s a2 (y * P + x))
         else if fmt = 4 then
           Some (scan_byte s a0 (y * P + 3 * x), scan_byte s a0 (y * P + 3 * x + 1), scan_byte s a0 (y * P + 3 * x + 2))
         else None)"

lemma scan_pixel_bars:
  assumes "x < 1280" "y < 720" and m: "bfb_mem s = run_stores (lt_fill_colorbar pl) m"
    and f: "drop_bit 12 (scl_r SCL_DISP_CFG s) AND 15 = (if pl then 2 else 4)"
    and P: "scl_r SCL_DISP_PITCH_Y s AND 0xffffff = (if pl then 1280 else 3840)"
    and a: "plane_addr SCL_DISP_ADDR0_L SCL_DISP_ADDR0_H s = bfb_dma s"
      "pl \<Longrightarrow> plane_addr SCL_DISP_ADDR1_L SCL_DISP_ADDR1_H s = bfb_dma s + 921600"
      "pl \<Longrightarrow> plane_addr SCL_DISP_ADDR2_L SCL_DISP_ADDR2_H s = bfb_dma s + 1843200"
  shows "scan_pixel s x y = Some (bar 1280 x)"
proof -
  have c: "(channel (bar 1280 x) 0, channel (bar 1280 x) 1, channel (bar 1280 x) 2) = bar 1280 x"
    by (simp add: channel_def split: prod.splits)
  show ?thesis
  proof (cases pl)
    case True
    have b: "bfb_mem s (921600 * k + (y * 1280 + x)) = channel (bar 1280 x) k" if "k < 3" for k
      using planar_byte [OF assms(1,2) that, of m] True by (simp add: m algebra_simps)
    show ?thesis using True b [of 0] b [of 1] b [of 2] c
      by (simp add: scan_pixel_def Let_def f P a scan_byte_def)
  next
    case False
    have b: "bfb_mem s (y * 3840 + (x * 3 + k)) = channel (bar 1280 x) k" if "k < 3" for k
      using raster_pixel [of 1280 3 3840 x y 720 k 0 "\<lambda>x. channel (bar 1280 x)" m] assms(1,2) that False
      by (simp add: m packed_bars)
    show ?thesis using False b [of 0] b [of 1] b [of 2] c
      by (simp add: scan_pixel_def Let_def f P a scan_byte_def mult.commute add.assoc)
  qed
qed

section \<open>The whole sequence\<close>

text \<open>The display configuration after the two commits and the timing generator, from its earlier value.\<close>

definition final_cfg :: "u32 \<Rightarrow> u32 \<Rightarrow> u32 \<Rightarrow> u32" where
  "final_cfg c pol fmt =
     (let g = 0 AND NOT 0x0060 OR (pol AND 0x60);
          c = ((c AND NOT 0xf071) OR (g AND 0xf071)) AND NOT (push_bit 16 1) OR push_bit 16 1;
          c = ((c AND NOT 0xf071) OR ((g AND NOT 0x0000f011 OR push_bit 12 fmt) AND 0xf071)) AND NOT (push_bit 16 1) OR push_bit 16 1
      in c AND NOT 0x80 OR (0x80 AND 0x80))"

lemma nibble_eqI:
  fixes a b :: u32
  assumes "bit a 0 = bit b 0" "bit a 1 = bit b 1" "bit a 2 = bit b 2" "bit a 3 = bit b 3"
  shows "a AND 15 = b AND 15"
proof (rule bit_word_eqI)
  fix n :: nat
  have "n = 0 \<or> n = 1 \<or> n = 2 \<or> n = 3 \<or> 4 \<le> n" by linarith
  then show "bit (a AND 15) n = bit (b AND 15) n"
    unfolding small_masks using assms by (auto simp: bit_simps)
qed

lemma final_cfg_bits:
  "fmt = 2 \<or> fmt = 4 \<Longrightarrow> drop_bit 12 (final_cfg c pol fmt) AND 15 = fmt"
  "bit (final_cfg c pol fmt) 7" "bit (final_cfg c pol fmt) 5 = bit pol 5" "bit (final_cfg c pol fmt) 6 = bit pol 6"
  "bit (final_cfg c pol fmt) 18 = bit c 18" "bit (final_cfg c pol fmt) 31 = bit c 31"
proof -
  assume f: "fmt = 2 \<or> fmt = 4"
  then have "fmt = fmt AND 15" by auto
  moreover have "drop_bit 12 (final_cfg c pol fmt) AND 15 = fmt AND 15"
    by (rule nibble_eqI; use f in \<open>auto simp: final_cfg_def Let_def bit_simps\<close>)
  ultimately show "drop_bit 12 (final_cfg c pol fmt) AND 15 = fmt" by simp
qed (simp_all add: final_cfg_def Let_def bit_simps)
lemma pattern_frame: "soft (disp_set_pattern ty c s) = soft s"
  by (simp add: disp_set_pattern_def disp_window_def scl_promote_def Let_def commit_r accessor_simps)

definition bringup_mid :: "bparams \<Rightarrow> bool \<Rightarrow> bool \<Rightarrow> bringup \<Rightarrow> bringup" where
  "bringup_mid p pll_reg syn s = disp_set_timing p (dsi_config p (disp_set_intf_mipi p pll_reg syn
     (gate_disp_src p (dphy_set_hs_settle 6 32 5 (vip_m VIP_CLK_CTRL0 (push_bit 16 1) (push_bit 16 1) s)))))"

lemma video_eq:
  "bringup_video p mac pll_reg syn s =
     (let s = bringup_mid p pll_reg syn s;
          s = (if use_fb p \<and> bfb_dma s \<noteq> 0 then disp_set_scanout p (bfb_dma s) s
               else disp_set_pattern PAT_TYPE_FULL PAT_COLOR_BAR s);
          s = disp_tgen_enable True s;
          s = (if lp11 p then
                 phy_w PHY_DATA_OV 0 (dsi_set_mode mac DSI_MODE_IDLE (phy_w PHY_DATA_OV 0x1f1f1f1f s))
               else s)
      in dsi_set_mode mac DSI_MODE_HS s)"
  by (simp add: bringup_video_def bringup_mid_def Let_def)

lemma settle_frame:
  "scl_r a (dphy_set_hs_settle x y z s) = scl_r a s" "soft (dphy_set_hs_settle x y z s) = soft s"
  "vip_r a (dphy_set_hs_settle x y z s) = vip_r a s" "phy_r PHY_LANE_SEL (dphy_set_hs_settle x y z s) = phy_r PHY_LANE_SEL s"
  by (simp_all add: dphy_set_hs_settle_def accessor_simps phy_regs)

lemma intf_fields:
  "bfb_mem (disp_set_intf_mipi p b1 b2 s) = bfb_mem s" "bfb_dma (disp_set_intf_mipi p b1 b2 s) = bfb_dma s"
  "g_disp_cfg (disp_set_intf_mipi p b1 b2 s) = g_disp_cfg s"
  using soft_fields [OF intf_frame(2) [of p b1 b2 s]] by simp_all

lemma config_fields:
  "bfb_mem (dsi_config p s) = bfb_mem s" "bfb_dma (dsi_config p s) = bfb_dma s" "g_disp_cfg (dsi_config p s) = g_disp_cfg s"
  using soft_fields [OF dsi_config_frame(2) [of p s]] by simp_all

lemma timing_fields:
  "bfb_mem (disp_set_timing p s) = bfb_mem s" "bfb_dma (disp_set_timing p s) = bfb_dma s"
  "g_disp_cfg (disp_set_timing p s) = g_disp_cfg s AND NOT 0x0060 OR (sync_pol p AND 0x60)"
  using soft_fields [OF timing_cfg(2) [of p s]] by simp_all

lemma settle_fields:
  "bfb_mem (dphy_set_hs_settle x y z s) = bfb_mem s" "bfb_dma (dphy_set_hs_settle x y z s) = bfb_dma s"
  "g_disp_cfg (dphy_set_hs_settle x y z s) = g_disp_cfg s"
  using soft_fields [OF settle_frame(2) [of x y z s]] by simp_all

lemma scanout_fields:
  "bfb_mem (disp_set_scanout p fb s) = bfb_mem s" "bfb_dma (disp_set_scanout p fb s) = bfb_dma s"
  by (simp_all add: disp_set_scanout_def disp_window_def set_addr_def Let_def accessor_simps
      soft_fields [OF commit_r(2)])

lemmas mid_frames = bringup_mid_def timing_cfg timing_regs timing_fields dsi_config_frame config_fields intf_frame intf_fields
  gate_frame settle_frame settle_fields accessor_simps

lemma mid_regs:
  "scl_r SCL_DISP_CFG (bringup_mid p b1 b2 s) =
    ((scl_r SCL_DISP_CFG s AND NOT 0xf071) OR ((g_disp_cfg s AND NOT 0x0060 OR (sync_pol p AND 0x60)) AND 0xf071))
      AND NOT (push_bit 16 1) OR push_bit 16 1"
  "g_disp_cfg (bringup_mid p b1 b2 s) = g_disp_cfg s AND NOT 0x0060 OR (sync_pol p AND 0x60)"
  "bfb_mem (bringup_mid p b1 b2 s) = bfb_mem s" "bfb_dma (bringup_mid p b1 b2 s) = bfb_dma s"
  "phy_r PHY_LANE_SEL (bringup_mid p b1 b2 s) = phy_r PHY_LANE_SEL s"
  "phy_r PHY_PD (bringup_mid p b1 b2 s) = lane_word (phy_r PHY_LANE_SEL s) [0, 8]"
  "vip_r VIP_RESETS (bringup_mid p b1 b2 s) = vip_r VIP_RESETS s"
  "scl_r SCL_DISP_TOTAL (bringup_mid p b1 b2 s) = span 749 1649"
  "scl_r SCL_DISP_HFDE (bringup_mid p b1 b2 s) = span 261 1540" "scl_r SCL_DISP_VFDE (bringup_mid p b1 b2 s) = span 26 745"
  by (simp_all add: mid_frames timing_cfg [unfolded scl_regs] timing_regs [unfolded scl_regs] scl_regs vip_regs)

lemma tgen_frame:
  "scl_r SCL_DISP_CFG (disp_tgen_enable True s) = scl_r SCL_DISP_CFG s AND NOT 0x80 OR (0x80 AND 0x80)"
  "SCL_DISP_TOTAL \<le> a \<Longrightarrow> scl_r a (disp_tgen_enable True s) = scl_r a s"
  "phy_r a (disp_tgen_enable True s) = phy_r a s" "vip_r a (disp_tgen_enable True s) = vip_r a s"
  "bfb_mem (disp_tgen_enable True s) = bfb_mem s" "bfb_dma (disp_tgen_enable True s) = bfb_dma s"
  by (simp_all add: disp_tgen_enable_def accessor_simps scl_regs)

lemma video_tail:
  assumes t: "t = bringup_video p mac b1 b2 s" and "use_fb p" "bfb_dma s \<noteq> 0"
  shows "scl_r a t = scl_r a (disp_tgen_enable True (disp_set_scanout p (bfb_dma s) (bringup_mid p b1 b2 s)))"
    "bfb_mem t = bfb_mem s" "bfb_dma t = bfb_dma s"
    "phy_r PHY_LANE_SEL t = phy_r PHY_LANE_SEL s" "phy_r PHY_PD t = lane_word (phy_r PHY_LANE_SEL s) [0, 8]"
    "vip_r VIP_RESETS t = vip_r VIP_RESETS s"
  unfolding t video_eq Let_def using assms(2,3)
  by (simp_all add: mode_frame mid_regs scanout_frame scanout_fields tgen_frame accessor_simps phy_regs
      mid_regs [unfolded phy_regs vip_regs])

lemma lane_word_maps:
  assumes "\<And>i. i < 5 \<Longrightarrow> nib r i = ucast (lm ! i)" "lm = lane_map4 \<or> lm = lane_map2"
  shows "lane_word r [0, 8] = (if lm = lane_map4 then 0 else 0x1818)"
proof -
  have u: "[0..<5] = [0, 1, 2, 3, 4 :: nat]" by (simp add: upt_rec)
  have n: "unused_lane r i \<longleftrightarrow> ucast (lm ! i) > (4 :: u32)" if "i < 5" for i
    using assms(1) [OF that] by (simp add: unused_lane_def nib_def mult.commute)
  show ?thesis unfolding lane_word_def u using assms(2) n [of 0] n [of 1] n [of 2] n [of 3] n [of 4]
    by (auto simp: lane_map4_def lane_map2_def)
qed

lemma pll_returns: "dphy_set_pll 74250 4 VID_BITS s \<noteq> None"
  by (simp add: dphy_set_pll_def cal_pll_reg_def Let_def VID_BITS_def ilog2.simps split: option.splits prod.splits)

lemma calls_frame:
  "bfb_mem (fold (\<lambda>n. bcall (B_debugfs n)) ns s) = bfb_mem s" "bfb_dma (fold (\<lambda>n. bcall (B_debugfs n)) ns s) = bfb_dma s"
  "bfb_cpu (fold (\<lambda>n. bcall (B_debugfs n)) ns s) = bfb_cpu s" "g_bound (fold (\<lambda>n. bcall (B_debugfs n)) ns s) = g_bound s"
  "clks (fold (\<lambda>n. bcall (B_debugfs n)) ns s) = clks s" "disp_src_gated (fold (\<lambda>n. bcall (B_debugfs n)) ns s) = disp_src_gated s"
  "scroll_queued (fold (\<lambda>n. bcall (B_debugfs n)) ns s) = scroll_queued s"
  by (induction ns arbitrary: s) (simp_all add: bcall_def)

lemma probe_fb:
  assumes "bringup_probe p e s = (Inr (), s1)" "pe_alloc e = Some dma"
  shows "bfb_mem s1 = run_stores (lt_fill_colorbar (planar p)) (bfb_mem s) \<and> bfb_dma s1 = dma"
proof -
  have "s1 = snd (bringup_probe p e s)" using assms(1) by simp
  then show ?thesis using assms
    by (simp add: bringup_probe_def Let_def calls_frame bcall_def split: if_splits sum.splits)
qed


definition params0 :: bparams where
  "params0 = \<lparr>sync_pol = 0, disppll_fix_div = True, clkgen_or = 0x3e, planar = True, use_fb = True, pixclk_khz = 74250,
     lp11 = True, hs0_or = 0, hs0_clr = 0, pn_swap = 0, lanes = 4, disp_src_off = False\<rparr>"

definition env0 :: probe_env where
  "env0 = \<lparr>pe_kzalloc = True, pe_scaler = map_byname True True, pe_phy = map_byname True True, pe_vip = map_byname True True,
     pe_clks = Inr [''disp-src''], pe_enable = Inr (), pe_alloc = Some 0x90000000, pe_adap = False\<rparr>"


end
