(* ===== verification/Ltlife.thy ===== *)
theory Ltlife
  imports Scanout
begin

text \<open>
  The life of the HDMI bring-up module as a state machine: load, the debugfs files in any order with
  any parameters, the scroller's work, and unload. The invariant ties the queued work to the
  framebuffer and accounts for the clocks; the scroller's pictures are compared with the text.
\<close>

section \<open>Steps\<close>

inductive bu_step :: "bringup \<Rightarrow> bringup \<Rightarrow> bool" where
  load: "\<not> g_bound s \<Longrightarrow> bu_step s (snd (bringup_probe p e s))"
| bringup: "bringup_write p mac b1 b2 num len s = Some (r, t) \<Longrightarrow> bu_step s t"
| pattern: "bu_step s (snd (lt_pattern_write u c s))"
| vipinit: "bu_step s (snd (vipinit_write num len s))"
| io: "bu_step s (snd (io_write len c l s))"
| fbfill: "bu_step s (snd (fbfill_write p u c s))"
| scroll: "bu_step s (snd (scroll_write num len s))"
| work: "scroll_queued s \<Longrightarrow> bu_step s (scroll_fn s)"
| mmap: "bu_step s (snd (lt_fbmap_mmap a b off coh rem s))"
| unload: "g_bound s \<Longrightarrow> bu_step s (bringup_remove s)"

definition clks_ok :: "bringup \<Rightarrow> bool" where
  "clks_ok s \<longleftrightarrow>
     (let base = map (\<lambda>(n, _). (n, 1)) (clks s) in
      if disp_src_gated s then clk_adj ''disp-src'' (-1) base = Some (clks s) else clks s = base)"

definition bu_inv :: "bringup \<Rightarrow> bool" where
  "bu_inv s \<longleftrightarrow> (scroll_queued s \<longrightarrow> g_bound s \<and> bfb_cpu s) \<and> (g_bound s \<longrightarrow> clks_ok s)"

text \<open>What the invariant reads.\<close>

definition life :: "bringup \<Rightarrow> bool \<times> bool \<times> bool \<times> (string \<times> int) list \<times> bool" where
  "life s = (scroll_queued s, g_bound s, bfb_cpu s, clks s, disp_src_gated s)"

lemma bu_inv_life: "life s = life t \<Longrightarrow> bu_inv s = bu_inv t"
  by (simp add: life_def bu_inv_def clks_ok_def)

lemma soft_life: "soft s = soft t \<Longrightarrow> life s = life t"
  using soft_fields [of s t] by (simp add: life_def)

lemma soft_inv: "soft s = soft t \<Longrightarrow> bu_inv s = bu_inv t"
  by (rule bu_inv_life [OF soft_life])

section \<open>Clock gating\<close>

lemma clk_adj_names: "clk_adj nm d cs = Some ds \<Longrightarrow> map (\<lambda>(n, _). (n, k)) ds = map (\<lambda>(n, _). (n, k)) cs"
  by (induction cs arbitrary: ds) (auto split: if_splits)

lemma clk_adj_back: "clk_adj nm d cs = Some ds \<Longrightarrow> clk_adj nm (- d) ds = Some cs"
  by (induction cs arbitrary: ds) (auto split: if_splits)

lemma gate_clks_ok: "clks_ok s \<Longrightarrow> clks_ok (gate_disp_src p s)"
proof -
  assume ok: "clks_ok s"
  let ?b = "map (\<lambda>(n, _). (n, 1)) (clks s)"
  show ?thesis
  proof (cases "disp_src_gated s")
    case False
    then have c: "clks s = ?b" using ok by (simp add: clks_ok_def Let_def)
    show ?thesis
    proof (cases "disp_src_off p \<and> clk_adj ''disp-src'' (-1) (clks s) \<noteq> None")
      case True
      then obtain cs where cs: "clk_adj ''disp-src'' (-1) (clks s) = Some cs" by blast
      have "map (\<lambda>(n, _). (n, 1)) cs = clks s" by (rule trans [OF clk_adj_names [OF cs] c [symmetric]])
      then show ?thesis using True False cs by (simp add: gate_disp_src_def clks_ok_def Let_def)
    next
      case F2: False
      then have "gate_disp_src p s = s" using False by (auto simp: gate_disp_src_def)
      then show ?thesis using ok by simp
    qed
  next
    case True
    then have c: "clk_adj ''disp-src'' (-1) ?b = Some (clks s)" using ok by (simp add: clks_ok_def Let_def)
    from clk_adj_back [OF c] have "clk_adj ''disp-src'' 1 (clks s) = Some ?b" by simp
    moreover have "map (\<lambda>(n, _). (n, 1)) ?b = ?b" by (simp add: case_prod_beta o_def)
    ultimately show ?thesis using True ok by (auto simp: gate_disp_src_def clks_ok_def Let_def)
  qed
qed

lemma gate_life:
  "scroll_queued (gate_disp_src p s) = scroll_queued s" "g_bound (gate_disp_src p s) = g_bound s"
  "bfb_cpu (gate_disp_src p s) = bfb_cpu s"
  by (simp_all add: gate_disp_src_def split: option.splits)

lemma gate_inv: "bu_inv s \<Longrightarrow> bu_inv (gate_disp_src p s)"
  by (auto simp: bu_inv_def gate_life gate_clks_ok)

section \<open>The invariant\<close>

lemma upd_life: "life (s\<lparr>g_disp_cfg := c\<rparr>) = life s" "life (s\<lparr>nlanes := n\<rparr>) = life s" "life (s\<lparr>mac_en := m\<rparr>) = life s"
  "life (s\<lparr>clkgen := k\<rparr>) = life s"
  by (simp_all add: life_def)

lemma mode_life: "life (dsi_set_mode mac m s) = life s"
  by (simp add: dsi_set_mode_def Let_def upd_life)

lemma window_life: "life (phy_w a v s) = life s" "life (vip_m a m v s) = life s" "life (scl_m a m v s) = life s"
  "life (vip_w a v s) = life s" "life (scl_w a v s) = life s"
  by (rule soft_life; simp add: accessor_simps)+

lemma stage_life:
  "life (bringup_lanes p s) = life s" "life (dphy_set_hs_settle x y z s) = life s"
  "life (disp_set_intf_mipi p b1 b2 s) = life s" "life (dsi_config p s) = life s" "life (disp_set_timing p s) = life s"
  "life (disp_set_scanout p fb s) = life s" "life (disp_set_pattern ty c s) = life s" "life (disp_tgen_enable en s) = life s"
proof -
  show "life (bringup_lanes p s) = life s" using soft_life [OF lanes_start(1) [of p s]] by (simp add: upd_life)
  show "life (disp_set_timing p s) = life s" using soft_life [OF timing_cfg(2) [of p s]] by (simp add: upd_life)
  have "soft (disp_set_scanout p fb s) =
      soft (s\<lparr>g_disp_cfg := g_disp_cfg s AND NOT 0x0000f011 OR push_bit 12 (if planar p then 2 else 4)\<rparr>)"
    by (simp only: scanout_frame soft_upd)
  from soft_life [OF this] show "life (disp_set_scanout p fb s) = life s" by (simp add: upd_life)
qed (rule soft_life; simp add: settle_frame intf_frame dsi_config_frame pattern_frame disp_tgen_enable_def accessor_simps)+

lemma gate_cong: "life s = life t \<Longrightarrow> life (gate_disp_src p s) = life (gate_disp_src p t)"
  by (simp add: life_def gate_disp_src_def split: option.splits)

lemma bringup_life:
  assumes "do_bringup p mac b1 b2 s = Some t"
  shows "life t = life (gate_disp_src p s)"
proof -
  obtain u where u: "dphy_set_pll (word_of_int (pixclk_khz p)) (nlanes (bringup_lanes p s)) VID_BITS (bringup_lanes p s) = Some u"
      "t = bringup_video p mac b1 b2 u"
    using assms by (auto simp: do_bringup_def Let_def)
  have "life u = life s" using soft_life [OF pll_frame(2) [OF u(1)]] by (simp add: stage_life)
  then have "life (dphy_set_hs_settle 6 32 5 (vip_m VIP_CLK_CTRL0 (push_bit 16 1) (push_bit 16 1) u)) = life s"
    by (simp add: stage_life window_life)
  from gate_cong [OF this, of p] show ?thesis
    unfolding u(2) bringup_video_def Let_def by (simp add: mode_life window_life stage_life)
qed

lemma stage_inv: "bu_inv (disp_set_pattern ty c s) = bu_inv s" "bu_inv (vip_w a v s) = bu_inv s"
  "bu_inv (scl_w a v s) = bu_inv s" "bu_inv (phy_w a v s) = bu_inv s"
  by (rule bu_inv_life; simp add: stage_life window_life)+

lemma bringup_inv: "bu_inv s \<Longrightarrow> do_bringup p mac b1 b2 s = Some t \<Longrightarrow> bu_inv t"
  using bu_inv_life [OF bringup_life] gate_inv by blast

lemma probe_inv: "bu_inv s \<Longrightarrow> \<not> g_bound s \<Longrightarrow> bu_inv (snd (bringup_probe p e s))"
  by (auto simp: bringup_probe_def Let_def bu_inv_def clks_ok_def calls_frame bcall_def
      split: sum.splits option.splits)

lemma blk_w_inv: "bu_inv (blk_w b a v s) = bu_inv s"
  by (cases b) (simp_all add: stage_inv)

lemma file_inv:
  assumes "bu_inv s"
  shows "bu_inv (snd (lt_pattern_write u c s))" "bu_inv (snd (vipinit_write num len s))" "bu_inv (snd (io_write n c l s))"
    "bu_inv (snd (fbfill_write p u c s))" "bu_inv (snd (scroll_write num len s))" "bu_inv (snd (lt_fbmap_mmap a b off coh rem s))"
    "bu_inv (scroll_fn s)"
proof -
  show "bu_inv (snd (lt_pattern_write u c s))" using assms
    by (simp add: lt_pattern_write_def Let_def stage_inv split: prod.splits)
  show "bu_inv (snd (vipinit_write num len s))" using assms
    by (simp add: vipinit_write_def vip_cold_init_def Let_def stage_inv split: sum.splits)
  show "bu_inv (snd (io_write n c l s))" using assms
    by (simp add: io_write_def Let_def blk_w_inv split: prod.splits option.splits)
  show "bu_inv (snd (fbfill_write p u c s))" using assms
    by (simp add: fbfill_write_def Let_def bu_inv_def clks_ok_def cancel_scroll_def bcall_def)
  show "bu_inv (snd (scroll_write num len s))" using assms
    by (simp add: scroll_write_def Let_def bu_inv_def clks_ok_def cancel_scroll_def bcall_def split: sum.splits)
  show "bu_inv (snd (lt_fbmap_mmap a b off coh rem s))" using assms
    by (simp add: lt_fbmap_mmap_def Let_def bu_inv_def clks_ok_def cancel_scroll_def bcall_def)
  show "bu_inv (scroll_fn s)" using assms
    by (auto simp: scroll_fn_def bu_inv_def clks_ok_def Let_def)
qed

lemma remove_inv: "bu_inv (bringup_remove s)"
  by (simp add: bringup_remove_def Let_def bu_inv_def cancel_scroll_def bcall_def)

lemma bu_step_inv: "bu_step s t \<Longrightarrow> bu_inv s \<Longrightarrow> bu_inv t"
proof (induction rule: bu_step.induct)
  case (bringup p mac b1 b2 num len s r t)
  then show ?case by (auto simp: bringup_write_def bringup_inv split: sum.splits if_splits)
qed (simp_all add: probe_inv file_inv remove_inv)

interpretation bu: step_invariant bringup0 bu_step bu_inv
proof unfold_locales
  show "bu_inv bringup0" by (simp add: bu_inv_def bringup0_def)
qed (rule bu_step_inv)

section \<open>Unloading\<close>

lemma clk_adj_minus:
  "clk_adj nm (-1) (map (\<lambda>(n, _). (n, 1)) cs) = Some ds \<Longrightarrow> \<exists>c\<in>set ds. snd c = (0 :: int)"
proof (induction cs arbitrary: ds)
  case (Cons x cs)
  obtain a b where x: "x = (a, b)" by (cases x)
  show ?case
  proof (cases "a = nm")
    case True
    then show ?thesis using Cons.prems by (auto simp: x)
  next
    case False
    then obtain es where "clk_adj nm (-1) (map (\<lambda>(n, _). (n, 1)) cs) = Some es" "ds = (a, 1) # es"
      using Cons.prems by (auto simp: x)
    then show ?thesis using Cons.IH by auto
  qed
qed simp

text \<open>
  C31. What unloading leaves behind. In every state reached by loading, using the debugfs files in any
  order and the scroller's work, queued work implies a bound device with a framebuffer. Unloading leaves
  no work queued and the device unbound. It balances the clocks exactly when the display source clock is not
  gated; otherwise that clock is disabled once more than it was enabled. The framebuffer is freed even
  when it was never allocated.
\<close>

theorem bringup_remove_leaves:
  assumes "reach bringup0 bu_step s"
  shows "(scroll_queued s \<longrightarrow> g_bound s \<and> bfb_cpu s) \<and>
    (let t = bringup_remove s in \<not> scroll_queued t \<and> \<not> g_bound t \<and> B_dma_free (bfb_cpu s) \<in> set (bcalls t) \<and>
      (g_bound s \<longrightarrow> (list_all (\<lambda>c. snd c = 0) (clks t) \<longleftrightarrow> \<not> disp_src_gated s)))"
proof -
  have inv: "bu_inv s" by (rule bu.reach_inv [OF assms])
  have c: "clks (bringup_remove s) = map (\<lambda>(n, c). (n, c - 1)) (clks s)"
    by (simp add: bringup_remove_def Let_def cancel_scroll_def bcall_def)
  have "list_all (\<lambda>c. snd c = 0) (clks (bringup_remove s)) \<longleftrightarrow> \<not> disp_src_gated s" if b: "g_bound s"
  proof (cases "disp_src_gated s")
    case True
    then have "clk_adj ''disp-src'' (-1) (map (\<lambda>(n, _). (n, 1)) (clks s)) = Some (clks s)"
      using inv b by (simp add: bu_inv_def clks_ok_def Let_def)
    from clk_adj_minus [OF this] obtain n where "(n, 0) \<in> set (clks s)" by force
    then show ?thesis using True unfolding c list_all_iff by force
  next
    case False
    then have "clks s = map (\<lambda>(n, _). (n, 1)) (clks s)" using inv b by (simp add: bu_inv_def clks_ok_def Let_def)
    then have "snd x = 1" if "x \<in> set (clks s)" for x using that by (metis (no_types, lifting) imageE list.set_map snd_conv case_prod_beta)
    then show ?thesis using False unfolding c by (auto simp: list_all_iff)
  qed
  moreover have "\<not> scroll_queued (bringup_remove s)" "\<not> g_bound (bringup_remove s)" "B_dma_free (bfb_cpu s) \<in> set (bcalls (bringup_remove s))"
    by (simp_all add: bringup_remove_def Let_def cancel_scroll_def bcall_def)
  ultimately show ?thesis using inv by (simp add: bu_inv_def Let_def)
qed

definition gated_params :: bparams where
  "gated_params = params0\<lparr>disp_src_off := True\<rparr>"

lemma gated_reached:
  "\<exists>t. reach bringup0 bu_step t \<and> g_bound t \<and> disp_src_gated t"
proof -
  let ?s = "snd (bringup_probe params0 env0 bringup0)"
  have "nlanes (bringup_lanes gated_params ?s) = 4"
    using soft_fields(3) [OF lanes_start(1) [of gated_params ?s]] by (simp add: gated_params_def params0_def)
  then obtain t where t: "do_bringup gated_params (\<lambda>m v. m XOR v) True True ?s = Some t"
    using pll_returns [of "bringup_lanes gated_params ?s"] by (auto simp: do_bringup_def Let_def gated_params_def params0_def)
  have s: "g_bound ?s" "clks ?s = [(''disp-src'', 1)]" "\<not> disp_src_gated ?s"
    by (simp_all add: bringup_probe_def env0_def map_byname_def Let_def calls_frame bcall_def)
  have "bringup_write gated_params (\<lambda>m v. m XOR v) True True (Inr 1) 2 ?s = Some (Inr 2, t)"
    using s(1) t by (simp add: bringup_write_def)
  then have "bu_step ?s t" by (rule bu_step.bringup)
  moreover have "bu_step bringup0 ?s" by (rule bu_step.load) (simp add: bringup0_def)
  ultimately have "reach bringup0 bu_step t" by (meson reach.start reach.step)
  moreover have "life t = (scroll_queued ?s, True, bfb_cpu ?s, [(''disp-src'', 0)], True)"
    using bringup_life [OF t] s by (simp add: life_def gate_disp_src_def gated_params_def)
  ultimately show ?thesis by (auto simp: life_def)
qed

theorem bringup_remove_leaves_witness:
  "\<exists>t. reach bringup0 bu_step t \<and> g_bound t \<and> \<not> list_all (\<lambda>c. snd c = 0) (clks (bringup_remove t))"
  using gated_reached bringup_remove_leaves by (meson)

end
