(* ===== verification/Scroll.thy ===== *)
theory Scroll
  imports Ltctl
begin

text \<open>
  The scroller of the HDMI bring-up module: the picture after any number of frames is the message
  shifted by six columns a frame, also when the 32-bit position has wrapped.
\<close>

section \<open>The text\<close>

text \<open>Column \<open>col\<close> and row \<open>row\<close> of the message, eight pixels to a font bit.\<close>

definition text_bit :: "nat \<Rightarrow> nat \<Rightarrow> bool" where
  "text_bit col row = bit (glyph_of (scroll_msg ! (col div 64)) ! (row div 8)) (7 - (col mod 64) div 8)"

definition ink :: "nat \<Rightarrow> nat \<Rightarrow> u8" where
  "ink x k = (if k = 0 then 0xff else if k = 1 then of_nat (x * 255 div 1280) else of_nat (255 - x * 255 div 1280))"

lemma msg_total: "length scroll_msg * SCROLL_ADV = 512" and scroll_consts: "SCROLL_ADV = 64" "SCROLL_SCALE = 8" "SCROLL_H = 64"
  by (simp_all add: scroll_msg_def SCROLL_ADV_def SCROLL_SCALE_def SCROLL_H_def)

lemma wrap_mod: "unat ((of_nat x + xoff) mod (512 :: u32)) = (x + unat xoff) mod 512"
proof -
  have "unat (of_nat x + xoff :: u32) = (x + unat xoff) mod 2 ^ 32"
    by (simp add: unat_word_ariths unsigned_of_nat take_bit_eq_mod mod_simps)
  moreover have "(512 :: nat) dvd 2 ^ 32" by simp
  ultimately show ?thesis by (simp add: unat_mod_distrib mod_mod_cancel)
qed

lemma font_bit: "g < 8 \<Longrightarrow> ucast (v :: u8) AND drop_bit g 0x80 \<noteq> (0 :: u32) \<longleftrightarrow> bit v (7 - g)"
proof -
  assume g: "g < 8"
  then have "drop_bit g (2 ^ 7 :: u32) = 2 ^ (7 - g)" unfolding drop_bit_exp_eq by simp
  then have "drop_bit g (0x80 :: u32) = 2 ^ (7 - g)" by simp
  moreover have "7 - g < 32" by simp
  ultimately show ?thesis by (simp add: and_exp_eq_0_iff_not_bit bit_simps)
qed

lemma scroll_lit_text: "scroll_lit xoff x y = text_bit ((x + unat xoff) mod 512) y"
proof -
  have "(x + unat xoff) mod 512 mod 64 div 8 < 8" by (simp add: less_mult_imp_div_less)
  then show ?thesis
    unfolding scroll_lit_def msg_total Let_def unfolding scroll_consts text_bit_def of_nat_numeral wrap_mod by (rule font_bit)
qed

section \<open>One frame\<close>

lemma scroll_stores_eq:
  "scroll_stores xoff = raster 1280 64 (\<lambda>x y. if scroll_lit xoff x y
     then map (\<lambda>k. (k * 921600 + ((328 + y) * 1280 + x), ink x k)) [0..<3] else [])"
proof -
  have u: "[0..<3] = [0, 1, 2 :: nat]" by (simp add: upt_rec)
  have v: "VID_HACT = 1280" "VID_VACT = 720" "VID_PLANE = 921600" by (simp_all add: vid_defs)
  show ?thesis unfolding scroll_stores_def v scroll_consts
    by (rule arg_cong [where f = "raster 1280 64"]) (simp add: fun_eq_iff u ink_def Let_def)
qed

lemma scroll_store_iff:
  assumes "x < 1280" "y < 720"
  shows "(k * 921600 + (y * 1280 + x), v) \<in> set (scroll_stores xoff) \<longleftrightarrow>
    k < 3 \<and> 328 \<le> y \<and> y < 392 \<and> scroll_lit xoff x (y - 328) \<and> v = ink x k" (is "?l \<longleftrightarrow> ?r")
proof
  assume ?l
  then obtain x' y' where xy: "x' < 1280" "y' < 64" "scroll_lit xoff x' y'"
    and "(k * 921600 + (y * 1280 + x), v) \<in> set (map (\<lambda>k. (k * 921600 + ((328 + y') * 1280 + x'), ink x' k)) [0..<3])"
    unfolding scroll_stores_eq set_raster by (auto split: if_splits)
  then obtain k' where k: "k' < 3" "k * 921600 + (y * 1280 + x) = k' * 921600 + ((328 + y') * 1280 + x')" "v = ink x' k'"
    by auto
  have "x = x' \<and> y = 328 + y' \<and> k = k'" using frame_addr_inj [OF k(2) assms(1) xy(1) assms(2)] xy(2) by simp
  then show ?r using xy k by simp
next
  assume r: ?r
  then have "(k * 921600 + ((328 + (y - 328)) * 1280 + x), ink x k) \<in>
      set (map (\<lambda>k. (k * 921600 + ((328 + (y - 328)) * 1280 + x), ink x k)) [0..<3])"
    unfolding set_map by (intro image_eqI [of _ _ k]) auto
  moreover have y: "y - 328 < 64" "328 + (y - 328) = y" using r by auto
  ultimately have "(k * 921600 + (y * 1280 + x), v) \<in> set (if scroll_lit xoff x (y - 328)
      then map (\<lambda>k. (k * 921600 + ((328 + (y - 328)) * 1280 + x), ink x k)) [0..<3] else [])"
    using r by simp
  then show ?l unfolding scroll_stores_eq by (rule raster_memI [OF assms(1) y(1)])
qed

lemma scroll_render_pixel:
  assumes "x < 1280" "y < 720" "k < 3"
  shows "scroll_render xoff m (k * 921600 + (y * 1280 + x)) =
    (if 328 \<le> y \<and> y < 392 \<and> text_bit ((x + unat xoff) mod 512) (y - 328) then ink x k else 0)"
proof (cases "328 \<le> y \<and> y < 392 \<and> scroll_lit xoff x (y - 328)")
  case True
  then have "scroll_render xoff m (k * 921600 + (y * 1280 + x)) = ink x k"
    unfolding scroll_render_def using assms by (intro run_stores_hit) (simp_all add: scroll_store_iff)
  then show ?thesis using True by (simp add: scroll_lit_text)
next
  case False
  have "k * 921600 + (y * 1280 + x) \<notin> fst ` set (scroll_stores xoff)"
    using False scroll_store_iff [OF assms(1,2)] by auto
  then have "scroll_render xoff m (k * 921600 + (y * 1280 + x)) = memset 0 0 VID_FB_SIZE m (k * 921600 + (y * 1280 + x))"
    unfolding scroll_render_def by (rule run_stores_miss)
  moreover have "k * 921600 + (y * 1280 + x) < VID_FB_SIZE" using assms by (simp add: vid_defs)
  ultimately show ?thesis using False by (auto simp: memset_def scroll_lit_text)
qed

section \<open>All frames\<close>

lemma scroll_iter:
  assumes "scroll_on s" "g_bound s" "bfb_cpu s"
  shows "scroll_on ((scroll_fn ^^ n) s) \<and> g_bound ((scroll_fn ^^ n) s) \<and> bfb_cpu ((scroll_fn ^^ n) s) \<and>
    scroll_x ((scroll_fn ^^ n) s) = scroll_x s + of_nat (6 * n)"
  using assms by (induction n) (auto simp: scroll_fn_def SCROLL_STEP_def algebra_simps)

text \<open>
  C33. The scroller never jumps. While it is on, frame \<open>n + 1\<close> shows at \<open>(x, y)\<close> the pixel of the message in
  column \<open>x + scroll_x + 6 n\<close> modulo its width of 512, in every plane, and black elsewhere. The
  position wraps at 32 bits without a jump, since the width of the message divides that range.
\<close>

theorem scroll_seamless:
  assumes "scroll_on s" "g_bound s" "bfb_cpu s" "x < 1280" "y < 720" "k < 3"
  shows "bfb_mem ((scroll_fn ^^ Suc n) s) (k * 921600 + (y * 1280 + x)) =
    (if 328 \<le> y \<and> y < 392 \<and> text_bit ((x + unat (scroll_x s) + 6 * n) mod 512) (y - 328) then ink x k else 0)"
proof -
  let ?t = "(scroll_fn ^^ n) s"
  have t: "scroll_on ?t" "g_bound ?t" "bfb_cpu ?t" "scroll_x ?t = scroll_x s + of_nat (6 * n)"
    using scroll_iter [OF assms(1-3)] by blast+
  have "(x + unat (scroll_x s + of_nat (6 * n))) mod 512 = (x + unat (scroll_x s) + 6 * n) mod 512"
    using wrap_mod [of x "scroll_x s + of_nat (6 * n)"] wrap_mod [of "x + 6 * n" "scroll_x s"] by (simp add: algebra_simps)
  moreover have "bfb_mem ((scroll_fn ^^ Suc n) s) = scroll_render (scroll_x s + of_nat (6 * n)) (bfb_mem ?t)"
    using t by (simp add: scroll_fn_def)
  ultimately show ?thesis using scroll_render_pixel [OF assms(4-6)] by simp
qed

theorem scroll_seamless_witness:
  "bfb_mem ((scroll_fn ^^ Suc 2) (bringup0\<lparr>scroll_on := True, g_bound := True, bfb_cpu := True, scroll_x := 0xfffffffa\<rparr>))
     (1 * 921600 + (330 * 1280 + 10)) = ink 10 1"
  using scroll_seamless [of "bringup0\<lparr>scroll_on := True, g_bound := True, bfb_cpu := True, scroll_x := 0xfffffffa\<rparr>" 10 330 1 2]
  by (simp add: text_bit_def scroll_msg_def glyph_of_def font_chars_def font8_def)

end
