(* ===== verification/Bitbang.thy ===== *)
theory Bitbang
  imports Prelude
begin

text \<open>
  The bit-banged I2C bus of the HDMI bring-up module (\<open>lt8912b-bringup.c\<close>, from \<open>bb_low\<close> to
  \<open>bitbang_write\<close>, with \<open>gpiop_write\<close> and \<open>padw_write\<close>): two GPIO pins driven open-drain through the
  data and direction registers. The state keeps the two registers as they were after each
  settling delay; what the port reads back, the slave and the pull-ups included, is an argument that sees this
  history. The waveform is decoded by a reference reader of start, stop and bit events.
\<close>

section \<open>Pins\<close>

record bb =
  bb_dr :: u32
  bb_ddr :: u32
  bb_mux0 :: u32
  bb_mux1 :: u32
  bb_pad0 :: u32
  bb_pad1 :: u32
  bb_trace :: "(u32 \<times> u32) list"

definition settle :: "bb \<Rightarrow> bb" where
  "settle b = b\<lparr>bb_trace := bb_trace b @ [(bb_dr b, bb_ddr b)]\<rparr>"

definition bb_low :: "u32 \<Rightarrow> bb \<Rightarrow> bb" where
  "bb_low pin b =
     (let b = b\<lparr>bb_dr := bb_dr b AND NOT pin\<rparr>;
          b = b\<lparr>bb_ddr := bb_ddr b OR pin\<rparr>
      in settle b)"

definition bb_rel :: "u32 \<Rightarrow> bb \<Rightarrow> bb" where
  "bb_rel pin b = settle (b\<lparr>bb_ddr := bb_ddr b AND NOT pin\<rparr>)"

definition bb_get :: "((u32 \<times> u32) list \<Rightarrow> u32) \<Rightarrow> u32 \<Rightarrow> bb \<Rightarrow> bool" where
  "bb_get ext pin b \<longleftrightarrow> ext (bb_trace b) AND pin \<noteq> 0"

definition bb_start :: "u32 \<Rightarrow> u32 \<Rightarrow> bb \<Rightarrow> bb" where
  "bb_start SCL SDA b = bb_low SCL (bb_low SDA (bb_rel SCL (bb_rel SDA b)))"

definition bb_stop :: "u32 \<Rightarrow> u32 \<Rightarrow> bb \<Rightarrow> bb" where
  "bb_stop SCL SDA b = bb_rel SDA (bb_rel SCL (bb_low SDA b))"

definition wr_bit :: "u32 \<Rightarrow> u32 \<Rightarrow> u8 \<Rightarrow> nat \<Rightarrow> bb \<Rightarrow> bb" where
  "wr_bit SCL SDA v i b =
     (let b = (if v AND push_bit i 1 \<noteq> 0 then bb_rel SDA b else bb_low SDA b)
      in bb_low SCL (bb_rel SCL b))"

text \<open>The result is the acknowledge bit: \<open>False\<close> when the slave pulled the line low.\<close>

definition bb_wr :: "((u32 \<times> u32) list \<Rightarrow> u32) \<Rightarrow> u32 \<Rightarrow> u32 \<Rightarrow> u8 \<Rightarrow> bb \<Rightarrow> bool \<times> bb" where
  "bb_wr ext SCL SDA v b =
     (let b = fold (wr_bit SCL SDA v) (rev [0..<8]) b;
          b = bb_rel SDA b;
          b = bb_rel SCL b;
          ack = bb_get ext SDA b
      in (ack, bb_low SCL b))"

definition rd_bit :: "((u32 \<times> u32) list \<Rightarrow> u32) \<Rightarrow> u32 \<Rightarrow> u32 \<Rightarrow> nat \<Rightarrow> u8 \<times> bb \<Rightarrow> u8 \<times> bb" where
  "rd_bit ext SCL SDA i c = (case c of (v, b) \<Rightarrow>
     (let b = bb_rel SCL b in (if bb_get ext SDA b then v OR push_bit i 1 else v, bb_low SCL b)))"

definition bb_rd :: "((u32 \<times> u32) list \<Rightarrow> u32) \<Rightarrow> u32 \<Rightarrow> u32 \<Rightarrow> bool \<Rightarrow> bb \<Rightarrow> u8 \<times> bb" where
  "bb_rd ext SCL SDA nak b =
     (let b = bb_rel SDA b;
          (v, b) = fold (rd_bit ext SCL SDA) (rev [0..<8]) (0, b);
          b = (if nak then bb_rel SDA b else bb_low SDA b);
          b = bb_low SCL (bb_rel SCL b)
      in (v, bb_rel SDA b))"

section \<open>Files\<close>

text \<open>\<open>BIT\<close> shifts a 64-bit one and the variable keeps 32 bits; other shifts are not defined.\<close>

definition BIT :: "int \<Rightarrow> u32 option" where
  "BIT n = (if 0 \<le> n \<and> n < 64 then Some (ucast (push_bit (nat n) (1 :: u64))) else None)"

record bitbang_out =
  bo_val :: u8
  bo_a1 :: bool
  bo_a2 :: bool
  bo_a3 :: bool

definition bitbang_run :: "((u32 \<times> u32) list \<Rightarrow> u32) \<Rightarrow> int \<Rightarrow> int \<Rightarrow> u32 \<Rightarrow> u32 \<Rightarrow> bb \<Rightarrow> bitbang_out \<times> bb" where
  "bitbang_run ext addr reg SCL SDA b =
     (let saved0 = bb_mux0 b; saved1 = bb_mux1 b;
          b = b\<lparr>bb_mux0 := 3, bb_mux1 := 3\<rparr>;
          b = bb_rel SCL b;
          b = bb_rel SDA b;
          b = bb_start SCL SDA b;
          (a1, b) = bb_wr ext SCL SDA (word_of_int (addr * 2)) b;
          (a2, b) = bb_wr ext SCL SDA (word_of_int reg) b;
          b = bb_start SCL SDA b;
          (a3, b) = bb_wr ext SCL SDA (word_of_int (addr * 2 + 1)) b;
          (v, b) = bb_rd ext SCL SDA True b;
          b = bb_stop SCL SDA b
      in (\<lparr>bo_val = v, bo_a1 = a1, bo_a2 = a2, bo_a3 = a3\<rparr>, b\<lparr>bb_mux0 := saved0, bb_mux1 := saved1\<rparr>))"

text \<open>\<open>vs\<close> is what \<open>sscanf\<close> converts; \<open>gpio\<close> and \<open>mux\<close> are whether the mappings succeed. The result is
  the answer of the file, what is printed, and the pins; an undefined shift has none.\<close>

definition bitbang_write ::
  "((u32 \<times> u32) list \<Rightarrow> u32) \<Rightarrow> nat \<Rightarrow> bool \<Rightarrow> int list \<Rightarrow> bool \<Rightarrow> bool \<Rightarrow> bb \<Rightarrow> (nat res \<times> bitbang_out option \<times> bb) option" where
  "bitbang_write ext len copied vs gpio mux b =
     (if len \<ge> 32 then Some (Inl EINVAL, None, b)
      else if \<not> copied then Some (Inl EFAULT, None, b)
      else if vs = [] then Some (Inl EINVAL, None, b)
      else
        (let arg = (\<lambda>i d. if i < length vs then vs ! i else d) in
         (case (BIT (arg 2 0), BIT (arg 3 2)) of
            (Some SCL, Some SDA) \<Rightarrow>
              if \<not> gpio \<or> \<not> mux then Some (Inl ENOMEM, None, b)
              else (case bitbang_run ext (arg 0 0x48) (arg 1 0) SCL SDA b of (r, b) \<Rightarrow> Some (Inr len, Some r, b))
          | _ \<Rightarrow> None)))"

definition gpiop_bit :: "((u32 \<times> u32) list \<Rightarrow> u32) \<Rightarrow> nat \<Rightarrow> u32 list \<times> bb \<Rightarrow> u32 list \<times> bb" where
  "gpiop_bit ext i c = (case c of (out, b) \<Rightarrow>
     (let pin = push_bit i 1;
          b = b\<lparr>bb_dr := bb_dr b AND NOT pin\<rparr>;
          b = settle (b\<lparr>bb_ddr := pin\<rparr>);
          after = ext (bb_trace b);
          b = settle (b\<lparr>bb_ddr := 0\<rparr>)
      in (out @ [after], b)))"

definition gpiop_write :: "((u32 \<times> u32) list \<Rightarrow> u32) \<Rightarrow> int res \<Rightarrow> nat \<Rightarrow> bool \<Rightarrow> bool \<Rightarrow> bb \<Rightarrow> nat res \<times> u32 list \<times> bb" where
  "gpiop_write ext num len gm mm b =
     (case num of
        Inl e \<Rightarrow> (Inl e, [], b)
      | Inr mux \<Rightarrow>
          if \<not> gm \<or> \<not> mm then (Inl ENOMEM, [], b)
          else
            (let s0 = bb_mux0 b; s1 = bb_mux1 b;
                 b = b\<lparr>bb_mux0 := word_of_int mux, bb_mux1 := word_of_int mux\<rparr>;
                 b = settle (b\<lparr>bb_ddr := 0\<rparr>);
                 base = ext (bb_trace b);
                 (out, b) = fold (gpiop_bit ext) [0..<4] ([], b);
                 b = b\<lparr>bb_ddr := 0\<rparr>
             in (Inr len, base # out, b\<lparr>bb_mux0 := s0, bb_mux1 := s1\<rparr>)))"

definition padw_write :: "int res \<Rightarrow> nat \<Rightarrow> bool \<Rightarrow> bb \<Rightarrow> nat res \<times> bb" where
  "padw_write num len mapped b =
     (case num of
        Inl e \<Rightarrow> (Inl e, b)
      | Inr v \<Rightarrow>
          if \<not> mapped then (Inl ENOMEM, b)
          else (Inr len, b\<lparr>bb_pad0 := word_of_int v, bb_pad1 := word_of_int v\<rparr>))"

section \<open>Levels\<close>

text \<open>A line is high unless its pin is an output with a zero: the master's side of an open-drain bus.\<close>

definition level :: "u32 \<Rightarrow> u32 \<times> u32 \<Rightarrow> bool" where
  "level pin r \<longleftrightarrow> snd r AND pin = 0 \<or> fst r AND pin \<noteq> 0"

datatype i2c_event = Start | Stop | Bit bool

definition edge :: "bool \<times> bool \<Rightarrow> bool \<times> bool \<Rightarrow> i2c_event list" where
  "edge a b = (case (a, b) of ((c, d), (c', d')) \<Rightarrow>
     if c \<and> c' then (if d \<and> \<not> d' then [Start] else if \<not> d \<and> d' then [Stop] else [])
     else if \<not> c \<and> c' then [Bit d'] else [])"

fun i2c_events :: "(bool \<times> bool) list \<Rightarrow> i2c_event list" where
  "i2c_events (a # b # ls) = edge a b @ i2c_events (b # ls)"
| "i2c_events _ = []"

definition byte_events :: "u8 \<Rightarrow> i2c_event list" where
  "byte_events v = map (\<lambda>i. Bit (bit v i)) (rev [0..<8])"

lemma i2c_events_snoc: "ls \<noteq> [] \<Longrightarrow> i2c_events (ls @ [l]) = i2c_events ls @ edge (last ls) l"
  by (induction ls rule: i2c_events.induct) auto

text \<open>Two different pins.\<close>

definition pins :: "u32 \<Rightarrow> u32 \<Rightarrow> bool" where
  "pins SCL SDA \<longleftrightarrow> SCL \<noteq> 0 \<and> SDA \<noteq> 0 \<and> SCL AND SDA = 0"

definition lines :: "u32 \<Rightarrow> u32 \<Rightarrow> bb \<Rightarrow> bool \<times> bool" where
  "lines SCL SDA b = (level SCL (bb_dr b, bb_ddr b), level SDA (bb_dr b, bb_ddr b))"

definition evs :: "u32 \<Rightarrow> u32 \<Rightarrow> bb \<Rightarrow> i2c_event list" where
  "evs SCL SDA b = i2c_events (map (\<lambda>r. (level SCL r, level SDA r)) (bb_trace b))"

text \<open>The registers are those of the last delay.\<close>

definition settled :: "bb \<Rightarrow> bool" where
  "settled b \<longleftrightarrow> bb_trace b \<noteq> [] \<and> last (bb_trace b) = (bb_dr b, bb_ddr b)"

lemma word_pins:
  fixes x p q :: u32
  shows "(x AND NOT p) AND p = 0" "(x OR p) AND p = p"
    "p AND q = 0 \<Longrightarrow> (x AND NOT p) AND q = x AND q" "p AND q = 0 \<Longrightarrow> (x OR p) AND q = x AND q"
  by (auto simp: bit_eq_iff bit_simps)

lemma settle_evs:
  assumes "settled b" "bb_trace c = bb_trace b @ [(bb_dr c, bb_ddr c)]"
  shows "evs SCL SDA c = evs SCL SDA b @ edge (lines SCL SDA b) (lines SCL SDA c)" "settled c"
  using assms by (simp_all add: evs_def settled_def lines_def i2c_events_snoc last_map)

lemma pin_trace:
  "bb_trace (bb_low p b) = bb_trace b @ [(bb_dr (bb_low p b), bb_ddr (bb_low p b))]"
  "bb_trace (bb_rel p b) = bb_trace b @ [(bb_dr (bb_rel p b), bb_ddr (bb_rel p b))]"
  by (simp_all add: bb_low_def bb_rel_def settle_def Let_def)

lemma pin_lines:
  assumes "pins SCL SDA"
  shows "lines SCL SDA (bb_low SCL b) = (False, snd (lines SCL SDA b))" "lines SCL SDA (bb_rel SCL b) = (True, snd (lines SCL SDA b))"
    "lines SCL SDA (bb_low SDA b) = (fst (lines SCL SDA b), False)" "lines SCL SDA (bb_rel SDA b) = (fst (lines SCL SDA b), True)"
proof -
  have p: "SCL \<noteq> 0" "SDA \<noteq> 0" "SCL AND SDA = 0" "SDA AND SCL = 0" using assms by (simp_all add: pins_def and.commute)
  show "lines SCL SDA (bb_low SCL b) = (False, snd (lines SCL SDA b))" "lines SCL SDA (bb_rel SCL b) = (True, snd (lines SCL SDA b))"
    "lines SCL SDA (bb_low SDA b) = (fst (lines SCL SDA b), False)" "lines SCL SDA (bb_rel SDA b) = (fst (lines SCL SDA b), True)"
    using p by (simp_all add: lines_def level_def bb_low_def bb_rel_def settle_def Let_def word_pins)
qed

section \<open>Waveforms\<close>

text \<open>From \<open>b\<close> to \<open>c\<close> the bus shows the events \<open>es\<close> and ends with the lines at \<open>l\<close>.\<close>

definition shows_on :: "u32 \<Rightarrow> u32 \<Rightarrow> bb \<Rightarrow> i2c_event list \<Rightarrow> bool \<times> bool \<Rightarrow> bb \<Rightarrow> bool" where
  "shows_on SCL SDA b es l c \<longleftrightarrow> settled c \<and> evs SCL SDA c = evs SCL SDA b @ es \<and> lines SCL SDA c = l"

lemma shows_settled: "shows_on SCL SDA b es l c \<Longrightarrow> settled c"
  and shows_lines: "shows_on SCL SDA b es l c \<Longrightarrow> lines SCL SDA c = l"
  by (simp_all add: shows_on_def)

lemma shows_trans: "shows_on SCL SDA b es l c \<Longrightarrow> shows_on SCL SDA c fs m d \<Longrightarrow> shows_on SCL SDA b (es @ fs) m d"
  by (simp add: shows_on_def)

lemma shows_pin:
  assumes "pins SCL SDA" "settled b" "lines SCL SDA b = (c, d)"
  shows "shows_on SCL SDA b [] (False, d) (bb_low SCL b)" "shows_on SCL SDA b (if c then [] else [Bit d]) (True, d) (bb_rel SCL b)"
    "shows_on SCL SDA b (if c \<and> d then [Start] else []) (c, False) (bb_low SDA b)"
    "shows_on SCL SDA b (if c \<and> \<not> d then [Stop] else []) (c, True) (bb_rel SDA b)"
  using assms(3) settle_evs [OF assms(2) pin_trace(1)] settle_evs [OF assms(2) pin_trace(2)]
  by (simp_all add: shows_on_def pin_lines [OF assms(1)] edge_def)

lemma bit_test: "i < 8 \<Longrightarrow> (v :: u8) AND push_bit i 1 \<noteq> 0 \<longleftrightarrow> bit v i"
  by (simp add: push_bit_eq_mult and_exp_eq_0_iff_not_bit)

lemma shows_wr_bit:
  assumes "pins SCL SDA" "settled b" "lines SCL SDA b = (False, d)" "i < 8"
  shows "shows_on SCL SDA b [Bit (bit v i)] (False, bit v i) (wr_bit SCL SDA v i b)"
proof -
  let ?b = "if v AND push_bit i 1 \<noteq> 0 then bb_rel SDA b else bb_low SDA b"
  have 1: "shows_on SCL SDA b [] (False, bit v i) ?b"
    using shows_pin(3,4) [OF assms(1-3)] bit_test [OF assms(4), of v] by (auto split: if_splits)
  have 2: "shows_on SCL SDA ?b [Bit (bit v i)] (True, bit v i) (bb_rel SCL ?b)"
    using shows_pin(2) [OF assms(1) shows_settled [OF 1] shows_lines [OF 1]] by simp
  have 3: "shows_on SCL SDA (bb_rel SCL ?b) [] (False, bit v i) (bb_low SCL (bb_rel SCL ?b))"
    by (rule shows_pin(1) [OF assms(1) shows_settled [OF 2] shows_lines [OF 2]])
  show ?thesis using shows_trans [OF shows_trans [OF 1 2] 3] by (simp only: wr_bit_def Let_def append_Nil append_Nil2)
qed

lemma shows_wr_bits:
  "pins SCL SDA \<Longrightarrow> settled b \<Longrightarrow> lines SCL SDA b = (False, d) \<Longrightarrow> list_all (\<lambda>i. i < 8) is \<Longrightarrow>
   \<exists>d'. shows_on SCL SDA b (map (\<lambda>i. Bit (bit v i)) is) (False, d') (fold (wr_bit SCL SDA v) is b)"
proof (induction "is" arbitrary: b d)
  case Nil
  then show ?case by (auto simp: shows_on_def)
next
  case (Cons i "is")
  have 1: "shows_on SCL SDA b [Bit (bit v i)] (False, bit v i) (wr_bit SCL SDA v i b)"
    using shows_wr_bit [OF Cons.prems(1-3)] Cons.prems(4) by simp
  obtain d' where "shows_on SCL SDA (wr_bit SCL SDA v i b) (map (\<lambda>i. Bit (bit v i)) is) (False, d')
      (fold (wr_bit SCL SDA v) is (wr_bit SCL SDA v i b))"
    using Cons.IH [OF Cons.prems(1) shows_settled [OF 1] shows_lines [OF 1]] Cons.prems(4) by auto
  from shows_trans [OF 1 this] show ?case by auto
qed

text \<open>A byte, then the acknowledge slot with the line released.\<close>

lemma shows_wr:
  assumes "pins SCL SDA" "settled b" "lines SCL SDA b = (False, d)"
  shows "shows_on SCL SDA b (byte_events v @ [Bit True]) (False, True) (snd (bb_wr ext SCL SDA v b))"
proof -
  let ?c = "fold (wr_bit SCL SDA v) (rev [0..<8]) b"
  have "list_all (\<lambda>i. i < 8) (rev [0..<8])" by (simp add: list_all_iff)
  then obtain d' where 1: "shows_on SCL SDA b (byte_events v) (False, d') ?c"
    using shows_wr_bits [OF assms] unfolding byte_events_def by blast
  have 2: "shows_on SCL SDA ?c [] (False, True) (bb_rel SDA ?c)"
    using shows_pin(4) [OF assms(1) shows_settled [OF 1] shows_lines [OF 1]] by simp
  have 3: "shows_on SCL SDA (bb_rel SDA ?c) [Bit True] (True, True) (bb_rel SCL (bb_rel SDA ?c))"
    using shows_pin(2) [OF assms(1) shows_settled [OF 2] shows_lines [OF 2]] by simp
  have 4: "shows_on SCL SDA (bb_rel SCL (bb_rel SDA ?c)) [] (False, True) (bb_low SCL (bb_rel SCL (bb_rel SDA ?c)))"
    by (rule shows_pin(1) [OF assms(1) shows_settled [OF 3] shows_lines [OF 3]])
  show ?thesis using shows_trans [OF shows_trans [OF shows_trans [OF 1 2] 3] 4] by (simp add: bb_wr_def Let_def)
qed

lemma shows_rd_bits:
  "pins SCL SDA \<Longrightarrow> settled (snd c) \<Longrightarrow> lines SCL SDA (snd c) = (False, True) \<Longrightarrow>
   shows_on SCL SDA (snd c) (replicate (length is) (Bit True)) (False, True) (snd (fold (rd_bit ext SCL SDA) is c))"
proof (induction "is" arbitrary: c)
  case Nil
  then show ?case by (simp add: shows_on_def)
next
  case (Cons i "is")
  let ?b = "snd c"
  have 1: "shows_on SCL SDA ?b [Bit True] (True, True) (bb_rel SCL ?b)" using shows_pin(2) [OF Cons.prems] by simp
  have "shows_on SCL SDA (bb_rel SCL ?b) [] (False, True) (bb_low SCL (bb_rel SCL ?b))"
    by (rule shows_pin(1) [OF Cons.prems(1) shows_settled [OF 1] shows_lines [OF 1]])
  from shows_trans [OF 1 this] have 2: "shows_on SCL SDA ?b [Bit True] (False, True) (snd (rd_bit ext SCL SDA i c))"
    by (simp add: rd_bit_def Let_def case_prod_beta)
  from shows_trans [OF this Cons.IH [OF Cons.prems(1) shows_settled [OF 2] shows_lines [OF 2]]]
  show ?case by simp
qed

text \<open>Reading a byte releases the line for eight clocks, then answers; a refusal is a ninth released clock.\<close>

lemma shows_rd:
  assumes "pins SCL SDA" "settled b" "lines SCL SDA b = (False, d)"
  shows "shows_on SCL SDA b (replicate 8 (Bit True) @ [Bit True]) (False, True) (snd (bb_rd ext SCL SDA True b))"
proof -
  let ?c = "snd (fold (rd_bit ext SCL SDA) (rev [0..<8]) (0, bb_rel SDA b))"
  have 1: "shows_on SCL SDA b [] (False, True) (bb_rel SDA b)" using shows_pin(4) [OF assms] by simp
  have 2: "shows_on SCL SDA (bb_rel SDA b) (replicate 8 (Bit True)) (False, True) ?c"
    using shows_rd_bits [OF assms(1), of "(0, bb_rel SDA b)" "rev [0..<8]" ext] shows_settled [OF 1] shows_lines [OF 1] by simp
  have 3: "shows_on SCL SDA ?c [] (False, True) (bb_rel SDA ?c)"
    using shows_pin(4) [OF assms(1) shows_settled [OF 2] shows_lines [OF 2]] by simp
  have 4: "shows_on SCL SDA (bb_rel SDA ?c) [Bit True] (True, True) (bb_rel SCL (bb_rel SDA ?c))"
    using shows_pin(2) [OF assms(1) shows_settled [OF 3] shows_lines [OF 3]] by simp
  have 5: "shows_on SCL SDA (bb_rel SCL (bb_rel SDA ?c)) [] (False, True) (bb_low SCL (bb_rel SCL (bb_rel SDA ?c)))"
    by (rule shows_pin(1) [OF assms(1) shows_settled [OF 4] shows_lines [OF 4]])
  have 6: "shows_on SCL SDA (bb_low SCL (bb_rel SCL (bb_rel SDA ?c))) [] (False, True) (bb_rel SDA (bb_low SCL (bb_rel SCL (bb_rel SDA ?c))))"
    using shows_pin(4) [OF assms(1) shows_settled [OF 5] shows_lines [OF 5]] by simp
  show ?thesis
    using shows_trans [OF shows_trans [OF shows_trans [OF shows_trans [OF shows_trans [OF 1 2] 3] 4] 5] 6]
    by (simp add: bb_rd_def Let_def case_prod_beta)
qed

lemma shows_start:
  assumes "pins SCL SDA" "settled b" "lines SCL SDA b = (c, True)"
  shows "shows_on SCL SDA b ((if c then [] else [Bit True]) @ [Start]) (False, False) (bb_start SCL SDA b)"
proof -
  have 1: "shows_on SCL SDA b [] (c, True) (bb_rel SDA b)" using shows_pin(4) [OF assms] by simp
  have 2: "shows_on SCL SDA (bb_rel SDA b) (if c then [] else [Bit True]) (True, True) (bb_rel SCL (bb_rel SDA b))"
    by (rule shows_pin(2) [OF assms(1) shows_settled [OF 1] shows_lines [OF 1]])
  have 3: "shows_on SCL SDA (bb_rel SCL (bb_rel SDA b)) [Start] (True, False) (bb_low SDA (bb_rel SCL (bb_rel SDA b)))"
    using shows_pin(3) [OF assms(1) shows_settled [OF 2] shows_lines [OF 2]] by simp
  have 4: "shows_on SCL SDA (bb_low SDA (bb_rel SCL (bb_rel SDA b))) [] (False, False) (bb_start SCL SDA b)"
    unfolding bb_start_def by (rule shows_pin(1) [OF assms(1) shows_settled [OF 3] shows_lines [OF 3]])
  show ?thesis using shows_trans [OF shows_trans [OF shows_trans [OF 1 2] 3] 4] by simp
qed

lemma shows_stop:
  assumes "pins SCL SDA" "settled b" "lines SCL SDA b = (False, d)"
  shows "shows_on SCL SDA b [Bit False, Stop] (True, True) (bb_stop SCL SDA b)"
proof -
  have 1: "shows_on SCL SDA b [] (False, False) (bb_low SDA b)" using shows_pin(3) [OF assms] by simp
  have 2: "shows_on SCL SDA (bb_low SDA b) [Bit False] (True, False) (bb_rel SCL (bb_low SDA b))"
    using shows_pin(2) [OF assms(1) shows_settled [OF 1] shows_lines [OF 1]] by simp
  have 3: "shows_on SCL SDA (bb_rel SCL (bb_low SDA b)) [Stop] (True, True) (bb_stop SCL SDA b)"
    unfolding bb_stop_def using shows_pin(4) [OF assms(1) shows_settled [OF 2] shows_lines [OF 2]] by simp
  show ?thesis using shows_trans [OF shows_trans [OF 1 2] 3] by simp
qed

section \<open>A slave\<close>

text \<open>How many bits the slave has seen since the last start.\<close>

fun is_bit :: "i2c_event \<Rightarrow> bool" where
  "is_bit (Bit _) = True" | "is_bit _ = False"

definition since_start :: "i2c_event list \<Rightarrow> nat" where
  "since_start es = length (takeWhile is_bit (rev es))"

text \<open>
  A slave that answers: it acknowledges the first and second byte after a start by pulling the line low in
  the ninth and eighteenth clock, and after the address of a read it sends \<open>w\<close>, high bit first.
\<close>

definition slave_level :: "u8 \<Rightarrow> nat \<Rightarrow> bool" where
  "slave_level w n \<longleftrightarrow> n \<noteq> 9 \<and> n \<noteq> 18 \<and> (10 \<le> n \<and> n \<le> 17 \<longrightarrow> bit w (17 - n))"

definition slave :: "u32 \<Rightarrow> u32 \<Rightarrow> u8 \<Rightarrow> ((u32 \<times> u32) list \<Rightarrow> u32) \<Rightarrow> bool" where
  "slave SCL SDA w ext \<longleftrightarrow>
     (\<forall>tr. ext tr AND SDA \<noteq> 0 \<longleftrightarrow> slave_level w (since_start (i2c_events (map (\<lambda>r. (level SCL r, level SDA r)) tr))))"

lemma slave_get: "slave SCL SDA w ext \<Longrightarrow> bb_get ext SDA b = slave_level w (since_start (evs SCL SDA b))"
  by (simp add: slave_def bb_get_def evs_def)

lemma since_bits: "list_all is_bit fs \<Longrightarrow> since_start (es @ fs) = since_start es + length fs"
  unfolding since_start_def rev_append by (subst takeWhile_append2) (auto simp: list_all_iff)

lemma since_Start: "since_start (es @ [Start]) = 0"
  by (simp add: since_start_def)

lemma byte_bits: "list_all is_bit (byte_events v)" "length (byte_events v) = 8"
  by (simp_all add: byte_events_def list_all_iff)

lemma wr_ack:
  assumes "pins SCL SDA" "settled b" "lines SCL SDA b = (False, d)" "slave SCL SDA w ext" "since_start (evs SCL SDA b) \<in> {0, 9}"
  shows "\<not> fst (bb_wr ext SCL SDA v b)"
proof -
  let ?c = "bb_rel SCL (bb_rel SDA (fold (wr_bit SCL SDA v) (rev [0..<8]) b))"
  have e: "evs SCL SDA (bb_low SCL ?c) = evs SCL SDA b @ byte_events v @ [Bit True]"
    using shows_wr [OF assms(1-3), of v ext] by (simp add: shows_on_def bb_wr_def Let_def)
  have st: "settled ?c" using settle_evs(2) pin_trace assms(2)
    by (metis (no_types, lifting) bb_rel_def last_snoc pin_trace(2) settled_def snoc_eq_iff_butlast)
  have l: "lines SCL SDA ?c = (True, True)" by (simp add: pin_lines [OF assms(1)])
  have "evs SCL SDA (bb_low SCL ?c) = evs SCL SDA ?c"
    using shows_pin(1) [OF assms(1) st l] by (simp add: shows_on_def)
  with e have "since_start (evs SCL SDA ?c) = since_start (evs SCL SDA b) + 9"
    using since_bits [of "byte_events v @ [Bit True]" "evs SCL SDA b"] by (simp add: byte_bits)
  then have "\<not> bb_get ext SDA ?c" using assms(5) by (auto simp: slave_get [OF assms(4)] slave_level_def)
  then show ?thesis by (simp add: bb_wr_def Let_def)
qed

lemma rd_value:
  "pins SCL SDA \<Longrightarrow> slave SCL SDA w ext \<Longrightarrow> m \<le> 8 \<Longrightarrow> settled (snd c) \<Longrightarrow> lines SCL SDA (snd c) = (False, True) \<Longrightarrow>
   since_start (evs SCL SDA (snd c)) = 17 - m \<Longrightarrow> fst (fold (rd_bit ext SCL SDA) (rev [0..<m]) c) = fst c OR take_bit m w"
proof (induction m arbitrary: c)
  case (Suc m)
  let ?b = "bb_rel SCL (snd c)"
  have 1: "shows_on SCL SDA (snd c) [Bit True] (True, True) ?b"
    using shows_pin(2) [OF Suc.prems(1,4,5)] by simp
  have n: "since_start (evs SCL SDA ?b) = 17 - m"
    using 1 Suc.prems(3,6) by (simp add: shows_on_def since_bits)
  have g: "bb_get ext SDA ?b \<longleftrightarrow> bit w m"
    using Suc.prems(3) by (auto simp: slave_get [OF Suc.prems(2)] n slave_level_def)
  have 2: "shows_on SCL SDA ?b [] (False, True) (bb_low SCL ?b)"
    by (rule shows_pin(1) [OF Suc.prems(1) shows_settled [OF 1] shows_lines [OF 1]])
  have r: "rd_bit ext SCL SDA m c = (if bit w m then fst c OR push_bit m 1 else fst c, bb_low SCL ?b)"
    by (simp add: rd_bit_def case_prod_beta Let_def g)
  have "fst (fold (rd_bit ext SCL SDA) (rev [0..<m]) (rd_bit ext SCL SDA m c)) =
      fst (rd_bit ext SCL SDA m c) OR take_bit m w"
    using shows_settled [OF 2] shows_lines [OF 2] 2 n Suc.prems(3)
    by (intro Suc.IH Suc.prems) (simp_all add: r shows_on_def)
  also have "\<dots> = fst c OR take_bit (Suc m) w"
    unfolding r by (rule bit_word_eqI) (auto simp: bit_simps less_Suc_eq)
  finally show ?case by simp
qed simp

section \<open>Other pins\<close>

definition keeps :: "u32 \<Rightarrow> bb \<Rightarrow> bb \<Rightarrow> bool" where
  "keeps M b c \<longleftrightarrow> bb_dr c AND NOT M = bb_dr b AND NOT M \<and> bb_ddr c AND NOT M = bb_ddr b AND NOT M \<and>
     bb_mux0 c = bb_mux0 b \<and> bb_mux1 c = bb_mux1 b \<and> bb_pad0 c = bb_pad0 b \<and> bb_pad1 c = bb_pad1 b"

lemma leaves_refl: "keeps M b b"
  by (simp add: keeps_def)

lemma leaves_trans: "keeps M b c \<Longrightarrow> keeps M c d \<Longrightarrow> keeps M b d"
  by (simp add: keeps_def)

lemma pin_keeps: "p AND NOT M = 0 \<Longrightarrow> keeps M b c \<Longrightarrow> keeps M b (bb_low p c)" "p AND NOT M = 0 \<Longrightarrow> keeps M b c \<Longrightarrow> keeps M b (bb_rel p c)"
  by (simp_all add: keeps_def bb_low_def bb_rel_def settle_def Let_def) (auto simp: bit_eq_iff bit_simps)+

lemma pins_in: "SCL AND NOT (SCL OR SDA) = 0" "SDA AND NOT (SCL OR SDA) = (0 :: u32)"
  by (auto simp: bit_eq_iff bit_simps)

lemma line_keeps:
  assumes "keeps (SCL OR SDA) b c"
  shows "keeps (SCL OR SDA) b (bb_low SCL c)" "keeps (SCL OR SDA) b (bb_rel SCL c)"
    "keeps (SCL OR SDA) b (bb_low SDA c)" "keeps (SCL OR SDA) b (bb_rel SDA c)"
  by (intro pin_keeps pins_in assms)+

lemma wr_bits_keep: "keeps (SCL OR SDA) b c \<Longrightarrow> keeps (SCL OR SDA) b (fold (wr_bit SCL SDA v) is c)"
  by (induction "is" arbitrary: c) (simp_all add: wr_bit_def Let_def line_keeps)

lemma rd_bits_keep: "keeps (SCL OR SDA) b (snd c) \<Longrightarrow> keeps (SCL OR SDA) b (snd (fold (rd_bit ext SCL SDA) is c))"
  by (induction "is" arbitrary: c) (simp_all add: rd_bit_def Let_def case_prod_beta line_keeps)

lemma ops_keep:
  assumes "keeps (SCL OR SDA) b c"
  shows "keeps (SCL OR SDA) b (bb_start SCL SDA c)" "keeps (SCL OR SDA) b (bb_stop SCL SDA c)"
    "keeps (SCL OR SDA) b (snd (bb_wr ext SCL SDA v c))" "keeps (SCL OR SDA) b (snd (bb_rd ext SCL SDA nak c))"
  using assms by (simp_all add: bb_start_def bb_stop_def bb_wr_def bb_rd_def Let_def case_prod_beta
    line_keeps wr_bits_keep rd_bits_keep)

section \<open>The transaction\<close>

text \<open>
  C30. One register read over the bit-banged bus. From an idle trace and two different pins, the waveform
  decodes to exactly: start, the address with the write bit, an acknowledge slot, the register, an
  acknowledge slot, repeated start, the address with the read bit, an acknowledge slot, eight released
  clocks, a refusal, stop; no other start or stop occurs after the bus is idle. A slave that follows the
  protocol is seen to acknowledge all three bytes, and the value printed is the byte it sent. The other
  pins, their directions and the pad multiplexers are as before.
\<close>

theorem bitbang_reads:
  assumes "pins SCL SDA" "bb_trace b = []" "slave SCL SDA w ext" "bitbang_run ext addr reg SCL SDA b = (r, c)"
  shows "r = \<lparr>bo_val = w, bo_a1 = False, bo_a2 = False, bo_a3 = False\<rparr> \<and> keeps (SCL OR SDA) b c \<and> lines SCL SDA c = (True, True) \<and>
    (\<exists>pre. (pre = [] \<or> pre = [Stop]) \<and> evs SCL SDA c =
      pre @ [Start] @ byte_events (word_of_int (addr * 2)) @ [Bit True] @ byte_events (word_of_int reg) @ [Bit True] @
      [Bit True, Start] @ byte_events (word_of_int (addr * 2 + 1)) @ [Bit True] @
      replicate 8 (Bit True) @ [Bit True] @ [Bit False, Stop])"
proof -
  define b0 where "b0 = bb_rel SCL (b\<lparr>bb_mux0 := 3, bb_mux1 := 3\<rparr>)"
  define b1 where "b1 = bb_rel SDA b0"
  define b2 where "b2 = bb_start SCL SDA b1"
  define b3 where "b3 = snd (bb_wr ext SCL SDA (word_of_int (addr * 2)) b2)"
  define b4 where "b4 = snd (bb_wr ext SCL SDA (word_of_int reg) b3)"
  define b5 where "b5 = bb_start SCL SDA b4"
  define b6 where "b6 = snd (bb_wr ext SCL SDA (word_of_int (addr * 2 + 1)) b5)"
  define b7 where "b7 = snd (bb_rd ext SCL SDA True b6)"
  define b8 where "b8 = bb_stop SCL SDA b7"
  have run: "r = \<lparr>bo_val = fst (bb_rd ext SCL SDA True b6), bo_a1 = fst (bb_wr ext SCL SDA (word_of_int (addr * 2)) b2),
      bo_a2 = fst (bb_wr ext SCL SDA (word_of_int reg) b3), bo_a3 = fst (bb_wr ext SCL SDA (word_of_int (addr * 2 + 1)) b5)\<rparr>"
    "c = b8\<lparr>bb_mux0 := bb_mux0 b, bb_mux1 := bb_mux1 b\<rparr>"
    using assms(4) unfolding bitbang_run_def b0_def b1_def b2_def b3_def b4_def b5_def b6_def b7_def b8_def
    by (simp_all add: Let_def case_prod_beta)
  note p = assms(1)
  have s0: "settled b0" "evs SCL SDA b0 = []" "fst (lines SCL SDA b0) = True"
    using assms(2) by (simp_all add: b0_def pin_lines [OF p])
      (simp_all add: settled_def evs_def bb_rel_def settle_def)
  obtain pre where pre: "pre = [] \<or> pre = [Stop]" and 1: "shows_on SCL SDA b0 pre (True, True) b1"
    using shows_pin(4) [OF p s0(1), of True] s0(3) unfolding b1_def by (metis prod.collapse)
  have 2: "shows_on SCL SDA b1 [Start] (False, False) b2"
    using shows_start [OF p shows_settled [OF 1] shows_lines [OF 1]] by (simp add: b2_def)
  have 3: "shows_on SCL SDA b2 (byte_events (word_of_int (addr * 2)) @ [Bit True]) (False, True) b3"
    unfolding b3_def by (rule shows_wr [OF p shows_settled [OF 2] shows_lines [OF 2]])
  have 4: "shows_on SCL SDA b3 (byte_events (word_of_int reg) @ [Bit True]) (False, True) b4"
    unfolding b4_def by (rule shows_wr [OF p shows_settled [OF 3] shows_lines [OF 3]])
  have 5: "shows_on SCL SDA b4 [Bit True, Start] (False, False) b5"
    using shows_start [OF p shows_settled [OF 4] shows_lines [OF 4]] by (simp add: b5_def)
  have 6: "shows_on SCL SDA b5 (byte_events (word_of_int (addr * 2 + 1)) @ [Bit True]) (False, True) b6"
    unfolding b6_def by (rule shows_wr [OF p shows_settled [OF 5] shows_lines [OF 5]])
  have 7: "shows_on SCL SDA b6 (replicate 8 (Bit True) @ [Bit True]) (False, True) b7"
    unfolding b7_def by (rule shows_rd [OF p shows_settled [OF 6] shows_lines [OF 6]])
  have 8: "shows_on SCL SDA b7 [Bit False, Stop] (True, True) b8"
    unfolding b8_def by (rule shows_stop [OF p shows_settled [OF 7] shows_lines [OF 7]])
  have e: "evs SCL SDA b2 = pre @ [Start]"
    "evs SCL SDA b3 = (pre @ [Start]) @ byte_events (word_of_int (addr * 2)) @ [Bit True]"
    using s0(2) 1 2 3 by (simp_all add: shows_on_def)
  have e5: "evs SCL SDA b5 = (evs SCL SDA b4 @ [Bit True]) @ [Start]" and e6: "evs SCL SDA b6 = evs SCL SDA b5 @ byte_events (word_of_int (addr * 2 + 1)) @ [Bit True]"
    using 5 6 by (simp_all add: shows_on_def)
  have n: "since_start (evs SCL SDA b2) = 0" "since_start (evs SCL SDA b3) = 9" "since_start (evs SCL SDA b5) = 0"
      "since_start (evs SCL SDA b6) = 9"
    unfolding e6 e5 e by (simp_all add: since_Start since_bits byte_bits flip: append_assoc)
  have "\<not> bo_a1 r" "\<not> bo_a2 r" "\<not> bo_a3 r"
    unfolding run(1) using n wr_ack [OF p shows_settled [OF 2] shows_lines [OF 2] assms(3)]
      wr_ack [OF p shows_settled [OF 3] shows_lines [OF 3] assms(3)] wr_ack [OF p shows_settled [OF 5] shows_lines [OF 5] assms(3)]
    by simp_all
  moreover have "bo_val r = w"
  proof -
    have a: "shows_on SCL SDA b6 [] (False, True) (bb_rel SDA b6)"
      using shows_pin(4) [OF p shows_settled [OF 6] shows_lines [OF 6]] by simp
    have "fst (fold (rd_bit ext SCL SDA) (rev [0..<8]) (0, bb_rel SDA b6)) = 0 OR take_bit 8 w"
      using rd_value [OF p assms(3), of 8 "(0, bb_rel SDA b6)"] a n(4) by (simp add: shows_on_def)
    then show ?thesis unfolding run(1) by (simp add: bb_rd_def Let_def case_prod_beta take_bit_word_eq_self)
  qed
  moreover have "keeps (SCL OR SDA) b c"
  proof -
    have "keeps (SCL OR SDA) (b\<lparr>bb_mux0 := 3, bb_mux1 := 3\<rparr>) b8"
      unfolding b8_def b7_def b6_def b5_def b4_def b3_def b2_def b1_def b0_def
      by (intro ops_keep line_keeps leaves_refl)
    then show ?thesis unfolding run(2) by (simp add: keeps_def)
  qed
  moreover have "lines SCL SDA c = (True, True)" "evs SCL SDA c = evs SCL SDA b8"
    using shows_lines [OF 8] by (simp_all add: run(2) lines_def evs_def)
  moreover have "evs SCL SDA b8 = pre @ [Start] @ byte_events (word_of_int (addr * 2)) @ [Bit True] @ byte_events (word_of_int reg) @
      [Bit True] @ [Bit True, Start] @ byte_events (word_of_int (addr * 2 + 1)) @ [Bit True] @
      replicate 8 (Bit True) @ [Bit True] @ [Bit False, Stop]"
    using s0(2) 1 2 3 4 5 6 7 8 by (simp add: shows_on_def)
  ultimately show ?thesis using pre by (cases r) auto
qed

definition bb0 :: bb where
  "bb0 = \<lparr>bb_dr = 0xf0, bb_ddr = 0x84, bb_mux0 = 0, bb_mux1 = 0, bb_pad0 = 0, bb_pad1 = 0, bb_trace = []\<rparr>"

text \<open>The port with a slave that sends \<open>w\<close> on pin 2.\<close>

definition slave_port :: "u8 \<Rightarrow> (u32 \<times> u32) list \<Rightarrow> u32" where
  "slave_port w tr = (if slave_level w (since_start (i2c_events (map (\<lambda>r. (level 1 r, level 4 r)) tr))) then 4 else 0)"

theorem bitbang_reads_witness:
  "fst (bitbang_run (slave_port 0x12) 0x48 0 1 4 bb0) = \<lparr>bo_val = 0x12, bo_a1 = False, bo_a2 = False, bo_a3 = False\<rparr> \<and>
   keeps 5 bb0 (snd (bitbang_run (slave_port 0x12) 0x48 0 1 4 bb0))"
proof -
  have "pins 1 4" "bb_trace bb0 = []" by (simp_all add: pins_def bb0_def)
  moreover have "slave 1 4 0x12 (slave_port 0x12)" by (simp add: slave_def slave_port_def)
  ultimately show ?thesis
    using bitbang_reads [of 1 4 bb0 "0x12" "slave_port 0x12" "0x48" 0 "fst (bitbang_run (slave_port 0x12) 0x48 0 1 4 bb0)"
        "snd (bitbang_run (slave_port 0x12) 0x48 0 1 4 bb0)"] by simp
qed

end
