(* ===== verification/Bitio.thy ===== *)
theory Bitio
  imports Prelude
begin

text \<open>
  The bit writer of the decoder cube (\<open>coda-cube.c\<close>: \<open>BW\<close>, \<open>bw_u\<close>, \<open>bw_ue\<close>, \<open>bw_se\<close>,
  \<open>bw_trailing\<close>) and, as its specification, the bit reader of the H.264 syntax: fixed-length
  numbers, Exp-Golomb codes and byte alignment. \<open>bits\<close> is the abstraction, the bits written so far;
  \<open>emits f p x\<close> says that what \<open>f\<close> writes is read back by \<open>p\<close> as \<open>x\<close>, at whatever position of the
  stream. The locale \<open>codec\<close> is the contract of a writer and its reader, interpreted on each code.
\<close>

section \<open>The writer\<close>

text \<open>\<open>buf\<close> and \<open>len\<close> are the list of the bytes written; the caller's buffer is large enough.\<close>

record bw =
  bw_buf :: "u8 list"
  bw_acc :: u64
  bw_n :: nat

definition bw_new :: bw where
  "bw_new = \<lparr>bw_buf = [], bw_acc = 0, bw_n = 0\<rparr>"

function bw_flush :: "bw \<Rightarrow> bw" where
  "bw_flush b =
     (if 8 \<le> bw_n b then
        bw_flush (b\<lparr>bw_n := bw_n b - 8, bw_buf := bw_buf b @ [ucast (drop_bit (bw_n b - 8) (bw_acc b))]\<rparr>)
      else b)"
  by pat_completeness auto
termination by (relation "measure bw_n") auto

declare bw_flush.simps [simp del]

definition bw_u :: "nat \<Rightarrow> u32 \<Rightarrow> bw \<Rightarrow> bw" where
  "bw_u n v b =
     (let b1 = b\<lparr>bw_acc := push_bit n (bw_acc b) OR ucast (v AND (if n = 32 then 0xffffffff else push_bit n 1 - 1)),
                bw_n := bw_n b + n\<rparr>;
          b2 = bw_flush b1 in
      b2\<lparr>bw_acc := bw_acc b2 AND (push_bit (bw_n b2) 1 - 1)\<rparr>)"

text \<open>\<open>__builtin_clz\<close>: the zero bits above the highest one. C leaves it undefined at 0.\<close>

definition tbits :: "nat \<Rightarrow> 'a::len word \<Rightarrow> bool list" where
  "tbits n w = map (bit w) (rev [0..<n])"

definition builtin_clz :: "u32 \<Rightarrow> nat" where
  "builtin_clz x = length (takeWhile Not (tbits 32 x))"

definition bw_ue :: "u32 \<Rightarrow> bw \<Rightarrow> bw" where
  "bw_ue v b =
     (let x = v + 1; nb = 32 - builtin_clz x in
      if 2 * nb - 1 \<le> 32 then bw_u (2 * nb - 1) x b
      else bw_u nb x (bw_u (nb - 1) 0 b))"

definition bw_se :: "int \<Rightarrow> bw \<Rightarrow> bw" where
  "bw_se v b = bw_ue (word_of_int (if v > 0 then 2 * v - 1 else - 2 * v)) b"

definition bw_align :: "bw \<Rightarrow> bw" where
  "bw_align b = (if bw_n b \<noteq> 0 then bw_u (8 - bw_n b) 0 b else b)"

definition bw_trailing :: "bw \<Rightarrow> bw" where
  "bw_trailing b = bw_align (bw_u 1 1 b)"

section \<open>The bits written\<close>

definition byte_bits :: "u8 list \<Rightarrow> bool list" where
  "byte_bits bs = concat (map (tbits 8) bs)"

definition bits :: "bw \<Rightarrow> bool list" where
  "bits b = byte_bits (bw_buf b) @ tbits (bw_n b) (bw_acc b)"

definition bw_ok :: "bw \<Rightarrow> bool" where
  "bw_ok b \<longleftrightarrow> bw_n b < 8"

lemma tbits_length [simp]: "length (tbits n w) = n"
  by (simp add: tbits_def)

lemma tbits_0 [simp]: "tbits 0 w = []"
  by (simp add: tbits_def)

lemma tbits_Suc: "tbits (Suc n) w = bit w n # tbits n w"
  by (simp add: tbits_def)

lemma tbits_add: "tbits (m + n) w = tbits m (drop_bit n w) @ tbits n w"
  by (induction m) (simp_all add: tbits_Suc bit_simps add.commute)

lemma tbits_cong: "(\<And>i. i < n \<Longrightarrow> bit v i = bit w i) \<Longrightarrow> tbits n v = tbits n w"
  by (simp add: tbits_def)

lemma byte_bits_simps [simp]:
  "byte_bits [] = []" "byte_bits (x # xs) = tbits 8 x @ byte_bits xs" "byte_bits (xs @ ys) = byte_bits xs @ byte_bits ys"
  by (simp_all add: byte_bits_def)

lemma byte_bits_length [simp]: "length (byte_bits xs) = 8 * length xs"
  by (induction xs) simp_all

lemma bits_length: "length (bits b) = 8 * length (bw_buf b) + bw_n b"
  by (simp add: bits_def)

lemma bw_flush_bits: "bits (bw_flush b) = bits b \<and> bw_n (bw_flush b) < 8"
proof (induction b rule: bw_flush.induct)
  case (1 b)
  show ?case
  proof (cases "8 \<le> bw_n b")
    case True
    have "tbits (bw_n b) (bw_acc b) =
        tbits 8 (drop_bit (bw_n b - 8) (bw_acc b)) @ tbits (bw_n b - 8) (bw_acc b)"
      using tbits_add [of 8 "bw_n b - 8" "bw_acc b"] True by simp
    moreover have "tbits 8 (ucast (drop_bit (bw_n b - 8) (bw_acc b)) :: u8) = tbits 8 (drop_bit (bw_n b - 8) (bw_acc b))"
      by (rule tbits_cong) (simp add: bit_simps)
    ultimately show ?thesis
      using 1 True by (subst (1 2) bw_flush.simps) (simp add: bits_def)
  next
    case False
    then show ?thesis by (simp add: bw_flush.simps)
  qed
qed

lemma bit_ones: "bit (push_bit k 1 - 1 :: 'a::len word) i \<longleftrightarrow> i < k \<and> i < LENGTH('a)"
  by (auto simp: push_bit_eq_mult bit_simps simp flip: mask_eq_exp_minus_1)

lemma bw_u_bits:
  assumes "bw_ok b" and "n \<le> 32"
  shows "bits (bw_u n v b) = bits b @ tbits n v \<and> bw_ok (bw_u n v b)"
proof -
  define acc where "acc = push_bit n (bw_acc b) OR ucast (v AND (if n = 32 then 0xffffffff else push_bit n 1 - 1))"
  define b2 where "b2 = bw_flush (b\<lparr>bw_acc := acc, bw_n := bw_n b + n\<rparr>)"
  have ones: "bit (if n = 32 then 0xffffffff else push_bit n 1 - 1 :: u32) i \<longleftrightarrow> i < n" for i
  proof -
    have "(if n = 32 then 0xffffffff else push_bit n 1 - 1 :: u32) = push_bit n 1 - 1" by simp
    then show ?thesis using assms(2) bit_ones [of n i, where ?'a = 32] by auto
  qed
  have lo: "bit acc i = bit v i" if "i < n" for i
    using that assms(2) unfolding acc_def bit_or_iff bit_push_bit_iff bit_unsigned_iff bit_and_iff ones by auto
  have hi: "bit (drop_bit n acc) i = bit (bw_acc b) i" if "i < bw_n b" for i
  proof -
    have "n + i < 64" using that assms by (simp add: bw_ok_def)
    then show ?thesis
      unfolding acc_def bit_drop_bit_eq o_def bit_or_iff bit_push_bit_iff bit_unsigned_iff bit_and_iff ones by simp
  qed
  have "tbits (bw_n b + n) acc = tbits (bw_n b) (bw_acc b) @ tbits n v"
    unfolding tbits_add using tbits_cong [OF hi, of "bw_n b"] tbits_cong [OF lo, of n] by simp
  then have "bits b2 = bits b @ tbits n v" "bw_n b2 < 8"
    using bw_flush_bits [of "b\<lparr>bw_acc := acc, bw_n := bw_n b + n\<rparr>"] by (simp_all add: b2_def bits_def)
  moreover have "tbits (bw_n b2) (bw_acc b2 AND (push_bit (bw_n b2) 1 - 1)) = tbits (bw_n b2) (bw_acc b2)"
    by (rule tbits_cong) (metis bit_and_iff bit_ones bit_imp_le_length linorder_not_less)
  ultimately show ?thesis
    by (simp add: bw_u_def Let_def bits_def bw_ok_def flip: acc_def b2_def)
qed

section \<open>The reader\<close>

text \<open>
  The reading position is the number of bits consumed and the bits left. \<open>rd_u\<close>, \<open>rd_ue\<close> and \<open>rd_se\<close>
  are the descriptors \<open>u(n)\<close>, \<open>ue(v)\<close> and \<open>se(v)\<close> of the standard (7.2, 9.1, 9.1.1); \<open>rd_align\<close> reads
  alignment bits and \<open>rd_bytes\<close> whole bytes.
\<close>

type_synonym 'a reader = "nat \<times> bool list \<Rightarrow> ('a \<times> nat \<times> bool list) option"

definition rd_ret :: "'a \<Rightarrow> 'a reader" where
  "rd_ret x s = Some (x, s)"

definition rd_bind :: "'a reader \<Rightarrow> ('a \<Rightarrow> 'b reader) \<Rightarrow> 'b reader" where
  "rd_bind p q s = (case p s of None \<Rightarrow> None | Some (x, t) \<Rightarrow> q x t)"

definition of_bits :: "bool list \<Rightarrow> nat" where
  "of_bits bs = foldl (\<lambda>a c. 2 * a + of_bool c) 0 bs"

fun rd_u :: "nat \<Rightarrow> nat reader" where
  "rd_u n (pos, bs) = (if n \<le> length bs then Some (of_bits (take n bs), pos + n, drop n bs) else None)"

fun rd_ue :: "nat reader" where
  "rd_ue (pos, bs) =
     (let z = length (takeWhile Not bs) in
      if 2 * z + 1 \<le> length bs then Some (of_bits (take (z + 1) (drop z bs)) - 1, pos + (2 * z + 1), drop (2 * z + 1) bs)
      else None)"

definition se_of :: "nat \<Rightarrow> int" where
  "se_of k = (if odd k then int (k div 2 + 1) else - int (k div 2))"

definition rd_se :: "int reader" where
  "rd_se = rd_bind rd_ue (\<lambda>k. rd_ret (se_of k))"

fun rd_align :: "unit reader" where
  "rd_align (pos, bs) =
     (let k = (8 - pos mod 8) mod 8 in if k \<le> length bs then Some ((), pos + k, drop k bs) else None)"

fun rd_list :: "nat \<Rightarrow> 'a reader \<Rightarrow> 'a list reader" where
  "rd_list 0 p = rd_ret []"
| "rd_list (Suc n) p = rd_bind p (\<lambda>x. rd_bind (rd_list n p) (\<lambda>xs. rd_ret (x # xs)))"

definition rd_byte :: "u8 reader" where
  "rd_byte = rd_bind (rd_u 8) (\<lambda>k. rd_ret (word_of_nat k))"

section \<open>What is written is read back\<close>

definition emits :: "(bw \<Rightarrow> bw) \<Rightarrow> 'a reader \<Rightarrow> 'a \<Rightarrow> bool" where
  "emits f p x \<longleftrightarrow> (\<forall>b. bw_ok b \<longrightarrow> bw_ok (f b) \<and>
     (\<exists>bs. bits (f b) = bits b @ bs \<and>
       (\<forall>rest. p (length (bits b), bs @ rest) = Some (x, length (bits (f b)), rest))))"

lemma emitsI:
  "(\<And>b. bw_ok b \<Longrightarrow> bw_ok (f b) \<and> bits (f b) = bits b @ bs b) \<Longrightarrow>
   (\<And>b rest. bw_ok b \<Longrightarrow> p (length (bits b), bs b @ rest) = Some (x, length (bits b) + length (bs b), rest)) \<Longrightarrow>
   emits f p x"
  unfolding emits_def by fastforce

lemma emits_ret: "emits (\<lambda>b. b) (rd_ret x) x"
  by (simp add: emits_def rd_ret_def)

lemma emits_bind:
  assumes "emits f p x" and "emits g (q x) y"
  shows "emits (\<lambda>b. g (f b)) (rd_bind p q) y"
  unfolding emits_def
proof (intro allI impI)
  fix b assume b: "bw_ok b"
  obtain bs where f: "bw_ok (f b)" "bits (f b) = bits b @ bs"
      "\<And>rest. p (length (bits b), bs @ rest) = Some (x, length (bits (f b)), rest)"
    using assms(1) b unfolding emits_def by blast
  obtain cs where g: "bw_ok (g (f b))" "bits (g (f b)) = bits (f b) @ cs"
      "\<And>rest. q x (length (bits (f b)), cs @ rest) = Some (y, length (bits (g (f b))), rest)"
    using assms(2) f(1) unfolding emits_def by blast
  show "bw_ok (g (f b)) \<and> (\<exists>bs. bits (g (f b)) = bits b @ bs \<and>
      (\<forall>rest. rd_bind p q (length (bits b), bs @ rest) = Some (y, length (bits (g (f b))), rest)))"
    using f g by (intro conjI exI [of _ "bs @ cs"]) (simp_all add: rd_bind_def)
qed

lemma emits_map: "emits f p x \<Longrightarrow> emits f (rd_bind p (\<lambda>x. rd_ret (h x))) (h x)"
  using emits_bind [OF _ emits_ret] by fastforce

lemma of_bits_Cons: "of_bits (c # bs) = of_bool c * 2 ^ length bs + of_bits bs"
proof -
  have "foldl (\<lambda>a c. 2 * a + of_bool c) k bs = k * 2 ^ length bs + foldl (\<lambda>a c. 2 * a + of_bool c) 0 bs" for k :: nat
    by (induction bs rule: rev_induct) (simp_all add: algebra_simps)
  from this [of "of_bool c"] show ?thesis by (simp add: of_bits_def)
qed

lemma of_bits_tbits: "of_bits (tbits n w) = unat (take_bit n w)"
proof (induction n)
  case (Suc n)
  have "bit w n = bit (unat w) n" by (auto simp: bit_unsigned_iff dest: bit_imp_le_length)
  then show ?case
    using Suc by (simp add: tbits_Suc of_bits_Cons take_bit_Suc_from_most unsigned_take_bit_eq)
qed (simp add: of_bits_def)

lemma emits_u: "n \<le> 32 \<Longrightarrow> emits (bw_u n v) (rd_u n) (unat (take_bit n v))"
  by (rule emitsI [where bs = "\<lambda>_. tbits n v"]) (simp_all add: bw_u_bits of_bits_tbits)

text \<open>Exp-Golomb codes: \<open>k\<close> zeros, then the \<open>k + 1\<close> bits of the value plus one.\<close>

lemma takeWhile_replicate: "takeWhile Not bs = replicate (length (takeWhile Not bs)) False"
  by (metis (full_types) replicate_eqI set_takeWhileD)

lemma tbits_zero [simp]: "tbits n 0 = replicate n False"
  by (induction n) (simp_all add: tbits_Suc)

lemma clz_top:
  fixes x :: u32
  assumes "x \<noteq> 0"
  obtains k where "32 - builtin_clz x = Suc k" "k < 32" "bit x k" "\<And>i. k < i \<Longrightarrow> \<not> bit x i"
proof -
  define z where "z = builtin_clz x"
  have "\<exists>c \<in> set (tbits 32 x). c"
    using assms by (fastforce simp: tbits_def bit_eq_iff dest: bit_imp_le_length)
  then have "takeWhile Not (tbits 32 x) \<noteq> tbits 32 x" by (auto simp: takeWhile_eq_all_conv)
  then have "length (takeWhile Not (tbits 32 x)) < length (tbits 32 x)"
    by (metis length_takeWhile_le le_neq_implies_less takeWhile_eq_take take_all_iff)
  then have z: "z < 32" and top: "tbits 32 x ! z"
    using nth_length_takeWhile [of Not "tbits 32 x"] by (simp_all add: z_def builtin_clz_def)
  have nth: "tbits 32 x ! j = bit x (31 - j)" if "j < 32" for j
    using that by (simp add: tbits_def rev_nth)
  show thesis
  proof
    show "32 - builtin_clz x = Suc (31 - z)" "31 - z < 32" using z by (simp_all add: z_def)
    show "bit x (31 - z)" using top nth z by simp
    fix i assume i: "31 - z < i"
    show "\<not> bit x i"
    proof (cases "i < 32")
      case True
      then have "31 - i < z" using i z by linarith
      then have "\<not> tbits 32 x ! (31 - i)"
        using takeWhile_nth [of "31 - i" Not "tbits 32 x"] nth_mem [of "31 - i" "takeWhile Not (tbits 32 x)"]
        by (auto simp: z_def builtin_clz_def dest: set_takeWhileD)
      then show ?thesis using nth [of "31 - i"] True i by auto
    qed (auto dest: bit_imp_le_length)
  qed
qed

lemma bw_ue_bits:
  assumes "v \<noteq> - 1"
  obtains k where "\<And>b. bw_ok b \<Longrightarrow> bits (bw_ue v b) = bits b @ replicate k False @ tbits (Suc k) (v + 1) \<and> bw_ok (bw_ue v b)"
    "bit (v + 1) k" "take_bit (Suc k) (v + 1) = v + 1"
proof -
  have "v + 1 \<noteq> 0" using assms by (metis add.commute add_eq_0_iff)
  from clz_top [OF this] obtain k where k: "32 - builtin_clz (v + 1) = Suc k" "k < 32" "bit (v + 1) k"
      and hi: "\<And>i. k < i \<Longrightarrow> \<not> bit (v + 1) i" by metis
  have "tbits k (drop_bit (Suc k) (v + 1)) = tbits k (0 :: u32)"
    by (rule tbits_cong) (simp add: bit_drop_bit_eq hi)
  then have z: "tbits (k + Suc k) (v + 1) = replicate k False @ tbits (Suc k) (v + 1)"
    unfolding tbits_add by simp
  have s: "2 * Suc k - 1 = k + Suc k" by simp
  have eq: "bw_ue v b = (if k + Suc k \<le> 32 then bw_u (k + Suc k) (v + 1) b else bw_u (Suc k) (v + 1) (bw_u k 0 b))" for b
    unfolding bw_ue_def Let_def k(1) s by simp
  show thesis
  proof (rule that [of k])
    fix b assume b: "bw_ok b"
    show "bits (bw_ue v b) = bits b @ replicate k False @ tbits (Suc k) (v + 1) \<and> bw_ok (bw_ue v b)"
    proof (cases "k + Suc k \<le> 32")
      case True
      then show ?thesis using bw_u_bits [OF b True, of "v + 1"] unfolding z eq by simp
    next
      case False
      then show ?thesis
        using k(2) bw_u_bits [OF b, of k 0] bw_u_bits [of "bw_u k 0 b" "Suc k" "v + 1"] by (simp add: eq)
    qed
  next
    show "bit (v + 1) k" by (rule k)
    show "take_bit (Suc k) (v + 1) = v + 1"
      by (rule bit_eqI) (metis bit_take_bit_iff hi not_less_eq)
  qed
qed

lemma emits_ue:
  assumes "v \<noteq> - 1"
  shows "emits (bw_ue v) rd_ue (unat v)"
proof -
  obtain k where k: "\<And>b. bw_ok b \<Longrightarrow> bits (bw_ue v b) = bits b @ replicate k False @ tbits (Suc k) (v + 1) \<and> bw_ok (bw_ue v b)"
    and t: "bit (v + 1) k" "take_bit (Suc k) (v + 1) = v + 1"
    using bw_ue_bits [OF assms] by metis
  have v: "unat (v + 1) - 1 = unat v"
    using assms by (metis add.commute add_diff_cancel_left' plus_1_eq_Suc unatSuc eq_neg_iff_add_eq_0)
  show ?thesis
  proof (rule emitsI [where bs = "\<lambda>_. replicate k False @ tbits (Suc k) (v + 1)"])
    fix b rest assume "bw_ok b"
    have z: "length (takeWhile Not (replicate k False @ tbits (Suc k) (v + 1) @ rest)) = k"
      using t(1) by (simp add: tbits_Suc takeWhile_append)
    have "take (k + 1) (drop k (replicate k False @ tbits (Suc k) (v + 1) @ rest)) = tbits (Suc k) (v + 1)" by simp
    then show "rd_ue (length (bits b), (replicate k False @ tbits (Suc k) (v + 1)) @ rest) =
        Some (unat v, length (bits b) + length (replicate k False @ tbits (Suc k) (v + 1)), rest)"
      using z v t(2) by (simp add: Let_def of_bits_tbits)
  qed (use k in simp)
qed

lemma emits_se:
  assumes "\<bar>v\<bar> < 2 ^ 30"
  shows "emits (bw_se v) rd_se v"
proof -
  define k where "k = nat (if v > 0 then 2 * v - 1 else - 2 * v)"
  have k: "k < 2 ^ 31" using assms by (auto simp: k_def)
  have w: "word_of_int (if v > 0 then 2 * v - 1 else - 2 * v) = (word_of_nat k :: u32)"
    by (simp add: k_def)
  have u: "unat (word_of_nat k :: u32) = k" using k by (simp add: unat_word_of_nat)
  then have "(word_of_nat k :: u32) \<noteq> - 1" using k by (auto simp: unsigned_minus_1_eq_mask mask_eq_exp_minus_1)
  from emits_map [OF emits_ue [OF this], of se_of] have "emits (bw_ue (word_of_nat k)) rd_se (se_of k)"
    unfolding rd_se_def u .
  moreover have "se_of k = v"
    by (cases "v > 0") (auto simp: se_of_def k_def nat_mult_distrib nat_diff_distrib even_nat_iff)
  moreover have "bw_se v = bw_ue (word_of_nat k)"
    using w by (simp add: bw_se_def fun_eq_iff)
  ultimately show ?thesis by simp
qed

text \<open>Alignment and raw bytes, as in an I_PCM macroblock.\<close>

definition bw_bytes :: "u8 list \<Rightarrow> bw \<Rightarrow> bw" where
  "bw_bytes xs b = b\<lparr>bw_buf := bw_buf b @ xs\<rparr>"

lemma bw_align_bits:
  assumes "bw_ok b"
  shows "bits (bw_align b) = bits b @ replicate ((8 - bw_n b) mod 8) False \<and> bw_ok (bw_align b) \<and> bw_n (bw_align b) = 0"
proof (cases "bw_n b = 0")
  case False
  let ?c = "bw_u (8 - bw_n b) 0 b"
  have c: "bits ?c = bits b @ replicate (8 - bw_n b) False \<and> bw_ok ?c"
    using bw_u_bits [OF assms, of "8 - bw_n b" 0] by simp
  then have "8 * length (bw_buf ?c) + bw_n ?c = 8 * length (bw_buf b) + 8"
    using assms bits_length [of ?c] bits_length [of b] by (simp add: bw_ok_def)
  then have "bw_n ?c mod 8 = 0" by presburger
  then have "bw_n ?c = 0" using c by (simp add: bw_ok_def)
  then show ?thesis using c False assms by (simp add: bw_align_def)
qed (use assms in \<open>simp add: bw_align_def\<close>)

lemma bits_pos: "bw_ok b \<Longrightarrow> length (bits b) mod 8 = bw_n b"
  by (simp add: bits_length bw_ok_def)

lemma emits_align: "emits bw_align rd_align ()"
  by (rule emitsI [where bs = "\<lambda>b. replicate ((8 - bw_n b) mod 8) False"]) (simp_all add: bw_align_bits bits_pos Let_def)

lemma rd_byte_read: "rd_byte (pos, tbits 8 x @ rest) = Some (x, pos + 8, rest)"
  by (simp add: rd_byte_def rd_bind_def rd_ret_def of_bits_tbits take_bit_word_eq_self)

lemma rd_bytes_read: "rd_list (length xs) rd_byte (pos, byte_bits xs @ rest) = Some (xs, pos + 8 * length xs, rest)"
  by (induction xs arbitrary: pos) (simp_all add: rd_ret_def rd_bind_def rd_byte_read)

text \<open>Aligning first, the bytes are copied behind the bits written.\<close>

lemma emits_raw:
  "emits (\<lambda>b. bw_bytes xs (bw_align b)) (rd_bind rd_align (\<lambda>_. rd_list (length xs) rd_byte)) xs"
proof (rule emitsI [where bs = "\<lambda>b. replicate ((8 - bw_n b) mod 8) False @ byte_bits xs"])
  fix b assume b: "bw_ok b"
  let ?a = "bw_align b"
  have a: "bits ?a = bits b @ replicate ((8 - bw_n b) mod 8) False" "bw_n ?a = 0"
    using bw_align_bits [OF b] by simp_all
  then show "bw_ok (bw_bytes xs ?a) \<and> bits (bw_bytes xs ?a) = bits b @ replicate ((8 - bw_n b) mod 8) False @ byte_bits xs"
    by (simp add: bw_bytes_def bits_def bw_ok_def)
next
  fix b rest assume b: "bw_ok b"
  show "rd_bind rd_align (\<lambda>_. rd_list (length xs) rd_byte)
      (length (bits b), (replicate ((8 - bw_n b) mod 8) False @ byte_bits xs) @ rest) =
    Some (xs, length (bits b) + length (replicate ((8 - bw_n b) mod 8) False @ byte_bits xs), rest)"
    using bits_pos [OF b] by (simp add: rd_bind_def Let_def rd_bytes_read ac_simps)
qed

text \<open>The trailing bits: a one and zeros up to the next byte. They end the payload.\<close>

lemma bw_trailing_bits:
  assumes "bw_ok b"
  shows "\<exists>j. byte_bits (bw_buf (bw_trailing b)) = bits b @ True # replicate j False"
proof -
  let ?c = "bw_u 1 1 b"
  have c: "bits ?c = bits b @ [True]" "bw_ok ?c"
    using bw_u_bits [OF assms, of 1 1] by (simp_all add: tbits_Suc)
  have "bits (bw_trailing b) = bits ?c @ replicate ((8 - bw_n ?c) mod 8) False" "bw_n (bw_trailing b) = 0"
    using bw_align_bits [OF c(2)] by (simp_all add: bw_trailing_def)
  then show ?thesis using c(1) by (auto simp: bits_def [of "bw_trailing b"])
qed

text \<open>A list of values, written one after the other and read with its length known.\<close>

lemma emits_fold:
  "(\<And>x. x \<in> set xs \<Longrightarrow> emits (wr x) rd (val x)) \<Longrightarrow> emits (fold wr xs) (rd_list (length xs) rd) (map val xs)"
proof (induction xs)
  case Nil
  then show ?case using emits_ret by (simp add: id_def)
next
  case (Cons x xs)
  have "emits (\<lambda>b. fold wr xs (wr x b)) (rd_list (length (x # xs)) rd) (map val (x # xs))"
    unfolding list.size(4) add_0_right add_Suc_right One_nat_def rd_list.simps list.map
    by (rule emits_bind [where q = "\<lambda>y. rd_bind (rd_list (length xs) rd) (\<lambda>ys. rd_ret (y # ys))"])
      (use Cons in \<open>auto intro: emits_map\<close>)
  then show ?case by (simp add: comp_def)
qed

section \<open>Codes\<close>

text \<open>
  A code is a writer with its reader. The list of a code is written element by element and read with
  its length known.
\<close>

locale codec =
  fixes wr :: "'a \<Rightarrow> bw \<Rightarrow> bw" and rd :: "'a reader" and ok :: "'a \<Rightarrow> bool"
  assumes emits_one: "ok x \<Longrightarrow> emits (wr x) rd x"
begin

lemma emits_list: "(\<And>x. x \<in> set xs \<Longrightarrow> ok x) \<Longrightarrow> emits (fold wr xs) (rd_list (length xs) rd) xs"
  using emits_fold [of xs wr rd "\<lambda>x. x"] emits_one by simp

lemma emits_then: "ok x \<Longrightarrow> emits g (q x) y \<Longrightarrow> emits (\<lambda>b. g (wr x b)) (rd_bind rd q) y"
  by (rule emits_bind [OF emits_one])

end

interpretation ue: codec "\<lambda>k. bw_ue (word_of_nat k)" rd_ue "\<lambda>k. k < 2 ^ 32 - 1"
proof
  fix k :: nat assume k: "k < 2 ^ 32 - 1"
  then have u: "unat (word_of_nat k :: u32) = k" by (simp add: unat_word_of_nat)
  then have "(word_of_nat k :: u32) \<noteq> - 1" using k by (auto simp: unsigned_minus_1_eq_mask mask_eq_exp_minus_1)
  from emits_ue [OF this] show "emits (bw_ue (word_of_nat k)) rd_ue k" unfolding u .
qed

interpretation se: codec bw_se rd_se "\<lambda>v. \<bar>v\<bar> < 2 ^ 30"
  by unfold_locales (rule emits_se)

interpretation fixed: codec "\<lambda>k. bw_u 16 (word_of_nat k)" "rd_u 16" "\<lambda>k. k < 2 ^ 16"
proof
  fix k :: nat assume k: "k < 2 ^ 16"
  then have "unat (take_bit 16 (word_of_nat k :: u32)) = k"
    by (simp add: unsigned_take_bit_eq unat_word_of_nat take_bit_nat_eq_self)
  then show "emits (bw_u 16 (word_of_nat k)) (rd_u 16) k"
    using emits_u [of 16 "word_of_nat k"] by simp
qed

interpretation flag: codec "\<lambda>k. bw_u 1 (of_bool k)" "rd_bind (rd_u 1) (\<lambda>k. rd_ret (k = 1))" "\<lambda>_. True"
proof
  fix k
  have "unat (take_bit 1 (of_bool k :: u32)) = of_bool k" by (cases k) simp_all
  then show "emits (bw_u 1 (of_bool k)) (rd_bind (rd_u 1) (\<lambda>k. rd_ret (k = 1))) k"
    using emits_map [OF emits_u [of 1 "of_bool k"], of "\<lambda>k. k = 1"] by (cases k) simp_all
qed

lemma rd_ue_Nil: "rd_ue (pos, []) = None"
  by simp

lemma emitsE:
  assumes "emits f p x" and "bw_ok b"
  obtains bs where "bw_ok (f b)" "bits (f b) = bits b @ bs"
    "\<And>rest. p (length (bits b), bs @ rest) = Some (x, length (bits (f b)), rest)"
  using assms unfolding emits_def by blast

declare rd_u.simps [simp del] rd_ue.simps [simp del] rd_align.simps [simp del]

end
