(* ===== verification/Pframe.thy ===== *)
theory Pframe
  imports Bitio
begin

text \<open>
  The P-picture generator of the decoder cube (\<open>coda-cube.c\<close>: motion-vector prediction, the
  reference list and \<open>encode_frame\<close>). The floating-point scene is an argument: which face, texel
  and atlas page a block sees (\<open>block_hit\<close>), the motion vector of a texel (\<open>mv_for\<close>), the light of
  a face as a weight, the edge macroblocks and their anti-aliased samples. An index the code would
  read out of range makes the result \<open>None\<close>.
\<close>

type_synonym s16 = "16 word"
type_synonym s8 = "8 word"

section \<open>Neighbours and motion-vector prediction\<close>

text \<open>Per 4x4 block: decoded, reference index (-1 for an intra macroblock), motion vector.\<close>

record nbst =
  sref :: "nat \<Rightarrow> s8"
  smv :: "nat \<Rightarrow> s16 \<times> s16"
  sdone :: "nat \<Rightarrow> bool"

type_synonym nbr = "bool \<times> int \<times> int \<times> int"

definition nb :: "nat \<Rightarrow> nat \<Rightarrow> nbst \<Rightarrow> int \<Rightarrow> int \<Rightarrow> nbr" where
  "nb W4 H4 s x y =
     (if x < 0 \<or> y < 0 \<or> x \<ge> int W4 \<or> y \<ge> int H4 \<or> \<not> sdone s (nat (y * int W4 + x)) then (False, - 1, 0, 0)
      else let i = nat (y * int W4 + x) in (True, sint (sref s i), sint (fst (smv s i)), sint (snd (smv s i))))"

definition med :: "int \<Rightarrow> int \<Rightarrow> int \<Rightarrow> int" where
  "med a b c =
     (let (a, b) = (if a > b then (b, a) else (a, b)); b = (if b > c then c else b) in if a > b then a else b)"

text \<open>From the neighbours A (left), B (above) and C (above right, or above left without it).\<close>

definition mvp_from :: "nbr \<Rightarrow> nbr \<Rightarrow> nbr \<Rightarrow> int \<Rightarrow> int \<times> int" where
  "mvp_from na nB nc r =
     (let (A, ra, ax, ay) = na; (B, rb, bx, by') = nB; (C, rc, cx, cy) = nc;
          (rb, bx, by', rc, cx, cy) =
            (if \<not> B \<and> \<not> C \<and> A then (ra, ax, ay, ra, ax, ay) else (rb, bx, by', rc, cx, cy));
          n = of_bool (ra = r) + of_bool (rb = r) + of_bool (rc = r) :: nat in
      if n = 1 then (if ra = r then (ax, ay) else if rb = r then (bx, by') else (cx, cy))
      else (med ax bx cx, med ay by' cy))"

definition mvp :: "nat \<Rightarrow> nat \<Rightarrow> nbst \<Rightarrow> int \<Rightarrow> int \<Rightarrow> int \<Rightarrow> int \<Rightarrow> int \<times> int" where
  "mvp W4 H4 s x y w r =
     mvp_from (nb W4 H4 s (x - 1) y) (nb W4 H4 s x (y - 1))
       (let C = nb W4 H4 s (x + w) (y - 1) in if \<not> fst C then nb W4 H4 s (x - 1) (y - 1) else C) r"

definition pskip_mv :: "nat \<Rightarrow> nat \<Rightarrow> nbst \<Rightarrow> int \<Rightarrow> int \<Rightarrow> int \<times> int" where
  "pskip_mv W4 H4 s x y =
     (let (A, ra, ax, ay) = nb W4 H4 s (x - 1) y; (B, rb, bx, by') = nb W4 H4 s x (y - 1) in
      if \<not> A \<or> \<not> B \<or> (ra = 0 \<and> ax = 0 \<and> ay = 0) \<or> (rb = 0 \<and> bx = 0 \<and> by' = 0) then (0, 0)
      else mvp W4 H4 s x y 4 0)"

definition setcell :: "int \<Rightarrow> int \<times> int \<Rightarrow> nat \<Rightarrow> nbst \<Rightarrow> nbst" where
  "setcell r mv k s = s\<lparr>sref := (sref s)(k := word_of_int r),
     smv := (smv s)(k := (word_of_int (fst mv), word_of_int (snd mv))), sdone := (sdone s)(k := True)\<rparr>"

text \<open>\<open>setmb\<close> fills four cells of four rows, \<open>setblk\<close> any block.\<close>

definition setmb :: "nat \<Rightarrow> nat \<Rightarrow> nat \<Rightarrow> int \<Rightarrow> int \<times> int \<Rightarrow> nbst \<Rightarrow> nbst" where
  "setmb W4 x y r mv s =
     fold (\<lambda>j s. let k = j * W4 + x in
       setcell r mv (k + 3) (setcell r mv (k + 2) (setcell r mv (k + 1) (setcell r mv k s)))) [y..<y + 4] s"

definition setblk :: "nat \<Rightarrow> nat \<Rightarrow> nat \<Rightarrow> nat \<Rightarrow> nat \<Rightarrow> int \<Rightarrow> int \<times> int \<Rightarrow> nbst \<Rightarrow> nbst" where
  "setblk W4 x y w h r mv s =
     fold (\<lambda>j. fold (\<lambda>i. setcell r mv (j * W4 + i)) [x..<x + w]) [y..<y + h] s"

section \<open>Configuration, scene and picture state\<close>

record cube =
  WMB :: nat
  HMB :: nat
  PART :: nat
  K :: nat
  BLACKX :: int
  BLACKY :: int
  g_aa :: bool
  g_pcm_test :: bool
  g_dbk :: bool
  g_qp :: int
  g_abo :: int

record 't scene =
  nlist :: "nat \<Rightarrow> nat"
  block_hit :: "nat \<Rightarrow> nat \<Rightarrow> nat \<Rightarrow> (nat \<times> 't \<times> nat) option"
  mv_for :: "nat \<Rightarrow> nat \<Rightarrow> 't \<Rightarrow> nat \<Rightarrow> nat \<Rightarrow> nat \<Rightarrow> int \<times> int"
  weight :: "nat \<Rightarrow> int"
  g_edge :: "nat \<Rightarrow> bool"
  aa_mb :: "nat \<Rightarrow> u8 list"

record part =
  pt_x :: int
  pt_y :: int
  pt_w :: int
  pt_h :: int
  pt_ref :: int
  pt_mvx :: int
  pt_mvy :: int

text \<open>
  What both sides keep while they go through a picture: the neighbour state, the partitions and the
  samples of the I_PCM macroblocks (\<open>g_pcmstore\<close>).
\<close>

record pic =
  p_nb :: nbst
  p_parts :: "part list"
  p_pcm :: "(nat \<times> u8 list) list"

definition W4 :: "cube \<Rightarrow> nat" where
  "W4 c = WMB c * 4"

definition H4 :: "cube \<Rightarrow> nat" where
  "H4 c = HMB c * 4"

section \<open>Visibility and the reference list\<close>

definition MAXREF :: nat where
  "MAXREF = 16"

definition nblk :: "cube \<Rightarrow> nat" where
  "nblk c = (if PART c = 4 then 16 else if PART c = 8 then 4 else 1)"

definition blk_x :: "cube \<Rightarrow> nat \<Rightarrow> nat \<Rightarrow> nat" where
  "blk_x c m q = (m mod WMB c) * 16 +
     (if PART c = 4 then (q div 4 mod 2) * 8 + (q mod 2) * 4 else if PART c = 8 then (q mod 2) * 8 else 0)"

definition blk_y :: "cube \<Rightarrow> nat \<Rightarrow> nat \<Rightarrow> nat" where
  "blk_y c m q = (m div WMB c) * 16 +
     (if PART c = 4 then (q div 4 div 2) * 8 + (q div 2 mod 2) * 4 else if PART c = 8 then (q div 2) * 8 else 0)"

text \<open>Pass 1: face, texel and page of each block, nothing where no triangle is binned.\<close>

definition vis :: "cube \<Rightarrow> 't scene \<Rightarrow> nat \<Rightarrow> nat \<Rightarrow> (nat \<times> 't \<times> nat) option" where
  "vis c sc m q =
     (if nlist sc m = 0 then None
      else block_hit sc m (blk_x c m q + PART c div 2) (blk_y c m q + PART c div 2))"

definition used_pairs :: "cube \<Rightarrow> 't scene \<Rightarrow> (nat \<times> nat) list" where
  "used_pairs c sc = concat (map (\<lambda>m. List.map_filter (\<lambda>q. map_option (\<lambda>(f, t, k). (f, k)) (vis c sc m q)) [0..<nblk c])
     [0..<WMB c * HMB c])"

definition hist :: "cube \<Rightarrow> 't scene \<Rightarrow> nat \<times> nat \<Rightarrow> nat" where
  "hist c sc p = length (filter (\<lambda>p'. p' = p) (used_pairs c sc))"

text \<open>The reference list: entry 0 is the black page, entry \<open>i + 1\<close> the pair \<open>refs ! i\<close>.\<close>

definition pick :: "cube \<Rightarrow> (nat \<times> nat \<Rightarrow> nat) \<Rightarrow> (nat \<times> nat) list \<Rightarrow> (nat \<times> nat) option" where
  "pick c h refs = snd (fold (\<lambda>p (bc, best). if p \<notin> set refs \<and> h p > bc then (h p, Some p) else (bc, best))
     (List.product [0..<6] [0..<K c]) (0, None))"

fun ref_loop :: "cube \<Rightarrow> (nat \<times> nat \<Rightarrow> nat) \<Rightarrow> nat \<Rightarrow> (nat \<times> nat) list \<Rightarrow> (nat \<times> nat) list" where
  "ref_loop c h 0 refs = refs"
| "ref_loop c h (Suc n) refs = (case pick c h refs of None \<Rightarrow> refs | Some p \<Rightarrow> ref_loop c h n (refs @ [p]))"

definition ref_list :: "cube \<Rightarrow> 't scene \<Rightarrow> (nat \<times> nat) list" where
  "ref_list c sc = ref_loop c (hist c sc) (MAXREF - 1) []"

definition NREF :: "(nat \<times> nat) list \<Rightarrow> nat" where
  "NREF refs = length refs + 1"

definition REFPAGE :: "(nat \<times> nat) list \<Rightarrow> nat list" where
  "REFPAGE refs = 0 # map (\<lambda>(f, k). 1 + k) refs"

definition ent :: "(nat \<times> nat) list \<Rightarrow> nat \<Rightarrow> nat \<Rightarrow> nat option" where
  "ent refs f k = (if (f, k) \<in> set refs then Some (length (takeWhile (\<lambda>p. p \<noteq> (f, k)) refs) + 1) else None)"

definition circd :: "cube \<Rightarrow> nat \<Rightarrow> nat \<Rightarrow> nat" where
  "circd c a b = (let d = nat \<bar>int a - int b\<bar> mod K c in if d < K c - d then d else K c - d)"

text \<open>The page a block ends with: its own if it has an entry, otherwise the nearest of its face.\<close>

definition nearest :: "cube \<Rightarrow> (nat \<times> nat) list \<Rightarrow> nat \<Rightarrow> nat \<Rightarrow> nat option" where
  "nearest c refs f k0 = fold (\<lambda>k best.
     if ent refs f k \<noteq> None \<and> (case best of None \<Rightarrow> True | Some b \<Rightarrow> circd c k k0 < circd c b k0) then Some k else best)
     [0..<K c] None"

definition final_page :: "cube \<Rightarrow> (nat \<times> nat) list \<Rightarrow> nat \<Rightarrow> nat \<Rightarrow> nat option" where
  "final_page c refs f k = (if ent refs f k \<noteq> None then Some k else nearest c refs f k)"

text \<open>\<open>ent[bface[i]][bk[i]]\<close>: no entry, and an index out of the table, when the face has no page.\<close>

definition entry :: "cube \<Rightarrow> (nat \<times> nat) list \<Rightarrow> nat \<Rightarrow> nat \<Rightarrow> nat option" where
  "entry c refs f k = Option.bind (final_page c refs f k) (ent refs f)"

section \<open>Macroblocks\<close>

text \<open>The I_PCM hook: edge macroblocks anti-aliased, or the test pattern on partly covered ones.\<close>

definition edge_mb_pcm :: "cube \<Rightarrow> 't scene \<Rightarrow> nat \<Rightarrow> u8 list option" where
  "edge_mb_pcm c sc m =
     (if g_aa c then (if \<not> g_edge sc m then None else Some (aa_mb sc m))
      else if \<not> g_pcm_test c then None
      else
        let cov = length (filter (\<lambda>q. vis c sc m q \<noteq> None) [0..<nblk c]) in
        if cov = 0 \<or> cov = nblk c then None
        else Some (concat (map (\<lambda>y. map (\<lambda>x. word_of_nat ((x + y) * 8 + m)) [0..<16]) [0..<16])
               @ replicate 64 64 @ replicate 64 192))"

definition bw_te :: "nat \<Rightarrow> nat \<Rightarrow> bw \<Rightarrow> bw" where
  "bw_te nref r b =
     (if nref = 2 then bw_u 1 (of_bool (r = 0)) b
      else if nref > 2 then bw_ue (word_of_nat r) b
      else b)"

definition cast16 :: "int \<Rightarrow> int" where
  "cast16 x = sint (word_of_int x :: s16)"

definition mk_part :: "nat \<Rightarrow> nat \<Rightarrow> nat \<Rightarrow> int \<Rightarrow> int \<times> int \<Rightarrow> part" where
  "mk_part x y n r mv = \<lparr>pt_x = cast16 (int x), pt_y = cast16 (int y), pt_w = int n, pt_h = int n,
     pt_ref = cast16 r, pt_mvx = cast16 (fst mv), pt_mvy = cast16 (snd mv)\<rparr>"

definition mb_x :: "cube \<Rightarrow> nat \<Rightarrow> nat" where
  "mb_x c m = m mod WMB c"

definition mb_y :: "cube \<Rightarrow> nat \<Rightarrow> nat" where
  "mb_y c m = m div WMB c"

definition put_mb :: "cube \<Rightarrow> nat \<Rightarrow> int \<Rightarrow> int \<times> int \<Rightarrow> pic \<Rightarrow> pic" where
  "put_mb c m r mv p = p\<lparr>p_nb := setmb (W4 c) (mb_x c m * 4) (mb_y c m * 4) r mv (p_nb p),
     p_parts := p_parts p @ [mk_part (mb_x c m * 16) (mb_y c m * 16) 16 r mv]\<rparr>"

definition code_pcm :: "cube \<Rightarrow> nat \<Rightarrow> u8 list \<Rightarrow> bw \<times> pic \<Rightarrow> bw \<times> pic" where
  "code_pcm c m pcm = (\<lambda>(b, p).
     (bw_bytes pcm (bw_align (bw_ue 30 b)), (put_mb c m (- 1) (0, 0) p)\<lparr>p_pcm := p_pcm p @ [(m, pcm)]\<rparr>))"

definition code_16 :: "cube \<Rightarrow> nat \<Rightarrow> nat \<Rightarrow> nat \<Rightarrow> int \<times> int \<Rightarrow> bw \<times> pic \<Rightarrow> bw \<times> pic" where
  "code_16 c nref m r mv = (\<lambda>(b, p).
     let (px, py) = mvp (W4 c) (H4 c) (p_nb p) (int (mb_x c m * 4)) (int (mb_y c m * 4)) 4 (int r) in
     (bw_ue 0 (bw_se (snd mv - py) (bw_se (fst mv - px) (bw_te nref r (bw_ue 0 b)))), put_mb c m (int r) mv p))"

text \<open>
  An 8x8 quarter of a macroblock: its sub-macroblock type, its reference and its vectors (one, or
  one per 4x4 block). A quarter of 4x4 blocks reads the page most of them want; background blocks
  in it read the black patch.
\<close>

definition quad8 :: "cube \<Rightarrow> 't scene \<Rightarrow> (nat \<times> nat) list \<Rightarrow> nat \<Rightarrow> nat \<Rightarrow> (nat \<times> nat \<times> (int \<times> int) list) option" where
  "quad8 c sc refs m p =
     (case vis c sc m p of
        None \<Rightarrow> Some (0, 0, [(0, 0)])
      | Some (f, t, k) \<Rightarrow>
          Option.bind (final_page c refs f k) (\<lambda>k'. Option.bind (ent refs f k') (\<lambda>r.
            Some (0, r, [mv_for sc f k' t (mb_x c m * 16 + p mod 2 * 8 + 4) (mb_y c m * 16 + p div 2 * 8 + 4) 8]))))"

definition sub_entries :: "cube \<Rightarrow> 't scene \<Rightarrow> (nat \<times> nat) list \<Rightarrow> nat \<Rightarrow> nat \<Rightarrow> nat option list" where
  "sub_entries c sc refs m p =
     List.map_filter (\<lambda>s2. map_option (\<lambda>(f, t, k). entry c refs f k) (vis c sc m (p * 4 + s2))) [0..<4]"

definition most :: "nat \<Rightarrow> nat option list \<Rightarrow> nat option" where
  "most nref es = fold (\<lambda>r br.
     let cnt = (\<lambda>r. length (filter (\<lambda>e. e = Some r) es)) in
     if cnt r \<noteq> 0 \<and> (case br of None \<Rightarrow> True | Some b \<Rightarrow> cnt r > cnt b) then Some r else br) [1..<nref] None"

definition quad4 :: "cube \<Rightarrow> 't scene \<Rightarrow> (nat \<times> nat) list \<Rightarrow> nat \<Rightarrow> nat \<Rightarrow> (nat \<times> nat \<times> (int \<times> int) list) option" where
  "quad4 c sc refs m p =
     (let es = sub_entries c sc refs m p in
      if None \<in> set es then None
      else if es = [] then Some (0, 0, [(0, 0)])
      else
        Option.bind (most (NREF refs) es) (\<lambda>br.
          Some (3, br, map (\<lambda>s2.
            let bx = mb_x c m * 16 + p mod 2 * 8 + s2 mod 2 * 4; by' = mb_y c m * 16 + p div 2 * 8 + s2 div 2 * 4 in
            case vis c sc m (p * 4 + s2) of
              None \<Rightarrow> (4 * (BLACKX c - int bx), 4 * (BLACKY c - int by'))
            | Some (f, t, k) \<Rightarrow> mv_for sc f (snd (refs ! (br - 1))) t (bx + 2) (by' + 2) 4) [0..<4])))"

definition quad :: "cube \<Rightarrow> 't scene \<Rightarrow> (nat \<times> nat) list \<Rightarrow> nat \<Rightarrow> nat \<Rightarrow> (nat \<times> nat \<times> (int \<times> int) list) option" where
  "quad c sc refs m p = (if PART c = 8 then quad8 c sc refs m p else quad4 c sc refs m p)"

text \<open>One partition of \<open>n\<close> by \<open>n\<close> 4x4 blocks at block \<open>(x, y)\<close>.\<close>

type_synonym sub = "nat \<times> nat \<times> nat \<times> nat"

definition put_sub :: "cube \<Rightarrow> sub \<Rightarrow> int \<times> int \<Rightarrow> pic \<Rightarrow> pic" where
  "put_sub c = (\<lambda>(x, y, n, r) mv p. p\<lparr>p_nb := setblk (W4 c) x y n n (int r) mv (p_nb p),
     p_parts := p_parts p @ [mk_part (x * 4) (y * 4) (n * 4) (int r) mv]\<rparr>)"

definition code_sub :: "cube \<Rightarrow> sub \<times> int \<times> int \<Rightarrow> bw \<times> pic \<Rightarrow> bw \<times> pic" where
  "code_sub c = (\<lambda>((x, y, n, r), mv) (b, p).
     let (px, py) = mvp (W4 c) (H4 c) (p_nb p) (int x) (int y) (int n) (int r) in
     (bw_se (snd mv - py) (bw_se (fst mv - px) b), put_sub c (x, y, n, r) mv p))"

text \<open>The partitions of a quarter of type 0 (one 8x8) or 3 (four 4x4), in coding order.\<close>

definition quad_subs :: "cube \<Rightarrow> nat \<Rightarrow> nat \<Rightarrow> nat \<Rightarrow> nat \<Rightarrow> sub list" where
  "quad_subs c m p sub r =
     (let bx = mb_x c m * 4 + p mod 2 * 2; by' = mb_y c m * 4 + p div 2 * 2 in
      if sub = 0 then [(bx, by', 2, r)]
      else map (\<lambda>s2. (bx + s2 mod 2, by' + s2 div 2, 1, r)) [0..<4])"

definition code_8 :: "cube \<Rightarrow> nat \<Rightarrow> nat \<Rightarrow> (nat \<times> nat \<times> (int \<times> int) list) list \<Rightarrow> bw \<times> pic \<Rightarrow> bw \<times> pic" where
  "code_8 c nref m qs = (\<lambda>(b, p).
     let b = bw_ue 3 b;
         b = fold (\<lambda>(sub, r, mvs). bw_ue (word_of_nat sub)) qs b;
         b = fold (\<lambda>(sub, r, mvs). bw_te nref r) qs b;
         (b, p) = fold (code_sub c) (concat (map (\<lambda>(i, sub, r, mvs). zip (quad_subs c m i sub r) mvs) (zip [0..<4] qs))) (b, p) in
     (bw_ue 0 b, p))"

fun all_some :: "'a option list \<Rightarrow> 'a list option" where
  "all_some [] = Some []"
| "all_some (x # xs) = Option.bind x (\<lambda>x. Option.bind (all_some xs) (\<lambda>xs. Some (x # xs)))"

definition mb_any :: "cube \<Rightarrow> 't scene \<Rightarrow> nat \<Rightarrow> bool" where
  "mb_any c sc m = (\<exists>q \<in> set [0..<nblk c]. vis c sc m q \<noteq> None)"

text \<open>One macroblock: the pending run of skipped ones is written before anything else.\<close>

definition encode_mb :: "cube \<Rightarrow> 't scene \<Rightarrow> (nat \<times> nat) list \<Rightarrow> nat \<Rightarrow> nat \<times> bw \<times> pic \<Rightarrow> (nat \<times> bw \<times> pic) option" where
  "encode_mb c sc refs m = (\<lambda>(skip, b, p).
     let flushed = bw_ue (word_of_nat skip) b; any = mb_any c sc m;
         pcm = (if g_aa c \<or> any then edge_mb_pcm c sc m else None) in
     case pcm of
       Some px \<Rightarrow> Some (0, code_pcm c m px (flushed, p))
     | None \<Rightarrow>
         if \<not> any then
           (if pskip_mv (W4 c) (H4 c) (p_nb p) (int (mb_x c m * 4)) (int (mb_y c m * 4)) = (0, 0)
            then Some (skip + 1, b, put_mb c m 0 (0, 0) p)
            else Some (0, code_16 c (NREF refs) m 0 (0, 0) (flushed, p)))
         else if PART c = 16 then
           (case vis c sc m 0 of
              None \<Rightarrow> None
            | Some (f, t, k) \<Rightarrow>
                Option.bind (final_page c refs f k) (\<lambda>k'. Option.bind (ent refs f k') (\<lambda>r.
                  Some (0, code_16 c (NREF refs) m r (mv_for sc f k' t (mb_x c m * 16 + 8) (mb_y c m * 16 + 8) 16) (flushed, p)))))
         else
           Option.bind (all_some (map (quad c sc refs m) [0..<4])) (\<lambda>qs.
             Some (0, code_8 c (NREF refs) m qs (flushed, p))))"

fun encode_mbs :: "cube \<Rightarrow> 't scene \<Rightarrow> (nat \<times> nat) list \<Rightarrow> nat list \<Rightarrow> nat \<times> bw \<times> pic \<Rightarrow> (nat \<times> bw \<times> pic) option" where
  "encode_mbs c sc refs [] e = Some e"
| "encode_mbs c sc refs (m # ms) e = Option.bind (encode_mb c sc refs m e) (encode_mbs c sc refs ms)"

section \<open>The slice\<close>

text \<open>Explicit weights: \<open>WY = WC = w\<close>, \<open>OY = 0\<close>, \<open>OC = 128 - 2 w\<close> for the light \<open>w\<close> of the entry's face.\<close>

definition code_weight :: "int \<Rightarrow> bw \<Rightarrow> bw" where
  "code_weight w b =
     (let b = bw_se 0 (bw_se w (bw_u 1 1 b)); b = bw_u 1 1 b in
      bw_se (128 - 2 * w) (bw_se w (bw_se (128 - 2 * w) (bw_se w b))))"

definition bw_mark :: "bool \<Rightarrow> bw \<Rightarrow> bw" where
  "bw_mark is_ref b = (if is_ref then bw_u 1 0 b else b)"

definition code_hdr :: "cube \<Rightarrow> 't scene \<Rightarrow> (nat \<times> nat) list \<Rightarrow> int \<Rightarrow> int \<Rightarrow> bool \<Rightarrow> bw \<Rightarrow> bw" where
  "code_hdr c sc refs frame_num poc is_ref b =
     (let b = bw_ue 0 (bw_ue 5 (bw_ue 0 b));
          b = bw_u 16 (word_of_int frame_num AND 0xffff) b;
          b = bw_u 16 (word_of_int poc AND 0xffff) b;
          b = bw_ue (word_of_nat (NREF refs - 1)) (bw_u 1 1 b);
          b = bw_u 1 1 b;
          b = fold (\<lambda>pg b. bw_ue (word_of_nat pg) (bw_ue 2 b)) (REFPAGE refs) b;
          b = bw_ue 3 b;
          b = bw_ue 6 (bw_ue 6 b);
          b = bw_u 1 0 (bw_u 1 0 b);
          b = fold (\<lambda>(f, k). code_weight (weight sc f)) refs b;
          b = bw_mark is_ref b;
          b = bw_se (g_qp c - 26) b in
      if g_dbk c then bw_se (g_abo c) (bw_se (g_abo c) (bw_ue 0 b)) else bw_ue 1 b)"

definition pic_clear :: "nbst \<Rightarrow> pic" where
  "pic_clear s = \<lparr>p_nb = s\<lparr>sdone := \<lambda>_. False\<rparr>, p_parts = [], p_pcm = []\<rparr>"

definition encode_frame :: "cube \<Rightarrow> 't scene \<Rightarrow> int \<Rightarrow> int \<Rightarrow> bool \<Rightarrow> nbst \<Rightarrow> bw \<Rightarrow> (bw \<times> pic) option" where
  "encode_frame c sc frame_num poc is_ref s b =
     (let refs = ref_list c sc; b = code_hdr c sc refs frame_num poc is_ref b in
      Option.bind (encode_mbs c sc refs [0..<WMB c * HMB c] (0, b, pic_clear s)) (\<lambda>(skip, b, p).
        Some (bw_trailing (if skip \<noteq> 0 then bw_ue (word_of_nat skip) b else b), p)))"

end
