(* ===== verification/Mvfield.thy ===== *)
theory Mvfield
  imports Pframe
begin

text \<open>
  The motion of a picture as a decoder of the standard sees it, its prediction of vectors, and the
  proof that the encoder of the decoder cube (\<open>nb\<close>, \<open>med\<close>, \<open>mvp\<close>, \<open>pskip_mv\<close>, \<open>setmb\<close>, \<open>setblk\<close> in
  \<open>coda-cube.c\<close>) keeps the same view in its arrays of cells.
\<close>

section \<open>The motion field\<close>

text \<open>
  The decoder's own view of the motion: what is known at each 4x4 block, nothing where no block has
  been decoded or outside the picture, reference \<open>- 1\<close> in an intra macroblock. Prediction is that of the
  standard: the neighbours (8.4.1.3.2), the median (8.4.1.3.1) and the skipped macroblock (8.4.1.1).
\<close>

type_synonym field = "int \<Rightarrow> int \<Rightarrow> (int \<times> int \<times> int) option"

definition field_put :: "nat \<Rightarrow> nat \<Rightarrow> nat \<Rightarrow> int \<Rightarrow> int \<times> int \<Rightarrow> field \<Rightarrow> field" where
  "field_put x y n r mv g =
     (\<lambda>i j. if i \<in> {int x..<int (x + n)} \<and> j \<in> {int y..<int (y + n)} then Some (r, mv) else g i j)"

definition median3 :: "int \<Rightarrow> int \<Rightarrow> int \<Rightarrow> int" where
  "median3 a b c = a + b + c - min a (min b c) - max a (max b c)"

definition mv_pred :: "field \<Rightarrow> int \<Rightarrow> int \<Rightarrow> int \<Rightarrow> int \<Rightarrow> int \<times> int" where
  "mv_pred g x y w r =
     (let A = g (x - 1) y; B = g x (y - 1); C = (if g (x + w) (y - 1) = None then g (x - 1) (y - 1) else g (x + w) (y - 1));
          known = (\<lambda>n. case n of None \<Rightarrow> (- 1, (0, 0)) | Some v \<Rightarrow> v);
          ns = map known (if B = None \<and> C = None \<and> A \<noteq> None then [A, A, A] else [A, B, C]) in
      case filter (\<lambda>v. fst v = r) ns of
        [v] \<Rightarrow> snd v
      | _ \<Rightarrow> (median3 (fst (snd (ns ! 0))) (fst (snd (ns ! 1))) (fst (snd (ns ! 2))),
              median3 (snd (snd (ns ! 0))) (snd (snd (ns ! 1))) (snd (snd (ns ! 2)))))"

definition mv_skip :: "field \<Rightarrow> int \<Rightarrow> int \<Rightarrow> int \<times> int" where
  "mv_skip g x y =
     (case g (x - 1) y of None \<Rightarrow> (0, 0) | Some a \<Rightarrow>
       (case g x (y - 1) of None \<Rightarrow> (0, 0) | Some b \<Rightarrow>
         if a = (0, 0, 0) \<or> b = (0, 0, 0) then (0, 0) else mv_pred g x y 4 0))"

text \<open>The field the encoder's cells stand for.\<close>

definition field_of :: "nat \<Rightarrow> nat \<Rightarrow> nbst \<Rightarrow> field" where
  "field_of w h s i j = (if fst (nb w h s i j) then Some (snd (nb w h s i j)) else None)"

lemma med_median: "med a b c = median3 a b c"
  by (simp add: med_def median3_def Let_def min_def max_def)

lemma nb_field: "nb w h s i j = (field_of w h s i j \<noteq> None, case field_of w h s i j of None \<Rightarrow> (- 1, 0, 0) | Some v \<Rightarrow> v)"
  by (auto simp: field_of_def nb_def Let_def)

lemma mvp_from_values:
  "mvp_from (a, ra, va) (b, rb, vb) (c, rc, vc) r =
    (let ns = (if \<not> b \<and> \<not> c \<and> a then [(ra, va), (ra, va), (ra, va)] else [(ra, va), (rb, vb), (rc, vc)]) in
     case filter (\<lambda>v. fst v = r) ns of
       [v] \<Rightarrow> snd v
     | _ \<Rightarrow> (median3 (fst (snd (ns ! 0))) (fst (snd (ns ! 1))) (fst (snd (ns ! 2))),
             median3 (snd (snd (ns ! 0))) (snd (snd (ns ! 1))) (snd (snd (ns ! 2)))))"
proof -
  obtain ax ay bx by' cx cy where "va = (ax, ay)" "vb = (bx, by')" "vc = (cx, cy)" by (metis surj_pair)
  then show ?thesis
    by (cases a; cases b; cases c; cases "ra = r"; cases "rb = r"; cases "rc = r") (simp_all add: mvp_from_def med_median)
qed

lemma mvp_pred: "mvp w h s x y n r = mv_pred (field_of w h s) x y n r"
proof -
  define A B C D where "A = field_of w h s (x - 1) y" and "B = field_of w h s x (y - 1)"
    and "C = field_of w h s (x + n) (y - 1)" and "D = field_of w h s (x - 1) (y - 1)"
  let ?k = "\<lambda>v :: (int \<times> int \<times> int) option. case v of None \<Rightarrow> (- 1, 0, 0) | Some v \<Rightarrow> v"
  let ?C = "if C = None then D else C"
  have "mvp w h s x y n r = mvp_from (A \<noteq> None, fst (?k A), snd (?k A)) (B \<noteq> None, fst (?k B), snd (?k B)) (?C \<noteq> None, fst (?k ?C), snd (?k ?C)) r"
    unfolding mvp_def Let_def nb_field A_def [symmetric] B_def [symmetric] C_def [symmetric] D_def [symmetric]
    by (cases "C = None") (simp_all only: fst_conv simp_thms if_True if_False prod.collapse)
  then show ?thesis
    unfolding mvp_from_values mv_pred_def A_def [symmetric] B_def [symmetric] C_def [symmetric] D_def [symmetric] Let_def
    by (cases "B = None \<and> ?C = None \<and> A \<noteq> None") (simp_all only: simp_thms if_True if_False list.map prod.collapse)
qed

lemma pskip_skip: "pskip_mv w h s x y = mv_skip (field_of w h s) x y"
  unfolding pskip_mv_def mv_skip_def nb_field Let_def mvp_pred
  by (cases "field_of w h s (x - 1) y"; cases "field_of w h s x (y - 1)") (auto split: if_split_asm)

text \<open>Filling a block of cells fills the block of the field.\<close>

lemma setcells:
  "sref (fold (setcell r mv) ks s) k = (if k \<in> set ks then word_of_int r else sref s k)"
  "smv (fold (setcell r mv) ks s) k = (if k \<in> set ks then (word_of_int (fst mv), word_of_int (snd mv)) else smv s k)"
  "sdone (fold (setcell r mv) ks s) k = (k \<in> set ks \<or> sdone s k)"
  by (induction ks arbitrary: s) (auto simp: setcell_def)

lemma setblk_cells: "setblk w x y n n r mv s = fold (setcell r mv) (concat (map (\<lambda>j. map (\<lambda>i. j * w + i) [x..<x + n]) [y..<y + n])) s"
proof -
  have "fold (\<lambda>j. fold (\<lambda>i. setcell r mv (j * w + i)) is) js s = fold (setcell r mv) (concat (map (\<lambda>j. map (\<lambda>i. j * w + i) is) js)) s" for "is" js
    by (induction js arbitrary: s) (simp_all add: fold_map comp_def)
  then show ?thesis by (simp add: setblk_def)
qed

lemma cell_in_block:
  assumes "x + n \<le> w" "i < w"
  shows "j * w + i \<in> set (concat (map (\<lambda>j. map (\<lambda>i. j * w + i) [x..<x + n]) [y..<y + n])) \<longleftrightarrow>
    i \<in> {x..<x + n} \<and> j \<in> {y..<y + n}"
proof -
  have inj: "j * w + i = j' * w + i' \<longleftrightarrow> j = j' \<and> i = i'" if "i' \<in> {x..<x + n}" for j' i'
  proof
    assume e: "j * w + i = j' * w + i'"
    have i': "i' < w" using that assms(1) by simp
    have "j = (j * w + i) div w" "i = (j * w + i) mod w" using assms(2) by simp_all
    moreover have "j' = (j' * w + i') div w" "i' = (j' * w + i') mod w" using i' by simp_all
    ultimately show "j = j' \<and> i = i'" using e by metis
  qed simp
  have "j * w + i \<in> set (concat (map (\<lambda>j. map (\<lambda>i. j * w + i) [x..<x + n]) [y..<y + n])) \<longleftrightarrow>
      (\<exists>j' \<in> {y..<y + n}. \<exists>i' \<in> {x..<x + n}. j * w + i = j' * w + i')"
    by (simp only: set_concat set_map set_upt image_image UN_iff image_iff bex_simps)
  also have "\<dots> \<longleftrightarrow> i \<in> {x..<x + n} \<and> j \<in> {y..<y + n}"
  proof
    assume "\<exists>j' \<in> {y..<y + n}. \<exists>i' \<in> {x..<x + n}. j * w + i = j' * w + i'"
    then obtain j' i' where "j' \<in> {y..<y + n}" "i' \<in> {x..<x + n}" "j * w + i = j' * w + i'" by blast
    then show "i \<in> {x..<x + n} \<and> j \<in> {y..<y + n}" using inj [of i' j'] by metis
  qed blast
  finally show ?thesis .
qed

definition vec_ok :: "int \<times> int \<Rightarrow> bool" where
  "vec_ok mv \<longleftrightarrow> fst mv \<in> {- 32768..32767} \<and> snd mv \<in> {- 32768..32767}"

lemma sint8_id: "r \<in> {- 128..127} \<Longrightarrow> sint (word_of_int r :: s8) = r"
  by (simp add: signed_of_int signed_take_bit_int_eq_self)

lemma sint16_id: "r \<in> {- 32768..32767} \<Longrightarrow> sint (word_of_int r :: s16) = r"
  by (simp add: signed_of_int signed_take_bit_int_eq_self)

lemma field_setblk:
  assumes "x + n \<le> w" "y + n \<le> h" "r \<in> {- 128..127}" "vec_ok mv"
  shows "field_of w h (setblk w x y n n r mv s) = field_put x y n r mv (field_of w h s)"
proof (intro ext)
  fix i j :: int
  show "field_of w h (setblk w x y n n r mv s) i j = field_put x y n r mv (field_of w h s) i j"
  proof (cases "i < 0 \<or> j < 0 \<or> i \<ge> int w \<or> j \<ge> int h")
    case True
    then show ?thesis using assms(1,2) by (auto simp: field_of_def field_put_def nb_def)
  next
    case False
    then obtain i' j' where ij: "i = int i'" "j = int j'" "i' < w" by (metis int_nat_eq linorder_not_le nat_less_iff of_nat_0_le_iff nonneg_int_cases not_less of_nat_less_iff)
    have k: "nat (j * int w + i) = j' * w + i'" by (simp add: ij nat_add_distrib nat_mult_distrib)
    define ks where "ks = concat (map (\<lambda>j. map (\<lambda>i. j * w + i) [x..<x + n]) [y..<y + n])"
    have "j' * w + i' \<in> set ks \<longleftrightarrow> i \<in> {int x..<int (x + n)} \<and> j \<in> {int y..<int (y + n)}"
      unfolding ks_def cell_in_block [OF assms(1) ij(3)] by (auto simp: ij)
    with False assms [unfolded vec_ok_def] show ?thesis
      by (cases "j' * w + i' \<in> set ks")
        (simp_all add: field_of_def field_put_def nb_def Let_def k setblk_cells ks_def [symmetric] setcells sint8_id sint16_id
          del: atLeastAtMost_iff atLeastLessThan_iff, blast)
  qed
qed

lemma setmb_setblk: "setmb w x y r mv s = setblk w x y 4 4 r mv s"
proof -
  have "[x..<x + 4] = [x, x + 1, x + 2, x + 3]" by (simp add: upt_rec)
  then show ?thesis by (simp add: setmb_def setblk_def Let_def comp_def add.assoc)
qed

lemmas field_setmb = field_setblk [where n = 4, folded setmb_setblk]

lemma field_none: "field_of w h (s\<lparr>sdone := \<lambda>_. False\<rparr>) = (\<lambda>_ _. None)"
  by (simp add: fun_eq_iff field_of_def nb_def)

end
