(* ===== verification/Pdec.thy ===== *)
theory Pdec
  imports Mvfield
begin

text \<open>
  The decoder's side of a P-picture: \<open>macroblock_layer\<close>, \<open>slice_data\<close> and \<open>slice_header\<close> of the
  standard (7.3.3, 7.3.4, 7.3.5) for the parameter sets the cube sends, and the proof that it
  reconstructs the partitions, vectors, samples, reference pages and weights the encoder meant.
\<close>

section \<open>The decoder\<close>

definition rd_te :: "nat \<Rightarrow> nat reader" where
  "rd_te nref =
     (if nref = 2 then rd_bind (rd_u 1) (\<lambda>k. rd_ret (1 - k)) else if nref > 2 then rd_ue else rd_ret 0)"

definition dec_part :: "nat \<Rightarrow> nat \<Rightarrow> nat \<Rightarrow> int \<Rightarrow> int \<times> int \<Rightarrow> part" where
  "dec_part x y n r mv = \<lparr>pt_x = int x, pt_y = int y, pt_w = int n, pt_h = int n, pt_ref = r, pt_mvx = fst mv, pt_mvy = snd mv\<rparr>"

text \<open>What the decoder knows of the picture: the motion field, the partitions, the I_PCM samples.\<close>

record dpic =
  d_field :: field
  d_parts :: "part list"
  d_pcm :: "(nat \<times> u8 list) list"

definition dec_set :: "sub \<Rightarrow> int \<Rightarrow> int \<times> int \<Rightarrow> dpic \<Rightarrow> dpic" where
  "dec_set = (\<lambda>(x, y, n, r0) r mv p. p\<lparr>d_field := field_put x y n r mv (d_field p),
     d_parts := d_parts p @ [dec_part (x * 4) (y * 4) (n * 4) r mv]\<rparr>)"

text \<open>A partition: its vector difference is added to the prediction.\<close>

definition dec_sub :: "sub \<Rightarrow> dpic \<Rightarrow> dpic reader" where
  "dec_sub = (\<lambda>(x, y, n, r) p.
     rd_bind rd_se (\<lambda>dx. rd_bind rd_se (\<lambda>dy.
       let (px, py) = mv_pred (d_field p) (int x) (int y) (int n) (int r) in
       rd_ret (dec_set (x, y, n, r) (int r) (px + dx, py + dy) p))))"

fun dec_subs :: "sub list \<Rightarrow> dpic \<Rightarrow> dpic reader" where
  "dec_subs [] p = rd_ret p"
| "dec_subs (s # ss) p = rd_bind (dec_sub s p) (dec_subs ss)"

definition rd_guard :: "bool \<Rightarrow> 'a reader \<Rightarrow> 'a reader" where
  "rd_guard g p = (if g then p else (\<lambda>_. None))"

definition mb_sub :: "cube \<Rightarrow> nat \<Rightarrow> nat \<Rightarrow> sub" where
  "mb_sub c m r = (mb_x c m * 4, mb_y c m * 4, 4, r)"

text \<open>
  The partitions of quarter \<open>i\<close> in the order of the inverse scans (6.4.2.1, 6.4.2.2), as offsets in
  units of 4x4 blocks.
\<close>

definition scan_subs :: "cube \<Rightarrow> nat \<Rightarrow> nat \<Rightarrow> nat \<Rightarrow> nat \<Rightarrow> sub list" where
  "scan_subs c m i sub r =
     (let (qx, qy) = [(0, 0), (2, 0), (0, 2), (2, 2)] ! i; x = mb_x c m * 4 + qx; y = mb_y c m * 4 + qy in
      if sub = 0 then [(x, y, 2, r)] else [(x, y, 1, r), (x + 1, y, 1, r), (x, y + 1, 1, r), (x + 1, y + 1, 1, r)])"

text \<open>
  \<open>macroblock_layer\<close>: P_L0_16x16, P_8x8 with 8x8 and 4x4 quarters, and I_PCM. The coded block
  pattern has to be 0, no residual.
\<close>

definition dec_mb :: "cube \<Rightarrow> nat \<Rightarrow> nat \<Rightarrow> dpic \<Rightarrow> dpic reader" where
  "dec_mb c nref m p = rd_bind rd_ue (\<lambda>ty.
     if ty = 0 then
       rd_bind (rd_te nref) (\<lambda>r. rd_bind (dec_sub (mb_sub c m r) p) (\<lambda>p. rd_bind rd_ue (\<lambda>cbp. rd_guard (cbp = 0) (rd_ret p))))
     else if ty = 3 then
       rd_bind (rd_list 4 rd_ue) (\<lambda>subs. rd_bind (rd_list 4 (rd_te nref)) (\<lambda>rs.
         rd_guard (set subs \<subseteq> {0, 3}) (rd_bind
           (dec_subs (concat (map (\<lambda>(i, sub, r). scan_subs c m i sub r) (zip [0..<4] (zip subs rs)))) p)
           (\<lambda>p. rd_bind rd_ue (\<lambda>cbp. rd_guard (cbp = 0) (rd_ret p))))))
     else if ty = 30 then
       rd_bind (rd_bind rd_align (\<lambda>_. rd_list 384 rd_byte)) (\<lambda>px.
         rd_ret ((dec_set (mb_sub c m 0) (- 1) (0, 0) p)\<lparr>d_pcm := d_pcm p @ [(m, px)]\<rparr>))
     else (\<lambda>_. None))"

definition dec_skip :: "cube \<Rightarrow> nat \<Rightarrow> dpic \<Rightarrow> dpic" where
  "dec_skip c m p = dec_set (mb_sub c m 0) 0 (mv_skip (d_field p) (int (mb_x c m * 4)) (int (mb_y c m * 4))) p"

definition more_rbsp_data :: "nat \<times> bool list \<Rightarrow> bool" where
  "more_rbsp_data s = (True \<in> set (tl (snd s)))"

text \<open>\<open>slice_data\<close> for the \<open>n\<close> macroblocks from \<open>m\<close> on.\<close>

function dec_data :: "cube \<Rightarrow> nat \<Rightarrow> nat \<Rightarrow> nat \<Rightarrow> dpic \<Rightarrow> nat \<times> bool list \<Rightarrow> dpic option" where
  "dec_data c nref m n p s =
     (case rd_ue s of
        None \<Rightarrow> None
      | Some (r, s1) \<Rightarrow>
          if r > n then None
          else
            let p1 = fold (dec_skip c) [m..<m + r] p in
            if r > 0 \<and> \<not> more_rbsp_data s1 then (if r = n then Some p1 else None)
            else if r = n then None
            else
              (case dec_mb c nref (m + r) p1 s1 of
                 None \<Rightarrow> None
               | Some (p2, s2) \<Rightarrow>
                   if more_rbsp_data s2 then dec_data c nref (m + r + 1) (n - r - 1) p2 s2
                   else if n - r - 1 = 0 then Some p2 else None))"
  by pat_completeness auto
termination by (relation "measure (\<lambda>(c, nref, m, n, p, s). n)") auto

declare dec_data.simps [simp del]

section \<open>The decoder follows the encoder, macroblock by macroblock\<close>

text \<open>What a decoder knows when the encoder is in state \<open>p\<close>.\<close>

definition seen :: "cube \<Rightarrow> pic \<Rightarrow> dpic" where
  "seen c p = \<lparr>d_field = field_of (W4 c) (H4 c) (p_nb p), d_parts = p_parts p, d_pcm = p_pcm p\<rparr>"

definition sub_ok :: "cube \<Rightarrow> sub \<Rightarrow> bool" where
  "sub_ok c = (\<lambda>(x, y, n, r). x + n \<le> W4 c \<and> y + n \<le> H4 c \<and> x < 8192 \<and> y < 8192 \<and> r < MAXREF)"

text \<open>A macroblock inside a picture of moderate size.\<close>

definition mb_ok :: "cube \<Rightarrow> nat \<Rightarrow> bool" where
  "mb_ok c m \<longleftrightarrow> mb_x c m < WMB c \<and> mb_y c m < HMB c \<and> WMB c \<le> 510 \<and> HMB c \<le> 510"

lemma cast16_id: "x \<in> {- 32768..32767} \<Longrightarrow> cast16 x = x"
  by (simp add: cast16_def sint_word_ariths signed_of_int signed_take_bit_int_eq_self)

lemma mk_part_dec:
  assumes "x < 32768" "y < 32768" "r \<in> {- 32768..32767}" "vec_ok mv"
  shows "mk_part x y n r mv = dec_part x y n r mv"
  using assms by (simp add: mk_part_def dec_part_def vec_ok_def cast16_id)

lemma put_sub_dec: "sub_ok c s \<Longrightarrow> vec_ok mv \<Longrightarrow> seen c (put_sub c s mv p) = dec_set s (int (snd (snd (snd s)))) mv (seen c p)"
  by (cases s) (simp add: put_sub_def dec_set_def seen_def sub_ok_def MAXREF_def mk_part_dec field_setblk)

lemma put_mb_dec:
  assumes "mb_ok c m" "r \<in> {- 1..15}" "vec_ok mv"
  shows "seen c (put_mb c m r mv p) = dec_set (mb_sub c m k) r mv (seen c p)"
  using assms by (simp add: put_mb_def dec_set_def seen_def mb_sub_def mb_ok_def W4_def H4_def mk_part_dec field_setmb mult.commute)

lemma sint16_range: "sint (w :: s16) \<in> {- 32768..32767}"
  using sint_greater_eq [of w] sint_less [of w] by simp

lemma nb_range: "vec_ok (snd (snd (nb w h s x y)))"
  using sint16_range by (simp add: nb_def vec_ok_def Let_def del: atLeastAtMost_iff) simp

lemma med_range: "a \<in> S \<Longrightarrow> b \<in> S \<Longrightarrow> c \<in> S \<Longrightarrow> med a b c \<in> S"
  by (simp add: med_def Let_def)

lemma mvp_from_range:
  assumes "vec_ok (snd (snd na))" "vec_ok (snd (snd nB))" "vec_ok (snd (snd nc))"
  shows "vec_ok (mvp_from na nB nc r)"
proof -
  obtain A ra ax ay B rb bx by' C rc cx cy where "na = (A, ra, ax, ay)" "nB = (B, rb, bx, by')" "nc = (C, rc, cx, cy)"
    by (metis prod_cases4)
  then show ?thesis
    using assms by (simp add: mvp_from_def vec_ok_def Let_def med_range del: atLeastAtMost_iff)
qed

lemma mvp_range: "vec_ok (mvp w h s x y n r)"
  by (simp add: mvp_def Let_def mvp_from_range nb_range)

lemma emits_te:
  assumes "r < nref" and "nref \<le> MAXREF"
  shows "emits (bw_te nref r) (rd_te nref) r"
proof -
  consider "nref = 1" | "nref = 2" | "nref > 2" using assms(1) by linarith
  then show ?thesis
  proof cases
    case 1
    have "bw_te nref r = (\<lambda>b. b)" using 1 by (simp add: bw_te_def fun_eq_iff)
    then show ?thesis using 1 assms(1) emits_ret [of 0] by (simp add: rd_te_def)
  next
    case 2
    have "bw_te nref r = bw_u 1 (of_bool (r = 0))" using 2 by (simp add: bw_te_def fun_eq_iff)
    moreover have "1 - unat (take_bit 1 (of_bool (r = 0) :: u32)) = r" using assms(1) 2 by (cases "r = 0") auto
    ultimately show ?thesis
      using 2 emits_map [OF emits_u [of 1 "of_bool (r = 0)"], of "\<lambda>k. 1 - k"] by (simp add: rd_te_def)
  next
    case 3
    have "bw_te nref r = bw_ue (word_of_nat r)" using 3 by (simp add: bw_te_def fun_eq_iff)
    then show ?thesis using 3 assms ue.emits_one [of r] by (simp add: rd_te_def MAXREF_def)
  qed
qed

lemma vec_diff: "vec_ok mv \<Longrightarrow> vec_ok pv \<Longrightarrow> \<bar>fst mv - fst pv\<bar> < 2 ^ 30 \<and> \<bar>snd mv - snd pv\<bar> < 2 ^ 30"
  by (auto simp: vec_ok_def)

lemma emits_sub:
  assumes "sub_ok c s" and "vec_ok mv"
  shows "emits (\<lambda>b. fst (code_sub c (s, mv) (b, p))) (dec_sub s (seen c p)) (seen c (put_sub c s mv p))"
proof -
  obtain x y n r where s: "s = (x, y, n, r)" by (cases s)
  obtain px py where v: "mvp (W4 c) (H4 c) (p_nb p) (int x) (int y) (int n) (int r) = (px, py)" by (cases "mvp (W4 c) (H4 c) (p_nb p) (int x) (int y) (int n) (int r)")
  have d: "\<bar>fst mv - px\<bar> < 2 ^ 30" "\<bar>snd mv - py\<bar> < 2 ^ 30"
    using vec_diff [OF assms(2) mvp_range [of "W4 c" "H4 c" "p_nb p" "int x" "int y" "int n" "int r"]] v by simp_all
  have "emits (\<lambda>b. bw_se (snd mv - py) (bw_se (fst mv - px) b))
      (rd_bind rd_se (\<lambda>dx. rd_bind rd_se (\<lambda>dy. rd_ret (dec_set (x, y, n, r) (int r) (px + dx, py + dy) (seen c p)))))
      (dec_set (x, y, n, r) (int r) (px + (fst mv - px), py + (snd mv - py)) (seen c p))"
    by (rule emits_bind [OF emits_se [OF d(1)]], rule emits_map [OF emits_se [OF d(2)]])
  moreover have "seen c (put_sub c s mv p) = dec_set (x, y, n, r) (int r) mv (seen c p)"
    using put_sub_dec [OF assms] s by simp
  moreover have "mv_pred (d_field (seen c p)) (int x) (int y) (int n) (int r) = (px, py)"
    using v by (simp add: seen_def mvp_pred)
  ultimately show ?thesis by (simp add: s code_sub_def dec_sub_def v)
qed

lemma snd_code_sub: "snd (code_sub c (s, mv) (b, p)) = put_sub c s mv p"
  by (cases s) (simp add: code_sub_def case_prod_beta)

lemma code_subs_split:
  "fold (code_sub c) ss (b, p) = (fst (fold (code_sub c) ss (b, p)), fold (\<lambda>(s, mv). put_sub c s mv) ss p)"
proof (induction ss arbitrary: b p)
  case (Cons s ss)
  obtain s' mv where s: "s = (s', mv)" by (cases s)
  have "code_sub c s (b, p) = (fst (code_sub c s (b, p)), put_sub c s' mv p)"
    using snd_code_sub [of c s' mv b p] s by (metis prod.collapse)
  then show ?case using Cons.IH s by (metis (no_types, lifting) case_prod_conv fold_simps(2))
qed simp

lemma snd_code_subs: "snd (fold (code_sub c) ss (b, p)) = fold (\<lambda>(s, mv). put_sub c s mv) ss p"
  by (metis code_subs_split snd_conv)

lemma emits_subs:
  "(\<And>e. e \<in> set ss \<Longrightarrow> sub_ok c (fst e) \<and> vec_ok (snd e)) \<Longrightarrow>
   emits (\<lambda>b. fst (fold (code_sub c) ss (b, p))) (dec_subs (map fst ss) (seen c p)) (seen c (fold (\<lambda>(s, mv). put_sub c s mv) ss p))"
proof (induction ss arbitrary: p)
  case Nil
  then show ?case using emits_ret [of "seen c p"] by simp
next
  case (Cons s ss)
  obtain s' mv where s: "s = (s', mv)" by (cases s)
  have "emits (\<lambda>b. fst (code_sub c (s', mv) (b, p))) (dec_sub s' (seen c p)) (seen c (put_sub c s' mv p))"
    using Cons.prems [of s] s by (intro emits_sub) simp_all
  moreover have "emits (\<lambda>b. fst (fold (code_sub c) ss (b, put_sub c s' mv p))) (dec_subs (map fst ss) (seen c (put_sub c s' mv p)))
      (seen c (fold (\<lambda>(s, mv). put_sub c s mv) ss (put_sub c s' mv p)))"
    using Cons.prems by (intro Cons.IH) simp
  ultimately have "emits (\<lambda>b. fst (fold (code_sub c) ss (fst (code_sub c (s', mv) (b, p)), put_sub c s' mv p)))
      (rd_bind (dec_sub s' (seen c p)) (dec_subs (map fst ss))) (seen c (fold (\<lambda>(s, mv). put_sub c s mv) ss (put_sub c s' mv p)))"
    by (rule emits_bind)
  moreover have "code_sub c (s', mv) (b, p) = (fst (code_sub c (s', mv) (b, p)), put_sub c s' mv p)" for b
    using snd_code_sub by (metis prod.collapse)
  ultimately show ?case by (simp add: s)
qed

lemma fst_code_16:
  "fst (code_16 c nref m r mv (b, p)) = bw_ue 0 (fst (code_sub c (mb_sub c m r, mv) (bw_te nref r (bw_ue 0 b), p)))"
  by (simp add: code_16_def code_sub_def mb_sub_def case_prod_beta)

lemma snd_code_16: "snd (code_16 c nref m r mv (b, p)) = put_mb c m (int r) mv p"
  by (simp add: code_16_def case_prod_beta)

lemma put_mb_sub: "put_mb c m (int r) mv p = put_sub c (mb_sub c m r) mv p"
  by (simp add: put_mb_def put_sub_def mb_sub_def setmb_setblk mult.commute)

lemma emits_0: "emits (bw_ue 0) rd_ue 0"
  using ue.emits_one [of 0] by simp

lemma emits_cbp: "emits (bw_ue 0) (rd_bind rd_ue (\<lambda>cbp. rd_guard (cbp = 0) (rd_ret p))) p"
  using emits_bind [OF emits_0, of "\<lambda>b. b" "\<lambda>cbp. rd_guard (cbp = 0) (rd_ret p)" p] emits_ret [of p] by (simp add: rd_guard_def)

lemma emits_16:
  assumes "mb_ok c m" and "r < nref" and "nref \<le> MAXREF" and "vec_ok mv"
  shows "emits (\<lambda>b. fst (code_16 c nref m r mv (b, p))) (dec_mb c nref m (seen c p)) (seen c (put_mb c m (int r) mv p))"
proof -
  have ok: "sub_ok c (mb_sub c m r)" using assms by (simp add: sub_ok_def mb_sub_def mb_ok_def W4_def H4_def)
  show ?thesis
    unfolding fst_code_16 put_mb_sub dec_mb_def
    by (rule emits_bind [OF emits_0], simp only: simp_thms if_True)
      (rule emits_bind [OF emits_te [OF assms(2,3)]], rule emits_bind [OF emits_sub [OF ok assms(4)]], rule emits_cbp)
qed

lemma emits_pcm:
  assumes "mb_ok c m" and "length px = 384"
  shows "emits (\<lambda>b. fst (code_pcm c m px (b, p))) (dec_mb c nref m (seen c p)) (seen c (snd (code_pcm c m px (b0, p))))"
proof -
  have 30: "emits (bw_ue 30) rd_ue 30" using ue.emits_one [of 30] by simp
  let ?q = "\<lambda>px. (dec_set (mb_sub c m 0) (- 1) (0, 0) (seen c p))\<lparr>d_pcm := d_pcm (seen c p) @ [(m, px)]\<rparr>"
  have "seen c (put_mb c m (- 1) (0, 0) p) = dec_set (mb_sub c m 0) (- 1) (0, 0) (seen c p)"
    using assms(1) by (intro put_mb_dec) (simp_all add: vec_ok_def)
  then have q: "seen c (snd (code_pcm c m px (b0, p))) = ?q px" by (simp add: code_pcm_def seen_def put_mb_def dec_set_def mb_sub_def)
  have "emits (\<lambda>b. bw_bytes px (bw_align b)) (rd_bind (rd_bind rd_align (\<lambda>_. rd_list 384 rd_byte)) (\<lambda>px. rd_ret (?q px))) (?q px)"
    using emits_raw [of px] unfolding assms(2) by (rule emits_map)
  then show ?thesis
    unfolding q unfolding dec_mb_def code_pcm_def case_prod_conv fst_conv
    by (intro emits_bind [OF 30]) simp
qed

lemma quad_subs_ok: "mb_ok c m \<Longrightarrow> i < 4 \<Longrightarrow> r < MAXREF \<Longrightarrow> s \<in> set (quad_subs c m i sub r) \<Longrightarrow> sub_ok c s"
proof -
  assume h: "mb_ok c m" "i < 4" "r < MAXREF" "s \<in> set (quad_subs c m i sub r)"
  then have "i div 2 \<le> 1" "i mod 2 \<le> 1" "mb_x c m * 4 + 4 \<le> W4 c" "mb_y c m * 4 + 4 \<le> H4 c" "W4 c \<le> 2040" "H4 c \<le> 2040"
    by (auto simp: mb_ok_def W4_def H4_def)
  moreover have "xa < 4 \<Longrightarrow> xa div 2 \<le> 1 \<and> xa mod 2 \<le> 1" for xa :: nat by auto
  ultimately show ?thesis using h(3,4) by (fastforce simp: quad_subs_def sub_ok_def Let_def split: if_splits)
qed

lemma quad_subs_scan: "i < 4 \<Longrightarrow> quad_subs c m i sub r = scan_subs c m i sub r"
proof -
  assume "i < 4"
  then consider "i = 0" | "i = 1" | "i = 2" | "i = 3" by linarith
  then show ?thesis by cases (simp_all add: quad_subs_def scan_subs_def Let_def upt_rec)
qed

definition quad_ok :: "nat \<Rightarrow> nat \<times> nat \<times> (int \<times> int) list \<Rightarrow> bool" where
  "quad_ok nref = (\<lambda>(sub, r, mvs). r < nref \<and> (\<forall>mv \<in> set mvs. vec_ok mv) \<and>
     (sub = 0 \<and> length mvs = 1 \<or> sub = 3 \<and> length mvs = 4))"

definition mb_subs :: "cube \<Rightarrow> nat \<Rightarrow> (nat \<times> nat \<times> (int \<times> int) list) list \<Rightarrow> (sub \<times> int \<times> int) list" where
  "mb_subs c m qs = concat (map (\<lambda>(i, sub, r, mvs). zip (quad_subs c m i sub r) mvs) (zip [0..<4] qs))"

lemma quad_subs_length: "quad_ok nref (sub, r, mvs) \<Longrightarrow> length (quad_subs c m i sub r) = length mvs"
  by (auto simp: quad_ok_def quad_subs_def Let_def)

lemma mb_subs_shape:
  assumes "\<And>q. q \<in> set qs \<Longrightarrow> quad_ok nref q"
  shows "map fst (mb_subs c m qs) =
    concat (map (\<lambda>(i, sub, r). scan_subs c m i sub r) (zip [0..<4] (zip (map fst qs) (map (fst \<circ> snd) qs))))"
proof -
  have "map fst (case z of (i, sub, r, mvs) \<Rightarrow> zip (quad_subs c m i sub r) mvs) =
      (case z of (i, sub, r, mvs) \<Rightarrow> scan_subs c m i sub r)" if "z \<in> set (zip [0..<4] qs)" for z
  proof -
    obtain i sub r mvs where z: "z = (i, sub, r, mvs)" by (metis prod_cases4)
    then have "quad_ok nref (sub, r, mvs)" using that assms set_zip_rightD by fastforce
    moreover have "i < 4" using that set_zip_leftD unfolding z by fastforce
    ultimately show ?thesis using quad_subs_length [of nref sub r mvs c m i] by (simp add: z quad_subs_scan)
  qed
  then have "map fst (concat (map (\<lambda>(i, sub, r, mvs). zip (quad_subs c m i sub r) mvs) (zip [0..<4] qs))) =
      concat (map (\<lambda>(i, sub, r, mvs). scan_subs c m i sub r) (zip [0..<4] qs))"
    by (simp add: map_concat comp_def cong: map_cong)
  moreover have "map (\<lambda>(i, sub, r, mvs). scan_subs c m i sub r) (zip is qs) =
      map (\<lambda>(i, sub, r). scan_subs c m i sub r) (zip is (zip (map fst qs) (map (fst \<circ> snd) qs)))" for "is"
    by (induction "is" qs rule: list_induct2') auto
  ultimately show ?thesis by (simp add: mb_subs_def)
qed

lemma mb_subs_ok:
  assumes "mb_ok c m" "nref \<le> MAXREF" "\<And>q. q \<in> set qs \<Longrightarrow> quad_ok nref q" "e \<in> set (mb_subs c m qs)"
  shows "sub_ok c (fst e) \<and> vec_ok (snd e)"
proof -
  obtain i sub r mvs where z: "(i, sub, r, mvs) \<in> set (zip [0..<4] qs)" "e \<in> set (zip (quad_subs c m i sub r) mvs)"
    using assms(4) by (auto simp: mb_subs_def)
  have q: "quad_ok nref (sub, r, mvs)" using z(1) assms(3) set_zip_rightD by fastforce
  have i: "i < 4" using z(1) set_zip_leftD by fastforce
  have "fst e \<in> set (quad_subs c m i sub r)" "snd e \<in> set mvs"
    using z(2) by (metis prod.collapse set_zip_leftD, metis prod.collapse set_zip_rightD)
  then show ?thesis using q i assms(1,2) quad_subs_ok [of c m i r] by (auto simp: quad_ok_def)
qed

interpretation te: codec "bw_te nref" "rd_te nref" "\<lambda>r. r < nref \<and> nref \<le> MAXREF" for nref
  by unfold_locales (simp add: emits_te)

definition put_8 :: "cube \<Rightarrow> nat \<Rightarrow> (nat \<times> nat \<times> (int \<times> int) list) list \<Rightarrow> pic \<Rightarrow> pic" where
  "put_8 c m qs p = fold (\<lambda>(s, mv). put_sub c s mv) (mb_subs c m qs) p"

lemma code_8_eq:
  "code_8 c nref m qs (b, p) =
     (bw_ue 0 (fst (fold (code_sub c) (mb_subs c m qs)
        (fold (bw_te nref) (map (fst \<circ> snd) qs) (fold (\<lambda>k. bw_ue (word_of_nat k)) (map fst qs) (bw_ue 3 b)), p))),
      put_8 c m qs p)"
proof -
  have "fold (\<lambda>(sub, r, mvs). bw_ue (word_of_nat sub)) qs = fold (\<lambda>k. bw_ue (word_of_nat k)) (map fst qs)"
    "fold (\<lambda>(sub, r, mvs). bw_te nref r) qs = fold (bw_te nref) (map (fst \<circ> snd) qs)"
    by (induction qs) auto
  then show ?thesis
    by (simp add: code_8_def Let_def put_8_def mb_subs_def case_prod_beta snd_code_subs)
qed

lemma emits_8:
  assumes "mb_ok c m" and "nref \<le> MAXREF" and "length qs = 4" and q: "\<And>q. q \<in> set qs \<Longrightarrow> quad_ok nref q"
  shows "emits (\<lambda>b. fst (code_8 c nref m qs (b, p))) (dec_mb c nref m (seen c p)) (seen c (put_8 c m qs p))"
proof -
  have 3: "emits (bw_ue 3) rd_ue 3" using ue.emits_one [of 3] by simp
  have sub: "fst x \<in> {0, 3}" and ref: "fst (snd x) < nref" if "x \<in> set qs" for x
    using q [OF that] by (auto simp: quad_ok_def)
  have l: "length (map fst qs) = 4" "length (map (fst \<circ> snd) qs) = 4" using assms(3) by simp_all
  have s: "emits (fold (\<lambda>k. bw_ue (word_of_nat k)) (map fst qs)) (rd_list 4 rd_ue) (map fst qs)"
    using ue.emits_list [of "map fst qs"] sub l by fastforce
  have r: "emits (fold (bw_te nref) (map (fst \<circ> snd) qs)) (rd_list 4 (rd_te nref)) (map (fst \<circ> snd) qs)"
    using te.emits_list [of "map (fst \<circ> snd) qs" nref] ref assms(2) l by fastforce
  have g: "set (map fst qs) \<subseteq> {0, 3}" unfolding set_map by (rule image_subsetI) (rule sub)
  have e: "emits (\<lambda>b. fst (fold (code_sub c) (mb_subs c m qs) (b, p))) (dec_subs (map fst (mb_subs c m qs)) (seen c p)) (seen c (put_8 c m qs p))"
    unfolding put_8_def using mb_subs_ok [OF assms(1,2) q] by (intro emits_subs) blast
  let ?ss = "\<lambda>subs rs. concat (map (\<lambda>(i, sub, r). scan_subs c m i sub r) (zip [0..<4] (zip subs rs)))"
  let ?tail = "\<lambda>subs rs. rd_guard (set subs \<subseteq> {0, 3}) (rd_bind (dec_subs (?ss subs rs) (seen c p))
      (\<lambda>p. rd_bind rd_ue (\<lambda>cbp. rd_guard (cbp = 0) (rd_ret p))))"
  have "emits (\<lambda>b. bw_ue 0 (fst (fold (code_sub c) (mb_subs c m qs) (b, p)))) (?tail (map fst qs) (map (fst \<circ> snd) qs)) (seen c (put_8 c m qs p))"
  proof -
    have sh: "map fst (mb_subs c m qs) = ?ss (map fst qs) (map (fst \<circ> snd) qs)" using q by (rule mb_subs_shape)
    have "?tail (map fst qs) (map (fst \<circ> snd) qs) = rd_bind (dec_subs (?ss (map fst qs) (map (fst \<circ> snd) qs)) (seen c p))
        (\<lambda>p. rd_bind rd_ue (\<lambda>cbp. rd_guard (cbp = 0) (rd_ret p)))"
      using g by (simp only: rd_guard_def [of True] if_True)
    then show ?thesis using emits_bind [OF e, of "bw_ue 0", OF emits_cbp] unfolding sh by simp
  qed
  from emits_bind [OF r, of _ "?tail (map fst qs)", OF this]
  have "emits (\<lambda>b. bw_ue 0 (fst (fold (code_sub c) (mb_subs c m qs) (fold (bw_te nref) (map (fst \<circ> snd) qs) b, p))))
      (rd_bind (rd_list 4 (rd_te nref)) (?tail (map fst qs))) (seen c (put_8 c m qs p))" .
  from emits_bind [OF s, of _ "\<lambda>subs. rd_bind (rd_list 4 (rd_te nref)) (?tail subs)", OF this]
  have h: "emits (\<lambda>b. bw_ue 0 (fst (fold (code_sub c) (mb_subs c m qs)
        (fold (bw_te nref) (map (fst \<circ> snd) qs) (fold (\<lambda>k. bw_ue (word_of_nat k)) (map fst qs) b), p))))
      (rd_bind (rd_list 4 rd_ue) (\<lambda>subs. rd_bind (rd_list 4 (rd_te nref)) (?tail subs))) (seen c (put_8 c m qs p))" .
  show ?thesis
    unfolding code_8_eq fst_conv dec_mb_def
    by (rule emits_bind [OF 3]) (simp only: rel_simps if_True if_False, rule h)
qed

section \<open>The slice data\<close>

text \<open>
  What the theorems assume of the configuration and of the scene: pictures of at most 510 by 510
  macroblocks, vectors that fit 16 bits, 384 samples for an I_PCM macroblock, the black patch inside.
\<close>

definition frame_ok :: "cube \<Rightarrow> 't scene \<Rightarrow> bool" where
  "frame_ok c sc \<longleftrightarrow> 0 < WMB c \<and> WMB c \<le> 510 \<and> 0 < HMB c \<and> HMB c \<le> 510 \<and> PART c \<in> {4, 8, 16} \<and>
     BLACKX c \<in> {0..8191} \<and> BLACKY c \<in> {0..8191} \<and>
     (\<forall>f k t x y n. vec_ok (mv_for sc f k t x y n)) \<and> (\<forall>m. length (aa_mb sc m) = 384)"

lemma ent_range: "ent refs f k = Some r \<Longrightarrow> 1 \<le> r \<and> r < NREF refs"
proof -
  assume "ent refs f k = Some r"
  then have r: "(f, k) \<in> set refs" "r = length (takeWhile (\<lambda>p. p \<noteq> (f, k)) refs) + 1"
    by (auto simp: ent_def split: if_splits)
  then have "takeWhile (\<lambda>p. p \<noteq> (f, k)) refs \<noteq> refs" by (auto simp: takeWhile_eq_all_conv)
  then have "length (takeWhile (\<lambda>p. p \<noteq> (f, k)) refs) < length refs"
    by (metis length_takeWhile_le le_neq_implies_less takeWhile_eq_take take_all_iff)
  then show ?thesis using r(2) by (simp add: NREF_def)
qed

lemma most_range: "most nref es = Some r \<Longrightarrow> 1 \<le> r \<and> r < nref"
proof -
  have "fold (\<lambda>r br. let cnt = (\<lambda>r. length (filter (\<lambda>e. e = Some r) es)) in
     if cnt r \<noteq> 0 \<and> (case br of None \<Rightarrow> True | Some b \<Rightarrow> cnt r > cnt b) then Some r else br) xs br = Some r \<Longrightarrow>
     br = Some r \<or> r \<in> set xs" for xs br
    by (induction xs arbitrary: br) (auto simp: Let_def split: if_splits option.splits)
  from this [of "[1..<nref]" None] show "most nref es = Some r \<Longrightarrow> 1 \<le> r \<and> r < nref"
    unfolding most_def by auto
qed

lemma quad8_ok:
  assumes "frame_ok c sc" and "quad8 c sc refs m p = Some q"
  shows "quad_ok (NREF refs) q"
proof (cases "vis c sc m p")
  case None
  then show ?thesis using assms by (auto simp: quad8_def quad_ok_def vec_ok_def NREF_def)
next
  case (Some v)
  then show ?thesis
    using assms ent_range [of refs] by (auto simp: quad8_def quad_ok_def frame_ok_def bind_eq_Some_conv split: prod.splits)
qed

lemma black_ok:
  assumes "frame_ok c sc" "mb_x c m < 511" "mb_y c m < 511" "p < 4" "s2 < 4"
  shows "vec_ok (4 * (BLACKX c - int (mb_x c m * 16 + p mod 2 * 8 + s2 mod 2 * 4)),
    4 * (BLACKY c - int (mb_y c m * 16 + p div 2 * 8 + s2 div 2 * 4)))"
proof -
  have "mb_x c m * 16 + p mod 2 * 8 + s2 mod 2 * 4 \<le> 8191" "mb_y c m * 16 + p div 2 * 8 + s2 div 2 * 4 \<le> 8191"
    using assms by auto
  moreover have "0 \<le> BLACKX c" "BLACKX c \<le> 8191" "0 \<le> BLACKY c" "BLACKY c \<le> 8191"
    using assms(1) by (simp_all add: frame_ok_def)
  ultimately show ?thesis unfolding vec_ok_def by simp
qed

lemma quad4_ok:
  assumes "frame_ok c sc" and "quad4 c sc refs m p = Some q" and "mb_x c m < 511" "mb_y c m < 511" "p < 4"
  shows "quad_ok (NREF refs) q"
proof -
  let ?es = "sub_entries c sc refs m p"
  consider "?es = []" "q = (0, 0, [(0, 0)])"
    | br where "most (NREF refs) ?es = Some br" "q = (3, br, map (\<lambda>s2.
            let bx = mb_x c m * 16 + p mod 2 * 8 + s2 mod 2 * 4; by' = mb_y c m * 16 + p div 2 * 8 + s2 div 2 * 4 in
            case vis c sc m (p * 4 + s2) of
              None \<Rightarrow> (4 * (BLACKX c - int bx), 4 * (BLACKY c - int by'))
            | Some (f, t, k) \<Rightarrow> mv_for sc f (snd (refs ! (br - 1))) t (bx + 2) (by' + 2) 4) [0..<4])"
    using assms(2) by (auto simp: quad4_def Let_def bind_eq_Some_conv split: if_splits)
  then show ?thesis
  proof cases
    case 1
    then show ?thesis by (simp add: quad_ok_def vec_ok_def NREF_def)
  next
    case 2
    have mv: "vec_ok (mv_for sc f k t x y n)" for f k t x y n using assms(1) by (simp add: frame_ok_def)
    show ?thesis
      using most_range [OF 2(1)] black_ok [OF assms(1,3,4,5)] mv
      by (auto simp: 2(2) quad_ok_def Let_def split: option.splits prod.splits)
  qed
qed

lemma all_some_map:
  "all_some (map f xs) = Some ys \<Longrightarrow> length ys = length xs \<and> (\<forall>y \<in> set ys. \<exists>x \<in> set xs. f x = Some y)"
  by (induction xs arbitrary: ys) (auto simp: bind_eq_Some_conv, blast)

lemma mb_bounds:
  assumes "frame_ok c sc" "m < WMB c * HMB c"
  shows "mb_x c m < 511" "mb_y c m < 511" "mb_ok c m"
proof -
  have "mb_x c m < WMB c" using assms(1) by (simp add: mb_x_def frame_ok_def)
  moreover have "mb_y c m < HMB c" using assms(2) by (simp add: mb_y_def less_mult_imp_div_less mult.commute)
  ultimately show "mb_x c m < 511" "mb_y c m < 511" "mb_ok c m" using assms(1) by (simp_all add: frame_ok_def mb_ok_def)
qed

text \<open>
  A macroblock either joins the run of skipped ones, which only happens where the decoder infers the
  zero vector, or is written behind the run.
\<close>

lemma encode_mb_cases:
  assumes "frame_ok c sc" and "NREF refs \<le> MAXREF" and "m < WMB c * HMB c"
    and "encode_mb c sc refs m (skip, b, p) = Some (skip', b', p')"
  shows "skip' = skip + 1 \<and> b' = b \<and> seen c p' = dec_skip c m (seen c p) \<or>
    skip' = 0 \<and> (\<exists>w. b' = w (bw_ue (word_of_nat skip) b) \<and> emits w (dec_mb c (NREF refs) m (seen c p)) (seen c p'))"
proof -
  let ?f = "bw_ue (word_of_nat skip) b"
  note x = mb_bounds(1,2) [OF assms(1,3)] and ok = mb_bounds(3) [OF assms(1,3)]
  have zero: "vec_ok (0, 0)" by (simp add: vec_ok_def)
  have e16: "\<exists>w. fst (code_16 c (NREF refs) m r mv (?f, p)) = w ?f \<and> emits w (dec_mb c (NREF refs) m (seen c p)) (seen c (snd (code_16 c (NREF refs) m r mv (?f, p))))"
    if "r < NREF refs" "vec_ok mv" for r mv
    using emits_16 [OF ok that(1) assms(2) that(2), of p]
    by (intro exI [of _ "\<lambda>b. fst (code_16 c (NREF refs) m r mv (b, p))"]) (simp add: snd_code_16)
  show ?thesis
  proof (cases "if g_aa c \<or> mb_any c sc m then edge_mb_pcm c sc m else None")
    case (Some px)
    then have "edge_mb_pcm c sc m = Some px" by (simp split: if_splits)
    then have "length px = 384"
      using assms(1) by (auto simp: edge_mb_pcm_def frame_ok_def Let_def length_concat comp_def sum_list_triv split: if_splits)
    from emits_pcm [OF ok this, of p "NREF refs" ?f] show ?thesis
      using assms(4) Some by (auto simp: encode_mb_def Let_def intro!: exI [of _ "\<lambda>b. fst (code_pcm c m px (b, p))"])
  next
    case None
    show ?thesis
    proof (cases "mb_any c sc m")
      case False
      then show ?thesis
        using assms(4) None e16 [of 0 "(0, 0)"] zero put_mb_dec [OF ok, of 0 "(0, 0)" p 0]
        by (cases "pskip_mv (W4 c) (H4 c) (p_nb p) (int (mb_x c m * 4)) (int (mb_y c m * 4)) = (0, 0)")
          (auto simp: encode_mb_def Let_def dec_skip_def NREF_def pskip_skip seen_def)
    next
      case any: True
      show ?thesis
      proof (cases "PART c = 16")
        case True
        then obtain f t k k' r where "ent refs f k' = Some r"
            "code_16 c (NREF refs) m r (mv_for sc f k' t (mb_x c m * 16 + 8) (mb_y c m * 16 + 8) 16) (?f, p) = (b', p')" "skip' = 0"
          using assms(4) None any by (auto simp: encode_mb_def Let_def bind_eq_Some_conv split: option.splits)
        then show ?thesis
          using e16 [of r "mv_for sc f k' t (mb_x c m * 16 + 8) (mb_y c m * 16 + 8) 16"] ent_range assms(1)
          by (metis (no_types, lifting) frame_ok_def fst_conv snd_conv)
      next
        case False
        then obtain qs where qs: "all_some (map (quad c sc refs m) [0..<4]) = Some qs"
            "(b', p') = code_8 c (NREF refs) m qs (?f, p)" "skip' = 0"
          using assms(4) None any by (auto simp: encode_mb_def Let_def bind_eq_Some_conv)
        have "quad_ok (NREF refs) q" if "q \<in> set qs" for q
          using all_some_map [OF qs(1)] that quad8_ok [OF assms(1)] quad4_ok [OF assms(1) _ x]
          by (fastforce simp: quad_def split: if_splits)
        moreover have "length qs = 4" using all_some_map [OF qs(1)] by simp
        ultimately have "emits (\<lambda>b. fst (code_8 c (NREF refs) m qs (b, p))) (dec_mb c (NREF refs) m (seen c p)) (seen c (put_8 c m qs p))"
          using emits_8 [OF ok assms(2)] by blast
        then show ?thesis
          using qs(2,3) by (auto simp: code_8_eq intro!: exI [of _ "\<lambda>b. fst (code_8 c (NREF refs) m qs (b, p))"])
      qed
    qed
  qed
qed

lemma dec_data_run:
  assumes "rd_ue s = Some (r, s1)" "r > 0" "\<not> more_rbsp_data s1"
  shows "dec_data c nref m r p s = Some (fold (dec_skip c) [m..<m + r] p)"
  using assms by (subst dec_data.simps) (simp add: Let_def)

lemma dec_data_mb:
  assumes "rd_ue s = Some (r, s1)" "r < n" "more_rbsp_data s1"
    "dec_mb c nref (m + r) (fold (dec_skip c) [m..<m + r] p) s1 = Some (p2, s2)"
  shows "dec_data c nref m n p s =
    (if more_rbsp_data s2 then dec_data c nref (m + r + 1) (n - r - 1) p2 s2 else if n - r - 1 = 0 then Some p2 else None)"
  using assms by (subst dec_data.simps) (simp add: Let_def)

lemma frame_mbs: "frame_ok c sc \<Longrightarrow> WMB c * HMB c < 2 ^ 32 - 1"
proof -
  assume "frame_ok c sc"
  then have "WMB c * HMB c \<le> 510 * 510" by (intro mult_le_mono) (simp_all add: frame_ok_def)
  then show ?thesis by simp
qed

text \<open>
  The macroblocks from \<open>m\<close> on, with a run of \<open>skip\<close> pending: what is written from here to the end of
  the payload, read from the start of the run, gives the picture state of the encoder.
\<close>

lemma slice_data_follows:
  assumes "frame_ok c sc" and "NREF refs \<le> MAXREF"
  defines "N \<equiv> WMB c * HMB c"
  shows "encode_mbs c sc refs [m..<N] (skip, b, p) = Some (skip', b', p') \<Longrightarrow> bw_ok b \<Longrightarrow> skip \<le> m \<Longrightarrow> m \<le> N \<Longrightarrow>
    fold (dec_skip c) [m - skip..<m] p0 = seen c p \<Longrightarrow>
    \<exists>body j. byte_bits (bw_buf (bw_trailing (if skip' \<noteq> 0 then bw_ue (word_of_nat skip') b' else b'))) =
        bits b @ body @ True # replicate j False \<and>
      (if m - skip = N then body = [] \<and> p' = p
       else body \<noteq> [] \<and> dec_data c (NREF refs) (m - skip) (N - (m - skip)) p0 (length (bits b), body @ True # replicate j False) = Some (seen c p'))"
proof (induction "N - m" arbitrary: m skip b p p0)
  case 0
  have N: "N < 2 ^ 32 - 1" unfolding N_def by (rule frame_mbs [OF assms(1)])
  have m: "m = N" using 0 by simp
  then have e: "skip' = skip" "b' = b" "p' = p" using 0 by simp_all
  show ?case
  proof (cases "skip = 0")
    case True
    then show ?thesis using bw_trailing_bits [OF 0(3)] m e by auto
  next
    case False
    have "skip < 2 ^ 32 - 1" using 0 N m by linarith
    from emitsE [OF ue.emits_one [OF this] 0(3)] obtain bs where bs: "bw_ok (bw_ue (word_of_nat skip) b)"
        "bits (bw_ue (word_of_nat skip) b) = bits b @ bs"
        "\<And>rest. rd_ue (length (bits b), bs @ rest) = Some (skip, length (bits (bw_ue (word_of_nat skip) b)), rest)" by blast
    obtain j where j: "byte_bits (bw_buf (bw_trailing (bw_ue (word_of_nat skip) b))) = bits b @ bs @ True # replicate j False"
      using bw_trailing_bits [OF bs(1)] bs(2) by auto
    have "bs \<noteq> []" using bs(3) [of "[]"] rd_ue_Nil by auto
    moreover have "dec_data c (NREF refs) (m - skip) (N - (m - skip)) p0 (length (bits b), bs @ True # replicate j False) = Some (seen c p')"
      using dec_data_run [OF bs(3), of "True # replicate j False"] False 0 m e by (simp add: more_rbsp_data_def)
    moreover have "m - skip \<noteq> N" using False m 0(4) by linarith
    ultimately show ?thesis using j e False by (intro exI [of _ bs] exI [of _ j]) auto
  qed
next
  case (Suc n)
  have N: "N < 2 ^ 32 - 1" unfolding N_def by (rule frame_mbs [OF assms(1)])
  have m: "m < N" using Suc(2) by simp
  then have up: "[m..<N] = m # [Suc m..<N]" by (simp add: upt_rec)
  obtain sk2 b2 p2 where mb: "encode_mb c sc refs m (skip, b, p) = Some (sk2, b2, p2)"
      and rest: "encode_mbs c sc refs [Suc m..<N] (sk2, b2, p2) = Some (skip', b', p')"
    using Suc(3) unfolding up by (auto simp: bind_eq_Some_conv)
  have IH: "bw_ok b2 \<Longrightarrow> sk2 \<le> Suc m \<Longrightarrow> fold (dec_skip c) [Suc m - sk2..<Suc m] q0 = seen c p2 \<Longrightarrow>
    \<exists>body j. byte_bits (bw_buf (bw_trailing (if skip' \<noteq> 0 then bw_ue (word_of_nat skip') b' else b'))) =
        bits b2 @ body @ True # replicate j False \<and>
      (if Suc m - sk2 = N then body = [] \<and> p' = p2
       else body \<noteq> [] \<and> dec_data c (NREF refs) (Suc m - sk2) (N - (Suc m - sk2)) q0 (length (bits b2), body @ True # replicate j False) = Some (seen c p'))" for q0
    using Suc(1) [of "Suc m" sk2 b2 p2 q0] Suc(2) rest m by simp
  from encode_mb_cases [OF assms(1,2) m [unfolded N_def] mb]
  consider "sk2 = skip + 1" "b2 = b" "seen c p2 = dec_skip c m (seen c p)"
    | w where "sk2 = 0" "b2 = w (bw_ue (word_of_nat skip) b)" "emits w (dec_mb c (NREF refs) m (seen c p)) (seen c p2)" by blast
  then show ?case
  proof cases
    case 1
    have "fold (dec_skip c) [Suc m - sk2..<Suc m] p0 = seen c p2" using Suc 1 by simp
    moreover have s: "Suc m - sk2 = m - skip" "sk2 \<le> Suc m" using 1 Suc(5) by simp_all
    moreover have "m - skip \<noteq> N" using m by linarith
    ultimately show ?thesis using IH [of p0, unfolded s(1) 1(2)] Suc(4) by (simp only: if_False simp_thms)
  next
    case 2
    have "skip < 2 ^ 32 - 1" using Suc(5) N m by linarith
    from emitsE [OF ue.emits_one [OF this] Suc(4)] obtain bs where bs: "bw_ok (bw_ue (word_of_nat skip) b)"
        "bits (bw_ue (word_of_nat skip) b) = bits b @ bs"
        "\<And>rest. rd_ue (length (bits b), bs @ rest) = Some (skip, length (bits (bw_ue (word_of_nat skip) b)), rest)" by blast
    from emitsE [OF 2(3) bs(1)] obtain cs where cs: "bw_ok b2" "bits b2 = bits (bw_ue (word_of_nat skip) b) @ cs"
        "\<And>rest. dec_mb c (NREF refs) m (seen c p) (length (bits (bw_ue (word_of_nat skip) b)), cs @ rest) = Some (seen c p2, length (bits b2), rest)"
      using 2(2) by metis
    have ne: "bs \<noteq> []" "cs \<noteq> []"
      using bs(3) [of "[]"] cs(3) [of "[]"] by (auto simp: dec_mb_def rd_bind_def rd_ue_Nil)
    obtain body j where body: "byte_bits (bw_buf (bw_trailing (if skip' \<noteq> 0 then bw_ue (word_of_nat skip') b' else b'))) =
        bits b2 @ body @ True # replicate j False"
      and d: "if Suc m = N then body = [] \<and> p' = p2
       else body \<noteq> [] \<and> dec_data c (NREF refs) (Suc m) (N - Suc m) (seen c p2) (length (bits b2), body @ True # replicate j False) = Some (seen c p')"
      using IH [of "seen c p2", unfolded 2(1) diff_zero] cs(1) by auto
    let ?tail = "True # replicate j False"
    have more: "more_rbsp_data (k, cs @ body @ ?tail)" for k using ne(2) by (cases cs) (auto simp: more_rbsp_data_def)
    have more2: "more_rbsp_data (k, body @ ?tail) \<longleftrightarrow> Suc m \<noteq> N" for k
      using d by (cases body) (auto simp: more_rbsp_data_def split: if_splits)
    have n: "N - (m - skip) = N - m + skip" "m - skip + skip = m" using Suc(5) m by simp_all
    have "dec_data c (NREF refs) (m - skip) (N - (m - skip)) p0 (length (bits b), (bs @ cs @ body) @ ?tail) = Some (seen c p')"
      using dec_data_mb [OF bs(3), of "N - (m - skip)" "cs @ body @ ?tail" c "NREF refs" "m - skip" p0 "seen c p2"]
        d more more2 m Suc(7) cs(3) [of "body @ ?tail"] n by (simp split: if_splits)
    moreover have "bits b2 @ body @ ?tail = bits b @ (bs @ cs @ body) @ ?tail" using bs(2) cs(2) by simp
    ultimately show ?thesis using body ne(1) m by (intro exI [of _ "bs @ cs @ body"] exI [of _ j]) auto
  qed
qed

end
