(* ===== verification/Nal.thy ===== *)
theory Nal
  imports Prelude
begin

text \<open>
  NAL units of the decoder cube (\<open>coda-cube.c\<close>: \<open>nal_wrap\<close>): start code, header byte and the
  payload with emulation prevention. The code copies eight bytes at a time when a test on the
  64-bit word they form says that none of them is below 4; \<open>escape\<close> is the byte-by-byte
  specification and \<open>unescape\<close> the decoder's side of it (7.3.1 of the standard).
\<close>

text \<open>\<open>memcpy(&x, p, 8)\<close> on a little-endian machine.\<close>

definition le64 :: "u8 list \<Rightarrow> u64" where
  "le64 bs = foldr (\<lambda>b a. ucast b OR push_bit 8 a) bs 0"

definition no_small_byte :: "u64 \<Rightarrow> bool" where
  "no_small_byte x \<longleftrightarrow> (x - 0x0404040404040404) AND NOT x AND 0x8080808080808080 = 0"

fun nal_loop :: "nat \<Rightarrow> u8 list \<Rightarrow> u8 list" where
  "nal_loop z [] = []"
| "nal_loop z (x # xs) =
     (if 8 \<le> length (x # xs) \<and> no_small_byte (le64 (take 8 (x # xs)))
      then take 8 (x # xs) @ nal_loop 0 (drop 8 (x # xs))
      else if 2 \<le> z \<and> x \<le> 3 then 3 # x # nal_loop (if x \<noteq> 0 then 0 else 1) xs
      else x # nal_loop (if x \<noteq> 0 then 0 else z + 1) xs)"

definition nal_wrap :: "u8 \<Rightarrow> u8 \<Rightarrow> u8 list \<Rightarrow> u8 list" where
  "nal_wrap ref_idc type rbsp = [0, 0, 0, 1, push_bit 5 ref_idc OR type] @ nal_loop 0 rbsp"

section \<open>The fast test\<close>

primrec le_val :: "u8 list \<Rightarrow> int" where
  "le_val [] = 0"
| "le_val (b # bs) = uint b + 256 * le_val bs"

primrec fours :: "nat \<Rightarrow> int" where
  "fours 0 = 0"
| "fours (Suc n) = 4 + 256 * fours n"

lemma u8_range: "0 \<le> uint (b :: u8)" "uint (b :: u8) < 256"
  using unsigned_less [where ?'a = int and w = b] by simp_all

lemma le_val_bound: "0 \<le> le_val bs \<and> le_val bs < 256 ^ length bs"
proof (induction bs)
  case (Cons b bs)
  have "0 \<le> uint b" "uint b < 256" by (rule u8_range)+
  moreover have "256 * le_val bs + 256 \<le> 256 * 256 ^ length bs" using Cons by simp
  ultimately show ?case using Cons by simp
qed simp

lemma bit_le_val:
  assumes "i < length bs" and "k < 8"
  shows "bit (le_val bs) (8 * i + k) = bit (bs ! i) k"
  using assms(1)
proof (induction bs arbitrary: i)
  case (Cons b bs)
  have b: "0 \<le> uint b" "uint b < 256" by (rule u8_range)+
  have eq: "le_val (b # bs) = concat_bit 8 (uint b) (le_val bs)"
    using b by (simp add: concat_bit_eq push_bit_eq_mult take_bit_int_eq_self_iff [THEN iffD2])
  show ?case
  proof (cases i)
    case 0
    then show ?thesis unfolding eq using assms(2) by (simp add: bit_concat_bit_iff bit_uint_iff)
  next
    case (Suc j)
    then show ?thesis unfolding eq using Cons by (simp add: bit_concat_bit_iff)
  qed
qed simp

text \<open>
  Subtracting 4 from every byte borrows exactly at the first byte below 4, and there sets the top bit,
  which the byte itself does not have.
\<close>

lemma borrow_marks:
  "(\<And>i. i < length bs \<Longrightarrow> bit (le_val bs - fours (length bs)) (8 * i + 7) \<Longrightarrow> bit (bs ! i) 7) \<Longrightarrow>
   b \<in> set bs \<Longrightarrow> 4 \<le> uint b"
proof (induction bs)
  case (Cons c bs)
  define d where "d = le_val bs - fours (length bs)"
  have D: "le_val (c # bs) - fours (length (c # bs)) = (uint c - 4) + 256 * d" by (simp add: d_def)
  have c: "0 \<le> uint c" "uint c < 256" by (rule u8_range)+
  have c4: "4 \<le> uint c"
  proof (rule ccontr)
    assume "\<not> ?thesis"
    then have "uint c = 0 \<or> uint c = 1 \<or> uint c = 2 \<or> uint c = 3" using c(1) by linarith
    moreover have "(uint c - 4) + 256 * d = concat_bit 8 (uint c + 252) (d - 1)"
      using c \<open>\<not> 4 \<le> uint c\<close>
      by (simp add: concat_bit_eq push_bit_eq_mult take_bit_int_eq_self_iff [THEN iffD2])
    then have "bit ((uint c - 4) + 256 * d) 7 = bit (uint c + 252) 7" by (simp add: bit_concat_bit_iff)
    ultimately have "bit ((uint c - 4) + 256 * d) 7" "\<not> bit (uint c) 7" by auto
    then show False using Cons.prems(1) [of 0, unfolded D] by (simp add: bit_uint_iff)
  qed
  have "(uint c - 4) + 256 * d = concat_bit 8 (uint c - 4) d"
    using c c4 by (simp add: concat_bit_eq push_bit_eq_mult take_bit_int_eq_self_iff [THEN iffD2])
  then have "bit ((uint c - 4) + 256 * d) (8 * Suc i + 7) = bit d (8 * i + 7)" for i
    by (simp add: bit_concat_bit_iff add.commute)
  then have "bit (bs ! i) 7" if "i < length bs" "bit d (8 * i + 7)" for i
    using Cons.prems(1) [of "Suc i"] that unfolding D by (simp del: mult_Suc_right)
  then have "b \<in> set bs \<Longrightarrow> 4 \<le> uint b" using Cons.IH by (simp add: d_def)
  then show ?case using Cons.prems(2) c4 by auto
qed simp

lemma le64_val: "length bs \<le> 8 \<Longrightarrow> uint (le64 bs) = le_val bs"
proof (induction bs)
  case (Cons b bs)
  have u: "uint (le64 bs) = le_val bs" using Cons by simp
  have "256 ^ length bs \<le> (256 ^ 7 :: int)" by (rule power_increasing) (use Cons.prems in auto)
  then have l: "le_val bs < 256 ^ 7" using le_val_bound [of bs] by linarith
  have b: "0 \<le> uint b" "uint b < 256" by (rule u8_range)+
  have "uint (le64 (b # bs)) = uint b OR take_bit 64 (push_bit 8 (le_val bs))"
    using u by (simp add: le64_def unsigned_or_eq unsigned_push_bit_eq uint_ucast_up)
  also have "take_bit 64 (push_bit 8 (le_val bs)) = push_bit 8 (le_val bs)"
    using l le_val_bound [of bs] by (simp add: take_bit_int_eq_self_iff push_bit_eq_mult)
  also have "uint b OR push_bit 8 (le_val bs) = concat_bit 8 (uint b) (le_val bs)"
    using b by (simp add: concat_bit_def take_bit_int_eq_self_iff [THEN iffD2])
  also have "\<dots> = le_val (b # bs)"
    using b by (simp add: concat_bit_eq push_bit_eq_mult take_bit_int_eq_self_iff [THEN iffD2])
  finally show ?case .
qed (simp add: le64_def)

lemma no_small_byte_sound:
  assumes "no_small_byte (le64 bs)" and "length bs = 8" and "b \<in> set bs"
  shows "3 < b"
proof -
  let ?x = "le64 bs"
  have u: "uint ?x = le_val bs" using le64_val assms(2) by simp
  have f: "fours 8 = 0x0404040404040404" by (simp add: eval_nat_numeral)
  have "bit (bs ! i) 7" if i: "i < length bs" "bit (le_val bs - fours (length bs)) (8 * i + 7)" for i
  proof -
    have "?x - 0x0404040404040404 = word_of_int (le_val bs - fours 8)"
      unfolding f u [symmetric] by simp
    then have "bit (?x - 0x0404040404040404) (8 * i + 7)"
      using i assms(2) by (simp only: bit_word_of_int_iff) simp
    moreover have "bit (0x8080808080808080 :: u64) (8 * i + 7)"
    proof -
      have "i \<in> {0, 1, 2, 3, 4, 5, 6, 7}" using i assms(2) by auto
      then show ?thesis by (elim insertE emptyE) simp_all
    qed
    moreover have "\<not> bit ((?x - 0x0404040404040404) AND NOT ?x AND 0x8080808080808080) (8 * i + 7)"
      using assms(1) unfolding no_small_byte_def by simp
    ultimately have "bit ?x (8 * i + 7)" using i assms(2) by (simp add: bit_and_iff bit_not_iff)
    then have "bit (uint ?x) (8 * i + 7)" using i assms(2) by (simp add: bit_uint_iff)
    then show ?thesis using bit_le_val [of i bs 7] i u by simp
  qed
  then have "4 \<le> uint b" using borrow_marks assms(3) by blast
  then show ?thesis by (simp add: word_less_def)
qed

section \<open>Emulation prevention\<close>

text \<open>The specification: a byte below 4 behind two zeros gets a 3 in front of it.\<close>

fun escape :: "nat \<Rightarrow> u8 list \<Rightarrow> u8 list" where
  "escape z [] = []"
| "escape z (x # xs) =
     (if 2 \<le> z \<and> x \<le> 3 then 3 # x # escape (of_bool (x = 0)) xs
      else x # escape (if x = 0 then z + 1 else 0) xs)"

text \<open>The decoder drops a 3 behind two zeros.\<close>

fun unescape :: "nat \<Rightarrow> u8 list \<Rightarrow> u8 list" where
  "unescape z [] = []"
| "unescape z (x # xs) =
     (if 2 \<le> z \<and> x = 3 then unescape 0 xs else x # unescape (if x = 0 then z + 1 else 0) xs)"

lemma escape_plain: "(\<And>x. x \<in> set xs \<Longrightarrow> 3 < x) \<Longrightarrow> xs \<noteq> [] \<Longrightarrow> escape z (xs @ ys) = xs @ escape 0 ys"
proof (induction xs arbitrary: z)
  case (Cons x xs)
  then have x: "3 < x" by simp
  then have "\<not> x \<le> 3" "x \<noteq> 0" by (auto simp: not_le)
  then show ?case using Cons.IH [of 0] Cons.prems(1) by (cases "xs = []") simp_all
qed simp

lemma nal_loop_escape: "nal_loop z xs = escape z xs"
proof (induction z xs rule: nal_loop.induct)
  case (2 z x xs)
  show ?case
  proof (cases "8 \<le> length (x # xs) \<and> no_small_byte (le64 (take 8 (x # xs)))")
    case True
    have "3 < b" if "b \<in> set (take 8 (x # xs))" for b
      using no_small_byte_sound [of "take 8 (x # xs)" b] True that by simp
    then have "escape z (take 8 (x # xs) @ drop 8 (x # xs)) = take 8 (x # xs) @ escape 0 (drop 8 (x # xs))"
      by (rule escape_plain) auto
    then show ?thesis using True 2(1) by (simp del: take_Suc_Cons drop_Suc_Cons)
  next
    case False
    then have "nal_loop z (x # xs) = (if 2 \<le> z \<and> x \<le> 3 then 3 # x # nal_loop (if x \<noteq> 0 then 0 else 1) xs
        else x # nal_loop (if x \<noteq> 0 then 0 else z + 1) xs)"
      by (simp only: nal_loop.simps if_False)
    then show ?thesis using 2(2,3) [OF False] by (cases "2 \<le> z \<and> x \<le> 3") auto
  qed
qed simp

lemma unescape_escape: "unescape z (escape z xs) = xs"
proof (induction z xs rule: escape.induct)
  case (2 z x xs)
  then show ?case by (cases "x = 0") auto
qed simp

lemma escape_length: "z \<le> 2 \<Longrightarrow> 2 * length (escape z xs) \<le> 3 * length xs + z"
proof (induction z xs rule: escape.induct)
  case (2 z x xs)
  show ?case
  proof (cases "2 \<le> z \<and> x \<le> 3")
    case True
    then show ?thesis using 2(1) by (cases "x = 0") auto
  next
    case False
    then have "x = 0 \<Longrightarrow> z + 1 \<le> 2" by auto
    then show ?thesis using False 2(2) by (cases "x = 0") auto
  qed
qed simp

text \<open>
  No start code inside: three bytes \<open>0, 0, b\<close> with \<open>b < 3\<close> nowhere follow each other; \<open>start_free z\<close> is
  that check with \<open>z\<close> zeros in front.
\<close>

fun start_free :: "nat \<Rightarrow> u8 list \<Rightarrow> bool" where
  "start_free z [] = True"
| "start_free z (x # xs) = (\<not> (2 \<le> z \<and> x \<le> 2) \<and> start_free (if x = 0 then z + 1 else 0) xs)"

lemma escape_start_free: "start_free z (escape z xs)"
proof (induction z xs rule: escape.induct)
  case (2 z x xs)
  have "x \<le> 2 \<Longrightarrow> x \<le> 3" by (simp add: word_le_nat_alt)
  then show ?case using 2 by (cases "x = 0") auto
qed simp

lemma start_free_nth:
  "start_free z xs \<Longrightarrow> i + 2 < length xs \<Longrightarrow> xs ! i = 0 \<Longrightarrow> xs ! (i + 1) = 0 \<Longrightarrow> 2 < xs ! (i + 2)"
proof (induction xs arbitrary: z i)
  case (Cons x xs)
  show ?case
  proof (cases i)
    case 0
    then obtain y w ws where "xs = y # w # ws" using Cons.prems(2) by (cases xs; cases "tl xs") auto
    then show ?thesis using Cons.prems 0 by (simp add: not_le)
  next
    case (Suc j)
    then show ?thesis using Cons.IH [of "if x = 0 then z + 1 else 0" j] Cons.prems by simp
  qed
qed simp

text \<open>
  C9. NAL units. The eight-byte fast path of nal_wrap changes nothing: the unit is the start code, the
  header byte and the payload escaped byte by byte. The decoder gets the payload back, finds no start
  code inside the unit, and the unit is at most half as long again as the payload, which is what the
  buffer of the caller allows.
\<close>

theorem nal_wrap_roundtrip:
  "\<exists>p. nal_wrap ref_idc type rbsp = [0, 0, 0, 1, push_bit 5 ref_idc OR type] @ p \<and> p = escape 0 rbsp \<and>
     unescape 0 p = rbsp \<and> 2 * length p \<le> 3 * length rbsp \<and>
     \<not> (\<exists>i. i + 2 < length p \<and> p ! i = 0 \<and> p ! (i + 1) = 0 \<and> p ! (i + 2) \<le> 2)"
proof -
  have "\<not> (\<exists>i. i + 2 < length (escape 0 rbsp) \<and> escape 0 rbsp ! i = 0 \<and> escape 0 rbsp ! (i + 1) = 0 \<and> escape 0 rbsp ! (i + 2) \<le> 2)"
    using start_free_nth [OF escape_start_free] by (meson not_le)
  then show ?thesis
    using escape_length [of 0 rbsp] by (simp add: nal_wrap_def nal_loop_escape unescape_escape)
qed

end
