(* ===== verification/Pslice.thy ===== *)
theory Pslice
  imports Pdec Nal
begin

text \<open>
  The slice header of a P-picture on the decoder's side (7.3.3), the modification of the reference
  list (8.2.4.3), and the access unit as a whole: what a decoder makes of the bytes \<open>gen_frame\<close>
  hands it is the picture \<open>encode_frame\<close> meant. Also the reference list itself: which pairs of face
  and page get an entry, and when a block is left without one.
\<close>

section \<open>The slice header\<close>

record shdr =
  sh_frame_num :: nat
  sh_poc :: nat
  sh_nref :: nat
  sh_mods :: "nat list"
  sh_weights :: "((int \<times> int) \<times> (int \<times> int) \<times> (int \<times> int)) list"
  sh_qp :: int
  sh_dbk :: "(int \<times> int) option"

definition rd_flag :: "bool reader" where
  "rd_flag = rd_bind (rd_u 1) (\<lambda>k. rd_ret (k = 1))"

definition rd_pair :: "(int \<times> int) reader" where
  "rd_pair = rd_bind rd_se (\<lambda>a. rd_bind rd_se (\<lambda>b. rd_ret (a, b)))"

definition rd_if :: "bool \<Rightarrow> 'a reader \<Rightarrow> 'a \<Rightarrow> 'a reader" where
  "rd_if g p d = (if g then p else rd_ret d)"

text \<open>One row of \<open>pred_weight_table\<close>: luma, Cb and Cr weight and offset.\<close>

definition rd_weight :: "nat \<Rightarrow> nat \<Rightarrow> ((int \<times> int) \<times> (int \<times> int) \<times> (int \<times> int)) reader" where
  "rd_weight ld cd =
     rd_bind rd_flag (\<lambda>l. rd_bind (rd_if l rd_pair (2 ^ ld, 0)) (\<lambda>y.
     rd_bind rd_flag (\<lambda>g. rd_bind (rd_if g (rd_bind rd_pair (\<lambda>u. rd_bind rd_pair (\<lambda>v. rd_ret (u, v)))) ((2 ^ cd, 0), (2 ^ cd, 0)))
       (\<lambda>uv. rd_ret (y, uv)))))"

text \<open>\<open>ref_pic_list_modification\<close>: long-term picture numbers up to the end mark 3.\<close>

fun rd_mods :: "nat \<Rightarrow> nat list reader" where
  "rd_mods 0 = rd_bind rd_ue (\<lambda>idc. rd_guard (idc = 3) (rd_ret []))"
| "rd_mods (Suc n) = rd_bind rd_ue (\<lambda>idc. if idc = 3 then rd_ret [] else
     rd_guard (idc = 2) (rd_bind rd_ue (\<lambda>v. rd_bind (rd_mods n) (\<lambda>vs. rd_ret (v # vs)))))"

definition rd_hdr :: "bool \<Rightarrow> shdr reader" where
  "rd_hdr is_ref =
     rd_bind rd_ue (\<lambda>first. rd_guard (first = 0) (
     rd_bind rd_ue (\<lambda>ty. rd_guard (ty = 5) (
     rd_bind rd_ue (\<lambda>pps. rd_guard (pps = 0) (
     rd_bind (rd_u 16) (\<lambda>fn. rd_bind (rd_u 16) (\<lambda>poc.
     rd_bind rd_flag (\<lambda>ov. rd_bind (rd_if ov rd_ue 0) (\<lambda>n1.
     rd_bind rd_flag (\<lambda>md. rd_bind (rd_if md (rd_mods (n1 + 1)) []) (\<lambda>mods.
     rd_bind rd_ue (\<lambda>ld. rd_bind rd_ue (\<lambda>cd.
     rd_bind (rd_list (n1 + 1) (rd_weight ld cd)) (\<lambda>ws.
     rd_bind (rd_if is_ref rd_flag False) (\<lambda>adaptive. rd_guard (\<not> adaptive) (
     rd_bind rd_se (\<lambda>qp.
     rd_bind rd_ue (\<lambda>dis. rd_bind (rd_if (dis \<noteq> 1) (rd_bind rd_pair (\<lambda>ab. rd_ret (Some ab))) None) (\<lambda>db.
     rd_ret \<lparr>sh_frame_num = fn, sh_poc = poc, sh_nref = n1 + 1, sh_mods = mods, sh_weights = ws, sh_qp = qp, sh_dbk = db\<rparr>
     ))))))))))))))))))))"

text \<open>The header the encoder means.\<close>

definition the_hdr :: "cube \<Rightarrow> 't scene \<Rightarrow> (nat \<times> nat) list \<Rightarrow> int \<Rightarrow> int \<Rightarrow> shdr" where
  "the_hdr c sc refs frame_num poc =
     \<lparr>sh_frame_num = nat (frame_num mod 65536), sh_poc = nat (poc mod 65536), sh_nref = NREF refs, sh_mods = REFPAGE refs,
      sh_weights = ((64, 0), (64, 0), (64, 0)) # map (\<lambda>(f, k). let w = weight sc f in
        ((w, 0), (w, 128 - 2 * w), (w, 128 - 2 * w))) refs,
      sh_qp = g_qp c - 26, sh_dbk = (if g_dbk c then Some (g_abo c, g_abo c) else None)\<rparr>"

definition hdr_ok :: "cube \<Rightarrow> 't scene \<Rightarrow> (nat \<times> nat) list \<Rightarrow> bool" where
  "hdr_ok c sc refs \<longleftrightarrow> length refs < MAXREF \<and> (\<forall>(f, k) \<in> set refs. \<bar>weight sc f\<bar> < 2 ^ 28 \<and> k < 2 ^ 16) \<and>
     \<bar>g_qp c\<bar> < 2 ^ 16 \<and> \<bar>g_abo c\<bar> < 2 ^ 16"

lemma emits_flag: "emits (bw_u 1 (of_bool k)) rd_flag k"
  unfolding rd_flag_def by (rule flag.emits_one) simp

lemma emits_flag1: "emits (bw_u 1 1) rd_flag True" and emits_flag0: "emits (bw_u 1 0) rd_flag False"
  using emits_flag [of True] emits_flag [of False] by simp_all

lemma emits_lits:
  "emits (bw_ue 0) rd_ue 0" "emits (bw_ue 1) rd_ue 1" "emits (bw_ue 2) rd_ue 2" "emits (bw_ue 3) rd_ue 3"
  "emits (bw_ue 5) rd_ue 5" "emits (bw_ue 6) rd_ue 6"
  using ue.emits_one [of 0] ue.emits_one [of 1] ue.emits_one [of 2] ue.emits_one [of 3] ue.emits_one [of 5] ue.emits_one [of 6]
  by simp_all

lemma emits_guard: "g \<Longrightarrow> emits f p x \<Longrightarrow> emits f (rd_guard g p) x"
  by (simp add: rd_guard_def)

lemma emits_pair:
  assumes "\<bar>x\<bar> < 2 ^ 30" "\<bar>y\<bar> < 2 ^ 30"
  shows "emits (\<lambda>b. bw_se y (bw_se x b)) rd_pair (x, y)"
  unfolding rd_pair_def by (rule emits_bind [OF emits_se [OF assms(1)]], rule emits_map [OF emits_se [OF assms(2)]])

lemma emits_mods:
  "(\<And>v. v \<in> set vs \<Longrightarrow> v < 2 ^ 31) \<Longrightarrow>
   emits (\<lambda>b. bw_ue 3 (fold (\<lambda>pg b. bw_ue (word_of_nat pg) (bw_ue 2 b)) vs b)) (rd_mods (length vs)) vs"
proof (induction vs)
  case Nil
  have "emits (\<lambda>b. (bw_ue 3 b)) (rd_bind rd_ue (\<lambda>idc. rd_guard (idc = 3) (rd_ret []))) []"
    by (rule emits_bind [OF emits_lits(4), of "\<lambda>b. b"], rule emits_guard [OF refl], rule emits_ret)
  then show ?case by simp
next
  case (Cons v vs)
  have v: "emits (bw_ue (word_of_nat v)) rd_ue v" using Cons.prems [of v] by (intro ue.emits_one) simp
  have "emits (\<lambda>b. bw_ue 3 (fold (\<lambda>pg b. bw_ue (word_of_nat pg) (bw_ue 2 b)) vs (bw_ue (word_of_nat v) (bw_ue 2 b)))) (rd_mods (Suc (length vs))) (v # vs)"
    unfolding rd_mods.simps
    by (rule emits_bind [OF emits_lits(3)], simp only: rel_simps if_False, rule emits_guard [OF TrueI],
        rule emits_bind [OF v], rule emits_map [OF Cons.IH]) (use Cons.prems in auto)
  then show ?case by simp
qed

lemma emits_weight:
  assumes "\<bar>w\<bar> < 2 ^ 28"
  shows "emits (code_weight w) (rd_weight 6 6) ((w, 0), (w, 128 - 2 * w), (w, 128 - 2 * w))"
proof -
  have p: "emits (\<lambda>b. bw_se 0 (bw_se w b)) rd_pair (w, 0)"
    "emits (\<lambda>b. bw_se (128 - 2 * w) (bw_se w b)) rd_pair (w, 128 - 2 * w)"
    using assms by (intro emits_pair; simp)+
  have c: "code_weight w = (\<lambda>b. bw_se (128 - 2 * w) (bw_se w (bw_se (128 - 2 * w) (bw_se w (bw_u 1 1 (bw_se 0 (bw_se w (bw_u 1 1 b))))))))"
    by (simp add: code_weight_def Let_def fun_eq_iff)
  have uv: "emits (\<lambda>b. bw_se (128 - 2 * w) (bw_se w (bw_se (128 - 2 * w) (bw_se w b))))
      (rd_bind rd_pair (\<lambda>u. rd_bind rd_pair (\<lambda>v. rd_ret (u, v)))) ((w, 128 - 2 * w), (w, 128 - 2 * w))"
    by (rule emits_bind [OF p(2)], rule emits_map [OF p(2)])
  show ?thesis
    unfolding rd_weight_def c
    by (rule emits_bind [OF emits_flag1], simp only: rd_if_def if_True, rule emits_bind [OF p(1)],
        rule emits_bind [OF emits_flag1], simp only: if_True, rule emits_map [OF uv])
qed

lemma emits_weight0: "emits (\<lambda>b. bw_u 1 0 (bw_u 1 0 b)) (rd_weight 6 6) ((64, 0), (64, 0), (64, 0))"
proof -
  have "emits (\<lambda>b. bw_u 1 0 (bw_u 1 0 b)) (rd_weight 6 6) ((2 ^ 6, 0), (2 ^ 6, 0), (2 ^ 6, 0))"
    unfolding rd_weight_def
    by (rule emits_bind [OF emits_flag0], simp only: rd_if_def if_False, rule emits_bind [OF emits_ret, of "\<lambda>b. bw_u 1 0 b"],
        rule emits_bind [OF emits_flag0, of "\<lambda>b. b"], simp only: if_False, rule emits_map [OF emits_ret])
  then show ?thesis by simp
qed

lemma emits_low16: "emits (bw_u 16 (word_of_int x AND 0xffff)) (rd_u 16) (nat (x mod 65536))"
proof -
  have "take_bit 16 (word_of_int x AND 0xffff :: u32) = take_bit 16 (word_of_int x)"
    using take_bit_eq_mask [of 16 "word_of_int x :: u32"] by (simp add: mask_eq_exp_minus_1 take_bit_eq_mask ac_simps)
  then have "unat (take_bit 16 (word_of_int x AND 0xffff :: u32)) = nat (take_bit 16 x)"
    by (simp add: unsigned_take_bit_eq unat_eq_nat_uint uint_word_of_int_eq take_bit_nat_def)
  then show ?thesis using emits_u [of 16 "word_of_int x AND 0xffff"] by (simp add: take_bit_eq_mod)
qed

lemma emits_mark: "emits (bw_mark is_ref) (rd_if is_ref rd_flag False) False"
  using emits_flag0 emits_ret [of False] by (cases is_ref) (simp_all add: rd_if_def bw_mark_def [abs_def])

lemma emits_hdr:
  assumes "hdr_ok c sc refs"
  shows "emits (code_hdr c sc refs frame_num poc is_ref) (rd_hdr is_ref) (the_hdr c sc refs frame_num poc)"
proof -
  have n: "emits (bw_ue (word_of_nat (NREF refs - 1))) rd_ue (length refs)"
    using assms by (simp add: NREF_def hdr_ok_def MAXREF_def ue.emits_one)
  have m: "emits (\<lambda>b. bw_ue 3 (fold (\<lambda>pg b. bw_ue (word_of_nat pg) (bw_ue 2 b)) (REFPAGE refs) b)) (rd_mods (length refs + 1)) (REFPAGE refs)"
    using emits_mods [of "REFPAGE refs"] assms by (fastforce simp: REFPAGE_def hdr_ok_def)
  have w: "emits (\<lambda>b. fold (\<lambda>(f, k). code_weight (weight sc f)) refs (bw_u 1 0 (bw_u 1 0 b)))
      (rd_list (length refs + 1) (rd_weight 6 6)) (sh_weights (the_hdr c sc refs frame_num poc))"
  proof -
    have "emits (fold (\<lambda>(f, k). code_weight (weight sc f)) refs) (rd_list (length refs) (rd_weight 6 6))
        (map (\<lambda>(f, k). let w = weight sc f in ((w, 0), (w, 128 - 2 * w), (w, 128 - 2 * w))) refs)"
      using assms by (intro emits_fold) (auto simp: hdr_ok_def Let_def intro!: emits_weight)
    from emits_bind [OF emits_weight0, of _ "\<lambda>y. rd_bind (rd_list (length refs) (rd_weight 6 6)) (\<lambda>ys. rd_ret (y # ys))", OF emits_map [OF this]]
    show ?thesis by (simp add: the_hdr_def)
  qed
  have q: "emits (bw_se (g_qp c - 26)) rd_se (g_qp c - 26)" using assms by (intro emits_se) (auto simp: hdr_ok_def)
  have ab: "emits (\<lambda>b. bw_se (g_abo c) (bw_se (g_abo c) b)) rd_pair (g_abo c, g_abo c)"
    using assms by (intro emits_pair) (auto simp: hdr_ok_def)
  define fin where "fin = (\<lambda>qp db. \<lparr>sh_frame_num = nat (frame_num mod 65536), sh_poc = nat (poc mod 65536), sh_nref = length refs + 1,
      sh_mods = REFPAGE refs, sh_weights = sh_weights (the_hdr c sc refs frame_num poc), sh_qp = qp, sh_dbk = db\<rparr>)"
  have d: "emits (\<lambda>b. if g_dbk c then bw_se (g_abo c) (bw_se (g_abo c) (bw_ue 0 b)) else bw_ue 1 b)
      (rd_bind rd_ue (\<lambda>dis. rd_bind (rd_if (dis \<noteq> 1) (rd_bind rd_pair (\<lambda>ab. rd_ret (Some ab))) None) (\<lambda>db. rd_ret (fin (g_qp c - 26) db))))
      (the_hdr c sc refs frame_num poc)"
  proof (cases "g_dbk c")
    case True
    have t: "the_hdr c sc refs frame_num poc = fin (g_qp c - 26) (Some (g_abo c, g_abo c))"
      using True by (simp add: fin_def the_hdr_def NREF_def)
    show ?thesis
      unfolding t using True by simp (rule emits_bind [OF emits_lits(1)], simp add: rd_if_def, rule emits_map [OF emits_map [OF ab]])
  next
    case False
    have t: "the_hdr c sc refs frame_num poc = fin (g_qp c - 26) None"
      using False by (simp add: fin_def the_hdr_def NREF_def)
    show ?thesis
      unfolding t using False by simp (rule emits_bind [OF emits_lits(2), of "\<lambda>b. b"], simp add: rd_if_def, rule emits_map [OF emits_ret])
  qed
  let ?D = "\<lambda>b. if g_dbk c then bw_se (g_abo c) (bw_se (g_abo c) (bw_ue 0 b)) else bw_ue 1 b"
  let ?R = "\<lambda>qp. rd_bind rd_ue (\<lambda>dis. rd_bind (rd_if (dis \<noteq> 1) (rd_bind rd_pair (\<lambda>ab. rd_ret (Some ab))) None) (\<lambda>db. rd_ret (fin qp db)))"
  have g: "rd_guard (\<not> False) (rd_bind rd_se ?R) = rd_bind rd_se ?R" by (simp add: rd_guard_def)
  have t: "emits (\<lambda>b. ?D (bw_se (g_qp c - 26) (bw_mark is_ref b)))
      (rd_bind (rd_if is_ref rd_flag False) (\<lambda>adaptive. rd_guard (\<not> adaptive) (rd_bind rd_se ?R))) (the_hdr c sc refs frame_num poc)"
    by (rule emits_bind [OF emits_mark, of "\<lambda>b. ?D (bw_se (g_qp c - 26) b)"], unfold g) (rule emits_bind [OF q, of ?D ?R, OF d])
  show ?thesis
    unfolding code_hdr_def [abs_def] rd_hdr_def Let_def
    apply (rule emits_bind [OF emits_lits(1)], rule emits_guard [OF refl])
    apply (rule emits_bind [OF emits_lits(5)], rule emits_guard [OF refl])
    apply (rule emits_bind [OF emits_lits(1)], rule emits_guard [OF refl])
    apply (rule emits_bind [OF emits_low16], rule emits_bind [OF emits_low16])
    apply (rule emits_bind [OF emits_flag1], simp only: rd_if_def [of True] if_True, rule emits_bind [OF n])
    apply (rule emits_bind [OF emits_flag1], simp only: rd_if_def [of True] if_True, rule emits_bind [OF m])
    apply (rule emits_bind [OF emits_lits(6)], rule emits_bind [OF emits_lits(6)], rule emits_bind [OF w])
    apply (rule t [unfolded fin_def])
    done
qed

section \<open>The reference list\<close>

text \<open>Pairs the table has a place for, and what the selection loop keeps.\<close>

definition pairs :: "cube \<Rightarrow> (nat \<times> nat) set" where
  "pairs c = {0..<6} \<times> {0..<K c}"

lemma pick_fold:
  "case fold (\<lambda>p (bc, best). if p \<notin> set refs \<and> h p > bc then (h p, Some p) else (bc, best)) ps (0 :: nat, None) of
     (bc, None) \<Rightarrow> bc = 0 \<and> (\<forall>p \<in> set ps. p \<notin> set refs \<longrightarrow> h p = 0)
   | (bc, Some p) \<Rightarrow> p \<in> set ps \<and> p \<notin> set refs \<and> bc = h p \<and> h p > 0 \<and> (\<forall>p' \<in> set ps. p' \<notin> set refs \<longrightarrow> h p' \<le> h p)"
proof (induction ps rule: rev_induct)
  case (snoc p ps)
  define F where "F = fold (\<lambda>p (bc, best). if p \<notin> set refs \<and> h p > bc then (h p, Some p) else (bc, best)) ps (0 :: nat, None)"
  obtain bc best where f: "F = (bc, best)" by (cases F)
  have IH: "case (bc, best) of (bc, None) \<Rightarrow> bc = 0 \<and> (\<forall>p \<in> set ps. p \<notin> set refs \<longrightarrow> h p = 0)
      | (bc, Some p) \<Rightarrow> p \<in> set ps \<and> p \<notin> set refs \<and> bc = h p \<and> h p > 0 \<and> (\<forall>p' \<in> set ps. p' \<notin> set refs \<longrightarrow> h p' \<le> h p)"
    using snoc unfolding F_def [symmetric] f .
  show ?case
  proof (cases "p \<notin> set refs \<and> h p > bc")
    case True
    then have "h p' \<le> h p" if "p' \<in> set ps" "p' \<notin> set refs" for p'
      using IH that by (cases best) fastforce+
    then show ?thesis using True by (simp add: F_def [symmetric] f)
  next
    case False
    then show ?thesis using IH by (cases best) (auto simp: F_def [symmetric] f)
  qed
qed simp

lemma pick_None:
  assumes "pick c h refs = None" "p \<in> pairs c" "h p > 0"
  shows "p \<in> set refs"
  using pick_fold [where refs = refs and h = h and ps = "List.product [0..<6] [0..<K c]"] assms by (fastforce simp: pick_def pairs_def split: prod.splits)

lemma pick_Some:
  assumes "pick c h refs = Some p"
  shows "p \<in> pairs c \<and> p \<notin> set refs \<and> h p > 0"
  using pick_fold [where refs = refs and h = h and ps = "List.product [0..<6] [0..<K c]"] assms by (auto simp: pick_def pairs_def split: prod.splits)

lemma ref_loop_inv:
  assumes "distinct refs" "set refs \<subseteq> {p \<in> pairs c. h p > 0}"
  shows "distinct (ref_loop c h n refs) \<and> set (ref_loop c h n refs) \<subseteq> {p \<in> pairs c. h p > 0} \<and>
    length (ref_loop c h n refs) \<le> length refs + n \<and>
    (card {p \<in> pairs c. h p > 0} \<le> length refs + n \<longrightarrow> set (ref_loop c h n refs) = {p \<in> pairs c. h p > 0})"
  using assms
proof (induction n arbitrary: refs)
  case 0
  have "finite {p \<in> pairs c. h p > 0}" by (rule finite_subset [of _ "pairs c"]) (auto simp: pairs_def)
  then have "card {p \<in> pairs c. h p > 0} \<le> length refs \<Longrightarrow> set refs = {p \<in> pairs c. h p > 0}"
    using 0 by (metis card_seteq distinct_card)
  then show ?case using 0 by simp
next
  case (Suc n)
  show ?case
  proof (cases "pick c h refs")
    case None
    then have "{p \<in> pairs c. h p > 0} \<subseteq> set refs" using pick_None by blast
    then show ?thesis using None Suc.prems by auto
  next
    case (Some p)
    then have "distinct (refs @ [p])" "set (refs @ [p]) \<subseteq> {p \<in> pairs c. h p > 0}" using pick_Some Suc.prems by fastforce+
    from Suc.IH [OF this] show ?thesis using Some by simp
  qed
qed

lemma hist_used: "p \<in> set (used_pairs c sc) \<longleftrightarrow> 0 < hist c sc p"
  by (simp add: hist_def filter_empty_conv)

text \<open>
  The list holds at most fifteen pairs, each once and each in use; when no more than fifteen are in
  use it holds them all, and every visible block keeps its own page.
\<close>

lemma ref_list_inv:
  "distinct (ref_list c sc) \<and> set (ref_list c sc) \<subseteq> set (used_pairs c sc) \<inter> pairs c \<and> NREF (ref_list c sc) \<le> MAXREF"
  using ref_loop_inv [of "[]" c "hist c sc" "MAXREF - 1"] by (auto simp: ref_list_def hist_used NREF_def MAXREF_def)

lemma ref_list_all:
  assumes "set (used_pairs c sc) \<subseteq> pairs c" and "card (set (used_pairs c sc)) < MAXREF"
  shows "set (ref_list c sc) = set (used_pairs c sc)"
proof -
  have "{p \<in> pairs c. hist c sc p > 0} = set (used_pairs c sc)" using assms(1) by (auto simp: hist_used)
  then show ?thesis
    using ref_loop_inv [of "[]" c "hist c sc" "MAXREF - 1"] assms(2) by (simp add: ref_list_def MAXREF_def)
qed

lemma vis_used: "vis c sc m q = Some (f, t, k) \<Longrightarrow> m < WMB c * HMB c \<Longrightarrow> q < nblk c \<Longrightarrow> (f, k) \<in> set (used_pairs c sc)"
  unfolding used_pairs_def by (force simp: map_filter_def image_iff)

section \<open>What the picture is meant to be\<close>

text \<open>
  Without a bit stream and without neighbours: the samples of a macroblock sent as I_PCM, and the
  partitions of the others, from the block decisions alone.
\<close>

definition mb_pcm :: "cube \<Rightarrow> 't scene \<Rightarrow> nat \<Rightarrow> u8 list option" where
  "mb_pcm c sc m = (if g_aa c \<or> mb_any c sc m then edge_mb_pcm c sc m else None)"

definition mb_goal :: "cube \<Rightarrow> 't scene \<Rightarrow> (nat \<times> nat) list \<Rightarrow> nat \<Rightarrow> part list" where
  "mb_goal c sc refs m =
     (let whole = dec_part (mb_x c m * 16) (mb_y c m * 16) 16 in
      if mb_pcm c sc m \<noteq> None then [whole (- 1) (0, 0)]
      else if \<not> mb_any c sc m then [whole 0 (0, 0)]
      else if PART c = 16 then
        (case vis c sc m 0 of None \<Rightarrow> [] | Some (f, t, k) \<Rightarrow>
          (case final_page c refs f k of None \<Rightarrow> [] | Some k' \<Rightarrow>
            (case ent refs f k' of None \<Rightarrow> [] | Some r \<Rightarrow>
              [whole (int r) (mv_for sc f k' t (mb_x c m * 16 + 8) (mb_y c m * 16 + 8) 16)])))
      else
        (case all_some (map (quad c sc refs m) [0..<4]) of None \<Rightarrow> []
         | Some qs \<Rightarrow> map (\<lambda>((x, y, n, r), mv). dec_part (x * 4) (y * 4) (n * 4) (int r) mv) (mb_subs c m qs)))"

lemma put_8_parts:
  "(\<And>e. e \<in> set (mb_subs c m qs) \<Longrightarrow> sub_ok c (fst e) \<and> vec_ok (snd e)) \<Longrightarrow>
   p_parts (put_8 c m qs p) = p_parts p @ map (\<lambda>((x, y, n, r), mv). dec_part (x * 4) (y * 4) (n * 4) (int r) mv) (mb_subs c m qs) \<and>
   p_pcm (put_8 c m qs p) = p_pcm p"
proof -
  have "(\<And>e. e \<in> set ss \<Longrightarrow> sub_ok c (fst e) \<and> vec_ok (snd e)) \<Longrightarrow>
    p_parts (fold (\<lambda>(s, mv). put_sub c s mv) ss p) = p_parts p @ map (\<lambda>((x, y, n, r), mv). dec_part (x * 4) (y * 4) (n * 4) (int r) mv) ss \<and>
    p_pcm (fold (\<lambda>(s, mv). put_sub c s mv) ss p) = p_pcm p" for ss p
  proof (induction ss arbitrary: p)
    case (Cons e ss)
    obtain x y n r mv where e: "e = ((x, y, n, r), mv)" by (metis prod_cases4 surj_pair)
    have "sub_ok c (x, y, n, r)" "vec_ok mv" using Cons.prems [of e] by (simp_all add: e)
    then have "p_parts (put_sub c (x, y, n, r) mv p) = p_parts p @ [dec_part (x * 4) (y * 4) (n * 4) (int r) mv]" "p_pcm (put_sub c (x, y, n, r) mv p) = p_pcm p"
      by (simp_all add: put_sub_def sub_ok_def MAXREF_def mk_part_dec)
    then show ?case using Cons.IH [of "put_sub c (x, y, n, r) mv p"] Cons.prems by (simp add: e)
  qed simp
  then show "(\<And>e. e \<in> set (mb_subs c m qs) \<Longrightarrow> sub_ok c (fst e) \<and> vec_ok (snd e)) \<Longrightarrow> ?thesis" by (simp add: put_8_def)
qed

lemma quads_ok:
  assumes "frame_ok c sc" "m < WMB c * HMB c" "all_some (map (quad c sc refs m) [0..<4]) = Some qs"
  shows "length qs = 4 \<and> (\<forall>q \<in> set qs. quad_ok (NREF refs) q)"
  using all_some_map [OF assms(3)] quad8_ok [OF assms(1)] quad4_ok [OF assms(1) _ mb_bounds(1,2) [OF assms(1,2)]]
  by (fastforce simp: quad_def split: if_splits)

lemma encode_mb_parts:
  assumes "frame_ok c sc" and "NREF refs \<le> MAXREF" and "m < WMB c * HMB c"
    and "encode_mb c sc refs m (skip, b, p) = Some (skip', b', p')"
  shows "p_parts p' = p_parts p @ mb_goal c sc refs m \<and>
    p_pcm p' = p_pcm p @ (case mb_pcm c sc m of None \<Rightarrow> [] | Some px \<Rightarrow> [(m, px)])"
proof -
  note x = mb_bounds [OF assms(1,3)]
  have part: "p_parts (put_mb c m r mv p) = p_parts p @ [dec_part (mb_x c m * 16) (mb_y c m * 16) 16 r mv]"
      "p_pcm (put_mb c m r mv p) = p_pcm p" if "r \<in> {- 1..15}" "vec_ok mv" for r mv
    using that x by (simp_all add: put_mb_def mk_part_dec)
  have zero: "vec_ok (0, 0)" by (simp add: vec_ok_def)
  have mv: "vec_ok (mv_for sc f k t x y n)" for f k t x y n using assms(1) by (simp add: frame_ok_def)
  show ?thesis
  proof (cases "mb_pcm c sc m")
    case (Some px)
    then show ?thesis
      using assms(4) part [of "- 1" "(0, 0)"] zero by (simp add: encode_mb_def mb_goal_def mb_pcm_def code_pcm_def Let_def) auto
  next
    case None
    show ?thesis
    proof (cases "mb_any c sc m")
      case False
      then show ?thesis
        using assms(4) None part [of 0 "(0, 0)"] zero snd_code_16 [of c "NREF refs" m 0 "(0, 0)" "bw_ue (word_of_nat skip) b" p]
        by (auto simp: encode_mb_def mb_goal_def mb_pcm_def Let_def split: if_splits)
    next
      case any: True
      show ?thesis
      proof (cases "PART c = 16")
        case True
        obtain f t k k' r where v: "vis c sc m 0 = Some (f, t, k)" "final_page c refs f k = Some k'" "ent refs f k' = Some r"
            "code_16 c (NREF refs) m r (mv_for sc f k' t (mb_x c m * 16 + 8) (mb_y c m * 16 + 8) 16) (bw_ue (word_of_nat skip) b, p) = (b', p')"
          using assms(4) None any True by (auto simp: encode_mb_def mb_pcm_def Let_def bind_eq_Some_conv split: option.splits)
        then have "p' = put_mb c m (int r) (mv_for sc f k' t (mb_x c m * 16 + 8) (mb_y c m * 16 + 8) 16) p"
          using snd_code_16 by (metis snd_conv)
        moreover have "int r \<in> {- 1..15}" using ent_range [OF v(3)] assms(2) by (auto simp: MAXREF_def)
        ultimately show ?thesis using part mv None any True v(1,2,3) by (simp add: mb_goal_def Let_def)
      next
        case False
        obtain qs where qs: "all_some (map (quad c sc refs m) [0..<4]) = Some qs" "code_8 c (NREF refs) m qs (bw_ue (word_of_nat skip) b, p) = (b', p')"
          using assms(4) None any False by (auto simp: encode_mb_def mb_pcm_def Let_def bind_eq_Some_conv)
        then have "p' = put_8 c m qs p" by (simp add: code_8_eq)
        moreover have "sub_ok c (fst e) \<and> vec_ok (snd e)" if "e \<in> set (mb_subs c m qs)" for e
          using mb_subs_ok [OF x(3) assms(2) _ that] quads_ok [OF assms(1,3) qs(1)] by blast
        ultimately show ?thesis
          using put_8_parts [of c m qs p] None any False qs(1) by (simp add: mb_goal_def Let_def)
      qed
    qed
  qed
qed

lemma encode_mbs_parts:
  assumes "frame_ok c sc" and "NREF refs \<le> MAXREF"
  shows "set ms \<subseteq> {..<WMB c * HMB c} \<Longrightarrow> encode_mbs c sc refs ms (skip, b, p) = Some (skip', b', p') \<Longrightarrow>
    p_parts p' = p_parts p @ concat (map (mb_goal c sc refs) ms) \<and>
    p_pcm p' = p_pcm p @ concat (map (\<lambda>m. case mb_pcm c sc m of None \<Rightarrow> [] | Some px \<Rightarrow> [(m, px)]) ms)"
proof (induction ms arbitrary: skip b p)
  case (Cons m ms)
  obtain e where e: "encode_mb c sc refs m (skip, b, p) = Some e" "encode_mbs c sc refs ms e = Some (skip', b', p')"
    using Cons.prems(2) by (auto simp: bind_eq_Some_conv)
  obtain s2 b2 p2 where e2: "e = (s2, b2, p2)" by (cases e)
  show ?case
    using encode_mb_parts [OF assms _ e(1) [unfolded e2]] Cons.IH [OF _ e(2) [unfolded e2]] Cons.prems(1) by simp
qed simp

section \<open>No block is left without a page\<close>

definition pages_ok :: "cube \<Rightarrow> 't scene \<Rightarrow> bool" where
  "pages_ok c sc \<longleftrightarrow> set (used_pairs c sc) \<subseteq> pairs c \<and> card (set (used_pairs c sc)) < MAXREF"

lemma page_kept:
  assumes "pages_ok c sc" and "vis c sc m q = Some (f, t, k)" "m < WMB c * HMB c" "q < nblk c"
  shows "\<exists>r. ent (ref_list c sc) f k = Some r \<and> final_page c (ref_list c sc) f k = Some k \<and> entry c (ref_list c sc) f k = Some r"
proof -
  have "(f, k) \<in> set (ref_list c sc)"
    using ref_list_all vis_used [OF assms(2,3,4)] assms(1) by (auto simp: pages_ok_def)
  then show ?thesis by (auto simp: ent_def final_page_def entry_def)
qed

lemma all_some_total: "(\<And>x. x \<in> set xs \<Longrightarrow> f x \<noteq> None) \<Longrightarrow> all_some (map f xs) \<noteq> None"
proof (induction xs)
  case (Cons x xs)
  then show ?case by (cases "f x"; cases "all_some (map f xs)") fastforce+
qed simp

lemma most_total:
  assumes "Some r \<in> set es" and "1 \<le> r" "r < nref"
  shows "most nref es \<noteq> None"
proof -
  define cnt where "cnt = (\<lambda>r. length (filter (\<lambda>e. e = Some r) es))"
  have c: "cnt r \<noteq> 0" using assms(1) by (auto simp: cnt_def filter_empty_conv)
  have "(\<exists>r \<in> set xs. cnt r \<noteq> 0) \<or> br \<noteq> None \<Longrightarrow>
      fold (\<lambda>r br. if cnt r \<noteq> 0 \<and> (case br of None \<Rightarrow> True | Some b \<Rightarrow> cnt r > cnt b) then Some r else br) xs br \<noteq> None" for xs br
    by (induction xs arbitrary: br) (auto split: option.splits)
  from this [of "[1..<nref]" None] have "fold (\<lambda>r br. if cnt r \<noteq> 0 \<and> (case br of None \<Rightarrow> True | Some b \<Rightarrow> cnt r > cnt b) then Some r else br) [1..<nref] None \<noteq> None"
    using assms c by fastforce
  then show ?thesis unfolding most_def Let_def cnt_def .
qed

lemma quad_total:
  assumes ok: "pages_ok c sc" and m: "m < WMB c * HMB c" and "p < 4" and "PART c \<in> {4, 8}"
  shows "quad c sc (ref_list c sc) m p \<noteq> None"
proof (cases "PART c = 8")
  case True
  then have "p < nblk c" using assms(3) by (simp add: nblk_def)
  then show ?thesis
    using True page_kept [OF ok _ m] by (fastforce simp: quad_def quad8_def split: option.splits)
next
  case False
  then have n: "PART c = 4" "nblk c = 16" using assms(4) by (auto simp: nblk_def)
  let ?es = "sub_entries c sc (ref_list c sc) m p"
  have e: "\<exists>r. e = Some r \<and> 1 \<le> r \<and> r < NREF (ref_list c sc)" if "e \<in> set ?es" for e
  proof -
    obtain s2 f t k where s: "s2 < 4" "vis c sc m (p * 4 + s2) = Some (f, t, k)" "e = entry c (ref_list c sc) f k"
      using \<open>e \<in> set ?es\<close> by (auto simp: sub_entries_def map_filter_def)
    then have "p * 4 + s2 < nblk c" using assms(3) n by simp
    from page_kept [OF ok s(2) m this] show ?thesis using s(3) ent_range by fastforce
  qed
  then have "None \<notin> set ?es" by blast
  moreover have "?es \<noteq> [] \<Longrightarrow> most (NREF (ref_list c sc)) ?es \<noteq> None"
    using e [of "hd ?es"] most_total by (metis hd_in_set)
  ultimately show ?thesis using n by (auto simp: quad_def quad4_def Let_def)
qed

lemma encode_mb_total:
  assumes "frame_ok c sc" and "pages_ok c sc" and "m < WMB c * HMB c"
  shows "encode_mb c sc (ref_list c sc) m e \<noteq> None"
proof -
  obtain skip b p where e: "e = (skip, b, p)" by (cases e)
  consider px where "(if g_aa c \<or> mb_any c sc m then edge_mb_pcm c sc m else None) = Some px"
    | "(if g_aa c \<or> mb_any c sc m then edge_mb_pcm c sc m else None) = None" "\<not> mb_any c sc m"
    | "(if g_aa c \<or> mb_any c sc m then edge_mb_pcm c sc m else None) = None" "mb_any c sc m" "PART c = 16"
    | "(if g_aa c \<or> mb_any c sc m then edge_mb_pcm c sc m else None) = None" "mb_any c sc m" "PART c \<noteq> 16"
    by (cases "if g_aa c \<or> mb_any c sc m then edge_mb_pcm c sc m else None") blast+
  then show ?thesis
  proof cases
    case 3
    then obtain f t k where v: "vis c sc m 0 = Some (f, t, k)" by (auto simp: mb_any_def nblk_def)
    have "0 < nblk c" using 3 by (simp add: nblk_def)
    from page_kept [OF assms(2) v assms(3) this] show ?thesis using 3 v by (auto simp: e encode_mb_def Let_def)
  next
    case 4
    have "all_some (map (quad c sc (ref_list c sc) m) [0..<4]) \<noteq> None"
      using quad_total [OF assms(2,3)] assms(1) 4(3) by (intro all_some_total) (auto simp: frame_ok_def)
    then show ?thesis using 4 by (auto simp: e encode_mb_def Let_def)
  qed (simp_all add: e encode_mb_def Let_def)
qed

lemma encode_mbs_total:
  assumes "frame_ok c sc" and "pages_ok c sc"
  shows "set ms \<subseteq> {..<WMB c * HMB c} \<Longrightarrow> encode_mbs c sc (ref_list c sc) ms e \<noteq> None"
proof (induction ms arbitrary: e)
  case (Cons m ms)
  then show ?case using encode_mb_total [OF assms, of m e] by (cases "encode_mb c sc (ref_list c sc) m e") simp_all
qed simp

section \<open>The picture as the decoder sees it\<close>

text \<open>
  The modification process for long-term pictures (8.2.4.3.2): each command puts its picture at the
  next index and drops a later copy of it.
\<close>

datatype refpic = Short nat | Long nat

fun mod_refs :: "nat \<Rightarrow> nat list \<Rightarrow> refpic list \<Rightarrow> refpic list" where
  "mod_refs i [] L = L"
| "mod_refs i (v # vs) L = mod_refs (i + 1) vs (take i L @ [Long v] @ filter (\<lambda>p. p \<noteq> Long v) (drop i L))"

lemma mod_refs_take: "i \<le> length L \<Longrightarrow> take (i + length vs) (mod_refs i vs L) = take i L @ map Long vs"
proof (induction vs arbitrary: i L)
  case (Cons v vs)
  have "take (i + 1 + length vs) (mod_refs (i + 1) vs (take i L @ [Long v] @ filter (\<lambda>p. p \<noteq> Long v) (drop i L))) =
      take (i + 1) (take i L @ [Long v] @ filter (\<lambda>p. p \<noteq> Long v) (drop i L)) @ map Long vs"
    using Cons.prems by (intro Cons.IH) simp
  then show ?case using Cons.prems by simp
qed simp

text \<open>A decoder that got the access unit: header, reference list and picture.\<close>

record decoded =
  dc_hdr :: shdr
  dc_refs :: "refpic list"
  dc_pic :: dpic

definition dec_p_nal :: "cube \<Rightarrow> bool \<Rightarrow> refpic list \<Rightarrow> u8 list \<Rightarrow> decoded option" where
  "dec_p_nal c is_ref init nal =
     (case rd_hdr is_ref (0, byte_bits (unescape 0 (drop 5 nal))) of
        None \<Rightarrow> None
      | Some (h, s1) \<Rightarrow>
          map_option (\<lambda>p. \<lparr>dc_hdr = h, dc_refs = take (sh_nref h) (mod_refs 0 (sh_mods h) init), dc_pic = p\<rparr>)
            (dec_data c (sh_nref h) 0 (WMB c * HMB c) \<lparr>d_field = \<lambda>_ _. None, d_parts = [], d_pcm = []\<rparr> s1))"

lemma unwrap: "unescape 0 (drop 5 (nal_wrap ref_idc type rbsp)) = rbsp"
  by (simp add: nal_wrap_def nal_loop_escape unescape_escape)

lemma seen_clear: "seen c (pic_clear s) = \<lparr>d_field = \<lambda>_ _. None, d_parts = [], d_pcm = []\<rparr>"
  by (simp add: seen_def pic_clear_def field_none)

lemma p_nal_decodes:
  assumes ok: "frame_ok c sc" and hdr: "hdr_ok c sc (ref_list c sc)"
    and enc: "encode_frame c sc frame_num poc is_ref s bw_new = Some (b, p)"
  shows "dec_p_nal c is_ref init (nal_wrap ref_idc type (bw_buf b)) =
    Some \<lparr>dc_hdr = the_hdr c sc (ref_list c sc) frame_num poc, dc_refs = map Long (REFPAGE (ref_list c sc)), dc_pic = seen c p\<rparr>"
proof -
  let ?refs = "ref_list c sc" and ?N = "WMB c * HMB c"
  have new: "bw_ok bw_new" "bits bw_new = []" by (simp_all add: bw_new_def bw_ok_def bits_def)
  from emitsE [OF emits_hdr [OF hdr, of frame_num poc is_ref] new(1)] obtain hs where h: "bw_ok (code_hdr c sc ?refs frame_num poc is_ref bw_new)"
      "bits (code_hdr c sc ?refs frame_num poc is_ref bw_new) = hs"
      "\<And>rest. rd_hdr is_ref (0, hs @ rest) = Some (the_hdr c sc ?refs frame_num poc, length hs, rest)"
    using new(2) by auto
  obtain skip b' where e: "encode_mbs c sc ?refs [0..<?N] (0, code_hdr c sc ?refs frame_num poc is_ref bw_new, pic_clear s) = Some (skip, b', p)"
      "b = bw_trailing (if skip \<noteq> 0 then bw_ue (word_of_nat skip) b' else b')"
    using enc by (auto simp: encode_frame_def Let_def bind_eq_Some_conv)
  have "NREF ?refs \<le> MAXREF" using ref_list_inv by blast
  from slice_data_follows [OF ok this e(1) h(1), of "seen c (pic_clear s)"] obtain body j where
      "byte_bits (bw_buf b) = hs @ body @ True # replicate j False"
      "dec_data c (NREF ?refs) 0 ?N (seen c (pic_clear s)) (length hs, body @ True # replicate j False) = Some (seen c p)"
    using ok h(2) e(2) by (auto simp: frame_ok_def)
  moreover have "sh_nref (the_hdr c sc ?refs frame_num poc) = NREF ?refs" "sh_mods (the_hdr c sc ?refs frame_num poc) = REFPAGE ?refs"
    by (simp_all add: the_hdr_def)
  moreover have "take (NREF ?refs) (mod_refs 0 (REFPAGE ?refs) init) = map Long (REFPAGE ?refs)"
    using mod_refs_take [of 0 init "REFPAGE ?refs"] by (simp add: NREF_def REFPAGE_def)
  ultimately show ?thesis by (simp add: dec_p_nal_def unwrap h(3) seen_clear)
qed

lemma encode_frame_total:
  assumes "frame_ok c sc" and "pages_ok c sc"
  shows "\<exists>b p. encode_frame c sc frame_num poc is_ref s bw_new = Some (b, p) \<and>
    p_parts p = concat (map (mb_goal c sc (ref_list c sc)) [0..<WMB c * HMB c]) \<and>
    p_pcm p = concat (map (\<lambda>m. case mb_pcm c sc m of None \<Rightarrow> [] | Some px \<Rightarrow> [(m, px)]) [0..<WMB c * HMB c])"
proof -
  let ?refs = "ref_list c sc"
  obtain skip b p where e: "encode_mbs c sc ?refs [0..<WMB c * HMB c] (0, code_hdr c sc ?refs frame_num poc is_ref bw_new, pic_clear s) = Some (skip, b, p)"
    using encode_mbs_total [OF assms(1,2), of "[0..<WMB c * HMB c]"] by fastforce
  have "NREF ?refs \<le> MAXREF" using ref_list_inv by blast
  moreover have "set [0..<WMB c * HMB c] \<subseteq> {..<WMB c * HMB c}" by auto
  ultimately have "p_parts p = concat (map (mb_goal c sc ?refs) [0..<WMB c * HMB c])"
      "p_pcm p = concat (map (\<lambda>m. case mb_pcm c sc m of None \<Rightarrow> [] | Some px \<Rightarrow> [(m, px)]) [0..<WMB c * HMB c])"
    using encode_mbs_parts [OF assms(1) _ _ e] by (simp_all add: pic_clear_def)
  moreover have "encode_frame c sc frame_num poc is_ref s bw_new =
      Some (bw_trailing (if skip \<noteq> 0 then bw_ue (word_of_nat skip) b else b), p)"
    using e by (simp add: encode_frame_def Let_def)
  ultimately show ?thesis by blast
qed

text \<open>
  C2. The rendered picture reaches the decoder. When at most fifteen pairs of face and atlas page are
  visible, the encoder never indexes its tables out of range, and a decoder that starts from the bytes
  of the access unit, whatever its reference list was, finds: the header fields and the weights of the
  lights, the reference list with the black page first and the chosen pages behind it, exactly the
  partitions with the references and motion vectors the blocks were given (the predicted vectors, the
  skipped runs and the entropy code cancel), and the samples of the I_PCM macroblocks.
\<close>

theorem p_picture_decodes:
  assumes "frame_ok c sc" and "pages_ok c sc" and "hdr_ok c sc (ref_list c sc)"
  shows "\<exists>b p d. encode_frame c sc frame_num poc is_ref s bw_new = Some (b, p) \<and>
    dec_p_nal c is_ref init (nal_wrap ref_idc type (bw_buf b)) =
      Some \<lparr>dc_hdr = the_hdr c sc (ref_list c sc) frame_num poc, dc_refs = map Long (REFPAGE (ref_list c sc)), dc_pic = d\<rparr> \<and>
    d_parts d = concat (map (mb_goal c sc (ref_list c sc)) [0..<WMB c * HMB c]) \<and>
    d_pcm d = concat (map (\<lambda>m. case mb_pcm c sc m of None \<Rightarrow> [] | Some px \<Rightarrow> [(m, px)]) [0..<WMB c * HMB c]) \<and>
    p_parts p = d_parts d"
proof -
  obtain b p where p: "encode_frame c sc frame_num poc is_ref s bw_new = Some (b, p)"
      "p_parts p = concat (map (mb_goal c sc (ref_list c sc)) [0..<WMB c * HMB c])"
      "p_pcm p = concat (map (\<lambda>m. case mb_pcm c sc m of None \<Rightarrow> [] | Some px \<Rightarrow> [(m, px)]) [0..<WMB c * HMB c])"
    using encode_frame_total [OF assms(1,2)] by blast
  have "d_parts (seen c p) = p_parts p" "d_pcm (seen c p) = p_pcm p" by (simp_all add: seen_def)
  with p show ?thesis
    by (intro exI [of _ b] exI [of _ p] exI [of _ "seen c p"] conjI p_nal_decodes [OF assms(1,3)]) simp_all
qed

text \<open>Two macroblocks, the right one a face seen through page 0 of the atlas.\<close>

definition cube2 :: cube where
  "cube2 = \<lparr>WMB = 2, HMB = 1, PART = 16, K = 1, BLACKX = 8, BLACKY = 8, g_aa = False, g_pcm_test = False,
     g_dbk = False, g_qp = 26, g_abo = 0\<rparr>"

definition scene2 :: "unit scene" where
  "scene2 = \<lparr>nlist = \<lambda>m. m, block_hit = \<lambda>m x y. Some (2, (), 0), mv_for = \<lambda>f k t x y n. (5, - 3), weight = \<lambda>f. 40,
     g_edge = \<lambda>_. False, aa_mb = \<lambda>_. replicate 384 0\<rparr>"

definition nb0 :: nbst where
  "nb0 = \<lparr>sref = \<lambda>_. 0, smv = \<lambda>_. (0, 0), sdone = \<lambda>_. False\<rparr>"

lemma cube2_sel: "WMB cube2 = 2" "HMB cube2 = 1" "K cube2 = 1" "g_edge scene2 m = False"
  by (simp_all add: cube2_def scene2_def)

lemma scene2_used: "used_pairs cube2 scene2 = [(2, 0)]"
  by (simp add: used_pairs_def cube2_def scene2_def vis_def nblk_def map_filter_def upt_rec)

lemma scene2_pages: "pages_ok cube2 scene2"
  unfolding pages_ok_def scene2_used by (simp add: pairs_def cube2_def MAXREF_def)

lemma distinct_single: "distinct xs \<Longrightarrow> set xs = {x} \<Longrightarrow> xs = [x]"
  by (cases xs; cases "tl xs") auto

lemma scene2_refs: "ref_list cube2 scene2 = [(2, 0)]"
proof -
  have "set (ref_list cube2 scene2) = set (used_pairs cube2 scene2)"
    by (rule ref_list_all) (use scene2_pages in \<open>simp_all add: pages_ok_def\<close>)
  then show ?thesis using ref_list_inv [of cube2 scene2] unfolding scene2_used by (auto intro: distinct_single)
qed

lemma scene2_ok: "frame_ok cube2 scene2"
  by (simp add: frame_ok_def cube2_def scene2_def vec_ok_def)

lemma scene2_hdr: "hdr_ok cube2 scene2 (ref_list cube2 scene2)"
  unfolding scene2_refs by (simp add: hdr_ok_def cube2_def scene2_def MAXREF_def)

theorem p_picture_decodes_witness:
  "\<exists>b p d. encode_frame cube2 scene2 2 4 False nb0 bw_new = Some (b, p) \<and>
    dec_p_nal cube2 False [] (nal_wrap 0 1 (bw_buf b)) =
      Some \<lparr>dc_hdr = the_hdr cube2 scene2 [(2, 0)] 2 4, dc_refs = [Long 0, Long 1], dc_pic = d\<rparr> \<and>
    d_parts d = [dec_part 0 0 16 0 (0, 0), dec_part 16 0 16 1 (5, - 3)] \<and> d_pcm d = []"
proof -
  have "\<exists>b p d. encode_frame cube2 scene2 2 4 False nb0 bw_new = Some (b, p) \<and>
    dec_p_nal cube2 False [] (nal_wrap 0 1 (bw_buf b)) =
      Some \<lparr>dc_hdr = the_hdr cube2 scene2 (ref_list cube2 scene2) 2 4, dc_refs = map Long (REFPAGE (ref_list cube2 scene2)), dc_pic = d\<rparr> \<and>
    d_parts d = concat (map (mb_goal cube2 scene2 (ref_list cube2 scene2)) [0..<WMB cube2 * HMB cube2]) \<and>
    d_pcm d = concat (map (\<lambda>m. case mb_pcm cube2 scene2 m of None \<Rightarrow> [] | Some px \<Rightarrow> [(m, px)]) [0..<WMB cube2 * HMB cube2]) \<and>
    p_parts p = d_parts d"
    by (rule p_picture_decodes [OF scene2_ok scene2_pages scene2_hdr])
  moreover have "concat (map (mb_goal cube2 scene2 [(2, 0)]) [0..<2]) = [dec_part 0 0 16 0 (0, 0), dec_part 16 0 16 1 (5, - 3)]"
    by (simp add: upt_rec mb_goal_def mb_pcm_def mb_any_def edge_mb_pcm_def vis_def nblk_def cube2_def scene2_def mb_x_def mb_y_def
      ent_def final_page_def)
  moreover have "concat (map (\<lambda>m. case mb_pcm cube2 scene2 m of None \<Rightarrow> [] | Some px \<Rightarrow> [(m, px)]) [0..<2]) = []"
    by (simp add: upt_rec mb_pcm_def edge_mb_pcm_def cube2_def scene2_def)
  moreover have "WMB cube2 * HMB cube2 = 2" by (simp add: cube2_def)
  ultimately show ?thesis by (auto simp: scene2_refs REFPAGE_def)
qed

end
