(* ===== verification/Bpic.thy ===== *)
theory Bpic
  imports Pslice
begin

text \<open>
  The other pictures of the decoder cube (\<open>coda-cube.c\<close>): the smoothing B-pictures (\<open>encode_bpic\<close>),
  the parameter sets (\<open>sps_pps\<close>), the atlas pages sent as I_PCM pictures (\<open>pcm_page\<close>), the access
  units of a frame (\<open>gen_frame\<close>), and the decoder's side of each.
\<close>

section \<open>Smoothing B-pictures\<close>

text \<open>
  Both lists share \<open>sdone\<close>: \<open>b_l0\<close> is \<open>sref\<close>, \<open>smv\<close> and \<open>sdone\<close>, and \<open>b_ref1\<close>, \<open>b_mv1\<close> are \<open>bref1\<close> and
  \<open>bmv1\<close>, seen through \<open>l1\<close> as the code sees them after it swaps the pointers.
\<close>

record bst =
  b_l0 :: nbst
  b_ref1 :: "nat \<Rightarrow> s8"
  b_mv1 :: "nat \<Rightarrow> s16 \<times> s16"

definition l1 :: "bst \<Rightarrow> nbst" where
  "l1 s = (b_l0 s)\<lparr>sref := b_ref1 s, smv := b_mv1 s\<rparr>"

definition b_set :: "cube \<Rightarrow> nat \<Rightarrow> int \<times> int \<Rightarrow> (int \<times> int) option \<Rightarrow> bst \<Rightarrow> bst" where
  "b_set c m v0 v1 s =
     (let s = s\<lparr>b_l0 := setmb (W4 c) (mb_x c m * 4) (mb_y c m * 4) 0 v0 (b_l0 s)\<rparr>;
          n = setmb (W4 c) (mb_x c m * 4) (mb_y c m * 4) (case v1 of None \<Rightarrow> - 1 | Some _ \<Rightarrow> 0)
                (case v1 of None \<Rightarrow> (0, 0) | Some v \<Rightarrow> v) (l1 s) in
      s\<lparr>b_l0 := (b_l0 s)\<lparr>sdone := sdone n\<rparr>, b_ref1 := sref n, b_mv1 := smv n\<rparr>)"

definition bw_vec :: "cube \<Rightarrow> nat \<Rightarrow> nbst \<Rightarrow> int \<times> int \<Rightarrow> bw \<Rightarrow> bw" where
  "bw_vec c m n v b =
     (let (px, py) = mvp (W4 c) (H4 c) n (int (mb_x c m * 4)) (int (mb_y c m * 4)) 4 0 in
      bw_se (snd v - py) (bw_se (fst v - px) b))"

definition code_bmb :: "cube \<Rightarrow> bool \<Rightarrow> int \<times> int \<Rightarrow> int \<times> int \<Rightarrow> nat \<Rightarrow> bw \<times> bst \<Rightarrow> bw \<times> bst" where
  "code_bmb c bi m0 m1 m = (\<lambda>(b, s).
     let v0 = (if bi then m0 else (0, 0));
         b = bw_ue 0 b;
         b = bw_ue (if bi then 3 else 1) b;
         b = bw_vec c m (b_l0 s) v0 b;
         b = (if bi then bw_vec c m (l1 s) m1 b else b);
         b = bw_ue 0 b in
     (b, b_set c m v0 (if bi then Some m1 else None) s))"

definition code_bhdr :: "int \<Rightarrow> int \<Rightarrow> bool \<Rightarrow> bw \<Rightarrow> bw" where
  "code_bhdr frame_num poc is_ref b =
     (let b = bw_ue 0 (bw_ue 6 (bw_ue 0 b));
          b = bw_u 16 (word_of_int frame_num AND 0xffff) b;
          b = bw_u 16 (word_of_int poc AND 0xffff) b;
          b = bw_u 1 1 b;
          b = bw_ue 0 (bw_ue 0 (bw_u 1 1 b));
          b = bw_ue 3 (bw_ue 0 (bw_ue 0 (bw_u 1 1 b)));
          b = bw_ue 3 (bw_ue 0 (bw_ue 0 (bw_u 1 1 b)));
          b = bw_mark is_ref b in
      bw_ue 1 (bw_se 0 b))"

definition b_clear :: "bst \<Rightarrow> bst" where
  "b_clear s = s\<lparr>b_l0 := (b_l0 s)\<lparr>sdone := \<lambda>_. False\<rparr>\<rparr>"

definition encode_bpic :: "cube \<Rightarrow> (nat \<Rightarrow> bool) \<Rightarrow> int \<Rightarrow> int \<Rightarrow> bool \<Rightarrow> int \<times> int \<Rightarrow> int \<times> int \<Rightarrow> bst \<Rightarrow> u8 list \<times> bst" where
  "encode_bpic c edge frame_num poc is_ref m0 m1 s =
     (let b = code_bhdr frame_num poc is_ref bw_new;
          (b, s) = fold (\<lambda>m. code_bmb c (edge m) m0 m1 m) [0..<WMB c * HMB c] (b, b_clear s) in
      (bw_buf (bw_trailing b), s))"

section \<open>A decoder of B-pictures\<close>

record bhdr =
  bh_frame_num :: nat
  bh_poc :: nat
  bh_l0 :: "nat list"
  bh_l1 :: "nat list"

text \<open>Modification commands for short-term pictures: \<open>abs_diff_pic_num_minus1\<close>, up to the end mark.\<close>

definition rd_short :: "nat list reader" where
  "rd_short = rd_bind rd_flag (\<lambda>f. rd_if f (rd_bind rd_ue (\<lambda>idc. rd_guard (idc = 0) (rd_bind rd_ue (\<lambda>d.
     rd_bind rd_ue (\<lambda>e. rd_guard (e = 3) (rd_ret [d])))))) [])"

definition rd_bhdr :: "bool \<Rightarrow> bhdr reader" where
  "rd_bhdr is_ref =
     rd_bind rd_ue (\<lambda>first. rd_guard (first = 0) (
     rd_bind rd_ue (\<lambda>ty. rd_guard (ty = 6) (
     rd_bind rd_ue (\<lambda>pps. rd_guard (pps = 0) (
     rd_bind (rd_u 16) (\<lambda>fn. rd_bind (rd_u 16) (\<lambda>poc.
     rd_bind rd_flag (\<lambda>direct.
     rd_bind rd_flag (\<lambda>ov. rd_bind (rd_if ov rd_ue 0) (\<lambda>n0. rd_bind (rd_if ov rd_ue 0) (\<lambda>n1. rd_guard (n0 = 0 \<and> n1 = 0) (
     rd_bind rd_short (\<lambda>a. rd_bind rd_short (\<lambda>z.
     rd_bind (rd_if is_ref rd_flag False) (\<lambda>adaptive. rd_guard (\<not> adaptive) (
     rd_bind rd_se (\<lambda>qp. rd_bind rd_ue (\<lambda>dis. rd_guard (qp = 0 \<and> dis = 1) (
     rd_ret \<lparr>bh_frame_num = fn, bh_poc = poc, bh_l0 = a, bh_l1 = z\<rparr>))))))))))))))))))))"

definition rd_vec :: "cube \<Rightarrow> nat \<Rightarrow> field \<Rightarrow> (int \<times> int) reader" where
  "rd_vec c m g = rd_bind rd_se (\<lambda>dx. rd_bind rd_se (\<lambda>dy.
     let (px, py) = mv_pred g (int (mb_x c m * 4)) (int (mb_y c m * 4)) 4 0 in rd_ret (px + dx, py + dy)))"

text \<open>
  B_L0_16x16 and B_Bi_16x16; the result of a macroblock is its two vectors. The decoder keeps a motion
  field for each list; a macroblock without a vector in list 1 has reference \<open>- 1\<close> there.
\<close>

type_synonym bvecs = "(int \<times> int) \<times> (int \<times> int) option"

definition put_fields :: "cube \<Rightarrow> nat \<Rightarrow> bvecs \<Rightarrow> field \<times> field \<Rightarrow> field \<times> field" where
  "put_fields c m = (\<lambda>(v0, v1) (g0, g1).
     (field_put (mb_x c m * 4) (mb_y c m * 4) 4 0 v0 g0,
      case v1 of None \<Rightarrow> field_put (mb_x c m * 4) (mb_y c m * 4) 4 (- 1) (0, 0) g1
      | Some v \<Rightarrow> field_put (mb_x c m * 4) (mb_y c m * 4) 4 0 v g1))"

definition dec_bmb :: "cube \<Rightarrow> nat \<Rightarrow> field \<times> field \<Rightarrow> (bvecs \<times> field \<times> field) reader" where
  "dec_bmb c m g = rd_bind rd_ue (\<lambda>run. rd_guard (run = 0) (rd_bind rd_ue (\<lambda>ty. rd_guard (ty = 1 \<or> ty = 3) (
     rd_bind (rd_vec c m (fst g)) (\<lambda>v0.
     rd_bind (rd_if (ty = 3) (rd_bind (rd_vec c m (snd g)) (\<lambda>v. rd_ret (Some v))) None) (\<lambda>v1.
     rd_bind rd_ue (\<lambda>cbp. rd_guard (cbp = 0) (rd_ret ((v0, v1), put_fields c m (v0, v1) g)))))))))"

fun dec_bmbs :: "cube \<Rightarrow> nat list \<Rightarrow> field \<times> field \<Rightarrow> bvecs list reader" where
  "dec_bmbs c [] g = rd_ret []"
| "dec_bmbs c (m # ms) g = rd_bind (dec_bmb c m g) (\<lambda>(v, g). rd_bind (dec_bmbs c ms g) (\<lambda>vs. rd_ret (v # vs)))"

text \<open>A NAL unit: its syntax structure, and nothing but the trailing bits behind it.\<close>

definition dec_nal :: "'a reader \<Rightarrow> u8 list \<Rightarrow> 'a option" where
  "dec_nal p nal = (case p (0, byte_bits (unescape 0 (drop 5 nal))) of
     None \<Rightarrow> None
   | Some (r, s1) \<Rightarrow> if more_rbsp_data s1 then None else Some r)"

definition dec_b_nal :: "cube \<Rightarrow> bool \<Rightarrow> u8 list \<Rightarrow> (bhdr \<times> bvecs list) option" where
  "dec_b_nal c is_ref =
     dec_nal (rd_bind (rd_bhdr is_ref) (\<lambda>h. rd_bind (dec_bmbs c [0..<WMB c * HMB c] (\<lambda>_ _. None, \<lambda>_ _. None)) (\<lambda>vs. rd_ret (h, vs))))"

definition bseen :: "cube \<Rightarrow> bst \<Rightarrow> field \<times> field" where
  "bseen c s = (field_of (W4 c) (H4 c) (b_l0 s), field_of (W4 c) (H4 c) (l1 s))"

lemma bseen_clear: "bseen c (b_clear s) = (\<lambda>_ _. None, \<lambda>_ _. None)"
proof -
  have "l1 (b_clear s) = (l1 s)\<lparr>sdone := \<lambda>_. False\<rparr>" by (simp add: l1_def b_clear_def)
  then show ?thesis by (simp add: bseen_def field_none b_clear_def)
qed

lemma setmb_again: "sdone t = sdone s \<Longrightarrow> setmb w x y r mv (s\<lparr>sdone := sdone (setmb w x y r' mv' t)\<rparr>) = setmb w x y r mv s"
  unfolding setmb_setblk setblk_cells by (rule nbst.equality) (auto simp: fun_eq_iff setcells)

lemma setmb_done: "sdone t = sdone s \<Longrightarrow> sdone (setmb w x y r mv s) = sdone (setmb w x y r' mv' t)"
  unfolding setmb_setblk setblk_cells by (auto simp: fun_eq_iff setcells)

lemma bseen_set:
  assumes "mb_ok c m" "vec_ok v0" "v1 = None \<or> (\<exists>v. v1 = Some v \<and> vec_ok v)"
  shows "bseen c (b_set c m v0 v1 s) = put_fields c m (v0, v1) (bseen c s)"
proof -
  let ?r = "(case v1 of None \<Rightarrow> - 1 | Some _ \<Rightarrow> 0) :: int" and ?v = "case v1 of None \<Rightarrow> (0, 0) | Some v \<Rightarrow> v"
  let ?n = "setmb (W4 c) (mb_x c m * 4) (mb_y c m * 4)"
  have in': "mb_x c m * 4 + 4 \<le> W4 c" "mb_y c m * 4 + 4 \<le> H4 c" using assms(1) by (simp_all add: mb_ok_def W4_def H4_def)
  have v: "vec_ok ?v" "?r \<in> {- 128..127}" using assms(3) by (auto simp: vec_ok_def)
  define A where "A = ?n 0 v0 (b_l0 s)"
  have n: "l1 (s\<lparr>b_l0 := A\<rparr>) = (l1 s)\<lparr>sdone := sdone A\<rparr>" "sdone (b_l0 s) = sdone (l1 s)" by (simp_all add: l1_def)
  have "b_set c m v0 v1 s = s\<lparr>b_l0 := A, b_ref1 := sref (?n ?r ?v (l1 s)), b_mv1 := smv (?n ?r ?v (l1 s))\<rparr>"
    unfolding b_set_def Let_def A_def [symmetric] n(1)
    using setmb_again [OF n(2)] setmb_done [OF n(2)] by (simp add: A_def)
  moreover have "l1 (s\<lparr>b_l0 := A, b_ref1 := sref (?n ?r ?v (l1 s)), b_mv1 := smv (?n ?r ?v (l1 s))\<rparr>) = ?n ?r ?v (l1 s)"
    by (rule nbst.equality) (simp_all add: l1_def [of "s\<lparr>b_l0 := _, b_ref1 := _, b_mv1 := _\<rparr>"] A_def, rule setmb_done [OF n(2) [symmetric]])
  ultimately show ?thesis
    using field_setmb [OF in', of 0 v0 "b_l0 s"] field_setmb [OF in' v(2,1), of "l1 s"] assms(2)
    by (simp add: bseen_def put_fields_def A_def split: option.splits)
qed

lemma emits_vec:
  assumes "vec_ok v"
  shows "emits (bw_vec c m n v) (rd_vec c m (field_of (W4 c) (H4 c) n)) v"
proof -
  obtain px py where p: "mvp (W4 c) (H4 c) n (int (mb_x c m * 4)) (int (mb_y c m * 4)) 4 0 = (px, py)"
    by (cases "mvp (W4 c) (H4 c) n (int (mb_x c m * 4)) (int (mb_y c m * 4)) 4 0")
  have d: "\<bar>fst v - px\<bar> < 2 ^ 30" "\<bar>snd v - py\<bar> < 2 ^ 30"
    using vec_diff [OF assms mvp_range [of "W4 c" "H4 c" n "int (mb_x c m * 4)" "int (mb_y c m * 4)" 4 0]] p by simp_all
  have "emits (\<lambda>b. bw_se (snd v - py) (bw_se (fst v - px) b)) (rd_bind rd_se (\<lambda>dx. rd_bind rd_se (\<lambda>dy. rd_ret (px + dx, py + dy))))
      (px + (fst v - px), py + (snd v - py))"
    by (rule emits_bind [OF emits_se [OF d(1)]], rule emits_map [OF emits_se [OF d(2)]])
  then show ?thesis unfolding bw_vec_def [abs_def] rd_vec_def mvp_pred [symmetric] p Let_def prod.case by simp
qed

lemma fst_bseen: "fst (bseen c s) = field_of (W4 c) (H4 c) (b_l0 s)" "snd (bseen c s) = field_of (W4 c) (H4 c) (l1 s)"
  by (simp_all add: bseen_def)

lemma emits_bmb:
  assumes "vec_ok m0" "vec_ok m1" "mb_ok c m"
  defines "v0 \<equiv> \<lambda>bi. if bi then m0 else (0, 0)" and "v1 \<equiv> \<lambda>bi. if bi then Some m1 else None"
  shows "emits (\<lambda>b. fst (code_bmb c bi m0 m1 m (b, s))) (dec_bmb c m (bseen c s)) ((v0 bi, v1 bi), bseen c (b_set c m (v0 bi) (v1 bi) s)) \<and>
    snd (code_bmb c bi m0 m1 m (b, s)) = b_set c m (v0 bi) (v1 bi) s"
proof (cases bi)
  case True
  have "emits (\<lambda>b. bw_ue 0 (bw_vec c m (l1 s) m1 (bw_vec c m (b_l0 s) m0 (bw_ue 3 (bw_ue 0 b))))) (dec_bmb c m (bseen c s))
      ((m0, Some m1), put_fields c m (m0, Some m1) (bseen c s))"
    unfolding dec_bmb_def fst_bseen
    by (rule emits_bind [OF emits_lits(1)], rule emits_guard [OF refl], rule emits_bind [OF emits_lits(4)], rule emits_guard, simp,
        rule emits_bind [OF emits_vec [OF assms(1)]], simp only: rd_if_def simp_thms if_True,
        rule emits_bind [OF emits_map [OF emits_vec [OF assms(2)]]], rule emits_cbp)
  then show ?thesis using True assms(1-3) by (simp add: code_bmb_def v0_def v1_def Let_def bseen_set)
next
  case False
  have z: "vec_ok (0, 0)" by (simp add: vec_ok_def)
  have "emits (\<lambda>b. bw_ue 0 (bw_vec c m (b_l0 s) (0, 0) (bw_ue 1 (bw_ue 0 b)))) (dec_bmb c m (bseen c s))
      (((0, 0), None), put_fields c m ((0, 0), None) (bseen c s))"
    unfolding dec_bmb_def fst_bseen
    by (rule emits_bind [OF emits_lits(1)], rule emits_guard [OF refl], rule emits_bind [OF emits_lits(2)], rule emits_guard, simp,
        rule emits_bind [OF emits_vec [OF z]], simp only: rd_if_def rel_simps if_False,
        rule emits_bind [OF emits_ret, of "bw_ue 0"], rule emits_cbp)
  then show ?thesis using False assms(3) z by (simp add: code_bmb_def v0_def v1_def Let_def bseen_set)
qed

lemma emits_bmbs:
  assumes "vec_ok m0" "vec_ok m1"
  shows "(\<And>m. m \<in> set ms \<Longrightarrow> mb_ok c m) \<Longrightarrow> emits (\<lambda>b. fst (fold (\<lambda>m. code_bmb c (edge m) m0 m1 m) ms (b, s))) (dec_bmbs c ms (bseen c s))
    (map (\<lambda>m. if edge m then (m0, Some m1) else ((0, 0), None)) ms)"
proof (induction ms arbitrary: s)
  case Nil
  then show ?case using emits_ret [of "[]"] by simp
next
  case (Cons m ms)
  let ?v0 = "if edge m then m0 else (0, 0)" and ?v1 = "if edge m then Some m1 else None"
  let ?s = "b_set c m ?v0 ?v1 s"
  have ok: "mb_ok c m" using Cons.prems by simp
  note mb = emits_bmb [OF assms ok, of "edge m" s]
  have v: "(if edge m then (m0, Some m1) else ((0, 0), None)) = (?v0, ?v1)" by simp
  have IH: "emits (\<lambda>b. fst (fold (\<lambda>m. code_bmb c (edge m) m0 m1 m) ms (b, ?s))) (dec_bmbs c ms (bseen c ?s))
      (map (\<lambda>m. if edge m then (m0, Some m1) else ((0, 0), None)) ms)"
    using Cons.prems by (intro Cons.IH) simp
  define w where "w = (\<lambda>b. fst (code_bmb c (edge m) m0 m1 m (b, s)))"
  have "emits (\<lambda>b. fst (fold (\<lambda>m. code_bmb c (edge m) m0 m1 m) ms (w b, ?s)))
      (rd_bind (dec_bmb c m (bseen c s)) (\<lambda>(v, g). rd_bind (dec_bmbs c ms g) (\<lambda>vs. rd_ret (v # vs))))
      ((?v0, ?v1) # map (\<lambda>m. if edge m then (m0, Some m1) else ((0, 0), None)) ms)"
    by (rule emits_bind [OF mb [THEN conjunct1, folded w_def]]) (simp only: prod.case, rule emits_map [OF IH])
  moreover have "code_bmb c (edge m) m0 m1 m (b, s) = (w b, ?s)" for b
    using mb [THEN conjunct2, of b] by (simp add: w_def prod_eq_iff)
  ultimately show ?case by (simp only: v list.map fold_simps dec_bmbs.simps)
qed

lemma emits_short: "emits (\<lambda>b. bw_ue 3 (bw_ue 0 (bw_ue 0 (bw_u 1 1 b)))) rd_short [0]"
  unfolding rd_short_def
  by (rule emits_bind [OF emits_flag1], simp only: rd_if_def if_True, rule emits_bind [OF emits_lits(1)], rule emits_guard [OF refl],
      rule emits_bind [OF emits_lits(1)], rule emits_bind [OF emits_lits(4), of "\<lambda>b. b"], rule emits_guard [OF refl], rule emits_ret)

lemma emits_bhdr:
  "emits (code_bhdr frame_num poc is_ref) (rd_bhdr is_ref)
     \<lparr>bh_frame_num = nat (frame_num mod 65536), bh_poc = nat (poc mod 65536), bh_l0 = [0], bh_l1 = [0]\<rparr>"
proof -
  have z: "emits (bw_se 0) rd_se 0" using emits_se [of 0] by simp
  have tail: "emits (\<lambda>b. bw_ue 1 (bw_se 0 b)) (rd_bind rd_se (\<lambda>qp. rd_bind rd_ue (\<lambda>dis. rd_guard (qp = 0 \<and> dis = 1) (rd_ret h)))) h" for h :: bhdr
    by (rule emits_bind [OF z], rule emits_bind [OF emits_lits(2), of "\<lambda>b. b"], rule emits_guard) (simp, rule emits_ret)
  have g: "rd_guard (\<not> False) p = p" for p :: "bhdr reader" by (simp add: rd_guard_def)
  show ?thesis
    unfolding code_bhdr_def [abs_def] rd_bhdr_def Let_def
    apply (rule emits_bind [OF emits_lits(1)], rule emits_guard [OF refl])
    apply (rule emits_bind [OF emits_lits(6)], rule emits_guard [OF refl])
    apply (rule emits_bind [OF emits_lits(1)], rule emits_guard [OF refl])
    apply (rule emits_bind [OF emits_low16], rule emits_bind [OF emits_low16], rule emits_bind [OF emits_flag1])
    apply (rule emits_bind [OF emits_flag1], simp only: rd_if_def [of True] if_True)
    apply (rule emits_bind [OF emits_lits(1)], rule emits_bind [OF emits_lits(1)], rule emits_guard, simp)
    apply (rule emits_bind [OF emits_short], rule emits_bind [OF emits_short], rule emits_bind [OF emits_mark], unfold g, rule tail)
    done
qed

text \<open>A payload read to its trailing bits.\<close>

lemma emits_payload:
  assumes "emits f p x" and "bw_ok b" "bits b = []"
  shows "\<exists>s. p (0, byte_bits (bw_buf (bw_trailing (f b)))) = Some (x, s) \<and> \<not> more_rbsp_data s"
proof -
  from emitsE [OF assms(1,2)] obtain bs where bs: "bw_ok (f b)" "bits (f b) = bits b @ bs"
      "\<And>rest. p (length (bits b), bs @ rest) = Some (x, length (bits (f b)), rest)" by blast
  obtain j where "byte_bits (bw_buf (bw_trailing (f b))) = bs @ True # replicate j False"
    using bw_trailing_bits [OF bs(1)] bs(2) assms(3) by auto
  then show ?thesis using bs(3) [of "True # replicate j False"] assms(3) by (simp add: more_rbsp_data_def)
qed

lemma bw_new_ok: "bw_ok bw_new" "bits bw_new = []"
  by (simp_all add: bw_new_def bw_ok_def bits_def)

lemma nal_decodes: "emits f p x \<Longrightarrow> dec_nal p (nal_wrap ref_idc type (bw_buf (bw_trailing (f bw_new)))) = Some x"
  by (drule emits_payload [OF _ bw_new_ok]) (auto simp: dec_nal_def unwrap)

lemma b_nal_decodes:
  assumes "vec_ok m0" "vec_ok m1" and "\<And>m. m < WMB c * HMB c \<Longrightarrow> mb_ok c m"
  shows "dec_b_nal c is_ref (nal_wrap ref_idc type (fst (encode_bpic c edge frame_num poc is_ref m0 m1 s))) =
    Some (\<lparr>bh_frame_num = nat (frame_num mod 65536), bh_poc = nat (poc mod 65536), bh_l0 = [0], bh_l1 = [0]\<rparr>,
      map (\<lambda>m. if edge m then (m0, Some m1) else ((0, 0), None)) [0..<WMB c * HMB c])"
proof -
  let ?N = "[0..<WMB c * HMB c]"
  have "emits (\<lambda>b. fst (fold (\<lambda>m. code_bmb c (edge m) m0 m1 m) ?N (code_bhdr frame_num poc is_ref b, b_clear s)))
      (rd_bind (rd_bhdr is_ref) (\<lambda>h. rd_bind (dec_bmbs c ?N (bseen c (b_clear s))) (\<lambda>vs. rd_ret (h, vs))))
      (\<lparr>bh_frame_num = nat (frame_num mod 65536), bh_poc = nat (poc mod 65536), bh_l0 = [0], bh_l1 = [0]\<rparr>,
       map (\<lambda>m. if edge m then (m0, Some m1) else ((0, 0), None)) ?N)"
    by (rule emits_bind [OF emits_bhdr], rule emits_map [OF emits_bmbs [OF assms(1,2)]]) (simp add: assms(3))
  from nal_decodes [OF this] show ?thesis by (simp add: dec_b_nal_def bseen_clear encode_bpic_def Let_def case_prod_beta)
qed

end
