(* ===== verification/Cube.thy ===== *)
theory Cube
  imports Bpic
begin

text \<open>
  The stream of the decoder cube as a whole (\<open>coda-cube.c\<close>): parameter sets (\<open>sps_pps\<close>), the black
  picture and the atlas pages that become long-term references (\<open>pcm_page\<close>), and the access units of
  each frame (\<open>gen_frame\<close>); with the decoder's parameter sets, its long-term reference marking
  (8.2.5) and what it holds after the pages.
\<close>

section \<open>Parameter sets\<close>

record opts =
  g_smooth :: nat
  g_dpb_extra :: nat

definition code_sps :: "cube \<Rightarrow> opts \<Rightarrow> bw \<Rightarrow> bw" where
  "code_sps c o' b =
     (let b = bw_ue 0 (bw_u 8 30 (bw_u 8 0 (bw_u 8 77 b)));
          b = bw_ue 12 (bw_ue 0 (bw_ue 12 b));
          b = bw_ue (word_of_nat (1 + K c + g_smooth o' + g_dpb_extra o')) b;
          b = bw_ue (word_of_nat (HMB c - 1)) (bw_ue (word_of_nat (WMB c - 1)) (bw_u 1 0 b)) in
      bw_u 1 0 (bw_u 1 0 (bw_u 1 1 (bw_u 1 1 b))))"

definition code_pps :: "bw \<Rightarrow> bw" where
  "code_pps b =
     (let b = bw_ue 0 (bw_ue 0 (bw_ue 0 (bw_u 1 0 (bw_u 1 0 (bw_ue 0 (bw_ue 0 b))))));
          b = bw_se 0 (bw_se 0 (bw_se 0 (bw_u 2 0 (bw_u 1 1 b)))) in
      bw_u 1 0 (bw_u 1 0 (bw_u 1 1 b)))"

definition sps_pps :: "cube \<Rightarrow> opts \<Rightarrow> u8 list" where
  "sps_pps c o' = nal_wrap 3 7 (bw_buf (bw_trailing (code_sps c o' bw_new)))
     @ nal_wrap 3 8 (bw_buf (bw_trailing (code_pps bw_new)))"

section \<open>Atlas pages\<close>

type_synonym plane = "nat \<Rightarrow> u8"

text \<open>The 384 samples of macroblock \<open>m\<close>: sixteen luma rows, eight rows of each chroma plane.\<close>

definition page_mb :: "cube \<Rightarrow> plane \<Rightarrow> plane \<Rightarrow> plane \<Rightarrow> nat \<Rightarrow> u8 list" where
  "page_mb c Y U V m =
     (let mx = mb_x c m; my = mb_y c m; W = WMB c * 16 in
      concat (map (\<lambda>y. map (\<lambda>x. Y ((my * 16 + y) * W + mx * 16 + x)) [0..<16]) [0..<16]) @
      concat (map (\<lambda>y. map (\<lambda>x. U ((my * 8 + y) * (W div 2) + mx * 8 + x)) [0..<8]) [0..<8]) @
      concat (map (\<lambda>y. map (\<lambda>x. V ((my * 8 + y) * (W div 2) + mx * 8 + x)) [0..<8]) [0..<8]))"

definition code_pghdr :: "cube \<Rightarrow> nat \<Rightarrow> bw \<Rightarrow> bw" where
  "code_pghdr c k b =
     (let idr = (k = 0);
          b = bw_u 16 (word_of_nat k) (bw_ue 0 (bw_ue 7 (bw_ue 0 b)));
          b = (if idr then bw_ue 0 b else b);
          b = bw_u 16 (word_of_nat (2 * k)) b;
          b = (if idr then bw_u 1 1 (bw_u 1 0 b)
               else
                 let b = bw_u 1 1 b;
                     b = (if k = 1 then bw_ue (word_of_nat (K c + 1)) (bw_ue 4 b) else b) in
                 bw_ue 0 (bw_ue (word_of_nat k) (bw_ue 6 b))) in
      bw_ue 1 (bw_se 0 b))"

definition pcm_page :: "cube \<Rightarrow> plane \<Rightarrow> plane \<Rightarrow> plane \<Rightarrow> nat \<Rightarrow> u8 list" where
  "pcm_page c Y U V k =
     (let b = code_pghdr c k bw_new;
          b = fold (\<lambda>m b. bw_bytes (page_mb c Y U V m) (bw_align (bw_ue 25 b))) [0..<WMB c * HMB c] b in
      nal_wrap 3 (if k = 0 then 5 else 1) (bw_buf (bw_trailing b)))"

section \<open>The access units of a frame\<close>

text \<open>\<open>gen_frame\<close> for frame \<open>n\<close>: the render and, with smoothing, one or two B-pictures.\<close>

definition frame_no :: "cube \<Rightarrow> opts \<Rightarrow> nat \<Rightarrow> int" where
  "frame_no c o' n = (if g_smooth o' \<noteq> 0 then int ((K c + 1 + g_smooth o' * n) mod 65536) else int (1 + K c))"

definition frame_poc :: "cube \<Rightarrow> opts \<Rightarrow> nat \<Rightarrow> int" where
  "frame_poc c o' n = (if g_smooth o' \<noteq> 0 then int ((2 * (K c + 1) + 6 * n) mod 65536)
     else int (2 * (n mod 16000 + 1 + K c) mod 65536))"

definition gen_frame :: "cube \<Rightarrow> opts \<Rightarrow> 't scene \<Rightarrow> nat \<Rightarrow> bst \<Rightarrow> (u8 list list \<times> bst) option" where
  "gen_frame c o' sc n s =
     (let ref = (g_smooth o' \<noteq> 0); fn = frame_no c o' n; poc = frame_poc c o' n in
      Option.bind (encode_frame c sc fn poc ref (b_l0 s) bw_new) (\<lambda>(b, p).
        let s = s\<lparr>b_l0 := p_nb p\<rparr>; au0 = nal_wrap (if ref then 2 else 0) 1 (bw_buf b) in
        if g_smooth o' = 0 then Some ([au0], s)
        else if g_smooth o' = 1 then
          let (r1, s) = encode_bpic c (g_edge sc) (fn + 1) (poc + 2) False (2, 2) (- 2, - 2) s in
          Some ([au0, nal_wrap 0 1 r1], s)
        else
          let (r1, s) = encode_bpic c (g_edge sc) (fn + 1) (poc + 2) True (2, 0) (- 2, 0) s;
              (r2, s) = encode_bpic c (g_edge sc) (fn + 2) (poc + 4) False (0, 2) (0, - 2) s in
          Some ([au0, nal_wrap 2 1 r1, nal_wrap 0 1 r2], s)))"

section \<open>The decoder: parameter sets\<close>

record sps =
  sps_frame_num_bits :: nat
  sps_poc_bits :: nat
  sps_max_refs :: nat
  sps_wmb :: nat
  sps_hmb :: nat

definition rd_sps :: "sps reader" where
  "rd_sps =
     rd_bind (rd_u 8) (\<lambda>profile. rd_guard (profile = 77) (rd_bind (rd_u 8) (\<lambda>flags. rd_bind (rd_u 8) (\<lambda>level.
     rd_bind rd_ue (\<lambda>sid. rd_guard (sid = 0) (rd_bind rd_ue (\<lambda>lf. rd_bind rd_ue (\<lambda>pt. rd_guard (pt = 0) (rd_bind rd_ue (\<lambda>lp.
     rd_bind rd_ue (\<lambda>refs. rd_bind rd_flag (\<lambda>gaps. rd_bind rd_ue (\<lambda>w. rd_bind rd_ue (\<lambda>h.
     rd_bind rd_flag (\<lambda>frames. rd_guard frames (rd_bind rd_flag (\<lambda>d8. rd_bind rd_flag (\<lambda>crop. rd_bind rd_flag (\<lambda>vui.
     rd_guard (\<not> crop \<and> \<not> vui)
     (rd_ret \<lparr>sps_frame_num_bits = lf + 4, sps_poc_bits = lp + 4, sps_max_refs = refs, sps_wmb = w + 1, sps_hmb = h + 1\<rparr>))))))))))))))))))))"

record pps =
  pps_cavlc :: bool
  pps_weighted :: bool
  pps_bipred :: nat
  pps_qp :: int
  pps_dbk :: bool

definition rd_pps :: "pps reader" where
  "rd_pps =
     rd_bind rd_ue (\<lambda>pid. rd_bind rd_ue (\<lambda>sid. rd_guard (pid = 0 \<and> sid = 0) (rd_bind rd_flag (\<lambda>cabac. rd_bind rd_flag (\<lambda>bot.
     rd_bind rd_ue (\<lambda>groups. rd_guard (\<not> bot \<and> groups = 0) (rd_bind rd_ue (\<lambda>l0. rd_bind rd_ue (\<lambda>l1'.
     rd_bind rd_flag (\<lambda>wp. rd_bind (rd_u 2) (\<lambda>bp. rd_bind rd_se (\<lambda>qp. rd_bind rd_se (\<lambda>qs. rd_bind rd_se (\<lambda>cqp.
     rd_bind rd_flag (\<lambda>dbk. rd_bind rd_flag (\<lambda>ci. rd_bind rd_flag (\<lambda>red. rd_guard (\<not> red)
     (rd_ret \<lparr>pps_cavlc = (\<not> cabac), pps_weighted = wp, pps_bipred = bp, pps_qp = 26 + qp, pps_dbk = dbk\<rparr>))))))))))))))))))"

lemma emits_more_lits:
  "emits (bw_ue 7) rd_ue 7" "emits (bw_ue 4) rd_ue 4" "emits (bw_ue 12) rd_ue 12" "emits (bw_ue 25) rd_ue 25"
  "emits (bw_se 0) rd_se 0" "emits (bw_u 8 77) (rd_u 8) 77" "emits (bw_u 8 0) (rd_u 8) 0" "emits (bw_u 8 30) (rd_u 8) 30"
  "emits (bw_u 2 0) (rd_u 2) 0"
  using ue.emits_one [of 7] ue.emits_one [of 4] ue.emits_one [of 12] ue.emits_one [of 25] emits_se [of 0]
    emits_u [of 8 77] emits_u [of 8 0] emits_u [of 8 30] emits_u [of 2 0]
  by simp_all

lemma emits_sps:
  assumes "0 < WMB c" "WMB c < 2 ^ 16" "0 < HMB c" "HMB c < 2 ^ 16" "1 + K c + g_smooth o' + g_dpb_extra o' < 2 ^ 16"
  shows "emits (code_sps c o') rd_sps \<lparr>sps_frame_num_bits = 16, sps_poc_bits = 16,
    sps_max_refs = 1 + K c + g_smooth o' + g_dpb_extra o', sps_wmb = WMB c, sps_hmb = HMB c\<rparr>"
proof -
  have r: "emits (bw_ue (word_of_nat (1 + K c + g_smooth o' + g_dpb_extra o'))) rd_ue (1 + K c + g_smooth o' + g_dpb_extra o')"
    "emits (bw_ue (word_of_nat (WMB c - 1))) rd_ue (WMB c - 1)" "emits (bw_ue (word_of_nat (HMB c - 1))) rd_ue (HMB c - 1)"
    using assms by (intro ue.emits_one; simp)+
  have fin: "\<lparr>sps_frame_num_bits = 16, sps_poc_bits = 16, sps_max_refs = 1 + K c + g_smooth o' + g_dpb_extra o', sps_wmb = WMB c, sps_hmb = HMB c\<rparr> =
    \<lparr>sps_frame_num_bits = 12 + 4, sps_poc_bits = 12 + 4, sps_max_refs = 1 + K c + g_smooth o' + g_dpb_extra o', sps_wmb = WMB c - 1 + 1, sps_hmb = HMB c - 1 + 1\<rparr>"
    using assms by simp
  show ?thesis
    unfolding code_sps_def [abs_def] rd_sps_def Let_def fin
    apply (rule emits_bind [OF emits_more_lits(6)], rule emits_guard [OF refl])
    apply (rule emits_bind [OF emits_more_lits(7)], rule emits_bind [OF emits_more_lits(8)])
    apply (rule emits_bind [OF emits_lits(1)], rule emits_guard [OF refl], rule emits_bind [OF emits_more_lits(3)])
    apply (rule emits_bind [OF emits_lits(1)], rule emits_guard [OF refl], rule emits_bind [OF emits_more_lits(3)])
    apply (rule emits_bind [OF r(1)], rule emits_bind [OF emits_flag0], rule emits_bind [OF r(2)], rule emits_bind [OF r(3)])
    apply (rule emits_bind [OF emits_flag1], rule emits_guard, simp, rule emits_bind [OF emits_flag1])
    apply (rule emits_bind [OF emits_flag0], rule emits_bind [OF emits_flag0, of "\<lambda>b. b"], rule emits_guard, simp, rule emits_ret)
    done
qed

lemma emits_pps:
  "emits code_pps rd_pps \<lparr>pps_cavlc = True, pps_weighted = True, pps_bipred = 0, pps_qp = 26, pps_dbk = True\<rparr>"
proof -
  have fin: "\<lparr>pps_cavlc = True, pps_weighted = True, pps_bipred = 0, pps_qp = 26, pps_dbk = True\<rparr> =
    \<lparr>pps_cavlc = (\<not> False), pps_weighted = True, pps_bipred = 0, pps_qp = 26 + 0, pps_dbk = True\<rparr>" by simp
  show ?thesis
    unfolding code_pps_def [abs_def] rd_pps_def Let_def fin
    apply (rule emits_bind [OF emits_lits(1)], rule emits_bind [OF emits_lits(1)], rule emits_guard, simp)
    apply (rule emits_bind [OF emits_flag0], rule emits_bind [OF emits_flag0])
    apply (rule emits_bind [OF emits_lits(1)], rule emits_guard, simp)
    apply (rule emits_bind [OF emits_lits(1)], rule emits_bind [OF emits_lits(1)], rule emits_bind [OF emits_flag1])
    apply (rule emits_bind [OF emits_more_lits(9)], rule emits_bind [OF emits_more_lits(5)])
    apply (rule emits_bind [OF emits_more_lits(5)], rule emits_bind [OF emits_more_lits(5)])
    apply (rule emits_bind [OF emits_flag1], rule emits_bind [OF emits_flag0], rule emits_bind [OF emits_flag0, of "\<lambda>b. b"])
    apply (rule emits_guard, simp, rule emits_ret)
    done
qed

section \<open>The decoder: pages and long-term references\<close>

text \<open>Memory management commands: 4 sets the largest long-term index, 6 makes the picture long-term.\<close>

datatype mmco = MaxIdx nat | ToLong nat

record pghdr =
  pg_frame_num :: nat
  pg_poc :: nat
  pg_long :: bool
  pg_mmco :: "mmco list"

fun rd_mmco :: "nat \<Rightarrow> mmco list reader" where
  "rd_mmco 0 = rd_bind rd_ue (\<lambda>op. rd_guard (op = 0) (rd_ret []))"
| "rd_mmco (Suc n) = rd_bind rd_ue (\<lambda>op.
     if op = 0 then rd_ret []
     else rd_guard (op = 4 \<or> op = 6) (rd_bind rd_ue (\<lambda>v. rd_bind (rd_mmco n) (\<lambda>cs.
       rd_ret ((if op = 4 then MaxIdx v else ToLong v) # cs)))))"

text \<open>The header of an I slice, of an IDR picture or not.\<close>

definition rd_pghdr :: "bool \<Rightarrow> pghdr reader" where
  "rd_pghdr idr =
     rd_bind rd_ue (\<lambda>first. rd_guard (first = 0) (rd_bind rd_ue (\<lambda>ty. rd_guard (ty = 7) (rd_bind rd_ue (\<lambda>pps. rd_guard (pps = 0) (
     rd_bind (rd_u 16) (\<lambda>fn. rd_bind (rd_if idr rd_ue 0) (\<lambda>idr_id. rd_bind (rd_u 16) (\<lambda>poc.
     rd_bind (if idr then rd_bind rd_flag (\<lambda>no_out. rd_bind rd_flag (\<lambda>long. rd_ret (long, [])))
              else rd_bind rd_flag (\<lambda>adaptive. rd_bind (rd_if adaptive (rd_mmco 2) []) (\<lambda>cs. rd_ret (False, cs))))
       (\<lambda>(long, cs). rd_bind rd_se (\<lambda>qp. rd_bind rd_ue (\<lambda>dis. rd_guard (qp = 0 \<and> dis = 1) (
     rd_ret \<lparr>pg_frame_num = fn, pg_poc = poc, pg_long = long, pg_mmco = cs\<rparr>)))))))))))))"

definition rd_pcm_mb :: "u8 list reader" where
  "rd_pcm_mb = rd_bind rd_ue (\<lambda>ty. rd_guard (ty = 25) (rd_bind rd_align (\<lambda>_. rd_list 384 rd_byte)))"

definition dec_page_nal :: "cube \<Rightarrow> u8 list \<Rightarrow> (bool \<times> pghdr \<times> u8 list list) option" where
  "dec_page_nal c nal =
     (let idr = (nal ! 4 AND 31 = 5) in
      dec_nal (rd_bind (rd_pghdr idr) (\<lambda>h. rd_bind (rd_list (WMB c * HMB c) rd_pcm_mb) (\<lambda>ms. rd_ret (idr, h, ms)))) nal)"

text \<open>The long-term references: the largest index allowed and the pictures by index.\<close>

record dpb =
  max_idx :: "nat option"
  long_refs :: "nat \<Rightarrow> u8 list list option"

definition mark_op :: "u8 list list \<Rightarrow> mmco \<Rightarrow> dpb \<Rightarrow> dpb" where
  "mark_op pic op d =
     (case op of
        MaxIdx n \<Rightarrow> d\<lparr>max_idx := (if n = 0 then None else Some (n - 1)), long_refs := (\<lambda>i. if i < n then long_refs d i else None)\<rparr>
      | ToLong i \<Rightarrow> (if (case max_idx d of None \<Rightarrow> True | Some k \<Rightarrow> i > k) then d else d\<lparr>long_refs := (long_refs d)(i := Some pic)\<rparr>))"

definition mark :: "bool \<times> pghdr \<times> u8 list list \<Rightarrow> dpb \<Rightarrow> dpb" where
  "mark = (\<lambda>(idr, h, pic) d.
     if idr then (if pg_long h then \<lparr>max_idx = Some 0, long_refs = [0 \<mapsto> pic]\<rparr> else \<lparr>max_idx = None, long_refs = Map.empty\<rparr>)
     else fold (mark_op pic) (pg_mmco h) d)"

fun dec_pages :: "cube \<Rightarrow> u8 list list \<Rightarrow> dpb \<Rightarrow> dpb option" where
  "dec_pages c [] d = Some d"
| "dec_pages c (n # ns) d = Option.bind (dec_page_nal c n) (\<lambda>r. dec_pages c ns (mark r d))"

definition the_pghdr :: "cube \<Rightarrow> nat \<Rightarrow> pghdr" where
  "the_pghdr c k = \<lparr>pg_frame_num = k, pg_poc = 2 * k, pg_long = (k = 0),
     pg_mmco = (if k = 0 then [] else if k = 1 then [MaxIdx (K c + 1), ToLong 1] else [ToLong k])\<rparr>"

lemma page_mb_length: "length (page_mb c Y U V m) = 384"
  by (simp add: page_mb_def Let_def length_concat comp_def sum_list_triv)

lemma emits_pcm_mb: "emits (\<lambda>b. bw_bytes (page_mb c Y U V m) (bw_align (bw_ue 25 b))) rd_pcm_mb (page_mb c Y U V m)"
  unfolding rd_pcm_mb_def
  by (rule emits_bind [OF emits_more_lits(4)], rule emits_guard [OF refl])
    (rule emits_raw [of "page_mb c Y U V m", unfolded page_mb_length])

lemma emits_mmco:
  assumes "k < 2 ^ 15" "K c < 2 ^ 15" "k \<noteq> 0"
  shows "emits (\<lambda>b. let b = (if k = 1 then bw_ue (word_of_nat (K c + 1)) (bw_ue 4 b) else b) in bw_ue 0 (bw_ue (word_of_nat k) (bw_ue 6 b)))
    (rd_mmco 2) (if k = 1 then [MaxIdx (K c + 1), ToLong 1] else [ToLong k])"
proof -
  have k: "emits (bw_ue (word_of_nat k)) rd_ue k" "emits (bw_ue (word_of_nat (K c + 1))) rd_ue (K c + 1)"
    using assms by (intro ue.emits_one; simp)+
  have z: "emits (bw_ue 0) (rd_mmco n) []" for n
  proof (cases n)
    case 0
    then show ?thesis
      using emits_bind [OF emits_lits(1), of "\<lambda>b. b" "\<lambda>op. rd_guard (op = 0) (rd_ret [])", OF emits_guard [OF refl emits_ret]] by simp
  next
    case (Suc m)
    show ?thesis
      unfolding Suc rd_mmco.simps by (rule emits_bind [OF emits_lits(1), of "\<lambda>b. b"]) (simp only: simp_thms if_True, rule emits_ret)
  qed
  have l: "emits (\<lambda>b. bw_ue 0 (bw_ue (word_of_nat k) (bw_ue 6 b))) (rd_mmco (Suc n)) [ToLong k]" for n
    unfolding rd_mmco.simps
    by (rule emits_bind [OF emits_lits(6)], simp only: rel_simps if_False, rule emits_guard, simp,
        rule emits_bind [OF k(1)], rule emits_map [OF z])
  show ?thesis
  proof (cases "k = 1")
    case True
    have "emits (\<lambda>b. bw_ue 0 (bw_ue (word_of_nat k) (bw_ue 6 (bw_ue (word_of_nat (K c + 1)) (bw_ue 4 b))))) (rd_mmco (Suc (Suc 0)))
        [MaxIdx (K c + 1), ToLong k]"
      unfolding rd_mmco.simps(2) [of "Suc 0"]
      by (rule emits_bind [OF emits_more_lits(2)], simp only: rel_simps if_False if_True, rule emits_guard, simp,
          rule emits_bind [OF k(2)], rule emits_map [OF l])
    then show ?thesis using True by (simp add: numeral_2_eq_2)
  next
    case False
    then show ?thesis using l [of "Suc 0"] by (simp add: numeral_2_eq_2)
  qed
qed

lemma emits_pghdr:
  assumes "k < 2 ^ 15" "K c < 2 ^ 15"
  shows "emits (code_pghdr c k) (rd_pghdr (k = 0)) (the_pghdr c k)"
proof -
  have n: "emits (bw_u 16 (word_of_nat k)) (rd_u 16) k" "emits (bw_u 16 (word_of_nat (2 * k))) (rd_u 16) (2 * k)"
    using assms by (intro fixed.emits_one; simp)+
  have tail: "emits (\<lambda>b. bw_ue 1 (bw_se 0 b)) (rd_bind rd_se (\<lambda>qp. rd_bind rd_ue (\<lambda>dis. rd_guard (qp = 0 \<and> dis = 1) (rd_ret h)))) h" for h :: pghdr
    by (rule emits_bind [OF emits_more_lits(5)], rule emits_bind [OF emits_lits(2), of "\<lambda>b. b"], rule emits_guard) (simp, rule emits_ret)
  show ?thesis
  proof (cases "k = 0")
    case True
    then have is_k: "(k = 0) = True" by simp
    have m: "emits (\<lambda>b. bw_u 1 1 (bw_u 1 0 b)) (rd_bind rd_flag (\<lambda>no_out. rd_bind rd_flag (\<lambda>long. rd_ret (long, []))))
        (True, [] :: mmco list)"
      by (rule emits_bind [OF emits_flag0], rule emits_map [OF emits_flag1])
    have "the_pghdr c k = \<lparr>pg_frame_num = k, pg_poc = 2 * k, pg_long = True, pg_mmco = []\<rparr>" using True by (simp add: the_pghdr_def)
    moreover have "code_pghdr c k = (\<lambda>b. bw_ue 1 (bw_se 0 (bw_u 1 1 (bw_u 1 0 (bw_u 16 (word_of_nat (2 * k)) (bw_ue 0
        (bw_u 16 (word_of_nat k) (bw_ue 0 (bw_ue 7 (bw_ue 0 b))))))))))" using True by (simp add: code_pghdr_def Let_def fun_eq_iff)
    ultimately show ?thesis
      unfolding rd_pghdr_def is_k rd_if_def if_True
      apply (simp only:)
      apply (rule emits_bind [OF emits_lits(1)], rule emits_guard [OF refl])
      apply (rule emits_bind [OF emits_more_lits(1)], rule emits_guard [OF refl])
      apply (rule emits_bind [OF emits_lits(1)], rule emits_guard [OF refl])
      apply (rule emits_bind [OF n(1)], rule emits_bind [OF emits_lits(1)], rule emits_bind [OF n(2)])
      apply (rule emits_bind [OF m], simp only: prod.case, rule tail)
      done
  next
    case False
    then have not_k: "(k = 0) = False" by simp
    let ?cs = "if k = 1 then [MaxIdx (K c + 1), ToLong 1] else [ToLong k]"
    define wm where "wm = (\<lambda>b. let b = (if k = 1 then bw_ue (word_of_nat (K c + 1)) (bw_ue 4 b) else b) in
        bw_ue 0 (bw_ue (word_of_nat k) (bw_ue 6 b)))"
    have wm: "emits wm (rd_mmco 2) ?cs" unfolding wm_def by (rule emits_mmco [OF assms False])
    have m: "emits (\<lambda>b. wm (bw_u 1 1 b)) (rd_bind rd_flag (\<lambda>adaptive. rd_bind (rd_if adaptive (rd_mmco 2) []) (\<lambda>cs. rd_ret (False, cs)))) (False, ?cs)"
      by (rule emits_bind [OF emits_flag1], simp only: rd_if_def if_True, rule emits_map [OF wm])
    have "the_pghdr c k = \<lparr>pg_frame_num = k, pg_poc = 2 * k, pg_long = False, pg_mmco = ?cs\<rparr>" using False by (simp add: the_pghdr_def)
    moreover have "code_pghdr c k = (\<lambda>b. bw_ue 1 (bw_se 0 (wm (bw_u 1 1 (bw_u 16 (word_of_nat (2 * k))
        (bw_u 16 (word_of_nat k) (bw_ue 0 (bw_ue 7 (bw_ue 0 b)))))))))" using False by (simp add: code_pghdr_def Let_def fun_eq_iff wm_def)
    ultimately show ?thesis
      unfolding rd_pghdr_def not_k rd_if_def if_False
      apply (simp only:)
      apply (rule emits_bind [OF emits_lits(1)], rule emits_guard [OF refl])
      apply (rule emits_bind [OF emits_more_lits(1)], rule emits_guard [OF refl])
      apply (rule emits_bind [OF emits_lits(1)], rule emits_guard [OF refl])
      apply (rule emits_bind [OF n(1)], rule emits_bind [OF emits_ret, of "\<lambda>b. bw_ue 1 (bw_se 0 (wm (bw_u 1 1 (bw_u 16 (word_of_nat (2 * k)) b))))"], rule emits_bind [OF n(2)])
      apply (rule emits_bind [OF m [unfolded rd_if_def]], simp only: prod.case, rule tail)
      done
  qed
qed

lemma page_nal_header: "nal_wrap 3 (if k = 0 then 5 else 1) rbsp ! 4 AND 31 = (5 :: u8) \<longleftrightarrow> k = 0"
  by (simp add: nal_wrap_def)

lemma page_nal_decodes:
  assumes "k < 2 ^ 15" "K c < 2 ^ 15"
  shows "dec_page_nal c (pcm_page c Y U V k) = Some (k = 0, the_pghdr c k, map (page_mb c Y U V) [0..<WMB c * HMB c])"
proof -
  let ?N = "[0..<WMB c * HMB c]"
  have "emits (fold (\<lambda>m b. bw_bytes (page_mb c Y U V m) (bw_align (bw_ue 25 b))) ?N) (rd_list (length ?N) rd_pcm_mb) (map (page_mb c Y U V) ?N)"
    by (rule emits_fold) (rule emits_pcm_mb)
  then have ms: "emits (fold (\<lambda>m b. bw_bytes (page_mb c Y U V m) (bw_align (bw_ue 25 b))) ?N) (rd_list (WMB c * HMB c) rd_pcm_mb)
      (map (page_mb c Y U V) ?N)" by simp
  have "emits (\<lambda>b. fold (\<lambda>m b. bw_bytes (page_mb c Y U V m) (bw_align (bw_ue 25 b))) ?N (code_pghdr c k b))
      (rd_bind (rd_pghdr (k = 0)) (\<lambda>h. rd_bind (rd_list (WMB c * HMB c) rd_pcm_mb) (\<lambda>ms. rd_ret (k = 0, h, ms))))
      (k = 0, the_pghdr c k, map (page_mb c Y U V) ?N)"
    by (rule emits_bind [OF emits_pghdr [OF assms]], rule emits_map [OF ms])
  from nal_decodes [OF this] show ?thesis by (simp add: dec_page_nal_def pcm_page_def Let_def page_nal_header)
qed

text \<open>The references held after the pages \<open>0, \<dots>, k\<close>.\<close>

lemma dec_pages_append: "dec_pages c (xs @ ys) d = Option.bind (dec_pages c xs d) (dec_pages c ys)"
  by (induction xs arbitrary: d) (simp_all add: Option.bind_assoc)

lemma dec_pages_upto:
  assumes "k \<le> K c" "K c < 2 ^ 15"
  shows "dec_pages c (map (\<lambda>i. pcm_page c (Y i) (U i) (V i) i) [0..<Suc k]) d =
    Some \<lparr>max_idx = Some (if k = 0 then 0 else K c),
      long_refs = (\<lambda>i. if i \<le> k then Some (map (page_mb c (Y i) (U i) (V i)) [0..<WMB c * HMB c]) else None)\<rparr>"
  using assms(1)
proof (induction k)
  case 0
  have "dec_page_nal c (pcm_page c (Y 0) (U 0) (V 0) 0) = Some (True, the_pghdr c 0, map (page_mb c (Y 0) (U 0) (V 0)) [0..<WMB c * HMB c])"
    using page_nal_decodes [of 0 c] assms(2) by simp
  then show ?case by (simp add: mark_def the_pghdr_def fun_eq_iff)
next
  case (Suc k)
  have "dec_page_nal c (pcm_page c (Y (Suc k)) (U (Suc k)) (V (Suc k)) (Suc k)) =
      Some (False, the_pghdr c (Suc k), map (page_mb c (Y (Suc k)) (U (Suc k)) (V (Suc k))) [0..<WMB c * HMB c])"
    using page_nal_decodes [of "Suc k" c] assms(2) Suc.prems by simp
  moreover have "dec_pages c (map (\<lambda>i. pcm_page c (Y i) (U i) (V i) i) [0..<Suc k]) d =
    Some \<lparr>max_idx = Some (if k = 0 then 0 else K c),
      long_refs = (\<lambda>i. if i \<le> k then Some (map (page_mb c (Y i) (U i) (V i)) [0..<WMB c * HMB c]) else None)\<rparr>"
    using Suc by simp
  ultimately show ?case
    using Suc.prems unfolding upt_Suc_append [of 0 "Suc k", OF le0] map_append dec_pages_append
    by (auto simp: mark_def mark_op_def the_pghdr_def fun_eq_iff)
qed

section \<open>The decoder: picture numbers and output order\<close>

text \<open>
  Reference flag, \<open>frame_num\<close> and the low bits of the picture order count of the access units of frame \<open>n\<close>.
  A decoder accepts a \<open>frame_num\<close> only one above that of the last reference picture (7.4.3: no gaps),
  and completes the order count from that of the last reference picture (8.2.1.1).
\<close>

definition unit_nums :: "cube \<Rightarrow> opts \<Rightarrow> nat \<Rightarrow> (bool \<times> nat \<times> nat) list" where
  "unit_nums c o' n =
     (let ref = (g_smooth o' \<noteq> 0); fn = frame_no c o' n; poc = frame_poc c o' n;
          num = (\<lambda>r i j. (r, nat ((fn + i) mod 65536), nat ((poc + j) mod 65536))) in
      if g_smooth o' = 0 then [num ref 0 0]
      else if g_smooth o' = 1 then [num ref 0 0, num False 1 2]
      else [num ref 0 0, num True 1 2, num False 2 4])"

record order_state =
  prev_frame_num :: nat
  prev_msb :: int
  prev_lsb :: nat

definition poc_msb :: "order_state \<Rightarrow> nat \<Rightarrow> int" where
  "poc_msb d lsb =
     (if lsb < prev_lsb d \<and> prev_lsb d - lsb \<ge> 32768 then prev_msb d + 65536
      else if lsb > prev_lsb d \<and> lsb - prev_lsb d > 32768 then prev_msb d - 65536
      else prev_msb d)"

fun dec_order :: "(bool \<times> nat \<times> nat) list \<Rightarrow> order_state \<Rightarrow> (int list \<times> order_state) option" where
  "dec_order [] d = Some ([], d)"
| "dec_order ((ref, fn, lsb) # us) d =
     (if fn \<noteq> (prev_frame_num d + 1) mod 65536 then None
      else let msb = poc_msb d lsb;
               d' = (if ref then \<lparr>prev_frame_num = fn, prev_msb = msb, prev_lsb = lsb\<rparr> else d) in
           map_option (\<lambda>(ps, d''). ((msb + int lsb) # ps, d'')) (dec_order us d'))"

text \<open>The state of the decoder behind a reference picture with number \<open>F\<close> and full order count \<open>P\<close>.\<close>

definition order_at :: "nat \<Rightarrow> nat \<Rightarrow> order_state" where
  "order_at F P = \<lparr>prev_frame_num = F mod 65536, prev_msb = int (P div 65536 * 65536), prev_lsb = P mod 65536\<rparr>"

lemma poc_msb_step:
  assumes "a * 65536 + p \<le> b * 65536 + (q :: nat)" "b * 65536 + q \<le> a * 65536 + p + 32767" "p < 65536" "q < 65536"
  shows "poc_msb \<lparr>prev_frame_num = f, prev_msb = int (a * 65536), prev_lsb = p\<rparr> q = int (b * 65536)"
proof -
  have "a \<le> b" "b \<le> Suc a" using assms by linarith+
  then consider "b = a" | "b = Suc a" by linarith
  then show ?thesis using assms by cases (auto simp: poc_msb_def)
qed

lemma poc_msb_next:
  assumes "P \<le> Q" "Q \<le> P + 32767"
  shows "poc_msb (order_at F P) (Q mod 65536) = int (Q div 65536 * 65536)"
  unfolding order_at_def by (rule poc_msb_step) (simp_all only: div_mult_mod_eq assms mod_less_divisor zero_less_numeral)

lemma dec_order_unit:
  assumes "P \<le> Q" "Q \<le> P + 32767" "fn = Suc F mod 65536" "lsb = Q mod 65536"
  shows "dec_order ((r, fn, lsb) # us) (order_at F P) =
    map_option (\<lambda>(ps, d). (int Q # ps, d)) (dec_order us (if r then order_at (Suc F) Q else order_at F P))"
proof -
  have "int (Q div 65536 * 65536) + int (Q mod 65536) = int Q" by (metis div_mult_mod_eq of_nat_add)
  then show ?thesis
    using assms poc_msb_next [OF assms(1,2), of F] by (simp add: Let_def) (simp add: order_at_def mod_Suc_eq)
qed

lemma dec_order_append:
  "dec_order (xs @ ys) d = Option.bind (dec_order xs d) (\<lambda>(ps, d). map_option (\<lambda>(qs, d). (ps @ qs, d)) (dec_order ys d))"
  by (induction xs d rule: dec_order.induct)
    (auto simp: Let_def bind_map_option option.map_comp comp_def case_prod_beta option.map_ident split: option.splits bind_splits)

text \<open>What the encoder means: the order counts of frame \<open>n\<close>.\<close>

definition orders :: "cube \<Rightarrow> opts \<Rightarrow> nat \<Rightarrow> int list" where
  "orders c o' n = (if g_smooth o' = 0 then [int (2 * (n mod 16000 + 1 + K c))]
     else map (\<lambda>j. int (2 * (K c + 1) + 6 * n + 2 * j)) [0..<Suc (g_smooth o')])"

lemma nat_plus_mod: "nat ((int (a mod 65536) + int i) mod 65536) = (a + i) mod 65536"
  by (simp flip: of_nat_add of_nat_mod add: mod_add_left_eq nat_mod_distrib)

lemma nat_int_mod: "nat ((int a + 0) mod 65536) = a mod 65536"
  by (simp add: nat_mod_distrib)

text \<open>Frames of one, two and three access units.\<close>

lemma dec_order_units:
  assumes "P \<le> Q" "Q \<le> P + 32767"
  shows "dec_order [(False, Suc F mod 65536, Q mod 65536)] (order_at F P) = Some ([int Q], order_at F P)"
    and "dec_order [(True, Suc F mod 65536, Q mod 65536), (False, Suc (Suc F) mod 65536, (Q + 2) mod 65536)] (order_at F P) =
      Some ([int Q, int (Q + 2)], order_at (Suc F) Q)"
    and "dec_order [(True, Suc F mod 65536, Q mod 65536), (True, Suc (Suc F) mod 65536, (Q + 2) mod 65536),
        (False, Suc (Suc (Suc F)) mod 65536, (Q + 4) mod 65536)] (order_at F P) =
      Some ([int Q, int (Q + 2), int (Q + 4)], order_at (Suc (Suc F)) (Q + 2))"
  by (simp_all only: dec_order_unit [OF assms refl refl] dec_order_unit [of Q "Q + 2", OF _ _ refl refl]
      dec_order_unit [of "Q + 2" "Q + 4", OF _ _ refl refl] if_True if_False dec_order.simps(1)) simp_all

lemma frame_order_plain:
  assumes "g_smooth o' = 0" "K c \<le> 14"
  shows "dec_order (unit_nums c o' n) (order_at (K c) (2 * K c)) = Some (orders c o' n, order_at (K c) (2 * K c))"
proof -
  let ?Q = "2 * (n mod 16000 + 1 + K c)"
  have "r < 16000 \<Longrightarrow> 2 * (r + 1 + K c) \<le> 2 * K c + 32767" for r :: nat by simp
  then have q: "2 * K c \<le> ?Q" "?Q \<le> 2 * K c + 32767" by simp_all
  have "unit_nums c o' n = [(False, Suc (K c) mod 65536, ?Q mod 65536 mod 65536)]"
    using assms(1) nat_int_mod [of "1 + K c"] nat_int_mod [of "?Q mod 65536"]
    by (simp add: unit_nums_def Let_def frame_no_def frame_poc_def)
  moreover have "orders c o' n = [int ?Q]" using assms by (simp add: orders_def)
  ultimately show ?thesis using dec_order_units(1) [OF q, of "K c"] by (simp only: mod_mod_trivial)
qed

lemma frame_order_smooth:
  assumes "g_smooth o' = 1 \<or> g_smooth o' = 2" "P \<le> 2 * (K c + 1) + 6 * n" "2 * (K c + 1) + 6 * n \<le> P + 1000"
  shows "\<exists>P'. dec_order (unit_nums c o' n) (order_at (K c + g_smooth o' * n) P) =
      Some (orders c o' n, order_at (K c + g_smooth o' * Suc n) P') \<and>
    P' \<le> 2 * (K c + 1) + 6 * Suc n \<and> 2 * (K c + 1) + 6 * Suc n \<le> P' + 1000"
proof -
  let ?F = "K c + g_smooth o' * n" and ?Q = "2 * (K c + 1) + 6 * n"
  have fn: "frame_no c o' n = int (Suc ?F mod 65536)" and poc: "frame_poc c o' n = int (?Q mod 65536)"
    using assms(1) by (auto simp: frame_no_def frame_poc_def)
  have num: "nat ((frame_no c o' n + int i) mod 65536) = (Suc ?F + i) mod 65536 \<and>
      nat ((frame_poc c o' n + int j) mod 65536) = (?Q + j) mod 65536" for i j
    unfolding fn poc by (simp only: nat_plus_mod)
  from assms(1) show ?thesis
  proof
    assume g: "g_smooth o' = 1"
    have "unit_nums c o' n = [(True, Suc ?F mod 65536, ?Q mod 65536), (False, Suc (Suc ?F) mod 65536, (?Q + 2) mod 65536)]"
      using num [of 0 0] num [of 1 2] g by (simp add: unit_nums_def Let_def)
    moreover have "orders c o' n = [int ?Q, int (?Q + 2)]" using g by (simp add: orders_def)
    ultimately have "dec_order (unit_nums c o' n) (order_at ?F P) = Some (orders c o' n, order_at (Suc ?F) ?Q)"
      using dec_order_units(2) [of P ?Q ?F] assms(2,3) by (simp only:)
    then show ?thesis using g by (intro exI [of _ ?Q]) simp
  next
    assume g: "g_smooth o' = 2"
    have "unit_nums c o' n = [(True, Suc ?F mod 65536, ?Q mod 65536), (True, Suc (Suc ?F) mod 65536, (?Q + 2) mod 65536),
        (False, Suc (Suc (Suc ?F)) mod 65536, (?Q + 4) mod 65536)]"
      using num [of 0 0] num [of 1 2] num [of 2 4] g by (simp add: unit_nums_def Let_def)
    moreover have "orders c o' n = [int ?Q, int (?Q + 2), int (?Q + 4)]" using g by (simp add: orders_def upt_rec)
    ultimately have "dec_order (unit_nums c o' n) (order_at ?F P) = Some (orders c o' n, order_at (Suc (Suc ?F)) (?Q + 2))"
      using dec_order_units(3) [of P ?Q ?F] assms(2,3) by (simp only:)
    then show ?thesis using g by (intro exI [of _ "?Q + 2"]) simp
  qed
qed

lemma stream_order_smooth:
  assumes "g_smooth o' = 1 \<or> g_smooth o' = 2"
  shows "\<exists>P'. dec_order (concat (map (unit_nums c o') [0..<N])) (order_at (K c) (2 * K c)) =
      Some (concat (map (orders c o') [0..<N]), order_at (K c + g_smooth o' * N) P') \<and>
    P' \<le> 2 * (K c + 1) + 6 * N \<and> 2 * (K c + 1) + 6 * N \<le> P' + 1000"
proof (induction N)
  case (Suc N)
  then obtain P' where P': "dec_order (concat (map (unit_nums c o') [0..<N])) (order_at (K c) (2 * K c)) =
      Some (concat (map (orders c o') [0..<N]), order_at (K c + g_smooth o' * N) P')"
    "P' \<le> 2 * (K c + 1) + 6 * N" "2 * (K c + 1) + 6 * N \<le> P' + 1000" by blast
  from frame_order_smooth [OF assms P'(2,3)] P'(1) show ?case
    by (auto simp: dec_order_append)
qed auto

lemma stream_order_plain:
  assumes "g_smooth o' = 0" "K c \<le> 14"
  shows "dec_order (concat (map (unit_nums c o') [0..<N])) (order_at (K c) (2 * K c)) =
      Some (concat (map (orders c o') [0..<N]), order_at (K c) (2 * K c))"
  by (induction N) (simp_all add: dec_order_append frame_order_plain [OF assms])

section \<open>The stream\<close>

text \<open>The header numbers and macroblock vectors of a B-picture whose edge macroblocks are averaged along \<open>v\<close>.\<close>

definition the_bpic :: "cube \<Rightarrow> 't scene \<Rightarrow> nat \<times> nat \<Rightarrow> int \<times> int \<Rightarrow> bhdr \<times> bvecs list" where
  "the_bpic c sc num v = (\<lparr>bh_frame_num = fst num, bh_poc = snd num, bh_l0 = [0], bh_l1 = [0]\<rparr>,
     map (\<lambda>m. if g_edge sc m then (v, Some (- fst v, - snd v)) else ((0, 0), None)) [0..<WMB c * HMB c])"

lemma vec_ok_small: "vec_ok (2, 2)" "vec_ok (- 2, - 2)" "vec_ok (2, 0)" "vec_ok (- 2, 0)" "vec_ok (0, 2)" "vec_ok (0, - 2)"
  by (simp_all add: vec_ok_def)

lemma bpic_pair: "encode_bpic c e f p r v w s = (fst (encode_bpic c e f p r v w s), snd (encode_bpic c e f p r v w s))"
  by simp

lemma pages_order:
  assumes "k < 2 ^ 15"
  shows "dec_order (map (\<lambda>i. (True, pg_frame_num (the_pghdr c i), pg_poc (the_pghdr c i))) [1..<Suc k]) (order_at 0 0) =
    Some (map (\<lambda>i. 2 * int i) [1..<Suc k], order_at k (2 * k))"
  using assms
proof (induction k)
  case (Suc k)
  have "dec_order [(True, Suc k, 2 * Suc k)] (order_at k (2 * k)) = Some ([int (2 * Suc k)], order_at (Suc k) (2 * Suc k))"
    using Suc.prems by (subst dec_order_unit [of "2 * k" "2 * Suc k"]) simp_all
  with Suc show ?case by (simp add: dec_order_append the_pghdr_def)
qed simp



text \<open>
  C14. The decoder keeps count. With up to 14 pages and any number of frames, the numbers carried by the
  pages and the frames never leave a gap in \<open>frame_num\<close> (which a decoder would conceal with a made-up
  picture), although the field wraps at 65536; and the decoder completes the 16-bit order counts to
  those meant: with smoothing \<open>2 (K + 1) + 6 n\<close> and the next even numbers for the passes, ever growing,
  and without it counts that start over every 16000 frames, just short of being taken for a wrap.
\<close>

theorem stream_in_order:
  assumes "g_smooth o' \<le> 2" and "K c \<le> 14"
  shows "\<exists>d. dec_order (map (\<lambda>k. (True, pg_frame_num (the_pghdr c k), pg_poc (the_pghdr c k))) [1..<Suc (K c)] @
      concat (map (unit_nums c o') [0..<N])) (order_at 0 0) =
    Some (map (\<lambda>k. 2 * int k) [1..<Suc (K c)] @ concat (map (orders c o') [0..<N]), d)"
proof -
  have "\<exists>d. dec_order (concat (map (unit_nums c o') [0..<N])) (order_at (K c) (2 * K c)) = Some (concat (map (orders c o') [0..<N]), d)"
    using assms stream_order_plain [of o' c N] stream_order_smooth [of o' c N] by (cases "g_smooth o' = 0") force+
  then show ?thesis using assms pages_order [of "K c" c] by (auto simp: dec_order_append)
qed

theorem stream_in_order_witness:
  "\<exists>d. dec_order [(True, 1, 2), (True, 2, 4), (False, 3, 6), (True, 3, 10), (False, 4, 12)] (order_at 0 0) =
    Some ([2, 4, 6, 10, 12], d)"
  using stream_in_order [of "\<lparr>g_smooth = 1, g_dpb_extra = 0\<rparr>" cube2 2]
  by (simp add: cube2_def the_pghdr_def unit_nums_def frame_no_def frame_poc_def orders_def upt_rec del: dec_order.simps)



end
