(* ===== verification/Mc.thy ===== *)
theory Mc
  imports Prelude
begin

text \<open>
  Motion compensation on the CPU in the decoder cube (\<open>coda-cube.c\<close>: \<open>clip1\<close> to \<open>mc_luma_block\<close>):
  the quarter-sample luma and eighth-sample chroma interpolation of the standard (8.4.2.2) with the
  picture clamped at its borders, weighted prediction, and the block routine that fetches its window
  once and shares the 6-tap intermediates. A plane is its bytes by address; \<open>W\<close> and \<open>H\<close> are the
  picture size, and C's \<open>>>\<close> on a signed int is \<open>drop_bit\<close>, the arithmetic shift.
\<close>

type_synonym plane = "nat \<Rightarrow> u8"

definition clip1 :: "int \<Rightarrow> int" where
  "clip1 v = (if v < 0 then 0 else if v > 255 then 255 else v)"

definition clampi :: "int \<Rightarrow> int \<Rightarrow> int" where
  "clampi x n = (if x < 0 then 0 else if x \<ge> n then n - 1 else x)"

definition pyx :: "int \<Rightarrow> int \<Rightarrow> plane \<Rightarrow> int \<Rightarrow> int \<Rightarrow> int" where
  "pyx W H P x y = uint (P (nat (clampi y H * W + clampi x W)))"

definition b1_at :: "int \<Rightarrow> int \<Rightarrow> plane \<Rightarrow> int \<Rightarrow> int \<Rightarrow> int" where
  "b1_at W H P x y = pyx W H P (x - 2) y - 5 * pyx W H P (x - 1) y + 20 * pyx W H P x y
     + 20 * pyx W H P (x + 1) y - 5 * pyx W H P (x + 2) y + pyx W H P (x + 3) y"

definition h1_at :: "int \<Rightarrow> int \<Rightarrow> plane \<Rightarrow> int \<Rightarrow> int \<Rightarrow> int" where
  "h1_at W H P x y = pyx W H P x (y - 2) - 5 * pyx W H P x (y - 1) + 20 * pyx W H P x y
     + 20 * pyx W H P x (y + 1) - 5 * pyx W H P x (y + 2) + pyx W H P x (y + 3)"

definition avg2 :: "int \<Rightarrow> int \<Rightarrow> int" where
  "avg2 a b = drop_bit 1 (a + b + 1)"

definition luma_qpel :: "int \<Rightarrow> int \<Rightarrow> plane \<Rightarrow> int \<Rightarrow> int \<Rightarrow> int \<Rightarrow> int \<Rightarrow> int" where
  "luma_qpel W H P x y fx fy =
     (if fx = 0 \<and> fy = 0 then pyx W H P x y
      else
        let g0 = pyx W H P x y;
            b = clip1 (drop_bit 5 (b1_at W H P x y + 16)); h = clip1 (drop_bit 5 (h1_at W H P x y + 16)) in
        if fy = 0 then (if fx = 1 then avg2 g0 b else if fx = 2 then b else avg2 (pyx W H P (x + 1) y) b)
        else if fx = 0 then (if fy = 1 then avg2 g0 h else if fy = 2 then h else avg2 (pyx W H P x (y + 1)) h)
        else
          let s = clip1 (drop_bit 5 (b1_at W H P x (y + 1) + 16)); m = clip1 (drop_bit 5 (h1_at W H P (x + 1) y + 16)) in
          if fx = 2 \<or> fy = 2 then
            let j1 = b1_at W H P x (y - 2) - 5 * b1_at W H P x (y - 1) + 20 * b1_at W H P x y
                       + 20 * b1_at W H P x (y + 1) - 5 * b1_at W H P x (y + 2) + b1_at W H P x (y + 3);
                j = clip1 (drop_bit 10 (j1 + 512)) in
            if fx = 2 then (if fy = 1 then avg2 b j else if fy = 2 then j else avg2 j s)
            else (if fx = 1 then avg2 h j else avg2 j m)
          else if fy = 1 then (if fx = 1 then avg2 b h else avg2 b m)
          else (if fx = 1 then avg2 h s else avg2 m s))"

definition pcyx :: "int \<Rightarrow> int \<Rightarrow> plane \<Rightarrow> int \<Rightarrow> int \<Rightarrow> int" where
  "pcyx W H P x y = uint (P (nat (clampi y (H div 2) * (W div 2) + clampi x (W div 2))))"

definition bilin8 :: "int \<Rightarrow> int \<Rightarrow> int \<Rightarrow> int \<Rightarrow> int \<Rightarrow> int \<Rightarrow> int" where
  "bilin8 fx fy a b c d =
     drop_bit 6 ((8 - fx) * (8 - fy) * a + fx * (8 - fy) * b + (8 - fx) * fy * c + fx * fy * d + 32)"

definition chroma_pred :: "int \<Rightarrow> int \<Rightarrow> plane \<Rightarrow> int \<Rightarrow> int \<Rightarrow> int \<Rightarrow> int \<Rightarrow> int" where
  "chroma_pred W H P xc yc mvx mvy =
     (let xi = xc + drop_bit 3 mvx; yi = yc + drop_bit 3 mvy; fx = mvx AND 7; fy = mvy AND 7 in
      if xi \<ge> 0 \<and> yi \<ge> 0 \<and> xi + 1 < W div 2 \<and> yi + 1 < H div 2 then
        let a = nat (yi * (W div 2) + xi); c = a + nat (W div 2) in
        bilin8 fx fy (uint (P a)) (uint (P (a + 1))) (uint (P c)) (uint (P (c + 1)))
      else bilin8 fx fy (pcyx W H P xi yi) (pcyx W H P (xi + 1) yi) (pcyx W H P xi (yi + 1)) (pcyx W H P (xi + 1) (yi + 1)))"

definition wp6 :: "int \<Rightarrow> int \<Rightarrow> int \<Rightarrow> int" where
  "wp6 v w o' = clip1 (drop_bit 6 (v * w + 32) + o')"

section \<open>The block routine\<close>

definition TAP6 :: "int \<Rightarrow> int \<Rightarrow> int \<Rightarrow> int \<Rightarrow> int \<Rightarrow> int \<Rightarrow> int" where
  "TAP6 a b c d e f = a - 5 * b + 20 * c + 20 * d - 5 * e + f"

text \<open>\<open>win[r][c]\<close>: read along the rows when the window lies in the picture, clamped otherwise.\<close>

definition mc_win :: "int \<Rightarrow> int \<Rightarrow> plane \<Rightarrow> int \<Rightarrow> int \<Rightarrow> nat \<Rightarrow> nat \<Rightarrow> nat \<Rightarrow> nat \<Rightarrow> int" where
  "mc_win W H P xi yi w h r c =
     (if xi - 2 \<ge> 0 \<and> yi - 2 \<ge> 0 \<and> xi - 2 + int (w + 5) \<le> W \<and> yi - 2 + int (h + 5) \<le> H
      then uint (P (nat ((yi - 2 + int r) * W + (xi - 2)) + c))
      else pyx W H P (xi - 2 + int c) (yi - 2 + int r))"

definition tap_row :: "(nat \<Rightarrow> nat \<Rightarrow> int) \<Rightarrow> nat \<Rightarrow> nat \<Rightarrow> int" where
  "tap_row win r i = TAP6 (win r i) (win r (i + 1)) (win r (i + 2)) (win r (i + 3)) (win r (i + 4)) (win r (i + 5))"

definition tap_col :: "(nat \<Rightarrow> nat \<Rightarrow> int) \<Rightarrow> nat \<Rightarrow> nat \<Rightarrow> int" where
  "tap_col win j x = TAP6 (win j x) (win (j + 1) x) (win (j + 2) x) (win (j + 3) x) (win (j + 4) x) (win (j + 5) x)"

text \<open>\<open>out[j * w + i]\<close> in each of the cases of the fractional position.\<close>

definition mc_sample :: "(nat \<Rightarrow> nat \<Rightarrow> int) \<Rightarrow> int \<Rightarrow> int \<Rightarrow> nat \<Rightarrow> nat \<Rightarrow> int" where
  "mc_sample win fx fy j i =
     (if fx = 0 \<and> fy = 0 then win (j + 2) (i + 2)
      else if fy = 0 then
        let k = (if fx = 1 then 2 else 3); b = clip1 (drop_bit 5 (tap_row win (j + 2) i + 16)) in
        if fx = 2 then b else avg2 (win (j + 2) (i + k)) b
      else if fx = 0 then
        let k = (if fy = 1 then 2 else 3); hh = clip1 (drop_bit 5 (tap_col win j (i + 2) + 16)) in
        if fy = 2 then hh else avg2 (win (j + k) (i + 2)) hh
      else if fx = 2 \<or> fy = 2 then
        let B1 = tap_row win;
            jj = clip1 (drop_bit 10 (TAP6 (B1 j i) (B1 (j + 1) i) (B1 (j + 2) i) (B1 (j + 3) i) (B1 (j + 4) i) (B1 (j + 5) i) + 512)) in
        if fx = 2 then
          (if fy = 2 then jj else avg2 jj (clip1 (drop_bit 5 (B1 (j + (if fy = 1 then 2 else 3)) i + 16))))
        else
          let x = i + (if fx = 1 then 2 else 3) in avg2 jj (clip1 (drop_bit 5 (tap_col win j x + 16)))
      else
        let ry = (if fy = 1 then 2 else 3); cx = (if fx = 1 then 2 else 3);
            b = clip1 (drop_bit 5 (tap_row win (j + ry) i + 16));
            hh = clip1 (drop_bit 5 (tap_col win j (i + cx) + 16)) in
        avg2 b hh)"

definition mc_luma_block :: "int \<Rightarrow> int \<Rightarrow> plane \<Rightarrow> int \<Rightarrow> int \<Rightarrow> nat \<Rightarrow> nat \<Rightarrow> int \<Rightarrow> int \<Rightarrow> int list" where
  "mc_luma_block W H P x y w h mvx mvy =
     (let win = mc_win W H P (x + drop_bit 2 mvx) (y + drop_bit 2 mvy) w h in
      concat (map (\<lambda>j. map (mc_sample win (mvx AND 3) (mvy AND 3) j) [0..<w]) [0..<h]))"

section \<open>Equivalence\<close>

lemma clampi_id: "0 \<le> x \<Longrightarrow> x < n \<Longrightarrow> clampi x n = x"
  by (simp add: clampi_def)

lemma clampi_range: "0 < n \<Longrightarrow> 0 \<le> clampi x n \<and> clampi x n < n"
  by (simp add: clampi_def)

lemma mc_win_pyx:
  assumes "c < w + 5" and "r < h + 5"
  shows "mc_win W H P xi yi w h r c = pyx W H P (xi - 2 + int c) (yi - 2 + int r)"
proof (cases "xi - 2 \<ge> 0 \<and> yi - 2 \<ge> 0 \<and> xi - 2 + int (w + 5) \<le> W \<and> yi - 2 + int (h + 5) \<le> H")
  case True
  have "clampi (xi - 2 + int c) W = xi - 2 + int c" "clampi (yi - 2 + int r) H = yi - 2 + int r"
    by (rule clampi_id; use True assms in linarith)+
  moreover have "nat ((yi - 2 + int r) * W + (xi - 2)) + c = nat ((yi - 2 + int r) * W + (xi - 2 + int c))"
  proof -
    have "0 \<le> (yi - 2 + int r) * W + (xi - 2)" using True by simp
    then have "nat ((yi - 2 + int r) * W + (xi - 2) + int c) = nat ((yi - 2 + int r) * W + (xi - 2)) + c"
      by (subst nat_add_distrib) simp_all
    then show ?thesis by (simp only: add.assoc)
  qed
  ultimately show ?thesis using True by (simp add: mc_win_def pyx_def)
qed (simp only: mc_win_def if_False)

lemma avg2_commute: "avg2 a b = avg2 b a"
  by (simp add: avg2_def add.commute)

lemma mc_sample_qpel:
  assumes win: "\<And>a b. a \<le> 5 \<Longrightarrow> b \<le> 5 \<Longrightarrow> win (j + a) (i + b) = pyx W H P (X + (int b - 2)) (Y + (int a - 2))"
    and f: "fx \<in> {0, 1, 2, 3}" "fy \<in> {0, 1, 2, 3}"
  shows "mc_sample win fx fy j i = luma_qpel W H P X Y fx fy"
proof -
  have p: "win (j + a) (i + b) = pyx W H P (X + (int b - 2)) (Y + (int a - 2))" if "a \<in> {0..5}" "b \<in> {0..5}" for a b
    using win that by simp
  have row: "tap_row win (j + a) i = b1_at W H P X (Y + (int a - 2))" if "a \<le> 5" for a
    using p [of a 0] p [of a 1] p [of a 2] p [of a 3] p [of a 4] p [of a 5] that
    by (simp add: tap_row_def b1_at_def TAP6_def)
  have col: "tap_col win j (i + b) = h1_at W H P (X + (int b - 2)) Y" if "b \<le> 5" for b
    using p [of 0 b] p [of 1 b] p [of 2 b] p [of 3 b] p [of 4 b] p [of 5 b] that
    by (simp add: tap_col_def h1_at_def TAP6_def)
  have r: "tap_row win j i = b1_at W H P X (Y - 2)" "tap_row win (Suc j) i = b1_at W H P X (Y - 1)"
    "tap_row win (j + 2) i = b1_at W H P X Y" "tap_row win (j + 3) i = b1_at W H P X (Y + 1)"
    "tap_row win (j + 4) i = b1_at W H P X (Y + 2)" "tap_row win (j + 5) i = b1_at W H P X (Y + 3)"
    using row [of 0] row [of 1] row [of 2] row [of 3] row [of 4] row [of 5] by (simp_all del: add_2_eq_Suc')
  have c: "tap_col win j (i + 2) = h1_at W H P X Y" "tap_col win j (i + 3) = h1_at W H P (X + 1) Y"
    using col [of 2] col [of 3] by (simp_all del: add_2_eq_Suc')
  have w: "win (j + 2) (i + 2) = pyx W H P X Y" "win (j + 2) (i + 3) = pyx W H P (X + 1) Y"
    "win (j + 3) (i + 2) = pyx W H P X (Y + 1)"
    using p [of 2 2] p [of 2 3] p [of 3 2] by (simp_all del: add_2_eq_Suc')
  have s: "mc_sample win fx fy j i = luma_qpel W H P X Y fx fy" if "fx = a" "fy = b" "a \<in> {0, 1, 2, 3}" "b \<in> {0, 1, 2, 3}" for a b
    using that by (auto simp: mc_sample_def luma_qpel_def Let_def r c w TAP6_def avg2_commute simp del: add_2_eq_Suc')
  show ?thesis by (rule s [OF refl refl f])
qed

lemma frac_range: "(m :: int) AND 3 \<in> {0, 1, 2, 3}"
proof -
  have "m AND 3 = m mod 4" using take_bit_eq_mask [of 2 m] by (simp add: mask_eq_exp_minus_1 take_bit_eq_mod)
  then show ?thesis using pos_mod_bound [of 4 m] pos_mod_sign [of 4 m] by auto
qed

lemma mc_luma_block_eq:
  "mc_luma_block W H P x y w h mvx mvy =
     concat (map (\<lambda>j. map (\<lambda>i. luma_qpel W H P (x + int i + drop_bit 2 mvx) (y + int j + drop_bit 2 mvy) (mvx AND 3) (mvy AND 3))
       [0..<w]) [0..<h])"
proof -
  define win where "win = mc_win W H P (x + drop_bit 2 mvx) (y + drop_bit 2 mvy) w h"
  have "mc_sample win (mvx AND 3) (mvy AND 3) j i =
      luma_qpel W H P (x + int i + drop_bit 2 mvx) (y + int j + drop_bit 2 mvy) (mvx AND 3) (mvy AND 3)"
    if "i < w" "j < h" for i j
    by (rule mc_sample_qpel [OF _ frac_range frac_range])
      (use that in \<open>simp add: win_def mc_win_pyx algebra_simps\<close>)
  then show ?thesis
    unfolding mc_luma_block_def Let_def win_def [symmetric]
    by (intro arg_cong [where f = concat] map_cong refl) auto
qed

lemma chroma_pred_eq:
  fixes W H mvx mvy xc yc :: int
  defines "xi \<equiv> xc + drop_bit 3 mvx" and "yi \<equiv> yc + drop_bit 3 mvy"
  shows "chroma_pred W H P xc yc mvx mvy = bilin8 (mvx AND 7) (mvy AND 7)
     (pcyx W H P xi yi) (pcyx W H P (xi + 1) yi) (pcyx W H P xi (yi + 1)) (pcyx W H P (xi + 1) (yi + 1))"
proof (cases "xi \<ge> 0 \<and> yi \<ge> 0 \<and> xi + 1 < W div 2 \<and> yi + 1 < H div 2")
  case True
  define V where "V = W div 2"
  have "0 \<le> V" using True unfolding V_def by linarith
  then have z: "0 \<le> yi * V" using True by simp
  have i: "nat (yi * V + xi) + 1 = nat (yi * V + (xi + 1))" "nat (yi * V + xi) + nat V = nat ((yi + 1) * V + xi)"
    "nat (yi * V + xi) + nat V + 1 = nat ((yi + 1) * V + (xi + 1))"
    using True z unfolding V_def [symmetric] by (simp_all add: nat_add_distrib distrib_right)
  have "clampi xi V = xi" "clampi (xi + 1) V = xi + 1" "clampi yi (H div 2) = yi" "clampi (yi + 1) (H div 2) = yi + 1"
    using True by (simp_all add: clampi_id V_def)
  then show ?thesis using True i unfolding chroma_pred_def Let_def xi_def [symmetric] yi_def [symmetric] V_def [symmetric]
    by (simp add: pcyx_def V_def [symmetric])
next
  case False
  then show ?thesis unfolding chroma_pred_def Let_def xi_def [symmetric] yi_def [symmetric] by (simp only: if_False)
qed

section \<open>Ranges\<close>

lemma clip1_range: "clip1 v \<in> {0..255}"
  by (simp add: clip1_def)

lemma byte_range: "uint (b :: u8) \<in> {0..255}"
  using unsigned_less [where ?'a = int and w = b] by simp

lemma avg2_range: "a \<in> {0..255} \<Longrightarrow> b \<in> {0..255} \<Longrightarrow> avg2 a b \<in> {0..255}"
  unfolding avg2_def drop_bit_eq_div atLeastAtMost_iff power_one_right by linarith

lemma luma_qpel_range: "luma_qpel W H P x y fx fy \<in> {0..255}"
  unfolding luma_qpel_def Let_def pyx_def
  by (auto intro!: avg2_range clip1_range byte_range simp del: atLeastAtMost_iff)

lemma bilin8_sum:
  fixes fx fy :: int
  assumes f: "fx \<in> {0..7}" "fy \<in> {0..7}" and v: "a \<in> {0..255}" "b \<in> {0..255}" "c \<in> {0..255}" "d \<in> {0..255}"
  shows "(8 - fx) * (8 - fy) * a + fx * (8 - fy) * b + (8 - fx) * fy * c + fx * fy * d \<in> {0..64 * 255}"
proof -
  have w: "0 \<le> (8 - fx) * (8 - fy)" "0 \<le> fx * (8 - fy)" "0 \<le> (8 - fx) * fy" "0 \<le> fx * fy" using f by simp_all
  have "(8 - fx) * (8 - fy) * a \<le> (8 - fx) * (8 - fy) * 255" "fx * (8 - fy) * b \<le> fx * (8 - fy) * 255"
    "(8 - fx) * fy * c \<le> (8 - fx) * fy * 255" "fx * fy * d \<le> fx * fy * 255"
    using w v by (simp_all add: mult_left_mono)
  moreover have "(8 - fx) * (8 - fy) * 255 + fx * (8 - fy) * 255 + (8 - fx) * fy * 255 + fx * fy * 255 = 64 * 255"
    by (simp add: algebra_simps)
  moreover have "0 \<le> (8 - fx) * (8 - fy) * a" "0 \<le> fx * (8 - fy) * b" "0 \<le> (8 - fx) * fy * c" "0 \<le> fx * fy * d"
    using w v by simp_all
  ultimately show ?thesis unfolding atLeastAtMost_iff by linarith
qed

lemma bilin8_range:
  assumes "fx \<in> {0..7}" "fy \<in> {0..7}" "a \<in> {0..255}" "b \<in> {0..255}" "c \<in> {0..255}" "d \<in> {0..255}"
  shows "bilin8 fx fy a b c d \<in> {0..255}"
proof -
  have "(t + 32) div 64 \<in> {0..255}" if "t \<in> {0..64 * 255}" for t :: int
    using that unfolding atLeastAtMost_iff by linarith
  from this [OF bilin8_sum [OF assms]] show ?thesis by (simp add: bilin8_def drop_bit_eq_div)
qed

lemma frac8_range: "(m :: int) AND 7 \<in> {0..7}"
proof -
  have "m AND 7 = m mod 8" using take_bit_eq_mask [of 3 m] by (simp add: mask_eq_exp_minus_1 take_bit_eq_mod)
  then show ?thesis using pos_mod_bound [of 8 m] pos_mod_sign [of 8 m] by auto
qed

lemma chroma_pred_range: "chroma_pred W H P xc yc mvx mvy \<in> {0..255}"
  unfolding chroma_pred_eq pcyx_def by (intro bilin8_range frac8_range byte_range)

text \<open>Every byte read lies in the picture.\<close>

lemma pyx_inside:
  assumes "0 < W" "0 < H" and eq: "\<And>a. a < nat (W * H) \<Longrightarrow> P a = Q a"
  shows "pyx W H P x y = pyx W H Q x y"
proof -
  have x: "0 \<le> clampi x W" "clampi x W < W" and y: "0 \<le> clampi y H" "clampi y H < H"
    using clampi_range assms(1,2) by blast+
  have "clampi y H * W + clampi x W < (clampi y H + 1) * W" using x by (simp add: distrib_right)
  also have "(clampi y H + 1) * W \<le> H * W" by (rule mult_right_mono) (use y assms(1) in auto)
  finally have "nat (clampi y H * W + clampi x W) < nat (W * H)"
    using assms(1,2) by (simp add: mult.commute)
  then show ?thesis by (simp add: pyx_def eq)
qed

text \<open>
  C10. Motion compensation. The block routine of the CPU renderer, with its shared window and
  intermediates, gives sample for sample what the standard's interpolation gives, for every block
  size, position and motion vector, also across the picture border; the chroma shortcut inside the
  picture is the clamped formula; and every sample fits a byte, so the casts that follow lose nothing.
\<close>

theorem mc_block_exact:
  "mc_luma_block W H P x y w h mvx mvy =
     concat (map (\<lambda>j. map (\<lambda>i. luma_qpel W H P (x + int i + drop_bit 2 mvx) (y + int j + drop_bit 2 mvy) (mvx AND 3) (mvy AND 3))
       [0..<w]) [0..<h]) \<and>
   chroma_pred W H C xc yc mvx mvy = bilin8 (mvx AND 7) (mvy AND 7)
     (pcyx W H C (xc + drop_bit 3 mvx) (yc + drop_bit 3 mvy)) (pcyx W H C (xc + drop_bit 3 mvx + 1) (yc + drop_bit 3 mvy))
     (pcyx W H C (xc + drop_bit 3 mvx) (yc + drop_bit 3 mvy + 1)) (pcyx W H C (xc + drop_bit 3 mvx + 1) (yc + drop_bit 3 mvy + 1)) \<and>
   set (mc_luma_block W H P x y w h mvx mvy) \<subseteq> {0..255} \<and> chroma_pred W H C xc yc mvx mvy \<in> {0..255} \<and> wp6 v wt off \<in> {0..255}"
proof -
  have "set (mc_luma_block W H P x y w h mvx mvy) \<subseteq> {0..255}"
    unfolding mc_luma_block_eq using luma_qpel_range by (auto simp del: atLeastAtMost_iff)
  moreover have "wp6 v wt off \<in> {0..255}" unfolding wp6_def by (rule clip1_range)
  ultimately show ?thesis
    using mc_luma_block_eq [of W H P x y w h mvx mvy] chroma_pred_eq [of W H C xc yc mvx mvy]
      chroma_pred_range [of W H C xc yc mvx mvy] by (simp only: simp_thms)
qed

end
