(* ===== verification/Neon.thy ===== *)
theory Neon
  imports Mc
begin

text \<open>
  The vector code of the decoder cube (\<open>coda-cube.c\<close>: \<open>tap6h\<close> to \<open>wp6_neon\<close>): motion compensation of a 4 by 4
  luma block, of a 2 by 2 block of both chroma planes, and weighted prediction, eight lanes at a time.
  A vector is the list of its lanes, each lane a word of its width, so every sum wraps where the
  instruction wraps. The intrinsics come first; signed and unsigned views of a lane are \<open>sint\<close> and \<open>uint\<close>.
\<close>

section \<open>Intrinsics\<close>

type_synonym s16 = "16 word"
type_synonym s32 = "32 word"

definition vld1 :: "nat \<Rightarrow> plane \<Rightarrow> nat \<Rightarrow> u8 list" where
  "vld1 n P a = map (\<lambda>i. P (a + i)) [0..<n]"

definition vget_low :: "'a list \<Rightarrow> 'a list" where
  "vget_low v = take (length v div 2) v"

definition vget_high :: "'a list \<Rightarrow> 'a list" where
  "vget_high v = drop (length v div 2) v"

definition vext :: "'a list \<Rightarrow> 'a list \<Rightarrow> nat \<Rightarrow> 'a list" where
  "vext a b n = take (length a) (drop n (a @ b))"

definition vmovl_u8 :: "u8 list \<Rightarrow> s16 list" where
  "vmovl_u8 = map ucast"

definition vadd_s16 :: "s16 list \<Rightarrow> s16 list \<Rightarrow> s16 list" where
  "vadd_s16 = map2 (+)"

definition vmla_n_s16 :: "s16 list \<Rightarrow> s16 list \<Rightarrow> s16 \<Rightarrow> s16 list" where
  "vmla_n_s16 s a k = map2 (\<lambda>x y. x + y * k) s a"

definition vmls_n_s16 :: "s16 list \<Rightarrow> s16 list \<Rightarrow> s16 \<Rightarrow> s16 list" where
  "vmls_n_s16 s a k = map2 (\<lambda>x y. x - y * k) s a"

definition vaddl_s16 :: "s16 list \<Rightarrow> s16 list \<Rightarrow> s32 list" where
  "vaddl_s16 = map2 (\<lambda>x y. scast x + scast y)"

definition vmlal_n_s16 :: "s32 list \<Rightarrow> s16 list \<Rightarrow> s16 \<Rightarrow> s32 list" where
  "vmlal_n_s16 s a k = map2 (\<lambda>x y. x + scast y * scast k) s a"

definition vmlsl_n_s16 :: "s32 list \<Rightarrow> s16 list \<Rightarrow> s16 \<Rightarrow> s32 list" where
  "vmlsl_n_s16 s a k = map2 (\<lambda>x y. x - scast y * scast k) s a"

text \<open>Rounding shifts: exact before they narrow; \<open>q\<close> saturates, \<open>un\<close> to an unsigned lane.\<close>

definition rshr :: "nat \<Rightarrow> int \<Rightarrow> int" where
  "rshr n x = drop_bit n (x + 2 ^ (n - 1))"

definition vqrshrun_n_s16 :: "s16 list \<Rightarrow> nat \<Rightarrow> u8 list" where
  "vqrshrun_n_s16 v n = map (\<lambda>x. word_of_int (max 0 (min 255 (rshr n (sint x))))) v"

definition vqrshrun_n_s32 :: "s32 list \<Rightarrow> nat \<Rightarrow> u16 list" where
  "vqrshrun_n_s32 v n = map (\<lambda>x. word_of_int (max 0 (min 65535 (rshr n (sint x))))) v"

definition vrshr_n_s16 :: "s16 list \<Rightarrow> nat \<Rightarrow> s16 list" where
  "vrshr_n_s16 v n = map (\<lambda>x. word_of_int (rshr n (sint x))) v"

definition vrshrn_n_u16 :: "u16 list \<Rightarrow> nat \<Rightarrow> u8 list" where
  "vrshrn_n_u16 v n = map (\<lambda>x. word_of_int (rshr n (uint x))) v"

definition vqmovn_u16 :: "u16 list \<Rightarrow> u8 list" where
  "vqmovn_u16 = map (\<lambda>x. word_of_int (min 255 (uint x)))"

definition vqmovun_s16 :: "s16 list \<Rightarrow> u8 list" where
  "vqmovun_s16 = map (\<lambda>x. word_of_int (max 0 (min 255 (sint x))))"

definition vrhadd_u8 :: "u8 list \<Rightarrow> u8 list \<Rightarrow> u8 list" where
  "vrhadd_u8 = map2 (\<lambda>x y. word_of_int (drop_bit 1 (uint x + uint y + 1)))"

definition vmull_u8 :: "u8 list \<Rightarrow> u8 list \<Rightarrow> u16 list" where
  "vmull_u8 = map2 (\<lambda>x y. ucast x * ucast y)"

definition vmlal_u8 :: "u16 list \<Rightarrow> u8 list \<Rightarrow> u8 list \<Rightarrow> u16 list" where
  "vmlal_u8 s a b = map2 (+) s (vmull_u8 a b)"

section \<open>Luma\<close>

definition tap6h :: "u8 list \<Rightarrow> s16 list" where
  "tap6h row =
     (let lo = vmovl_u8 (vget_low row); hi = vmovl_u8 (vget_high row);
          s = vadd_s16 lo (vext lo hi 5);
          s = vmla_n_s16 s (vadd_s16 (vext lo hi 2) (vext lo hi 3)) 20 in
      vmls_n_s16 s (vadd_s16 (vext lo hi 1) (vext lo hi 4)) 5)"

definition tap6v :: "s16 list \<Rightarrow> s16 list \<Rightarrow> s16 list \<Rightarrow> s16 list \<Rightarrow> s16 list \<Rightarrow> s16 list \<Rightarrow> s16 list" where
  "tap6v r0 r1 r2 r3 r4 r5 =
     (let s = vadd_s16 r0 r5; s = vmla_n_s16 s (vadd_s16 r2 r3) 20 in vmls_n_s16 s (vadd_s16 r1 r4) 5)"

text \<open>The cases of the fractional position, on the nine rows loaded at the window's corner.\<close>

definition col_from :: "nat \<Rightarrow> u8 list \<Rightarrow> u8 list" where
  "col_from k row = vext (vget_low row) (vget_high row) k"

definition tap6v_rows :: "s16 list list \<Rightarrow> nat \<Rightarrow> u8 list" where
  "tap6v_rows Rw j = vqrshrun_n_s16 (tap6v (Rw ! j) (Rw ! (j + 1)) (Rw ! (j + 2)) (Rw ! (j + 3)) (Rw ! (j + 4)) (Rw ! (j + 5))) 5"

definition jj_neon :: "s16 list list \<Rightarrow> nat \<Rightarrow> u8 list" where
  "jj_neon B1 j =
     (let b = (\<lambda>k. vget_low (B1 ! (j + k)));
          acc = vaddl_s16 (b 0) (b 5);
          acc = vmlal_n_s16 acc (vadd_s16 (b 2) (b 3)) 20;
          acc = vmlsl_n_s16 acc (vadd_s16 (b 1) (b 4)) 5;
          j16 = vqrshrun_n_s32 acc 10 in
      vqmovn_u16 (j16 @ j16))"

definition luma4_rows :: "int \<Rightarrow> int \<Rightarrow> u8 list list \<Rightarrow> u8 list list" where
  "luma4_rows fx fy R =
     (let Rw = map (\<lambda>row. vmovl_u8 (vget_low row)) R in
      if fx = 0 \<and> fy = 0 then map (\<lambda>j. col_from 2 (R ! (j + 2))) [0..<4]
      else if fy = 0 then
        map (\<lambda>j. let b = vqrshrun_n_s16 (tap6h (R ! (j + 2))) 5 in
          if fx = 2 then b else vrhadd_u8 b (col_from (if fx = 1 then 2 else 3) (R ! (j + 2)))) [0..<4]
      else if fx = 0 then
        map (\<lambda>j. let h = tap6v_rows Rw j; h = vext h h 2 in
          if fy = 2 then h else vrhadd_u8 h (col_from 2 (R ! (j + (if fy = 1 then 2 else 3))))) [0..<4]
      else if fx = 2 \<or> fy = 2 then
        let B1 = map tap6h R in
        map (\<lambda>j. let jj = jj_neon B1 j in
          if fx = 2 then (if fy = 2 then jj else vrhadd_u8 jj (vqrshrun_n_s16 (B1 ! (j + (if fy = 1 then 2 else 3))) 5))
          else let h = tap6v_rows Rw j in vrhadd_u8 jj (vext h h (if fx = 1 then 2 else 3))) [0..<4]
      else
        map (\<lambda>j. let b = vqrshrun_n_s16 (tap6h (R ! (j + (if fy = 1 then 2 else 3)))) 5; h = tap6v_rows Rw j in
          vrhadd_u8 b (vext h h (if fx = 1 then 2 else 3))) [0..<4])"

definition mc_luma4_neon :: "int \<Rightarrow> int \<Rightarrow> plane \<Rightarrow> int \<Rightarrow> int \<Rightarrow> int \<Rightarrow> int \<Rightarrow> u8 list list" where
  "mc_luma4_neon W H P x y mvx mvy =
     (let xi = x + drop_bit 2 mvx; yi = y + drop_bit 2 mvy in
      if xi - 2 < 0 \<or> yi - 2 < 0 \<or> xi + 6 > W - 1 \<or> yi + 6 > H - 1 then
        let t = mc_luma_block W H P x y 4 4 mvx mvy in
        map (\<lambda>j. map (\<lambda>i. word_of_int (t ! (4 * j + i))) [0..<4] @ replicate 4 0) [0..<4]
      else
        luma4_rows (mvx AND 3) (mvy AND 3) (map (\<lambda>r. vld1 16 P (nat ((yi - 2) * W + (xi - 2)) + r * nat W)) [0..<9]))"

section \<open>Chroma and weights\<close>

definition ZIP16 :: "u8 list \<Rightarrow> u8 list \<Rightarrow> u8 list" where
  "ZIP16 a b = take 2 a @ take 2 b @ take 2 (drop 2 a) @ take 2 (drop 2 b)"

definition PACK :: "u8 list \<Rightarrow> u8 list \<Rightarrow> u8 list" where
  "PACK a b = take 4 a @ take 4 b"

definition chroma2 :: "int \<Rightarrow> int \<Rightarrow> u8 list \<Rightarrow> u8 list \<Rightarrow> u8 list \<Rightarrow> u8 list \<Rightarrow> u8 list \<Rightarrow> u8 list \<Rightarrow> u8 list" where
  "chroma2 fx fy u0 u1 u2 v0 v1 v2 =
     (let A = PACK (ZIP16 u0 u1) (ZIP16 v0 v1);
          Bv = PACK (ZIP16 (vext u0 u0 1) (vext u1 u1 1)) (ZIP16 (vext v0 v0 1) (vext v1 v1 1));
          C = PACK (ZIP16 u1 u2) (ZIP16 v1 v2);
          D = PACK (ZIP16 (vext u1 u1 1) (vext u2 u2 1)) (ZIP16 (vext v1 v1 1) (vext v2 v2 1));
          acc = vmull_u8 A (replicate 8 (word_of_int ((8 - fx) * (8 - fy))));
          acc = vmlal_u8 acc Bv (replicate 8 (word_of_int (fx * (8 - fy))));
          acc = vmlal_u8 acc C (replicate 8 (word_of_int ((8 - fx) * fy)));
          acc = vmlal_u8 acc D (replicate 8 (word_of_int (fx * fy))) in
      vrshrn_n_u16 acc 6)"

definition mc_chroma2_neon :: "int \<Rightarrow> int \<Rightarrow> plane \<Rightarrow> plane \<Rightarrow> int \<Rightarrow> int \<Rightarrow> int \<Rightarrow> int \<Rightarrow> u8 list" where
  "mc_chroma2_neon W H PU PV xc yc mvx mvy =
     (let xi = xc + drop_bit 3 mvx; yi = yc + drop_bit 3 mvy; CW = W div 2 in
      if xi < 0 \<or> yi < 0 \<or> xi + 8 > CW \<or> yi + 2 > H div 2 - 1 then
        map (\<lambda>k. word_of_int (chroma_pred W H PU (xc + int (k AND 1)) (yc + int (drop_bit 1 k)) mvx mvy)) [0..<4] @
        map (\<lambda>k. word_of_int (chroma_pred W H PV (xc + int (k AND 1)) (yc + int (drop_bit 1 k)) mvx mvy)) [0..<4]
      else
        let o' = nat (yi * CW + xi); row = (\<lambda>P r. vld1 8 P (o' + r * nat CW)) in
        chroma2 (mvx AND 7) (mvy AND 7) (row PU 0) (row PU 1) (row PU 2) (row PV 0) (row PV 1) (row PV 2))"

definition wp6_neon :: "u8 list \<Rightarrow> int \<Rightarrow> int \<Rightarrow> u8 list" where
  "wp6_neon v w o' =
     (let t = vmull_u8 v (replicate 8 (word_of_int w)); t = vrshr_n_s16 t 6 in
      vqmovun_s16 (vadd_s16 t (replicate 8 (word_of_int o'))))"

section \<open>Lanes\<close>

lemma sint_16: "- 32768 \<le> z \<Longrightarrow> z < 32768 \<Longrightarrow> sint (word_of_int z :: 16 word) = z"
  by (simp add: signed_of_int signed_take_bit_int_eq_self)

lemma sint_32: "- 2147483648 \<le> z \<Longrightarrow> z < 2147483648 \<Longrightarrow> sint (word_of_int z :: 32 word) = z"
  by (simp add: signed_of_int signed_take_bit_int_eq_self)

lemma uint_8: "0 \<le> z \<Longrightarrow> z < 256 \<Longrightarrow> uint (word_of_int z :: u8) = z"
  by (simp add: unsigned_of_int take_bit_int_eq_self)

lemma uint_16: "0 \<le> z \<Longrightarrow> z < 65536 \<Longrightarrow> uint (word_of_int z :: u16) = z"
  by (simp add: unsigned_of_int take_bit_int_eq_self)

lemma byte_round: "z \<in> {0..255} \<Longrightarrow> uint (word_of_int z :: u8) = z"
  by (simp add: uint_8)

lemma clip1_maxmin: "max 0 (min 255 v) = clip1 v"
  by (simp add: clip1_def max_def min_def)

lemma vext_nth: "i < length a \<Longrightarrow> n + i < length a + length b \<Longrightarrow> vext a b n ! i = (a @ b) ! (n + i)"
  unfolding vext_def using nth_drop [of n "a @ b" i] by (simp del: drop_append)

lemma vext_length: "n \<le> length b \<Longrightarrow> length (vext a b n) = length a"
  by (simp add: vext_def)

lemma low_high: "vget_low v @ vget_high v = v"
  by (simp add: vget_low_def vget_high_def)

lemma tap6h_length: "length row = 16 \<Longrightarrow> length (tap6h row) = 8"
  by (simp add: tap6h_def Let_def vmls_n_s16_def vmla_n_s16_def vadd_s16_def vmovl_u8_def vget_low_def vget_high_def vext_def)

lemma tap6h_nth:
  assumes "length row = 16" "i < 8"
  shows "sint (tap6h row ! i) = TAP6 (uint (row ! i)) (uint (row ! (i + 1))) (uint (row ! (i + 2)))
    (uint (row ! (i + 3))) (uint (row ! (i + 4))) (uint (row ! (i + 5)))"
proof -
  let ?lo = "vmovl_u8 (vget_low row)" let ?hi = "vmovl_u8 (vget_high row)"
  have lh: "?lo @ ?hi = map ucast row" by (simp add: vmovl_u8_def low_high flip: map_append)
  have len: "length ?lo = 8" "length ?hi = 8" using assms by (simp_all add: vmovl_u8_def vget_low_def vget_high_def)
  have e: "vext ?lo ?hi n ! i = ucast (row ! (n + i))" if "n \<le> 5" for n
    using that assms len by (simp add: vext_nth lh)
  have l: "?lo ! i = ucast (row ! i)" using assms by (simp add: vmovl_u8_def vget_low_def)
  let ?z = "TAP6 (uint (row ! i)) (uint (row ! (i + 1))) (uint (row ! (i + 2))) (uint (row ! (i + 3))) (uint (row ! (i + 4))) (uint (row ! (i + 5)))"
  have "tap6h row ! i = word_of_int ?z"
    using assms len by (simp add: tap6h_def Let_def vmls_n_s16_def vmla_n_s16_def vadd_s16_def vext_length e l TAP6_def add.commute)
  moreover have "- 32768 \<le> ?z \<and> ?z < 32768"
    using byte_range [of "row ! i"] byte_range [of "row ! (i + 1)"] byte_range [of "row ! (i + 2)"] byte_range [of "row ! (i + 3)"]
      byte_range [of "row ! (i + 4)"] byte_range [of "row ! (i + 5)"] unfolding TAP6_def atLeastAtMost_iff by linarith
  ultimately show ?thesis by (simp add: sint_16)
qed

lemma tap6v_length: "length r0 = 8 \<Longrightarrow> length r1 = 8 \<Longrightarrow> length r2 = 8 \<Longrightarrow> length r3 = 8 \<Longrightarrow> length r4 = 8 \<Longrightarrow> length r5 = 8 \<Longrightarrow>
    length (tap6v r0 r1 r2 r3 r4 r5) = 8"
  by (simp add: tap6v_def Let_def vmls_n_s16_def vmla_n_s16_def vadd_s16_def)

text \<open>Six lanes of widened bytes: the sum fits in 16 bits.\<close>

lemma tap6v_nth:
  assumes "length r0 = 8" "length r1 = 8" "length r2 = 8" "length r3 = 8" "length r4 = 8" "length r5 = 8" "i < 8"
    and "r0 ! i = ucast (a :: u8)" "r1 ! i = ucast (b :: u8)" "r2 ! i = ucast (c :: u8)" "r3 ! i = ucast (d :: u8)" "r4 ! i = ucast (e :: u8)" "r5 ! i = ucast (f :: u8)"
  shows "sint (tap6v r0 r1 r2 r3 r4 r5 ! i) = TAP6 (uint a) (uint b) (uint c) (uint d) (uint e) (uint f)"
proof -
  let ?z = "TAP6 (uint a) (uint b) (uint c) (uint d) (uint e) (uint f)"
  have "tap6v r0 r1 r2 r3 r4 r5 ! i = word_of_int ?z"
    using assms by (simp add: tap6v_def Let_def vmls_n_s16_def vmla_n_s16_def vadd_s16_def TAP6_def)
  moreover have "- 32768 \<le> ?z \<and> ?z < 32768"
    using byte_range [of a] byte_range [of b] byte_range [of c] byte_range [of d] byte_range [of e] byte_range [of f]
    unfolding TAP6_def atLeastAtMost_iff by linarith
  ultimately show ?thesis by (simp add: sint_16)
qed

lemma narrow5_nth: "i < length v \<Longrightarrow> uint (vqrshrun_n_s16 v 5 ! i) = clip1 (drop_bit 5 (sint (v ! i) + 16))"
  using clip1_range [of "drop_bit 5 (sint (v ! i) + 16)"] by (simp add: vqrshrun_n_s16_def rshr_def clip1_maxmin uint_8)

lemma narrow_length: "length (vqrshrun_n_s16 v n) = length v"
  by (simp add: vqrshrun_n_s16_def)

lemma vrhadd_nth: "i < length a \<Longrightarrow> i < length b \<Longrightarrow> uint (vrhadd_u8 a b ! i) = avg2 (uint (a ! i)) (uint (b ! i))"
  using avg2_range [OF byte_range byte_range, of "a ! i" "b ! i"] by (simp add: vrhadd_u8_def avg2_def uint_8)

lemma col_from_nth: "length row = 16 \<Longrightarrow> i < 8 \<Longrightarrow> k \<le> 8 \<Longrightarrow> col_from k row ! i = row ! (i + k)"
  by (simp add: col_from_def vext_nth low_high vget_low_def vget_high_def add.commute)

lemma col_from_length: "length row = 16 \<Longrightarrow> k \<le> 8 \<Longrightarrow> length (col_from k row) = 8"
  by (simp add: col_from_def vext_length vget_low_def vget_high_def)

lemma TAP6_b1_range:
  assumes "a \<in> {- 2550..10710}" "b \<in> {- 2550..10710}" "c \<in> {- 2550..10710}" "d \<in> {- 2550..10710}" "e \<in> {- 2550..10710}" "f \<in> {- 2550..10710}"
  shows "- 2147483648 \<le> TAP6 a b c d e f \<and> TAP6 a b c d e f < 2147483648 \<and> TAP6 a b c d e f < 65000 * 1024"
  using assms unfolding TAP6_def atLeastAtMost_iff by linarith

lemma TAP6_byte_range:
  "a \<in> {0..255} \<Longrightarrow> b \<in> {0..255} \<Longrightarrow> c \<in> {0..255} \<Longrightarrow> d \<in> {0..255} \<Longrightarrow> e \<in> {0..255} \<Longrightarrow> f \<in> {0..255} \<Longrightarrow> TAP6 a b c d e f \<in> {- 2550..10710}"
  unfolding TAP6_def atLeastAtMost_iff by linarith

text \<open>The two-stage filter: the inner sums of two rows stay in 16 bits, the outer ones in 32.\<close>

lemma scast_sum:
  assumes "sint (x :: s16) \<in> {- 2550..10710}" "sint (y :: s16) \<in> {- 2550..10710}"
  shows "scast (x + y) = (word_of_int (sint x + sint y) :: s32)"
proof -
  have "x + y = word_of_int (sint x + sint y)" by simp
  then have "sint (x + y) = sint x + sint y" using assms sint_16 [of "sint x + sint y"] by simp
  then show ?thesis by (metis of_int_sint scast_eq)
qed

lemma narrow_twice: "min 255 (uint (word_of_int (max 0 (min 65535 v)) :: u16)) = clip1 v"
  by (simp add: uint_16 clip1_def max_def min_def)

lemma tap6_32:
  assumes "length b0 = 4" "length b1 = 4" "length b2 = 4" "length b3 = 4" "length b4 = 4" "length b5 = 4"
  shows "length (vmlsl_n_s16 (vmlal_n_s16 (vaddl_s16 b0 b5) (vadd_s16 b2 b3) 20) (vadd_s16 b1 b4) 5) = 4"
    "i < 4 \<Longrightarrow> vmlsl_n_s16 (vmlal_n_s16 (vaddl_s16 b0 b5) (vadd_s16 b2 b3) 20) (vadd_s16 b1 b4) 5 ! i =
       scast (b0 ! i) + scast (b5 ! i) + scast (b2 ! i + b3 ! i) * 20 - scast (b1 ! i + b4 ! i) * 5"
  using assms by (simp_all add: vmlsl_n_s16_def vmlal_n_s16_def vaddl_s16_def vadd_s16_def)

lemma jj_neon_nth:
  assumes len: "\<And>k. k \<le> 5 \<Longrightarrow> length (B1 ! (j + k)) = 8" and i: "i < 4"
    and r: "\<And>k. k \<le> 5 \<Longrightarrow> sint (B1 ! (j + k) ! i) \<in> {- 2550..10710}"
  shows "uint (jj_neon B1 j ! i) = clip1 (drop_bit 10 (TAP6 (sint (B1 ! j ! i)) (sint (B1 ! (j + 1) ! i)) (sint (B1 ! (j + 2) ! i))
    (sint (B1 ! (j + 3) ! i)) (sint (B1 ! (j + 4) ! i)) (sint (B1 ! (j + 5) ! i)) + 512))"
proof -
  define b where "b k = B1 ! (j + k) ! i" for k
  define z where "z = TAP6 (sint (b 0)) (sint (b 1)) (sint (b 2)) (sint (b 3)) (sint (b 4)) (sint (b 5))"
  have l: "length (vget_low (B1 ! (j + k))) = 4" "vget_low (B1 ! (j + k)) ! i = b k" if "k \<le> 5" for k
    using len [OF that] i by (simp_all add: vget_low_def b_def)
  have rb: "sint (b 0) \<in> {- 2550..10710}" "sint (b 1) \<in> {- 2550..10710}" "sint (b 2) \<in> {- 2550..10710}"
      "sint (b 3) \<in> {- 2550..10710}" "sint (b 4) \<in> {- 2550..10710}" "sint (b 5) \<in> {- 2550..10710}"
    unfolding b_def by (rule r; simp)+
  have z: "- 2147483648 \<le> z" "z < 2147483648" "z < 65000 * 1024" using TAP6_b1_range [OF rb] by (simp_all add: z_def)
  note s = scast_sum [OF rb(3,4)] scast_sum [OF rb(2,5)]
  let ?acc = "vmlsl_n_s16 (vmlal_n_s16 (vaddl_s16 (vget_low (B1 ! (j + 0))) (vget_low (B1 ! (j + 5))))
      (vadd_s16 (vget_low (B1 ! (j + 2))) (vget_low (B1 ! (j + 3)))) 20) (vadd_s16 (vget_low (B1 ! (j + 1))) (vget_low (B1 ! (j + 4)))) 5"
  note acc_l = tap6_32 [OF l(1) [of 0] l(1) [of 1] l(1) [of 2] l(1) [of 3] l(1) [of 4] l(1) [of 5]]
  have len4: "length ?acc = 4" by (rule acc_l(1)) simp_all
  have "?acc ! i = scast (b 0) + scast (b 5) + scast (b 2 + b 3) * 20 - scast (b 1 + b 4) * 5"
    using acc_l(2) [of i] l(2) [of 0] l(2) [of 1] l(2) [of 2] l(2) [of 3] l(2) [of 4] l(2) [of 5] i by (simp del: add_2_eq_Suc' add_0_right)
  also have "\<dots> = word_of_int z" unfolding s by (simp add: z_def TAP6_def algebra_simps)
  finally have "?acc ! i = word_of_int z" .
  then have acc: "sint (?acc ! i) = z" using z by (simp add: sint_32)
  note sat = narrow_twice [of "drop_bit 10 (z + 512)"]
  have "uint (word_of_int (clip1 (drop_bit 10 (z + 512))) :: u8) = clip1 (drop_bit 10 (z + 512))"
    using clip1_range [of "drop_bit 10 (z + 512)"] by (simp add: uint_8)
  with sat show ?thesis using i len4 acc
    by (simp add: jj_neon_def Let_def vqmovn_u16_def vqrshrun_n_s32_def rshr_def nth_append z_def b_def)
qed

section \<open>Equivalence with the scalar routines\<close>

definition rows_ok :: "u8 list list \<Rightarrow> bool" where
  "rows_ok R \<longleftrightarrow> length R = 9 \<and> (\<forall>row \<in> set R. length row = 16)"

definition win_of :: "u8 list list \<Rightarrow> nat \<Rightarrow> nat \<Rightarrow> int" where
  "win_of R r c = uint (R ! r ! c)"

lemma rows_ok_nth: "rows_ok R \<Longrightarrow> r < 9 \<Longrightarrow> length (R ! r) = 16"
  by (simp add: rows_ok_def)

lemma row_tap:
  assumes "rows_ok R" "r < 9" "i < 8"
  shows "sint (tap6h (R ! r) ! i) = tap_row (win_of R) r i"
  using tap6h_nth [OF rows_ok_nth [OF assms(1,2)] assms(3)] by (simp add: tap_row_def win_of_def)

lemma row_tap_range: "tap_row (win_of R) r i \<in> {- 2550..10710}"
  unfolding tap_row_def win_of_def by (intro TAP6_byte_range byte_range)

lemma row_narrow:
  assumes "rows_ok R" "r < 9" "i < 8"
  shows "uint (vqrshrun_n_s16 (tap6h (R ! r)) 5 ! i) = clip1 (drop_bit 5 (tap_row (win_of R) r i + 16))"
  using narrow5_nth [of i "tap6h (R ! r)"] assms tap6h_length [OF rows_ok_nth [OF assms(1,2)]] by (simp add: row_tap)

lemma col_narrow:
  assumes R: "rows_ok R" "j < 4" and x: "x < 8"
  shows "length (tap6v_rows (map (\<lambda>row. vmovl_u8 (vget_low row)) R) j) = 8"
    "uint (tap6v_rows (map (\<lambda>row. vmovl_u8 (vget_low row)) R) j ! x) = clip1 (drop_bit 5 (tap_col (win_of R) j x + 16))"
proof -
  let ?Rw = "map (\<lambda>row. vmovl_u8 (vget_low row)) R"
  have l: "length (?Rw ! r) = 8" "?Rw ! r ! x = ucast (R ! r ! x)" if "r < 9" for r
    using rows_ok_nth [OF R(1) that] R(1) x that by (simp_all add: rows_ok_def vmovl_u8_def vget_low_def)
  have n: "j < 9" "j + 1 < 9" "j + 2 < 9" "j + 3 < 9" "j + 4 < 9" "j + 5 < 9" using R(2) by simp_all
  note lens = l(1) [OF n(1)] l(1) [OF n(2)] l(1) [OF n(3)] l(1) [OF n(4)] l(1) [OF n(5)] l(1) [OF n(6)]
  note len = tap6v_length [OF lens]
  show "length (tap6v_rows ?Rw j) = 8" using len by (simp only: tap6v_rows_def narrow_length)
  have "sint (tap6v (?Rw ! j) (?Rw ! (j + 1)) (?Rw ! (j + 2)) (?Rw ! (j + 3)) (?Rw ! (j + 4)) (?Rw ! (j + 5)) ! x) = tap_col (win_of R) j x"
    using tap6v_nth [OF lens x l(2) [OF n(1)] l(2) [OF n(2)] l(2) [OF n(3)] l(2) [OF n(4)] l(2) [OF n(5)] l(2) [OF n(6)]]
    by (simp only: tap_col_def win_of_def)
  then show "uint (tap6v_rows ?Rw j ! x) = clip1 (drop_bit 5 (tap_col (win_of R) j x + 16))"
    unfolding tap6v_rows_def by (subst narrow5_nth) (simp_all only: len x)
qed

lemma jj_narrow:
  assumes R: "rows_ok R" "j < 4" and i: "i < 4"
  shows "length (jj_neon (map tap6h R) j) = 8"
    "uint (jj_neon (map tap6h R) j ! i) = clip1 (drop_bit 10 (TAP6 (tap_row (win_of R) j i) (tap_row (win_of R) (j + 1) i)
      (tap_row (win_of R) (j + 2) i) (tap_row (win_of R) (j + 3) i) (tap_row (win_of R) (j + 4) i) (tap_row (win_of R) (j + 5) i) + 512))"
proof -
  have l: "length (map tap6h R ! r) = 8" "sint (map tap6h R ! r ! i) = tap_row (win_of R) r i" if "r < 9" for r
    using that R(1) i tap6h_length [OF rows_ok_nth [OF R(1) that]] row_tap [OF R(1) that, of i] by (simp_all add: rows_ok_def)
  have "uint (jj_neon (map tap6h R) j ! i) = clip1 (drop_bit 10 (TAP6 (sint (map tap6h R ! j ! i)) (sint (map tap6h R ! (j + 1) ! i))
      (sint (map tap6h R ! (j + 2) ! i)) (sint (map tap6h R ! (j + 3) ! i)) (sint (map tap6h R ! (j + 4) ! i)) (sint (map tap6h R ! (j + 5) ! i)) + 512))"
    by (rule jj_neon_nth) (use l R(2) i row_tap_range in \<open>simp_all del: atLeastAtMost_iff\<close>)
  with l R(2) show "uint (jj_neon (map tap6h R) j ! i) = clip1 (drop_bit 10 (TAP6 (tap_row (win_of R) j i) (tap_row (win_of R) (j + 1) i)
      (tap_row (win_of R) (j + 2) i) (tap_row (win_of R) (j + 3) i) (tap_row (win_of R) (j + 4) i) (tap_row (win_of R) (j + 5) i) + 512))"
    by (simp del: nth_map)
  show "length (jj_neon (map tap6h R) j) = 8"
    using l(1) [of j] l(1) [of "j + 1"] l(1) [of "j + 2"] l(1) [of "j + 3"] l(1) [of "j + 4"] l(1) [of "j + 5"] R(2)
    by (simp add: jj_neon_def Let_def vqmovn_u16_def vqrshrun_n_s32_def vmlsl_n_s16_def vmlal_n_s16_def vaddl_s16_def vadd_s16_def vget_low_def
      del: nth_map)
qed

lemma from_col:
  assumes "rows_ok R" "r < 9" "i < 4" "k \<le> 3"
  shows "length (col_from k (R ! r)) = 8" "uint (col_from k (R ! r) ! i) = win_of R r (i + k)"
  using col_from_nth [OF rows_ok_nth [OF assms(1,2)], of i k] col_from_length [OF rows_ok_nth [OF assms(1,2)], of k] assms
  by (simp_all add: win_of_def)

lemma shifted:
  assumes "length h = 8" "i < 4" "k \<le> 3"
  shows "length (vext h h k) = 8" "vext h h k ! i = h ! (i + k)"
  using assms vext_nth [of i h k h] by (simp_all add: vext_length nth_append add.commute)

lemma luma4_rows_nth:
  assumes R: "rows_ok R" and j: "j < 4" and i: "i < 4" and f: "fx \<in> {0, 1, 2, 3}" "fy \<in> {0, 1, 2, 3}"
  shows "uint (luma4_rows fx fy R ! j ! i) = mc_sample (win_of R) fx fy j i"
proof -
  have n: "j + 2 < 9" "j + 3 < 9" "i < 8" "i + 2 < 8" "i + 3 < 8" using i j by simp_all
  have k: "(2 :: nat) \<le> 3" "(3 :: nat) \<le> 3" by simp_all
  note c = from_col [OF R n(1) i k(1)] from_col [OF R n(1) i k(2)] from_col [OF R n(2) i k(1)] from_col [OF R n(2) i k(2)]
  note b = row_narrow [OF R n(1,3)] row_narrow [OF R n(2,3)]
  note bl = tap6h_length [OF rows_ok_nth [OF R n(1)]] tap6h_length [OF rows_ok_nth [OF R n(2)]]
  note h = col_narrow(2) [OF R j n(4)] col_narrow(2) [OF R j n(5)]
  note hl = col_narrow(1) [OF R j n(3)]
  note sh = shifted [OF hl i k(1)] shifted [OF hl i k(2)]
  note jj = jj_narrow [OF R j i]
  have R9: "length R = 9" using R by (simp add: rows_ok_def)
  have m: "map tap6h R ! (j + 2) = tap6h (R ! (j + 2))" "map tap6h R ! (j + 3) = tap6h (R ! (j + 3))" using R9 j by simp_all
  note facts = m c b bl h hl sh jj vrhadd_nth narrow_length avg2_commute R9 Let_def i j luma4_rows_def mc_sample_def
  show ?thesis using f by (auto simp: facts n(3) simp del: add_2_eq_Suc')
qed

lemma concat_4: "j < 4 \<Longrightarrow> i < 4 \<Longrightarrow> concat (map (\<lambda>j. map (g j) [0..<4]) [0..<4]) ! (4 * j + i) = g j i"
  by (auto simp: numeral_eq_Suc less_Suc_eq)

lemma mc_luma4_neon_nth:
  assumes j: "j < 4" and i: "i < 4"
  shows "uint (mc_luma4_neon W H P x y mvx mvy ! j ! i) =
    luma_qpel W H P (x + int i + drop_bit 2 mvx) (y + int j + drop_bit 2 mvy) (mvx AND 3) (mvy AND 3)"
proof -
  define xi where "xi = x + drop_bit 2 mvx"
  define yi where "yi = y + drop_bit 2 mvy"
  show ?thesis
  proof (cases "xi - 2 < 0 \<or> yi - 2 < 0 \<or> xi + 6 > W - 1 \<or> yi + 6 > H - 1")
    case True
    then have "mc_luma4_neon W H P x y mvx mvy ! j ! i = word_of_int (mc_luma_block W H P x y 4 4 mvx mvy ! (4 * j + i))"
      using i j by (simp add: mc_luma4_neon_def Let_def nth_append flip: xi_def yi_def)
    then show ?thesis using luma_qpel_range i j by (simp add: mc_luma_block_eq concat_4 byte_round del: atLeastAtMost_iff)
  next
    case False
    define R where "R = map (\<lambda>r. vld1 16 P (nat ((yi - 2) * W + (xi - 2)) + r * nat W)) [0..<9]"
    have R: "rows_ok R" by (auto simp: R_def rows_ok_def vld1_def)
    have z: "0 \<le> (yi - 2) * W" "0 \<le> W" using False by simp_all
    have win: "win_of R r c = pyx W H P (xi - 2 + int c) (yi - 2 + int r)" if "r < 9" "c < 9" for r c
    proof -
      have a: "nat ((yi - 2) * W + (xi - 2)) + r * nat W + c = nat ((yi - 2 + int r) * W + (xi - 2 + int c))"
        using False z by (simp add: nat_add_distrib nat_mult_distrib distrib_right)
      have "clampi (xi - 2 + int c) W = xi - 2 + int c" "clampi (yi - 2 + int r) H = yi - 2 + int r"
        by (rule clampi_id; use False that in linarith)+
      with a that show ?thesis by (simp add: win_of_def R_def vld1_def pyx_def)
    qed
    have "mc_luma4_neon W H P x y mvx mvy = luma4_rows (mvx AND 3) (mvy AND 3) R"
      using False unfolding mc_luma4_neon_def Let_def xi_def [symmetric] yi_def [symmetric] R_def [symmetric] by (simp only: if_False)
    then have "uint (mc_luma4_neon W H P x y mvx mvy ! j ! i) = mc_sample (win_of R) (mvx AND 3) (mvy AND 3) j i"
      using luma4_rows_nth [OF R j i frac_range frac_range] by simp
    also have "\<dots> = luma_qpel W H P (xi + int i) (yi + int j) (mvx AND 3) (mvy AND 3)"
      by (rule mc_sample_qpel [OF _ frac_range frac_range]) (use i j in \<open>simp add: win algebra_simps\<close>)
    finally show ?thesis by (simp add: xi_def yi_def algebra_simps)
  qed
qed

lemma chroma_lane:
  assumes f: "fx \<in> {0..7}" "fy \<in> {0..7}"
  shows "uint (word_of_int (rshr 6 (uint (ucast (a :: u8) * ucast (word_of_int ((8 - fx) * (8 - fy)) :: u8) + ucast (b :: u8) * ucast (word_of_int (fx * (8 - fy)) :: u8)
      + ucast (c :: u8) * ucast (word_of_int ((8 - fx) * fy) :: u8) + ucast (d :: u8) * ucast (word_of_int (fx * fy) :: u8) :: u16))) :: u8) =
    bilin8 fx fy (uint a) (uint b) (uint c) (uint d)"
proof -
  have w: "0 \<le> (8 - fx) * (8 - fy)" "(8 - fx) * (8 - fy) \<le> 64" "0 \<le> fx * (8 - fy)" "fx * (8 - fy) \<le> 64"
      "0 \<le> (8 - fx) * fy" "(8 - fx) * fy \<le> 64" "0 \<le> fx * fy" "fx * fy \<le> 64"
    using f mult_mono [of "8 - fx" 8 "8 - fy" 8] mult_mono [of fx 8 "8 - fy" 8] mult_mono [of "8 - fx" 8 fy 8] mult_mono [of fx 8 fy 8] by simp_all
  have u: "(ucast (word_of_int k :: u8) :: u16) = word_of_int k" if "0 \<le> k" "k \<le> 64" for k
    unfolding ucast_eq by (subst uint_8) (use that in simp_all)
  define S where "S = (8 - fx) * (8 - fy) * uint a + fx * (8 - fy) * uint b + (8 - fx) * fy * uint c + fx * fy * uint d"
  have S: "S \<in> {0..64 * 255}" unfolding S_def by (intro bilin8_sum f byte_range)
  have "ucast a * ucast (word_of_int ((8 - fx) * (8 - fy)) :: u8) + ucast b * ucast (word_of_int (fx * (8 - fy)) :: u8)
      + ucast c * ucast (word_of_int ((8 - fx) * fy) :: u8) + ucast d * ucast (word_of_int (fx * fy) :: u8) = (word_of_int S :: u16)"
    unfolding u [OF w(1,2)] u [OF w(3,4)] u [OF w(5,6)] u [OF w(7,8)] S_def by (simp add: mult.commute)
  moreover have "uint (word_of_int S :: u16) = S" using S by (simp add: uint_16)
  moreover have "rshr 6 S = bilin8 fx fy (uint a) (uint b) (uint c) (uint d)" by (simp add: rshr_def bilin8_def S_def)
  ultimately show ?thesis using byte_round [OF bilin8_range [OF f byte_range byte_range byte_range byte_range]] by simp
qed

lemma take_2: "2 \<le> length a \<Longrightarrow> take 2 a = [a ! 0, a ! 1]"
  by (cases a; cases "tl a") (auto simp: numeral_2_eq_2)

lemma upt_8: "[0..<8] = [0, 1, 2, 3, 4, 5, 6, 7]"
  by code_simp

lemma pack_zip:
  assumes "length a = 8" "length b = 8" "length c = 8" "length d = 8"
  shows "PACK (ZIP16 a b) (ZIP16 c d) = [a ! 0, a ! 1, b ! 0, b ! 1, c ! 0, c ! 1, d ! 0, d ! 1]"
  using assms by (simp add: PACK_def ZIP16_def take_2)

lemma acc_lanes:
  assumes "length A = 8" "length B = 8" "length C = 8" "length D = 8" "i < 8"
  shows "vrshrn_n_u16 (vmlal_u8 (vmlal_u8 (vmlal_u8 (vmull_u8 A (replicate 8 p)) B (replicate 8 q)) C (replicate 8 r)) D (replicate 8 s)) 6 ! i =
    word_of_int (rshr 6 (uint (ucast (A ! i) * ucast p + ucast (B ! i) * ucast q + ucast (C ! i) * ucast r + ucast (D ! i) * ucast s :: u16)))"
  using assms by (simp add: vrshrn_n_u16_def vmlal_u8_def vmull_u8_def)

lemma chroma2_nth:
  assumes f: "fx \<in> {0..7}" "fy \<in> {0..7}" and l: "length u0 = 8" "length u1 = 8" "length u2 = 8" "length v0 = 8" "length v1 = 8" "length v2 = 8"
  shows "map uint (chroma2 fx fy u0 u1 u2 v0 v1 v2) =
    concat (map (\<lambda>(a, b, c). [bilin8 fx fy (uint (a ! 0)) (uint (a ! 1)) (uint (b ! 0)) (uint (b ! 1)),
                 bilin8 fx fy (uint (a ! 1)) (uint (a ! 2)) (uint (b ! 1)) (uint (b ! 2)),
                 bilin8 fx fy (uint (b ! 0)) (uint (b ! 1)) (uint (c ! 0)) (uint (c ! 1)),
                 bilin8 fx fy (uint (b ! 1)) (uint (b ! 2)) (uint (c ! 1)) (uint (c ! 2))]) [(u0, u1, u2), (v0, v1, v2)])"
proof -
  let ?s = "\<lambda>u. vext u u 1"
  have e: "length (?s u) = 8" "?s u ! 0 = u ! 1" "?s u ! 1 = u ! 2" if "length u = 8" for u :: "u8 list"
    using that vext_nth [of 0 u 1 u] vext_nth [of 1 u 1 u] by (simp_all add: vext_length nth_append numeral_2_eq_2)
  define A B C D where "A = PACK (ZIP16 u0 u1) (ZIP16 v0 v1)" "B = PACK (ZIP16 (?s u0) (?s u1)) (ZIP16 (?s v0) (?s v1))"
    "C = PACK (ZIP16 u1 u2) (ZIP16 v1 v2)" "D = PACK (ZIP16 (?s u1) (?s u2)) (ZIP16 (?s v1) (?s v2))"
  note p = pack_zip [OF l(1,2,4,5)] pack_zip [OF e(1) [OF l(1)] e(1) [OF l(2)] e(1) [OF l(4)] e(1) [OF l(5)]]
    pack_zip [OF l(2,3,5,6)] pack_zip [OF e(1) [OF l(2)] e(1) [OF l(3)] e(1) [OF l(5)] e(1) [OF l(6)]]
  have len: "length A = 8" "length B = 8" "length C = 8" "length D = 8" unfolding A_B_C_D_def p by simp_all
  have "uint (chroma2 fx fy u0 u1 u2 v0 v1 v2 ! i) = bilin8 fx fy (uint (A ! i)) (uint (B ! i)) (uint (C ! i)) (uint (D ! i))" if "i < 8" for i
    unfolding chroma2_def Let_def A_B_C_D_def [symmetric] acc_lanes [OF len that] by (rule chroma_lane [OF f])
  moreover have "length (chroma2 fx fy u0 u1 u2 v0 v1 v2) = 8"
    unfolding chroma2_def Let_def A_B_C_D_def [symmetric] by (simp add: vrshrn_n_u16_def vmlal_u8_def vmull_u8_def len)
  then have "map uint (chroma2 fx fy u0 u1 u2 v0 v1 v2) = map (\<lambda>i. uint (chroma2 fx fy u0 u1 u2 v0 v1 v2 ! i)) [0..<8]"
    by (simp add: list_eq_iff_nth_eq)
  ultimately have "map uint (chroma2 fx fy u0 u1 u2 v0 v1 v2) =
      map (\<lambda>i. bilin8 fx fy (uint (A ! i)) (uint (B ! i)) (uint (C ! i)) (uint (D ! i))) [0, 1, 2, 3, 4, 5, 6, 7]"
    unfolding upt_8 by simp
  then show ?thesis unfolding A_B_C_D_def p by (simp add: e l del: One_nat_def)
qed

lemma upt_4: "[0..<4] = [0, 1, 2, 3]"
  by code_simp

lemma mc_chroma2_neon_lanes:
  "map uint (mc_chroma2_neon W H PU PV xc yc mvx mvy) =
     concat (map (\<lambda>P. [chroma_pred W H P xc yc mvx mvy, chroma_pred W H P (xc + 1) yc mvx mvy,
       chroma_pred W H P xc (yc + 1) mvx mvy, chroma_pred W H P (xc + 1) (yc + 1) mvx mvy]) [PU, PV])"
proof -
  define xi where "xi = xc + drop_bit 3 mvx"
  define yi where "yi = yc + drop_bit 3 mvy"
  show ?thesis
  proof (cases "xi < 0 \<or> yi < 0 \<or> xi + 8 > W div 2 \<or> yi + 2 > H div 2 - 1")
    case True
    then show ?thesis using chroma_pred_range
      by (simp add: mc_chroma2_neon_def Let_def upt_4 byte_round xi_def [symmetric] yi_def [symmetric] del: atLeastAtMost_iff)
  next
    case False
    define V where "V = W div 2"
    define a where "a = nat (yi * V + xi)"
    have "0 \<le> V" "0 \<le> yi" using False unfolding V_def [symmetric] by linarith+
    then have V: "0 \<le> V" "0 \<le> yi * V" by simp_all
    have px: "uint (P (a + r * nat V + c)) = pcyx W H P (xi + int c) (yi + int r)" if "r \<le> 2" "c \<le> 2" for P r c
    proof -
      have "a + r * nat V + c = nat ((yi + int r) * V + (xi + int c))"
        using False V unfolding a_def by (simp add: nat_add_distrib nat_mult_distrib distrib_right)
      moreover have "clampi (xi + int c) V = xi + int c" "clampi (yi + int r) (H div 2) = yi + int r"
        by (rule clampi_id; use False that V_def in linarith)+
      ultimately show ?thesis by (simp add: pcyx_def flip: V_def)
    qed
    have row: "length (vld1 8 P k) = 8" "vld1 8 P k ! 0 = P k" "vld1 8 P k ! 1 = P (k + 1)" "vld1 8 P k ! 2 = P (k + 2)" for P k
      by (simp_all add: vld1_def)
    have eq: "mc_chroma2_neon W H PU PV xc yc mvx mvy = chroma2 (mvx AND 7) (mvy AND 7) (vld1 8 PU (a + 0 * nat V)) (vld1 8 PU (a + 1 * nat V))
        (vld1 8 PU (a + 2 * nat V)) (vld1 8 PV (a + 0 * nat V)) (vld1 8 PV (a + 1 * nat V)) (vld1 8 PV (a + 2 * nat V))"
      using False unfolding mc_chroma2_neon_def Let_def xi_def [symmetric] yi_def [symmetric] V_def [symmetric] a_def by simp
    have px': "uint (P (a + r * nat V)) = pcyx W H P xi (yi + int r)" if "r \<le> 2" for P r using px [of r 0 P] that by simp
    have c: "chroma_pred W H P (xc + dx) (yc + dy) mvx mvy = bilin8 (mvx AND 7) (mvy AND 7) (pcyx W H P (xi + dx) (yi + dy))
        (pcyx W H P (xi + (dx + 1)) (yi + dy)) (pcyx W H P (xi + dx) (yi + (dy + 1))) (pcyx W H P (xi + (dx + 1)) (yi + (dy + 1)))" for P dx dy
      unfolding chroma_pred_eq by (simp add: xi_def yi_def algebra_simps)
    show ?thesis
      unfolding eq chroma2_nth [OF frac8_range frac8_range row(1) row(1) row(1) row(1) row(1) row(1)] list.map row prod.case
      using c [where dx = 0 and dy = 0] c [where dx = 1 and dy = 0] c [where dx = 0 and dy = 1] c [where dx = 1 and dy = 1]
      by (simp add: px px' del: mult_0 mult_zero_left mult_1 One_nat_def add_2_eq_Suc add_2_eq_Suc')
  qed
qed

lemma wp6_neon_nth:
  assumes v: "length v = 8" "i < 8" and w: "0 \<le> w" "w \<le> 128" and off: "- 128 \<le> off" "off \<le> 127"
  shows "uint (wp6_neon v w off ! i) = wp6 (uint (v ! i)) w off"
proof -
  let ?p = "uint (v ! i) * w"
  have w8: "(ucast (word_of_int w :: u8) :: u16) = word_of_int w" unfolding ucast_eq by (subst uint_8) (use w in simp_all)
  have p: "0 \<le> ?p" "?p \<le> 255 * 128" using byte_range [of "v ! i"] w mult_mono [of "uint (v ! i)" 255 w 128] by simp_all
  have "ucast (v ! i) * ucast (word_of_int w :: u8) = (word_of_int ?p :: s16)" unfolding w8 by simp
  then have "sint (ucast (v ! i) * ucast (word_of_int w :: u8) :: s16) = ?p" using p by (simp only: sint_16)
  moreover have r: "0 \<le> rshr 6 ?p" "rshr 6 ?p \<le> 510" using p by (simp_all add: rshr_def drop_bit_eq_div)
  moreover have "sint (word_of_int (rshr 6 ?p) + word_of_int off :: s16) = rshr 6 ?p + off"
    using r off sint_16 [of "rshr 6 ?p + off"] by simp
  moreover have "wp6_neon v w off ! i = word_of_int (clip1 (sint (word_of_int (rshr 6 (sint (ucast (v ! i) * ucast (word_of_int w :: u8) :: s16))) + word_of_int off :: s16)))"
    using v by (simp add: wp6_neon_def Let_def vqmovun_s16_def vadd_s16_def vrshr_n_s16_def vmull_u8_def clip1_maxmin)
  ultimately show ?thesis using byte_round [OF clip1_range] by (simp add: wp6_def rshr_def)
qed

text \<open>
  C11. The vector code. Every lane that \<open>mc_luma4_neon\<close> and \<open>mc_chroma2_neon\<close> compute in 8, 16 and 32-bit lanes is
  the sample the standard's interpolation gives, for every position and motion vector, at the border of
  the picture too; and the weighted prediction in 16-bit lanes is exact for every weight up to 128 and
  every offset of the syntax.
\<close>

theorem neon_mc_exact:
  assumes "j < 4" "i < 4" and "length v = 8" "k < 8" "0 \<le> w" "w \<le> 128" "- 128 \<le> off" "off \<le> 127"
  shows "uint (mc_luma4_neon W H P x y mvx mvy ! j ! i) =
      luma_qpel W H P (x + int i + drop_bit 2 mvx) (y + int j + drop_bit 2 mvy) (mvx AND 3) (mvy AND 3) \<and>
    map uint (mc_chroma2_neon W H PU PV xc yc mvx mvy) =
      concat (map (\<lambda>P. [chroma_pred W H P xc yc mvx mvy, chroma_pred W H P (xc + 1) yc mvx mvy,
        chroma_pred W H P xc (yc + 1) mvx mvy, chroma_pred W H P (xc + 1) (yc + 1) mvx mvy]) [PU, PV]) \<and>
    uint (wp6_neon v w off ! k) = wp6 (uint (v ! k)) w off"
  by (intro conjI mc_luma4_neon_nth mc_chroma2_neon_lanes wp6_neon_nth assms)

text \<open>An overshooting window: white next to black.\<close>

definition demo_plane :: plane where
  "demo_plane a = (if a mod 32 < 16 then 255 else 0)"

theorem neon_mc_exact_witness:
  "uint (mc_luma4_neon 32 32 demo_plane 8 8 26 1 ! 3 ! 2) = luma_qpel 32 32 demo_plane 16 11 2 1 \<and>
   luma_qpel 32 32 demo_plane 16 11 2 1 = 0 \<and> luma_qpel 32 32 demo_plane 15 11 2 1 = 128 \<and>
   uint (wp6_neon (replicate 8 255) 128 127 ! 7) = 255 \<and> uint (wp6_neon (replicate 8 200) 65 (- 128) ! 7) = 75"
proof -
  have wp: "wp6 255 128 127 = 255" "wp6 200 65 (- 128) = 75" by code_simp+
  have l: "luma_qpel 32 32 demo_plane 16 11 2 1 = 0" "luma_qpel 32 32 demo_plane 15 11 2 1 = 128" by code_simp+
  from neon_mc_exact [of 3 2 "replicate 8 255" 7 128 127 32 32 demo_plane 8 8 26 1 demo_plane demo_plane 0 0]
    neon_mc_exact [of 3 2 "replicate 8 200" 7 65 "- 128" 32 32 demo_plane 8 8 26 1 demo_plane demo_plane 0 0]
  show ?thesis using l wp by simp
qed

end
