(* ===== verification/Nv12.thy ===== *)
theory Nv12
  imports Neon Pixels Complex_Main
begin

text \<open>
  The decoder cube's conversion of a decoded NV12 picture to a surface of the window system (\<open>coda-cube.c\<close>:
  \<open>st_px\<close> to \<open>nv12_to_surface\<close>): full-range BT.601 in 7-bit fixed point, sixteen pixels at a time in 16-bit lanes,
  the portable routine beside it, and the placement: centred, scaled by one or two, clipped above and
  below. Destination rows are addresses; a routine is the list of its byte stores in order.
\<close>

datatype fmt = FMT_BGR24 | FMT_XRGB

definition bpp :: "fmt \<Rightarrow> nat" where
  "bpp f = (if f = FMT_BGR24 then 3 else 4)"

section \<open>More intrinsics\<close>

definition vld2_u8 :: "plane \<Rightarrow> nat \<Rightarrow> u8 list \<times> u8 list" where
  "vld2_u8 P a = (map (\<lambda>i. P (a + 2 * i)) [0..<8], map (\<lambda>i. P (a + 2 * i + 1)) [0..<8])"

definition vsubl_u8 :: "u8 list \<Rightarrow> u8 list \<Rightarrow> s16 list" where
  "vsubl_u8 = map2 (\<lambda>x y. ucast x - ucast y)"

definition vmul_n_s16 :: "s16 list \<Rightarrow> s16 \<Rightarrow> s16 list" where
  "vmul_n_s16 v k = map (\<lambda>x. x * k) v"

definition vzip :: "'a list \<Rightarrow> 'a list \<Rightarrow> 'a list \<times> 'a list" where
  "vzip a b = (let z = concat (map2 (\<lambda>x y. [x, y]) a b) in (take (length a) z, drop (length a) z))"

section \<open>The vector routine\<close>

definition st_px :: "nat \<Rightarrow> u8 list \<Rightarrow> u8 list \<Rightarrow> u8 list \<Rightarrow> fmt \<Rightarrow> store list" where
  "st_px d b g r f =
     (if f = FMT_BGR24 then concat (map (\<lambda>i. [(d + 3 * i, b ! i), (d + 3 * i + 1, g ! i), (d + 3 * i + 2, r ! i)]) [0..<16])
      else concat (map (\<lambda>i. [(d + 4 * i, b ! i), (d + 4 * i + 1, g ! i), (d + 4 * i + 2, r ! i), (d + 4 * i + 3, 255)]) [0..<16]))"

definition to_row :: "nat option \<Rightarrow> (nat \<Rightarrow> store list) \<Rightarrow> store list" where
  "to_row d f = (case d of None \<Rightarrow> [] | Some a \<Rightarrow> f a)"

text \<open>One turn of the loop over \<open>x\<close>: sixteen pixels of both rows.\<close>

definition cvt_16 :: "plane \<Rightarrow> nat \<Rightarrow> nat \<Rightarrow> plane \<Rightarrow> nat \<Rightarrow> nat option list \<Rightarrow> fmt \<Rightarrow> nat \<Rightarrow> nat \<Rightarrow> store list" where
  "cvt_16 Y y0 y1 UV uv d f scale x =
     (let c = vld2_u8 UV (uv + x);
          k128 = replicate 8 128;
          u = vsubl_u8 (fst c) k128; v = vsubl_u8 (snd c) k128;
          rv = vrshr_n_s16 (vmul_n_s16 v 179) 7;
          gv = vrshr_n_s16 (vmla_n_s16 (vmul_n_s16 u (- 44)) v (- 91)) 7;
          bv = vrshr_n_s16 (vmul_n_s16 u 227) 7;
          R = vzip rv rv; Gc = vzip gv gv; Bc = vzip bv bv in
      concat (map (\<lambda>row.
        let yy = vld1 16 Y ((if row = 1 then y1 else y0) + x);
            yl = vmovl_u8 (vget_low yy); yh = vmovl_u8 (vget_high yy);
            r = vqmovun_s16 (vadd_s16 yl (fst R)) @ vqmovun_s16 (vadd_s16 yh (snd R));
            g = vqmovun_s16 (vadd_s16 yl (fst Gc)) @ vqmovun_s16 (vadd_s16 yh (snd Gc));
            b = vqmovun_s16 (vadd_s16 yl (fst Bc)) @ vqmovun_s16 (vadd_s16 yh (snd Bc)) in
        if scale = 1 then to_row (d ! row) (\<lambda>a. st_px (a + x * bpp f) b g r f)
        else
          let r2 = vzip r r; g2 = vzip g g; b2 = vzip b b in
          concat (map (\<lambda>k. to_row (d ! (2 * row + k)) (\<lambda>a.
            st_px (a + 2 * x * bpp f) (fst b2) (fst g2) (fst r2) f @
            st_px (a + (2 * x + 16) * bpp f) (snd b2) (snd g2) (snd r2) f)) [0, 1])) [0, 1]))"

definition cvt_rows :: "plane \<Rightarrow> nat \<Rightarrow> nat \<Rightarrow> plane \<Rightarrow> nat \<Rightarrow> nat option list \<Rightarrow> nat \<Rightarrow> fmt \<Rightarrow> nat \<Rightarrow> store list" where
  "cvt_rows Y y0 y1 UV uv d w f scale = concat (map (\<lambda>n. cvt_16 Y y0 y1 UV uv d f scale (16 * n)) [0..<(w + 15) div 16])"

section \<open>The portable routine\<close>

definition cvt_px :: "u8 \<Rightarrow> u8 \<Rightarrow> u8 \<Rightarrow> u8 list" where
  "cvt_px y8 u8' v8 =
     (let Y = uint y8; u = uint u8' - 128; v = uint v8 - 128;
          rgb = [Y + drop_bit 7 (179 * v + 64), Y + drop_bit 7 (- 44 * u - 91 * v + 64), Y + drop_bit 7 (227 * u + 64)] in
      map (\<lambda>q. word_of_int (clip1 (rgb ! (2 - q)))) [0..<3] @ [255])"

text \<open>\<open>x & ~1\<close> and \<open>x | 1\<close>: the chroma pair of pixel \<open>x\<close>.\<close>

definition px_at :: "plane \<Rightarrow> nat \<Rightarrow> plane \<Rightarrow> nat \<Rightarrow> nat \<Rightarrow> u8 list" where
  "px_at Y yr UV uv x = cvt_px (Y (yr + x)) (UV (uv + 2 * (x div 2))) (UV (uv + (2 * (x div 2) + 1)))"

definition memcpy_px :: "nat \<Rightarrow> u8 list \<Rightarrow> nat \<Rightarrow> store list" where
  "memcpy_px a px n = map (\<lambda>q. (a + q, px ! q)) [0..<n]"

definition cvt_rows_c :: "plane \<Rightarrow> nat \<Rightarrow> nat \<Rightarrow> plane \<Rightarrow> nat \<Rightarrow> nat option list \<Rightarrow> nat \<Rightarrow> fmt \<Rightarrow> nat \<Rightarrow> store list" where
  "cvt_rows_c Y y0 y1 UV uv d w f scale =
     concat (map (\<lambda>row. concat (map (\<lambda>x.
       let px = px_at Y (if row = 1 then y1 else y0) UV uv x in
       concat (map (\<lambda>k. to_row (d ! (if scale = 1 then row else 2 * row + k)) (\<lambda>dd.
         concat (map (\<lambda>sx. memcpy_px (dd + (x * scale + sx) * bpp f) px (bpp f)) [0..<scale]))) [0..<scale]))
       [0..<w])) [0, 1])"

section \<open>The surface\<close>

definition dst_rows :: "nat \<Rightarrow> nat \<Rightarrow> int \<Rightarrow> int \<Rightarrow> int \<Rightarrow> fmt \<Rightarrow> nat \<Rightarrow> nat \<Rightarrow> nat option list" where
  "dst_rows dst pitch ox oy dh f scale y =
     map (\<lambda>k. let dy = oy + int (y * scale + k) in
       if k < 2 * scale \<and> 0 \<le> dy \<and> dy < dh then Some (dst + nat dy * pitch + nat ox * bpp f) else None) [0..<4]"

definition nv12_to_surface ::
  "bool \<Rightarrow> plane \<Rightarrow> nat \<Rightarrow> nat \<Rightarrow> plane \<Rightarrow> nat \<Rightarrow> nat \<Rightarrow> nat \<Rightarrow> nat \<Rightarrow> nat \<Rightarrow> nat \<Rightarrow> int \<Rightarrow> int \<Rightarrow> fmt \<Rightarrow> nat \<Rightarrow> store list" where
  "nv12_to_surface g_cvt_c Y y ys UV c cs w h dst pitch dw dh f scale =
     (let ox = cdiv (dw - int (w * scale)) 2; oy = cdiv (dh - int (h * scale)) 2 in
      if ox < 0 then []
      else
        concat (map (\<lambda>n.
          let d = dst_rows dst pitch ox oy dh f scale (2 * n);
              y0 = y + 2 * n * ys; y1 = y0 + ys; uv = c + n * cs in
          if d = [None, None, None, None] then []
          else if g_cvt_c then cvt_rows_c Y y0 y1 UV uv d w f scale
          else cvt_rows Y y0 y1 UV uv d w f scale) [0..<(h + 1) div 2]))"

section \<open>Copying to a dumb buffer\<close>

definition DB_W :: nat where
  "DB_W = 1280"

definition DB_H :: nat where
  "DB_H = 1104"

definition DB_UV :: nat where
  "DB_UV = 942080"

definition memcpy_st :: "nat \<Rightarrow> plane \<Rightarrow> nat \<Rightarrow> nat \<Rightarrow> store list" where
  "memcpy_st d S s n = map (\<lambda>i. (d + i, S (s + i))) [0..<n]"

definition db_copy :: "plane \<Rightarrow> nat \<Rightarrow> nat \<Rightarrow> plane \<Rightarrow> nat \<Rightarrow> nat \<Rightarrow> nat \<Rightarrow> nat \<Rightarrow> store list" where
  "db_copy Y y ys C c cs w h =
     (let w = (if w > DB_W then DB_W else w); h = (if h > DB_UV div DB_W then DB_UV div DB_W else h) in
      if ys = DB_W \<and> cs = DB_W \<and> w = DB_W then memcpy_st 0 Y y (DB_W * h) @ memcpy_st DB_UV C c (DB_W * (h div 2))
      else
        concat (map (\<lambda>r. memcpy_st (r * DB_W) Y (y + r * ys) w) [0..<h]) @
        concat (map (\<lambda>r. memcpy_st (DB_UV + r * DB_W) C (c + r * cs) w) [0..<h div 2]))"

section \<open>Lanes\<close>

lemma interleave_nth:
  "length (concat (map2 (\<lambda>x y. [x, y]) a a)) = 2 * length a"
  "j < 2 * length a \<Longrightarrow> concat (map2 (\<lambda>x y. [x, y]) a a) ! j = a ! (j div 2)"
proof (induction a arbitrary: j)
  case (Cons x a)
  {
    case 1
    show ?case using Cons(1) by simp
  next
    case 2
    show ?case
    proof (cases "j < 2")
      case True
      then show ?thesis by (cases j) (auto simp: less_2_cases_iff)
    next
      case False
      then obtain i where i: "j = Suc (Suc i)" by (metis add_2_eq_Suc le_add_diff_inverse not_less)
      then show ?thesis using 2 Cons(2) [of i] by simp
    qed
  }
qed simp_all

lemma vzip_nth:
  assumes "i < length a"
  shows "fst (vzip a a) ! i = a ! (i div 2)" "snd (vzip a a) ! i = a ! ((length a + i) div 2)"
  using assms interleave_nth(1) [of a] interleave_nth(2) [where j = i and a = a] interleave_nth(2) [where j = "length a + i" and a = a]
  by (simp_all add: vzip_def Let_def)

lemma vzip_length: "length (fst (vzip a a)) = length a" "length (snd (vzip a a)) = length a"
  using interleave_nth(1) [of a] by (simp_all add: vzip_def Let_def)

definition chan16 :: "u8 list \<Rightarrow> s16 list \<Rightarrow> u8 list" where
  "chan16 yy cv = vqmovun_s16 (vadd_s16 (vmovl_u8 (vget_low yy)) (fst (vzip cv cv))) @
     vqmovun_s16 (vadd_s16 (vmovl_u8 (vget_high yy)) (snd (vzip cv cv)))"

lemma chan16_nth:
  assumes "length yy = 16" "length cv = 8" "i < 16" and cv: "cv ! (i div 2) = word_of_int z" "- 512 \<le> z" "z \<le> 512"
  shows "chan16 yy cv ! i = word_of_int (clip1 (uint (yy ! i) + z))"
proof -
  have "- 32768 \<le> uint (yy ! i) + z" "uint (yy ! i) + z < 32768"
    using byte_range [of "yy ! i"] cv(2,3) unfolding atLeastAtMost_iff by linarith+
  then have s: "sint (ucast (yy ! i) + word_of_int z :: s16) = uint (yy ! i) + z"
    using sint_16 [of "uint (yy ! i) + z"] by simp
  have l: "length (vqmovun_s16 (vadd_s16 (vmovl_u8 (vget_low yy)) (fst (vzip cv cv)))) = 8"
    using assms by (simp add: vqmovun_s16_def vadd_s16_def vmovl_u8_def vget_low_def vzip_length)
  show ?thesis
  proof (cases "i < 8")
    case True
    with assms l s show ?thesis
      by (simp add: chan16_def nth_append vqmovun_s16_def vadd_s16_def vmovl_u8_def vget_low_def vzip_length vzip_nth clip1_maxmin)
  next
    case False
    then have "(8 + (i - 8)) div 2 = i div 2" "8 + (i - 8) = i" by simp_all
    with False assms l s show ?thesis
      by (simp add: chan16_def nth_append vqmovun_s16_def vadd_s16_def vmovl_u8_def vget_high_def vzip_length vzip_nth clip1_maxmin)
  qed
qed

lemma chan16_length: "length yy = 16 \<Longrightarrow> length cv = 8 \<Longrightarrow> length (chan16 yy cv) = 16"
  by (simp add: chan16_def vqmovun_s16_def vadd_s16_def vmovl_u8_def vget_low_def vget_high_def vzip_length)

text \<open>The chroma terms fit in 16 bits before the shift.\<close>

lemma chroma_terms:
  fixes u v :: u8
  defines "U \<equiv> uint u - 128" and "V \<equiv> uint v - 128"
  shows "rshr 7 (sint ((ucast v - 128) * 179 :: s16)) = drop_bit 7 (179 * V + 64)"
    "rshr 7 (sint ((ucast u - 128) * (- 44) + (ucast v - 128) * (- 91) :: s16)) = drop_bit 7 (- 44 * U - 91 * V + 64)"
    "rshr 7 (sint ((ucast u - 128) * 227 :: s16)) = drop_bit 7 (227 * U + 64)"
proof -
  have r: "- 128 \<le> U" "U \<le> 127" "- 128 \<le> V" "V \<le> 127" using byte_range [of u] byte_range [of v] by (simp_all add: U_def V_def)
  have e: "(ucast v - 128) * 179 = (word_of_int (179 * V) :: s16)"
      "(ucast u - 128) * (- 44) + (ucast v - 128) * (- 91) = (word_of_int (- 44 * U - 91 * V) :: s16)"
      "(ucast u - 128) * 227 = (word_of_int (227 * U) :: s16)" by (simp_all add: U_def V_def algebra_simps)
  have "sint (word_of_int (179 * V) :: s16) = 179 * V" "sint (word_of_int (- 44 * U - 91 * V) :: s16) = - 44 * U - 91 * V"
      "sint (word_of_int (227 * U) :: s16) = 227 * U" by (rule sint_16; use r in linarith)+
  then show "rshr 7 (sint ((ucast v - 128) * 179 :: s16)) = drop_bit 7 (179 * V + 64)"
    "rshr 7 (sint ((ucast u - 128) * (- 44) + (ucast v - 128) * (- 91) :: s16)) = drop_bit 7 (- 44 * U - 91 * V + 64)"
    "rshr 7 (sint ((ucast u - 128) * 227 :: s16)) = drop_bit 7 (227 * U + 64)"
    unfolding e by (simp_all only: rshr_def) simp_all
qed

text \<open>The three planes of sixteen converted pixels of a row.\<close>

definition rgb16 :: "plane \<Rightarrow> nat \<Rightarrow> plane \<Rightarrow> nat \<Rightarrow> u8 list \<times> u8 list \<times> u8 list" where
  "rgb16 Y yr UV uv =
     (let c = vld2_u8 UV uv; k128 = replicate 8 128; u = vsubl_u8 (fst c) k128; v = vsubl_u8 (snd c) k128; yy = vld1 16 Y yr in
      (chan16 yy (vrshr_n_s16 (vmul_n_s16 v 179) 7), chan16 yy (vrshr_n_s16 (vmla_n_s16 (vmul_n_s16 u (- 44)) v (- 91)) 7),
       chan16 yy (vrshr_n_s16 (vmul_n_s16 u 227) 7)))"

lemma rgb16_nth:
  assumes i: "i < 16" and rgb: "rgb16 Y yr UV uv = (r, g, b)"
  shows "[b ! i, g ! i, r ! i, 255] = cvt_px (Y (yr + i)) (UV (uv + 2 * (i div 2))) (UV (uv + (2 * (i div 2) + 1)))"
    "length r = 16" "length g = 16" "length b = 16"
proof -
  let ?u = "UV (uv + 2 * (i div 2))" and ?v = "UV (uv + (2 * (i div 2) + 1))"
  define U V where "U = uint ?u - 128" "V = uint ?v - 128"
  define u v where "u = vsubl_u8 (fst (vld2_u8 UV uv)) (replicate 8 128)" "v = vsubl_u8 (snd (vld2_u8 UV uv)) (replicate 8 128)"
  have m: "i div 2 < 8" using i by simp
  have l: "length u = 8" "length v = 8" "u ! (i div 2) = ucast ?u - 128" "v ! (i div 2) = ucast ?v - 128"
    using m by (simp_all add: u_v_def vsubl_u8_def vld2_u8_def)
  have y: "length (vld1 16 Y yr) = 16" "vld1 16 Y yr ! i = Y (yr + i)" using i by (simp_all add: vld1_def)
  have ub: "- 128 \<le> U" "U \<le> 127" "- 128 \<le> V" "V \<le> 127" using byte_range [of ?u] byte_range [of ?v] by (simp_all add: U_V_def)
  have t: "vrshr_n_s16 (vmul_n_s16 v 179) 7 ! (i div 2) = word_of_int (drop_bit 7 (179 * V + 64))"
      "vrshr_n_s16 (vmla_n_s16 (vmul_n_s16 u (- 44)) v (- 91)) 7 ! (i div 2) = word_of_int (drop_bit 7 (- 44 * U - 91 * V + 64))"
      "vrshr_n_s16 (vmul_n_s16 u 227) 7 ! (i div 2) = word_of_int (drop_bit 7 (227 * U + 64))"
    using l m chroma_terms(1) [of ?v] chroma_terms(2) [of ?u ?v] chroma_terms(3) [of ?u] by (simp_all add: vrshr_n_s16_def vmul_n_s16_def vmla_n_s16_def U_V_def)
  have len: "length (vrshr_n_s16 (vmul_n_s16 v 179) 7) = 8" "length (vrshr_n_s16 (vmla_n_s16 (vmul_n_s16 u (- 44)) v (- 91)) 7) = 8"
      "length (vrshr_n_s16 (vmul_n_s16 u 227) 7) = 8" using l by (simp_all add: vrshr_n_s16_def vmul_n_s16_def vmla_n_s16_def)
  have rng: "- 512 \<le> drop_bit 7 (179 * V + 64)" "drop_bit 7 (179 * V + 64) \<le> 512" "- 512 \<le> drop_bit 7 (- 44 * U - 91 * V + 64)"
      "drop_bit 7 (- 44 * U - 91 * V + 64) \<le> 512" "- 512 \<le> drop_bit 7 (227 * U + 64)" "drop_bit 7 (227 * U + 64) \<le> 512"
    using ub unfolding drop_bit_eq_div by (simp; linarith)+
  have e: "r = chan16 (vld1 16 Y yr) (vrshr_n_s16 (vmul_n_s16 v 179) 7)"
      "g = chan16 (vld1 16 Y yr) (vrshr_n_s16 (vmla_n_s16 (vmul_n_s16 u (- 44)) v (- 91)) 7)"
      "b = chan16 (vld1 16 Y yr) (vrshr_n_s16 (vmul_n_s16 u 227) 7)"
    using rgb unfolding rgb16_def Let_def u_v_def [symmetric] by simp_all
  have "r ! i = word_of_int (clip1 (uint (Y (yr + i)) + drop_bit 7 (179 * V + 64)))"
      "g ! i = word_of_int (clip1 (uint (Y (yr + i)) + drop_bit 7 (- 44 * U - 91 * V + 64)))"
      "b ! i = word_of_int (clip1 (uint (Y (yr + i)) + drop_bit 7 (227 * U + 64)))"
    unfolding e using chan16_nth [OF y(1) len(1) i t(1) rng(1,2)] chan16_nth [OF y(1) len(2) i t(2) rng(3,4)]
      chan16_nth [OF y(1) len(3) i t(3) rng(5,6)] y(2) by simp_all
  then show "[b ! i, g ! i, r ! i, 255] = cvt_px (Y (yr + i)) ?u ?v"
    by (simp add: cvt_px_def Let_def U_V_def upt_rec)
  show "length r = 16" "length g = 16" "length b = 16" unfolding e using chan16_length [OF y(1)] len by simp_all
qed

section \<open>Rows of pixels\<close>

definition px_row :: "nat \<Rightarrow> fmt \<Rightarrow> nat \<Rightarrow> (nat \<Rightarrow> u8 list) \<Rightarrow> store list" where
  "px_row a f n P = concat (map (\<lambda>i. memcpy_px (a + i * bpp f) (P i) (bpp f)) [0..<n])"

lemma px_row_cong: "(\<And>i. i < n \<Longrightarrow> P i = Q i) \<Longrightarrow> px_row a f n P = px_row a f n Q"
  unfolding px_row_def by (intro arg_cong [where f = concat] map_cong) simp_all

lemma px_row_append: "px_row a f (n + m) P = px_row a f n P @ px_row (a + n * bpp f) f m (\<lambda>i. P (n + i))"
  by (induction m) (simp_all add: px_row_def algebra_simps)

lemma px_row_blocks:
  "px_row a f (m * N) P = concat (map (\<lambda>n. px_row (a + m * n * bpp f) f m (\<lambda>i. P (m * n + i))) [0..<N])"
proof (induction N)
  case (Suc N)
  have "px_row a f (m * Suc N) P = px_row a f (m * N) P @ px_row (a + m * N * bpp f) f m (\<lambda>i. P (m * N + i))"
    using px_row_append [of a f "m * N" m P] by (simp add: add.commute)
  then show ?case by (simp add: Suc)
qed (simp add: px_row_def)

lemma set_px_row:
  "(p, v) \<in> set (px_row a f n P) \<longleftrightarrow> (\<exists>i q. i < n \<and> q < bpp f \<and> p = a + i * bpp f + q \<and> v = P i ! q)"
  unfolding px_row_def memcpy_px_def by (auto simp: image_iff Bex_def)

lemma st_px_row: "st_px d b g r f = px_row d f 16 (\<lambda>i. [b ! i, g ! i, r ! i, 255])"
  unfolding st_px_def px_row_def
  by (cases f) (simp_all add: memcpy_px_def bpp_def upt_rec mult.commute)

lemma px_at_even:
  assumes "even x"
  shows "px_at Y yr UV uv (x + i) = cvt_px (Y (yr + x + i)) (UV (uv + x + 2 * (i div 2))) (UV (uv + x + (2 * (i div 2) + 1)))"
proof -
  have "2 * ((x + i) div 2) = x + 2 * (i div 2)" using assms by (elim evenE) simp
  then show ?thesis by (simp add: px_at_def add.assoc)
qed

text \<open>One turn of the vector loop writes, to each destination row, the pixels of its block.\<close>

lemma block_one:
  assumes x: "even x" and rgb: "rgb16 Y (yr + x) UV (uv + x) = (r, g, b)"
  shows "st_px A b g r f = px_row A f 16 (\<lambda>i. px_at Y yr UV uv (x + i))"
  unfolding st_px_row by (rule px_row_cong) (simp only: rgb16_nth(1) [OF _ rgb] px_at_even [OF x])

lemma block_two:
  assumes x: "even x" and rgb: "rgb16 Y (yr + x) UV (uv + x) = (r, g, b)"
  shows "st_px A (fst (vzip b b)) (fst (vzip g g)) (fst (vzip r r)) f @ st_px (A + 16 * bpp f) (snd (vzip b b)) (snd (vzip g g)) (snd (vzip r r)) f =
      px_row A f 32 (\<lambda>i. px_at Y yr UV uv (x + i div 2))"
proof -
  let ?P = "\<lambda>i. px_at Y yr UV uv (x + i div 2)"
  have l: "length r = 16" "length g = 16" "length b = 16" using rgb16_nth(2-4) [OF _ rgb, of 0] by simp_all
  have h: "i < 16 \<Longrightarrow> i div 2 < 16" "i < 16 \<Longrightarrow> (16 + i) div 2 < 16" for i :: nat by simp_all
  have "px_row A f 32 ?P = px_row A f 16 ?P @ px_row (A + 16 * bpp f) f 16 (\<lambda>i. ?P (16 + i))" using px_row_append [of A f 16 16 ?P] by simp
  moreover have "px_row A f 16 (\<lambda>i. [fst (vzip b b) ! i, fst (vzip g g) ! i, fst (vzip r r) ! i, 255]) = px_row A f 16 ?P"
  proof (rule px_row_cong)
    fix i :: nat
    assume i: "i < 16"
    from rgb16_nth(1) [OF h(1) [OF i] rgb] i l
    show "[fst (vzip b b) ! i, fst (vzip g g) ! i, fst (vzip r r) ! i, 255] = ?P i" by (simp add: vzip_nth px_at_even [OF x])
  qed
  moreover have "px_row (A + 16 * bpp f) f 16 (\<lambda>i. [snd (vzip b b) ! i, snd (vzip g g) ! i, snd (vzip r r) ! i, 255]) =
      px_row (A + 16 * bpp f) f 16 (\<lambda>i. ?P (16 + i))"
  proof (rule px_row_cong)
    fix i :: nat
    assume i: "i < 16"
    from rgb16_nth(1) [OF h(2) [OF i] rgb] i l
    show "[snd (vzip b b) ! i, snd (vzip g g) ! i, snd (vzip r r) ! i, 255] = ?P (16 + i)" by (simp add: vzip_nth px_at_even [OF x])
  qed
  ultimately show ?thesis unfolding st_px_row by simp
qed

lemma cvt_16_rgb:
  "cvt_16 Y y0 y1 UV uv d f scale x =
    concat (map (\<lambda>row.
      case rgb16 Y ((if row = 1 then y1 else y0) + x) UV (uv + x) of (r, g, b) \<Rightarrow>
        if scale = 1 then to_row (d ! row) (\<lambda>a. st_px (a + x * bpp f) b g r f)
        else
          concat (map (\<lambda>k. to_row (d ! (2 * row + k)) (\<lambda>a.
            st_px (a + 2 * x * bpp f) (fst (vzip b b)) (fst (vzip g g)) (fst (vzip r r)) f @
            st_px (a + (2 * x + 16) * bpp f) (snd (vzip b b)) (snd (vzip g g)) (snd (vzip r r)) f)) [0, 1])) [0, 1])"
  unfolding cvt_16_def rgb16_def chan16_def Let_def prod.case fst_conv snd_conv ..

lemma cvt_16_rows:
  assumes x: "even x" and scale: "scale = 1 \<or> scale = 2"
  shows "cvt_16 Y y0 y1 UV uv d f scale x =
    concat (map (\<lambda>row. concat (map (\<lambda>k. to_row (d ! (scale * row + k)) (\<lambda>a. px_row (a + scale * x * bpp f) f (16 * scale)
      (\<lambda>i. px_at Y (if row = 1 then y1 else y0) UV uv (x + i div scale)))) [0..<scale])) [0, 1])"
proof -
  have a: "a + (2 * x + 16) * bpp f = a + 2 * x * bpp f + 16 * bpp f" for a by (simp add: algebra_simps)
  have u: "[0..<2] = [0, 1 :: nat]" by code_simp
  show ?thesis
    unfolding cvt_16_rgb using scale
    by (auto simp: block_one [OF x] block_two [OF x] a u to_row_def less_2_cases_iff split: prod.split option.split)
qed

text \<open>What both routines write: each destination row gets the scaled source row.\<close>

definition pic_row :: "plane \<Rightarrow> nat \<Rightarrow> nat \<Rightarrow> plane \<Rightarrow> nat \<Rightarrow> nat option list \<Rightarrow> nat \<Rightarrow> fmt \<Rightarrow> nat \<Rightarrow> nat \<Rightarrow> nat \<Rightarrow> store list" where
  "pic_row Y y0 y1 UV uv d w f scale row k = to_row (d ! (scale * row + k)) (\<lambda>a. px_row a f (scale * w)
     (\<lambda>X. px_at Y (if row = 1 then y1 else y0) UV uv (X div scale)))"

lemma set_to_row: "e \<in> set (to_row d g) \<longleftrightarrow> (\<exists>a. d = Some a \<and> e \<in> set (g a))"
  by (auto simp: to_row_def split: option.split)

lemma cvt_rows_set:
  assumes w: "16 dvd w" and scale: "scale = 1 \<or> scale = 2"
  shows "set (cvt_rows Y y0 y1 UV uv d w f scale) = (\<Union>row \<in> {0, 1}. \<Union>k < scale. set (pic_row Y y0 y1 UV uv d w f scale row k))"
proof -
  obtain N where N: "w = 16 * N" using w by (auto elim: dvdE)
  have n: "(w + 15) div 16 = N" using N by simp
  have s: "scale > 0" using scale by auto
  let ?yr = "\<lambda>row :: nat. if row = 1 then y1 else y0"
  have blocks: "set (px_row a f (scale * w) (\<lambda>X. px_at Y yr UV uv (X div scale))) =
      (\<Union>n < N. set (px_row (a + scale * (16 * n) * bpp f) f (16 * scale) (\<lambda>i. px_at Y yr UV uv (16 * n + i div scale))))" for a yr
  proof -
    have e: "(16 * scale * n + i) div scale = 16 * n + i div scale" for n i
      using scale by auto
    have "px_row a f (scale * w) (\<lambda>X. px_at Y yr UV uv (X div scale)) =
        concat (map (\<lambda>n. px_row (a + 16 * scale * n * bpp f) f (16 * scale) (\<lambda>i. px_at Y yr UV uv ((16 * scale * n + i) div scale))) [0..<N])"
      using px_row_blocks [of a f "16 * scale" N] N by (simp add: ac_simps)
    then show ?thesis unfolding e by (auto simp: ac_simps)
  qed
  have pic: "set (pic_row Y y0 y1 UV uv d w f scale row k) = (\<Union>n < N. set (to_row (d ! (scale * row + k)) (\<lambda>a. px_row (a + scale * (16 * n) * bpp f) f (16 * scale)
      (\<lambda>i. px_at Y (?yr row) UV uv (16 * n + i div scale)))))" for row k
    unfolding pic_row_def by (cases "d ! (scale * row + k)") (simp_all only: to_row_def option.case blocks, simp)
  have "set (cvt_rows Y y0 y1 UV uv d w f scale) = (\<Union>n < N. set (cvt_16 Y y0 y1 UV uv d f scale (16 * n)))"
    by (auto simp: cvt_rows_def n)
  also have "\<dots> = (\<Union>n < N. \<Union>row \<in> {0, 1}. \<Union>k < scale. set (to_row (d ! (scale * row + k)) (\<lambda>a. px_row (a + scale * (16 * n) * bpp f) f (16 * scale)
      (\<lambda>i. px_at Y (?yr row) UV uv (16 * n + i div scale)))))"
    by (intro SUP_cong refl) (subst cvt_16_rows; use scale in auto)
  also have "\<dots> = (\<Union>row \<in> {0, 1}. \<Union>k < scale. set (pic_row Y y0 y1 UV uv d w f scale row k))"
    unfolding pic by blast
  finally show ?thesis .
qed

lemma cvt_rows_c_set:
  assumes scale: "scale = 1 \<or> scale = 2"
  shows "set (cvt_rows_c Y y0 y1 UV uv d w f scale) = (\<Union>row \<in> {0, 1}. \<Union>k < scale. set (pic_row Y y0 y1 UV uv d w f scale row k))"
proof -
  have s: "scale > 0" using scale by auto
  let ?yr = "\<lambda>row :: nat. if row = 1 then y1 else y0"
  have blocks: "set (px_row a f (scale * w) (\<lambda>X. px_at Y yr UV uv (X div scale))) =
      (\<Union>x < w. set (concat (map (\<lambda>sx. memcpy_px (a + (x * scale + sx) * bpp f) (px_at Y yr UV uv x) (bpp f)) [0..<scale])))" for a yr
  proof -
    have e: "px_row (a + scale * x * bpp f) f scale (\<lambda>i. px_at Y yr UV uv ((scale * x + i) div scale)) =
        concat (map (\<lambda>sx. memcpy_px (a + (x * scale + sx) * bpp f) (px_at Y yr UV uv x) (bpp f)) [0..<scale])" for x
      unfolding px_row_def by (intro arg_cong [where f = concat] map_cong refl) (use s in \<open>simp add: algebra_simps\<close>)
    show ?thesis unfolding px_row_blocks e by auto
  qed
  have "(if scale = 1 then row else 2 * row + k) = scale * row + k" if "k < scale" for row k :: nat using scale that by auto
  then have "set (cvt_rows_c Y y0 y1 UV uv d w f scale) = (\<Union>row \<in> {0, 1}. \<Union>x < w. \<Union>k < scale. set (to_row (d ! (scale * row + k)) (\<lambda>dd.
      concat (map (\<lambda>sx. memcpy_px (dd + (x * scale + sx) * bpp f) (px_at Y (?yr row) UV uv x) (bpp f)) [0..<scale]))))"
    unfolding cvt_rows_c_def Let_def set_concat set_map image_image by (intro set_eqI) (auto simp: set_to_row)
  also have "\<dots> = (\<Union>row \<in> {0, 1}. \<Union>k < scale. set (pic_row Y y0 y1 UV uv d w f scale row k))"
    by (rule set_eqI) (auto simp: pic_row_def set_to_row blocks)
  finally show ?thesis .
qed

section \<open>The whole surface\<close>

text \<open>The source pixel of row \<open>r\<close>, column \<open>X\<close> of the scaled picture.\<close>

definition src_px :: "plane \<Rightarrow> nat \<Rightarrow> nat \<Rightarrow> plane \<Rightarrow> nat \<Rightarrow> nat \<Rightarrow> nat \<Rightarrow> nat \<Rightarrow> nat \<Rightarrow> u8 list" where
  "src_px Y y ys UV c cs scale r X = px_at Y (y + r div scale * ys) UV (c + r div scale div 2 * cs) (X div scale)"

text \<open>Where byte \<open>q\<close> of that pixel goes on the surface, and whether it is there at all.\<close>

definition in_pic :: "nat \<Rightarrow> nat \<Rightarrow> int \<Rightarrow> fmt \<Rightarrow> nat \<Rightarrow> nat \<Rightarrow> nat \<Rightarrow> nat \<Rightarrow> bool" where
  "in_pic w h dh f scale r X q \<longleftrightarrow> r < h * scale \<and> X < w * scale \<and> q < bpp f \<and>
     0 \<le> cdiv (dh - int (h * scale)) 2 + int r \<and> cdiv (dh - int (h * scale)) 2 + int r < dh"

definition surf_addr :: "nat \<Rightarrow> nat \<Rightarrow> nat \<Rightarrow> nat \<Rightarrow> int \<Rightarrow> int \<Rightarrow> fmt \<Rightarrow> nat \<Rightarrow> nat \<Rightarrow> nat \<Rightarrow> nat \<Rightarrow> nat" where
  "surf_addr w h dst pitch dw dh f scale r X q =
     dst + nat (cdiv (dh - int (h * scale)) 2 + int r) * pitch + (nat (cdiv (dw - int (w * scale)) 2) + X) * bpp f + q"

text \<open>Full-range BT.601 in real numbers: blue, green, red, each to be truncated.\<close>

definition bt601 :: "u8 \<Rightarrow> u8 \<Rightarrow> u8 \<Rightarrow> real list" where
  "bt601 y u v =
     (let Yf = real_of_int (uint y); Uf = real_of_int (uint u) - 128; Vf = real_of_int (uint v) - 128 in
      [Yf + 1.772 * Uf + 0.5, Yf - 0.344 * Uf - 0.714 * Vf + 0.5, Yf + 1.402 * Vf + 0.5])"

lemma dst_rows_nth:
  assumes "j < 4"
  shows "dst_rows dst pitch ox oy dh f scale y ! j = Some a \<longleftrightarrow>
    j < 2 * scale \<and> 0 \<le> oy + int (y * scale + j) \<and> oy + int (y * scale + j) < dh \<and> a = dst + nat (oy + int (y * scale + j)) * pitch + nat ox * bpp f"
  using assms by (auto simp: dst_rows_def Let_def)

lemma pair_set:
  assumes scale: "scale = 1 \<or> scale = 2" and d: "d = dst_rows dst pitch ox oy dh f scale (2 * n)"
  shows "(p, v) \<in> (\<Union>row \<in> {0, 1}. \<Union>k < scale. set (pic_row Y (y + 2 * n * ys) (y + 2 * n * ys + ys) UV (c + n * cs) d w f scale row k)) \<longleftrightarrow>
    (\<exists>j X q. j < 2 * scale \<and> X < w * scale \<and> q < bpp f \<and> 0 \<le> oy + int (2 * n * scale + j) \<and> oy + int (2 * n * scale + j) < dh \<and>
       p = dst + nat (oy + int (2 * n * scale + j)) * pitch + (nat ox + X) * bpp f + q \<and> v = src_px Y y ys UV c cs scale (2 * n * scale + j) X ! q)"
  (is "?L \<longleftrightarrow> ?R")
proof -
  have src: "px_at Y (if row = 1 then y + 2 * n * ys + ys else y + 2 * n * ys) UV (c + n * cs) (X div scale) = src_px Y y ys UV c cs scale (2 * n * scale + (scale * row + k)) X"
    if "row \<in> {0, 1}" "k < scale" for row k X
  proof -
    have "(2 * n * scale + (scale * row + k)) div scale = 2 * n + row" using that(2) scale by auto
    then show ?thesis using that(1) by (auto simp: src_px_def algebra_simps)
  qed
  have row: "(p, v) \<in> set (pic_row Y (y + 2 * n * ys) (y + 2 * n * ys + ys) UV (c + n * cs) d w f scale row k) \<longleftrightarrow>
     (\<exists>X q. X < w * scale \<and> q < bpp f \<and> 0 \<le> oy + int (2 * n * scale + (scale * row + k)) \<and> oy + int (2 * n * scale + (scale * row + k)) < dh \<and>
       p = dst + nat (oy + int (2 * n * scale + (scale * row + k))) * pitch + (nat ox + X) * bpp f + q \<and>
       v = src_px Y y ys UV c cs scale (2 * n * scale + (scale * row + k)) X ! q)" if "row \<in> {0, 1}" "k < scale" for row k
  proof -
    have "scale * row + k < 4" "scale * row + k < 2 * scale" using that scale by auto
    then show ?thesis
      unfolding pic_row_def set_to_row d dst_rows_nth [OF \<open>scale * row + k < 4\<close>] set_px_row src [OF that]
      by (auto simp: algebra_simps)
  qed
  have "?R" if "?L"
  proof -
    from that obtain row k where rk: "row \<in> {0, 1}" "k < scale"
        "(p, v) \<in> set (pic_row Y (y + 2 * n * ys) (y + 2 * n * ys + ys) UV (c + n * cs) d w f scale row k)" by blast
    have "scale * row + k < 2 * scale" using rk(1,2) by auto
    with rk(3) show ?thesis unfolding row [OF rk(1,2)] by blast
  qed
  moreover have "?L" if "?R"
  proof -
    from that obtain j where j: "j < 2 * scale" and ex: "\<exists>X q. X < w * scale \<and> q < bpp f \<and> 0 \<le> oy + int (2 * n * scale + j) \<and> oy + int (2 * n * scale + j) < dh \<and>
       p = dst + nat (oy + int (2 * n * scale + j)) * pitch + (nat ox + X) * bpp f + q \<and> v = src_px Y y ys UV c cs scale (2 * n * scale + j) X ! q" by blast
    have "scale * (j div scale) + j mod scale = j" "j div scale \<in> {0, 1}" "j mod scale < scale"
      using j scale by (auto simp: less_2_cases_iff)
    note eq = this(1) and rk = this(2,3)
    have "(p, v) \<in> set (pic_row Y (y + 2 * n * ys) (y + 2 * n * ys + ys) UV (c + n * cs) d w f scale (j div scale) (j mod scale))"
      unfolding row [OF rk] eq by (rule ex)
    with rk show ?thesis by blast
  qed
  ultimately show ?thesis by blast
qed

lemma pair_rows:
  fixes h scale :: nat
  assumes h: "even h" and s: "0 < scale"
  shows "(\<exists>n < (h + 1) div 2. \<exists>j < 2 * scale. P (2 * n * scale + j)) \<longleftrightarrow> (\<exists>r < h * scale. P r)"
proof
  assume "\<exists>n < (h + 1) div 2. \<exists>j < 2 * scale. P (2 * n * scale + j)"
  then obtain n j where nj: "n < (h + 1) div 2" "j < 2 * scale" "P (2 * n * scale + j)" by blast
  from nj(1) h have "2 * n + 2 \<le> h" by (auto elim: evenE)
  then have "(2 * n + 2) * scale \<le> h * scale" by (rule mult_le_mono1)
  then have "2 * n * scale + j < h * scale" using nj(2) by (simp add: algebra_simps)
  with nj(3) show "\<exists>r < h * scale. P r" by blast
next
  assume "\<exists>r < h * scale. P r"
  then obtain r where r: "r < h * scale" "P r" by blast
  have eq: "2 * (r div (2 * scale)) * scale + r mod (2 * scale) = r" using div_mult_mod_eq [of r "2 * scale"] by (simp add: algebra_simps)
  have "r div (2 * scale) < h div 2" using r(1) h s by (auto simp: div_less_iff_less_mult elim!: evenE)
  then have "r div (2 * scale) < (h + 1) div 2" using h by (auto elim: evenE)
  moreover have "r mod (2 * scale) < 2 * scale" using s by simp
  ultimately show "\<exists>n < (h + 1) div 2. \<exists>j < 2 * scale. P (2 * n * scale + j)" using r(2) eq by metis
qed

lemma set_concat_upt: "e \<in> set (concat (map F [0..<N])) \<longleftrightarrow> (\<exists>n < N. e \<in> set (F n))"
  by auto

lemma nv12_set:
  assumes scale: "scale = 1 \<or> scale = 2" and w: "16 dvd w" and h: "even h" and fits: "int (w * scale) \<le> dw"
  shows "(p, v) \<in> set (nv12_to_surface b Y y ys UV c cs w h dst pitch dw dh f scale) \<longleftrightarrow>
    (\<exists>r X q. in_pic w h dh f scale r X q \<and> p = surf_addr w h dst pitch dw dh f scale r X q \<and> v = src_px Y y ys UV c cs scale r X ! q)"
proof -
  define ox oy where "ox = cdiv (dw - int (w * scale)) 2" "oy = cdiv (dh - int (h * scale)) 2"
  let ?d = "\<lambda>n. dst_rows dst pitch ox oy dh f scale (2 * n)"
  let ?P = "\<lambda>r. \<exists>X q. X < w * scale \<and> q < bpp f \<and> 0 \<le> oy + int r \<and> oy + int r < dh \<and>
       p = dst + nat (oy + int r) * pitch + (nat ox + X) * bpp f + q \<and> v = src_px Y y ys UV c cs scale r X ! q"
  have ox: "\<not> ox < 0" using fits by (simp add: ox_oy_def cdiv_nonneg)
  have s: "0 < scale" using scale by auto
  have none: "set (pic_row Y y0 y1 UV uv [None, None, None, None] w f scale row k) = {}" if "row \<in> {0, 1}" "k < scale" for y0 y1 uv row k
    using that scale by (auto simp: pic_row_def to_row_def less_2_cases_iff)
  have pair: "(p, v) \<in> set (if ?d n = [None, None, None, None] then []
          else if b then cvt_rows_c Y (y + 2 * n * ys) (y + 2 * n * ys + ys) UV (c + n * cs) (?d n) w f scale
          else cvt_rows Y (y + 2 * n * ys) (y + 2 * n * ys + ys) UV (c + n * cs) (?d n) w f scale) \<longleftrightarrow> (\<exists>j < 2 * scale. ?P (2 * n * scale + j))" for n
  proof -
    have "set (if ?d n = [None, None, None, None] then []
          else if b then cvt_rows_c Y (y + 2 * n * ys) (y + 2 * n * ys + ys) UV (c + n * cs) (?d n) w f scale
          else cvt_rows Y (y + 2 * n * ys) (y + 2 * n * ys + ys) UV (c + n * cs) (?d n) w f scale) =
        (\<Union>row \<in> {0, 1}. \<Union>k < scale. set (pic_row Y (y + 2 * n * ys) (y + 2 * n * ys + ys) UV (c + n * cs) (?d n) w f scale row k))"
      using cvt_rows_set [OF w scale] cvt_rows_c_set [OF scale] none by auto
    note sets = this
    show ?thesis unfolding sets pair_set [OF scale refl] by blast
  qed
  have eq: "nv12_to_surface b Y y ys UV c cs w h dst pitch dw dh f scale =
      concat (map (\<lambda>n. if ?d n = [None, None, None, None] then []
          else if b then cvt_rows_c Y (y + 2 * n * ys) (y + 2 * n * ys + ys) UV (c + n * cs) (?d n) w f scale
          else cvt_rows Y (y + 2 * n * ys) (y + 2 * n * ys + ys) UV (c + n * cs) (?d n) w f scale) [0..<(h + 1) div 2])"
    using ox unfolding nv12_to_surface_def Let_def ox_oy_def [symmetric] by (simp only: if_False)
  have "(p, v) \<in> set (nv12_to_surface b Y y ys UV c cs w h dst pitch dw dh f scale) \<longleftrightarrow>
      (\<exists>n < (h + 1) div 2. \<exists>j < 2 * scale. ?P (2 * n * scale + j))"
    unfolding eq set_concat_upt pair ..
  also have "\<dots> \<longleftrightarrow> (\<exists>r < h * scale. ?P r)" by (rule pair_rows [OF h s])
  finally show ?thesis unfolding ox_oy_def in_pic_def surf_addr_def by blast
qed

text \<open>A store list is a map when an address determines its row, column and byte.\<close>

lemma surf_addr_inj:
  assumes fits: "int (w * scale) \<le> dw" "dw * int (bpp f) \<le> int pitch"
    and i: "in_pic w h dh f scale r X q" "in_pic w h dh f scale r' X' q'"
    and eq: "surf_addr w h dst pitch dw dh f scale r X q = surf_addr w h dst pitch dw dh f scale r' X' q'"
  shows "r = r' \<and> X = X' \<and> q = q'"
proof -
  define ox where "ox = nat (cdiv (dw - int (w * scale)) 2)"
  have "int ox + int (w * scale) \<le> dw" using fits(1) by (simp add: ox_def cdiv_nonneg)
  then have "(int ox + int (w * scale)) * int (bpp f) \<le> dw * int (bpp f)" by (rule mult_right_mono) simp
  then have row: "(ox + w * scale) * bpp f \<le> pitch" using fits(2) by (simp flip: of_nat_mult of_nat_add)
  have lt: "(ox + X) * bpp f + q < pitch" if "in_pic w h dh f scale r X q" for r X q
    using that pixel_in_row [of "ox + X" "ox + w * scale" q "bpp f" pitch] row by (simp add: in_pic_def)
  have "nat (cdiv (dh - int (h * scale)) 2 + int r) * pitch + ((ox + X) * bpp f + q) =
      nat (cdiv (dh - int (h * scale)) 2 + int r') * pitch + ((ox + X') * bpp f + q')"
    using eq by (simp add: surf_addr_def ox_def)
  from row_col_eq [OF this lt [OF i(1)] lt [OF i(2)]]
  have "nat (cdiv (dh - int (h * scale)) 2 + int r) = nat (cdiv (dh - int (h * scale)) 2 + int r')"
    "(ox + X) * bpp f + q = (ox + X') * bpp f + q'" by simp_all
  with row_col_eq [OF this(2)] i show ?thesis by (auto simp: in_pic_def eq_nat_nat_iff)
qed

text \<open>The fixed-point colours are within two of the formula in real numbers.\<close>

lemma clip_near:
  fixes t :: real
  assumes "real_of_int z - t \<le> 1" "t - real_of_int z \<le> 2"
  shows "\<bar>clip1 z - \<lfloor>max 0 (min 255 t)\<rfloor>\<bar> \<le> 2"
proof -
  have "real_of_int (clip1 z) - max 0 (min 255 t) \<le> 1" "max 0 (min 255 t) - real_of_int (clip1 z) \<le> 2"
    using assms by (auto simp: clip1_def max_def min_def)
  then show ?thesis by linarith
qed

lemma cvt_px_near:
  assumes "q < 3"
  shows "\<bar>uint (cvt_px y u v ! q) - \<lfloor>max 0 (min 255 (bt601 y u v ! q))\<rfloor>\<bar> \<le> 2"
proof -
  define Y U V where "Y = uint y" "U = uint u - 128" "V = uint v - 128"
  have r: "0 \<le> Y" "Y \<le> 255" "- 128 \<le> U" "U \<le> 127" "- 128 \<le> V" "V \<le> 127"
    using byte_range [of y] byte_range [of u] byte_range [of v] by (simp_all add: Y_U_V_def)
  have px: "uint (cvt_px y u v ! 2) = clip1 (Y + drop_bit 7 (179 * V + 64))" "uint (cvt_px y u v ! 1) = clip1 (Y + drop_bit 7 (- 44 * U - 91 * V + 64))"
      "uint (cvt_px y u v ! 0) = clip1 (Y + drop_bit 7 (227 * U + 64))"
    using byte_round [OF clip1_range] by (simp_all add: cvt_px_def Let_def Y_U_V_def upt_rec)
  have div: "real_of_int (drop_bit 7 z) \<le> real_of_int z / 128" "real_of_int z / 128 < real_of_int (drop_bit 7 z) + 1" for z :: int
  proof -
    have "128 * (z div 128) \<le> z" "z < 128 * (z div 128) + 128" by linarith+
    then have "real_of_int (128 * (z div 128)) \<le> real_of_int z" "real_of_int z < real_of_int (128 * (z div 128) + 128)" by (simp_all only: of_int_le_iff of_int_less_iff)
    then show "real_of_int (drop_bit 7 z) \<le> real_of_int z / 128" "real_of_int z / 128 < real_of_int (drop_bit 7 z) + 1" by (simp_all add: drop_bit_eq_div)
  qed
  have near: "\<bar>uint (cvt_px y u v ! 2) - \<lfloor>max 0 (min 255 (real_of_int Y + 1.402 * real_of_int V + 0.5))\<rfloor>\<bar> \<le> 2"
    unfolding px by (rule clip_near) (use r div [of "179 * V + 64"] in simp_all)
  have near': "\<bar>uint (cvt_px y u v ! 1) - \<lfloor>max 0 (min 255 (real_of_int Y - 0.344 * real_of_int U - 0.714 * real_of_int V + 0.5))\<rfloor>\<bar> \<le> 2"
    unfolding px by (rule clip_near) (use r div [of "- 44 * U - 91 * V + 64"] in simp_all)
  have near'': "\<bar>uint (cvt_px y u v ! 0) - \<lfloor>max 0 (min 255 (real_of_int Y + 1.772 * real_of_int U + 0.5))\<rfloor>\<bar> \<le> 2"
    unfolding px by (rule clip_near) (use r div [of "227 * U + 64"] in simp_all)
  consider "q = 0" | "q = 1" | "q = 2" using assms by linarith
  then show ?thesis by cases (use near near' near'' in \<open>simp_all add: bt601_def Let_def Y_U_V_def\<close>)
qed

text \<open>
  C12. The conversion. For a picture whose width is a multiple of sixteen and whose height is even, on a surface
  wide enough for it: the vector routine and the portable one leave the same bytes everywhere; every
  surface pixel in the centred, scaled picture that is not clipped shows the colour of its source pixel;
  every other byte is untouched; and each colour is within two of full-range BT.601 in real numbers.
\<close>

theorem nv12_surface_exact:
  assumes "scale = 1 \<or> scale = 2" "16 dvd w" "even h" "int (w * scale) \<le> dw" "dw * int (bpp f) \<le> int pitch"
  shows "run_stores (nv12_to_surface True Y y ys UV c cs w h dst pitch dw dh f scale) m =
      run_stores (nv12_to_surface False Y y ys UV c cs w h dst pitch dw dh f scale) m \<and>
    (\<forall>r X q. in_pic w h dh f scale r X q \<longrightarrow>
      run_stores (nv12_to_surface b Y y ys UV c cs w h dst pitch dw dh f scale) m (surf_addr w h dst pitch dw dh f scale r X q) =
        src_px Y y ys UV c cs scale r X ! q) \<and>
    (\<forall>p. (\<nexists>r X q. in_pic w h dh f scale r X q \<and> p = surf_addr w h dst pitch dw dh f scale r X q) \<longrightarrow>
      run_stores (nv12_to_surface b Y y ys UV c cs w h dst pitch dw dh f scale) m p = m p) \<and>
    (\<forall>q < 3. \<bar>uint (cvt_px y' u' v' ! q) - \<lfloor>max 0 (min 255 (bt601 y' u' v' ! q))\<rfloor>\<bar> \<le> 2)"
proof -
  let ?S = "\<lambda>b. nv12_to_surface b Y y ys UV c cs w h dst pitch dw dh f scale"
  let ?a = "surf_addr w h dst pitch dw dh f scale"
  have hit: "run_stores (?S b) m (?a r X q) = src_px Y y ys UV c cs scale r X ! q" if "in_pic w h dh f scale r X q" for b r X q
  proof (rule run_stores_hit)
    show "(?a r X q, src_px Y y ys UV c cs scale r X ! q) \<in> set (?S b)" unfolding nv12_set [OF assms(1-4)] using that by blast
    show "v = src_px Y y ys UV c cs scale r X ! q" if "(?a r X q, v) \<in> set (?S b)" for v
      using that surf_addr_inj [OF assms(4,5) \<open>in_pic w h dh f scale r X q\<close>] unfolding nv12_set [OF assms(1-4)] by metis
  qed
  have miss: "run_stores (?S b) m p = m p" if "\<nexists>r X q. in_pic w h dh f scale r X q \<and> p = ?a r X q" for b p
  proof (rule run_stores_miss)
    show "p \<notin> fst ` set (?S b)" using that nv12_set [OF assms(1-4)] by force
  qed
  have "run_stores (?S True) m p = run_stores (?S False) m p" for p
    by (cases "\<exists>r X q. in_pic w h dh f scale r X q \<and> p = ?a r X q") (auto simp: hit miss)
  with hit miss cvt_px_near show ?thesis by blast
qed

text \<open>Sixteen by two pixels, doubled, on a surface two rows high: the first and the last row are cut off.\<close>

definition demo_surface :: "nat \<Rightarrow> u8" where
  "demo_surface = run_stores (nv12_to_surface False (\<lambda>a. of_nat (100 + 10 * a)) 0 16 (\<lambda>a. of_nat (100 + a)) 0 16 16 2 1000 102 34 2 FMT_BGR24 2) (\<lambda>_. 0x55)"

theorem nv12_surface_exact_witness:
  "in_pic 16 2 2 FMT_BGR24 2 1 5 2 \<and> demo_surface (surf_addr 16 2 1000 102 34 2 FMT_BGR24 2 1 5 2) = 85 \<and> demo_surface 1002 = 0x55"
proof -
  let ?Y = "\<lambda>a. of_nat (100 + 10 * a) :: u8" and ?UV = "\<lambda>a. of_nat (100 + a) :: u8"
  note main = nv12_surface_exact [of 2 16 2 34 FMT_BGR24 102 ?Y 0 16 ?UV 0 16 1000 2 "\<lambda>_. 0x55" False 0 0 0]
  have i: "in_pic 16 2 2 FMT_BGR24 2 1 5 2" "src_px ?Y 0 16 ?UV 0 16 2 1 5 ! 2 = 85" by code_simp+
  have "cdiv (34 - int (16 * 2)) 2 = 1" by code_simp
  then have o: "\<nexists>r X q. in_pic 16 2 2 FMT_BGR24 2 r X q \<and> 1002 = surf_addr 16 2 1000 102 34 2 FMT_BGR24 2 r X q"
    by (simp add: surf_addr_def bpp_def)
  from main i o show ?thesis unfolding demo_surface_def by (simp add: bpp_def)
qed

section \<open>The dumb buffer\<close>

lemma memcpy_append: "memcpy_st d S s (a + b) = memcpy_st d S s a @ memcpy_st (d + a) S (s + a) b"
  by (induction b) (simp_all add: memcpy_st_def add.assoc)

lemma memcpy_rows: "memcpy_st d S s (W * n) = concat (map (\<lambda>r. memcpy_st (d + r * W) S (s + r * W) W) [0..<n])"
proof (induction n)
  case (Suc n)
  have "memcpy_st d S s (W * Suc n) = memcpy_st d S s (W * n) @ memcpy_st (d + n * W) S (s + n * W) W"
    using memcpy_append [of d S s "W * n" W] by (simp add: ac_simps)
  then show ?case by (simp add: Suc)
qed (simp add: memcpy_st_def)

lemma db_copy_rows:
  defines "m \<equiv> \<lambda>w. min w DB_W" and "n \<equiv> \<lambda>h. min h (DB_UV div DB_W)"
  shows "db_copy Y y ys C c cs w h =
    concat (map (\<lambda>r. memcpy_st (r * DB_W) Y (y + r * ys) (m w)) [0..<n h]) @
    concat (map (\<lambda>r. memcpy_st (DB_UV + r * DB_W) C (c + r * cs) (m w)) [0..<n h div 2])"
proof -
  have "(if w > DB_W then DB_W else w) = m w" "(if h > DB_UV div DB_W then DB_UV div DB_W else h) = n h" by (simp_all add: m_def n_def)
  then show ?thesis unfolding db_copy_def Let_def by (simp add: memcpy_rows mult.commute)
qed

text \<open>The copy stays inside the buffer, and luma ends before chroma begins.\<close>

lemma db_copy_inside:
  assumes "(p, v) \<in> set (db_copy Y y ys C c cs w h)"
  shows "p < DB_W * DB_H"
proof -
  have "r * DB_W + i < DB_UV" if "r < min h 736" "i < min w DB_W" for r i using that by (simp add: DB_W_def DB_UV_def)
  moreover have "DB_UV + r * DB_W + i < DB_W * DB_H" if "r < min h 736 div 2" "i < min w DB_W" for r i
    using that by (simp add: DB_W_def DB_UV_def DB_H_def) linarith
  moreover have "DB_UV div DB_W = 736" "DB_UV < DB_W * DB_H" by (simp_all add: DB_W_def DB_UV_def DB_H_def)
  ultimately show ?thesis using assms unfolding db_copy_rows by (fastforce simp: memcpy_st_def)
qed

end
