(* ===== verification/Player.thy ===== *)
theory Player
  imports Prelude "HOL-Library.Multiset"
begin

text \<open>
  The player of the decoder cube (\<open>coda-cube.c\<close>): who owns a decoded frame. The VDEC hands frames out and
  must get each back once; the main loop shows them, copied, converted or as they are; with
  \<open>--zero-copy\<close> the compositor holds their buffers until it releases them; with \<open>--pipeline\<close> a worker
  thread issues every decoder call. The definitions follow \<open>decode_aus\<close>, the release queue, the worker,
  the dumb buffers, the zero-copy buffers and the frame loop of \<open>main\<close>; the step relation interleaves
  main thread, worker and the compositor's events. What the VDEC, the exporter, the presenter and the
  mapping answer is part of a step.
\<close>

section \<open>The decoder's frames\<close>

text \<open>\<open>VIDEO_FRAME_INFO_S\<close>: the addresses, strides and size of a picture; the buffer is told by \<open>f_pa\<close>.\<close>

record vframe =
  f_pa :: u64
  f_pa1 :: u64
  f_stride0 :: u32
  f_stride1 :: u32
  f_width :: u32
  f_height :: u32

definition no_frame :: vframe where
  "no_frame = \<lparr>f_pa = 0, f_pa1 = 0, f_stride0 = 0, f_stride1 = 0, f_width = 0, f_height = 0\<rparr>"

definition MAX_HELD :: nat where
  "MAX_HELD = 32"

text \<open>
  The VDEC: the buffers that are out, whether one was released that was not, and the program's counts of
  late and drained pictures. \<open>GET_FRAME\<close> hands out a buffer that is not out, and fewer than \<open>MAX_HELD\<close> are
  out before; an answer that breaks this is no run of the program (\<open>None\<close>).
\<close>

record vdec =
  v_out :: "u64 list"
  v_bad :: bool
  g_late :: nat
  g_stale :: nat

definition vd_take :: "vframe \<Rightarrow> vdec \<Rightarrow> vdec option" where
  "vd_take f v = (if f_pa f \<in> set (v_out v) \<or> length (v_out v) \<ge> MAX_HELD then None
     else Some (v\<lparr>v_out := f_pa f # v_out v\<rparr>))"

definition vd_release :: "vframe \<Rightarrow> vdec \<Rightarrow> vdec" where
  "vd_release f v = (if f_pa f \<in> set (v_out v) then v\<lparr>v_out := remove1 (f_pa f) (v_out v)\<rparr> else v\<lparr>v_bad := True\<rparr>)"

text \<open>
  The answers for one access unit: whether \<open>SEND_STREAM\<close> succeeds, the picture \<open>GET_FRAME\<close> has at once, the
  one it has within 200 ms if there was none, and those queued behind it.
\<close>

record au_ans =
  a_send :: bool
  a_first :: "vframe option"
  a_late :: "vframe option"
  a_more :: "vframe list"

fun drain :: "vframe \<Rightarrow> vframe list \<Rightarrow> vdec \<Rightarrow> (vframe \<times> vdec) option" where
  "drain f [] v = Some (f, v)"
| "drain f (n # ns) v = Option.bind (vd_take n v) (\<lambda>v.
     let v = vd_release f v in drain n ns (v\<lparr>g_stale := g_stale v + 1\<rparr>))"

text \<open>The picture of the last access unit, or nothing; a frame has at least one access unit.\<close>

fun decode_aus :: "au_ans list \<Rightarrow> vdec \<Rightarrow> (vframe option \<times> vdec) option" where
  "decode_aus [] v = None"
| "decode_aus (a # as) v =
     (if \<not> a_send a then Some (None, v)
      else
        case (case a_first a of Some f \<Rightarrow> Some (f, v) | None \<Rightarrow> map_option (\<lambda>f. (f, v\<lparr>g_late := g_late v + 1\<rparr>)) (a_late a)) of
          None \<Rightarrow> Some (None, v)
        | Some (f, v) \<Rightarrow>
            Option.bind (vd_take f v) (\<lambda>v. Option.bind (drain f (a_more a) v) (\<lambda>(f, v).
              if as \<noteq> [] then decode_aus as (vd_release f v) else Some (Some f, v))))"

section \<open>Buffers of the compositor\<close>

text \<open>\<open>ZcBuf\<close>: a frame buffer wrapped for the compositor; \<open>z_fi\<close> is the frame on it while busy.\<close>

record zbuf =
  z_pa :: u64
  z_uv :: u32
  z_stride :: u32
  z_fd :: int
  z_idx :: int
  z_busy :: bool
  z_fi :: vframe

datatype phase =
    Top | Got "vframe option" | Have "vframe option" "nat option" "nat option"
  | Show "vframe option" "nat option" "nat option" | Leave | Over

record player =
  pl_v :: vdec
  g_rel :: "vframe list"
  pl_lost :: bool
  g_zc :: "zbuf list"
  g_db :: "bool list"
  g_db_next :: nat
  pl_torn :: bool
  wk_busy :: bool
  wk_ok :: bool
  wk_fi :: vframe
  wk_rel :: "vframe list"
  pl_race :: bool
  pl_dry :: nat
  pl_pc :: phase

record pcfg =
  pipeline :: bool
  zero_copy :: bool
  dmabuf :: bool
  pW :: int
  pH :: int

definition rel_push :: "vframe \<Rightarrow> player \<Rightarrow> player" where
  "rel_push f s = (if length (g_rel s) = MAX_HELD then s\<lparr>pl_lost := True\<rparr> else s\<lparr>g_rel := g_rel s @ [f]\<rparr>)"

text \<open>A release by the main thread; it must not happen while the worker talks to the decoder.\<close>

definition main_release :: "vframe \<Rightarrow> player \<Rightarrow> player" where
  "main_release f s = s\<lparr>pl_v := vd_release f (pl_v s), pl_race := pl_race s \<or> wk_busy s\<rparr>"

definition rel_flush :: "player \<Rightarrow> player" where
  "rel_flush s = (fold main_release (g_rel s) s)\<lparr>g_rel := []\<rparr>"

definition zc_released :: "nat \<Rightarrow> player \<Rightarrow> player" where
  "zc_released i s =
     (if i < length (g_zc s) \<and> z_busy (g_zc s ! i)
      then rel_push (z_fi (g_zc s ! i)) (s\<lparr>g_zc := (g_zc s)[i := (g_zc s ! i)\<lparr>z_busy := False\<rparr>]\<rparr>)
      else s)"

text \<open>The exporter's answer: descriptor, offset and size; the presenter's: an index.\<close>

definition zc_get :: "pcfg \<Rightarrow> (int \<times> u64 \<times> u64) option \<Rightarrow> int \<Rightarrow> vframe \<Rightarrow> zbuf list \<Rightarrow> nat option \<times> zbuf list" where
  "zc_get c export idx f zs =
     (let pa = f_pa f; uv = f_pa1 f - pa in
      case List.find (\<lambda>i. z_pa (zs ! i) = pa) [0..<length zs] of
        Some i \<Rightarrow>
          (if ucast (z_uv (zs ! i)) \<noteq> uv \<or> z_stride (zs ! i) \<noteq> f_stride0 f \<or> z_busy (zs ! i) then None else Some i, zs)
      | None \<Rightarrow>
          if sint (f_width f) \<noteq> pW c \<or> sint (f_height f) \<noteq> pH c \<or> f_stride0 f \<noteq> f_stride1 f \<or> f_pa1 f \<le> pa \<or>
            uv > 0xffffffff \<or> length zs = MAX_HELD
          then (None, zs)
          else
            case export of
              None \<Rightarrow> (None, zs)
            | Some (fd, off, size') \<Rightarrow>
                let z = \<lparr>z_pa = pa, z_uv = ucast uv, z_stride = f_stride0 f, z_fd = fd, z_idx = - 1, z_busy = False, z_fi = no_frame\<rparr> in
                if off \<noteq> 0 \<or> uv + ucast (f_stride1 f) * ucast (f_height f div 2) > size' then (None, zs @ [z])
                else if idx < 0 then (None, zs @ [z\<lparr>z_idx := idx\<rparr>])
                else (Some (length zs), zs @ [z\<lparr>z_idx := idx\<rparr>]))"

definition DB_N :: nat where
  "DB_N = 4"

definition db_released :: "nat \<Rightarrow> player \<Rightarrow> player" where
  "db_released i s = s\<lparr>g_db := (g_db s)[i := False]\<rparr>"

definition db_pick :: "player \<Rightarrow> nat option" where
  "db_pick s = List.find (\<lambda>i. \<not> g_db s ! i) (map (\<lambda>k. (g_db_next s + k) mod DB_N) [0..<DB_N])"

text \<open>\<open>waits\<close>: the releases each dispatch or wait of 100 ms brings, until a wait fails or time is up.\<close>

fun db_wait :: "nat list list \<Rightarrow> player \<Rightarrow> nat option \<times> player" where
  "db_wait waits s =
     (case db_pick s of
        Some i \<Rightarrow> (Some i, s\<lparr>g_db_next := (i + 1) mod DB_N\<rparr>)
      | None \<Rightarrow> (case waits of [] \<Rightarrow> (None, s) | es # ws \<Rightarrow> db_wait ws (fold db_released es s)))"

definition db_get :: "nat list \<Rightarrow> nat list list \<Rightarrow> player \<Rightarrow> nat option \<times> player" where
  "db_get es waits s = db_wait waits (fold db_released es s)"

section \<open>The frame loop\<close>

text \<open>The start of an iteration: decode here, or take what the worker has decoded.\<close>

definition do_decode :: "au_ans list \<Rightarrow> player \<Rightarrow> player option" where
  "do_decode as s =
     (let s = rel_flush s in
      map_option (\<lambda>(r, v). s\<lparr>pl_v := v, pl_race := pl_race s \<or> wk_busy s, pl_pc := Got r\<rparr>) (decode_aus as (pl_v s)))"

definition do_fetch :: "player \<Rightarrow> player" where
  "do_fetch s = s\<lparr>pl_pc := Got (if wk_ok s then Some (wk_fi s) else None)\<rparr>"

text \<open>What the environment answers while the frame is used.\<close>

record use_ans =
  u_export :: "(int \<times> u64 \<times> u64) option"
  u_idx :: int
  u_mapped :: bool
  u_surface :: bool
  u_rel0 :: "nat list"
  u_waits :: "nat list list"

definition give_up :: "pcfg \<Rightarrow> vframe \<Rightarrow> player \<Rightarrow> player" where
  "give_up c f s = (if pipeline c then s else main_release f s)\<lparr>pl_pc := Leave\<rparr>"

definition do_use :: "pcfg \<Rightarrow> use_ans \<Rightarrow> vframe option \<Rightarrow> player \<Rightarrow> player" where
  "do_use c u r s =
     (case r of
        None \<Rightarrow> s\<lparr>pl_dry := pl_dry s + 1, pl_pc := (if pl_dry s + 1 \<ge> 8 then Leave else Have None None None)\<rparr>
      | Some f \<Rightarrow>
          let s = s\<lparr>pl_dry := 0\<rparr> in
          if zero_copy c then
            let (zi, zs) = zc_get c (u_export u) (u_idx u) f (g_zc s); s = s\<lparr>g_zc := zs\<rparr> in
            (case zi of None \<Rightarrow> give_up c f s | Some i \<Rightarrow> s\<lparr>pl_pc := Have (Some f) (Some i) None\<rparr>)
          else if \<not> u_mapped u then give_up c f s
          else if dmabuf c then
            let (slot, s) = db_get (u_rel0 u) (u_waits u) s in
            (case slot of
               None \<Rightarrow> give_up c f s
             | Some i \<Rightarrow>
                 let s = s\<lparr>pl_torn := pl_torn s \<or> g_db s ! i\<rparr>;
                     s = (if pipeline c then s else main_release f s) in
                 s\<lparr>pl_pc := Have (Some f) None (Some i)\<rparr>)
          else if \<not> u_surface u then give_up c f s
          else (if pipeline c then s else main_release f s)\<lparr>pl_pc := Have (Some f) None None\<rparr>)"

text \<open>\<open>worker_submit\<close>: the queue is the worker's from here.\<close>

definition worker_submit :: "player \<Rightarrow> player" where
  "worker_submit s = s\<lparr>wk_rel := g_rel s, g_rel := [], wk_busy := True\<rparr>"

definition do_submit :: "pcfg \<Rightarrow> vframe option \<Rightarrow> nat option \<Rightarrow> nat option \<Rightarrow> player \<Rightarrow> player" where
  "do_submit c r zi slot s =
     (let s = (if pipeline c then worker_submit (case r of Some f \<Rightarrow> if zero_copy c then s else rel_push f s | None \<Rightarrow> s) else s) in
      s\<lparr>pl_pc := Show r zi slot\<rparr>)"

definition do_present :: "vframe option \<Rightarrow> nat option \<Rightarrow> nat option \<Rightarrow> player \<Rightarrow> player" where
  "do_present r zi slot s =
     (let s = (case (r, zi) of
                 (Some f, Some i) \<Rightarrow> s\<lparr>g_zc := (g_zc s)[i := (g_zc s ! i)\<lparr>z_busy := True, z_fi := f\<rparr>]\<rparr>
               | _ \<Rightarrow> (case slot of Some i \<Rightarrow> s\<lparr>g_db := (g_db s)[i := True]\<rparr> | None \<Rightarrow> s)) in
      s\<lparr>pl_pc := Top\<rparr>)"

text \<open>The worker: the releases it was given, then the decode.\<close>

definition worker_run :: "au_ans list \<Rightarrow> player \<Rightarrow> player option" where
  "worker_run as s =
     map_option (\<lambda>(r, v). s\<lparr>pl_v := v, wk_busy := False, wk_ok := (r \<noteq> None),
       wk_fi := (case r of Some f \<Rightarrow> f | None \<Rightarrow> wk_fi s)\<rparr>)
       (decode_aus as (fold vd_release (wk_rel s) (pl_v s)))"

text \<open>After the loop: the worker's last picture, then the queue.\<close>

definition do_leave :: "pcfg \<Rightarrow> player \<Rightarrow> player" where
  "do_leave c s =
     (let s = (if pipeline c \<and> wk_ok s then main_release (wk_fi s) s else s) in
      (rel_flush s)\<lparr>pl_pc := Over\<rparr>)"

definition on_release :: "pcfg \<Rightarrow> nat \<Rightarrow> player \<Rightarrow> player" where
  "on_release c i s = (if zero_copy c then zc_released i s else db_released i s)"

text \<open>Before the loop; pipelined, frame 0 has been submitted.\<close>

definition player0 :: "pcfg \<Rightarrow> player" where
  "player0 c = \<lparr>pl_v = \<lparr>v_out = [], v_bad = False, g_late = 0, g_stale = 0\<rparr>, g_rel = [], pl_lost = False, g_zc = [],
     g_db = replicate DB_N False, g_db_next = 0, pl_torn = False, wk_busy = pipeline c, wk_ok = False, wk_fi = no_frame,
     wk_rel = [], pl_race = False, pl_dry = 0, pl_pc = Top\<rparr>"

inductive pl_step :: "pcfg \<Rightarrow> player \<Rightarrow> player \<Rightarrow> bool" for c where
  decode: "pl_pc s = Top \<Longrightarrow> \<not> pipeline c \<Longrightarrow> do_decode as s = Some s' \<Longrightarrow> pl_step c s s'"
| fetch: "pl_pc s = Top \<Longrightarrow> pipeline c \<Longrightarrow> \<not> wk_busy s \<Longrightarrow> pl_step c s (do_fetch s)"
| use: "pl_pc s = Got r \<Longrightarrow> pl_step c s (do_use c u r s)"
| submit: "pl_pc s = Have r zi slot \<Longrightarrow> pl_step c s (do_submit c r zi slot s)"
| present: "pl_pc s = Show r zi slot \<Longrightarrow> pl_step c s (do_present r zi slot s)"
| stop: "pl_pc s = Top \<Longrightarrow> pl_step c s (s\<lparr>pl_pc := Leave\<rparr>)"
| leave: "pl_pc s = Leave \<Longrightarrow> \<not> (pipeline c \<and> wk_busy s) \<Longrightarrow> pl_step c s (do_leave c s)"
| worker: "wk_busy s \<Longrightarrow> worker_run as s = Some s' \<Longrightarrow> pl_step c s s'"
| event: "pl_pc s \<noteq> Over \<Longrightarrow> pl_step c s (on_release c i s)"

inductive_cases pl_stepE: "pl_step c s t"

section \<open>Every frame has one owner\<close>

definition main_has :: "pcfg \<Rightarrow> player \<Rightarrow> vframe list" where
  "main_has c s =
     (case pl_pc s of
        Got (Some f) \<Rightarrow> [f]
      | Have (Some f) zi slot \<Rightarrow> if zero_copy c \<or> pipeline c then [f] else []
      | Show (Some f) zi slot \<Rightarrow> if zero_copy c then [f] else []
      | _ \<Rightarrow> [])"

text \<open>The worker's picture is the main thread's while that works on it.\<close>

definition worker_has :: "player \<Rightarrow> vframe list" where
  "worker_has s =
     (if wk_busy s then wk_rel s
      else if wk_ok s \<and> (case pl_pc s of Got _ \<Rightarrow> False | Have _ _ _ \<Rightarrow> False | Over \<Rightarrow> False | _ \<Rightarrow> True) then [wk_fi s]
      else [])"

definition sway_has :: "player \<Rightarrow> vframe list" where
  "sway_has s = map z_fi (filter z_busy (g_zc s))"

definition owned :: "pcfg \<Rightarrow> player \<Rightarrow> u64 multiset" where
  "owned c s = mset (map f_pa (main_has c s @ worker_has s @ g_rel s @ sway_has s))"

definition vok :: "vdec \<Rightarrow> bool" where
  "vok v \<longleftrightarrow> distinct (v_out v) \<and> length (v_out v) \<le> MAX_HELD \<and> \<not> v_bad v"

definition zcs_ok :: "zbuf list \<Rightarrow> bool" where
  "zcs_ok zs \<longleftrightarrow> distinct (map z_pa zs) \<and> (\<forall>z \<in> set zs. z_busy z \<longrightarrow> z_pa z = f_pa (z_fi z))"

definition pick_ok :: "pcfg \<Rightarrow> player \<Rightarrow> vframe option \<Rightarrow> nat option \<Rightarrow> nat option \<Rightarrow> bool" where
  "pick_ok c s r zi slot \<longleftrightarrow>
     (case r of
        None \<Rightarrow> zi = None \<and> slot = None
      | Some f \<Rightarrow>
          if zero_copy c then slot = None \<and> (\<exists>i < length (g_zc s). zi = Some i \<and> z_pa (g_zc s ! i) = f_pa f \<and> \<not> z_busy (g_zc s ! i))
          else zi = None \<and> (\<forall>i. slot = Some i \<longrightarrow> i < DB_N \<and> \<not> g_db s ! i))"

definition pc_ok :: "pcfg \<Rightarrow> player \<Rightarrow> bool" where
  "pc_ok c s \<longleftrightarrow>
     (case pl_pc s of
        Got r \<Rightarrow> \<not> wk_busy s \<and> (pipeline c \<longrightarrow> r = (if wk_ok s then Some (wk_fi s) else None))
      | Have r zi slot \<Rightarrow> \<not> wk_busy s \<and> pick_ok c s r zi slot
      | Show r zi slot \<Rightarrow> pick_ok c s r zi slot
      | Over \<Rightarrow> \<not> wk_busy s \<and> g_rel s = []
      | _ \<Rightarrow> True)"

definition pl_inv :: "pcfg \<Rightarrow> player \<Rightarrow> bool" where
  "pl_inv c s \<longleftrightarrow> owned c s = mset (v_out (pl_v s)) \<and> vok (pl_v s) \<and> \<not> pl_lost s \<and> \<not> pl_race s \<and> \<not> pl_torn s \<and>
     (pipeline c \<or> \<not> wk_busy s \<and> \<not> wk_ok s) \<and> zcs_ok (g_zc s) \<and> (zero_copy c \<or> g_zc s = []) \<and> length (g_db s) = DB_N \<and> pc_ok c s"

subsection \<open>The decoder's side\<close>

lemma vd_take_ok:
  assumes "vd_take f v = Some v'" "vok v"
  shows "vok v' \<and> mset (v_out v') = add_mset (f_pa f) (mset (v_out v))"
  using assms by (auto simp: vd_take_def vok_def split: if_splits)

lemma vd_release_ok:
  assumes "vok v" "mset (v_out v) = add_mset (f_pa f) M"
  shows "vok (vd_release f v) \<and> mset (v_out (vd_release f v)) = M"
proof -
  have "f_pa f \<in> set (v_out v)" using assms(2) by (metis set_mset_mset union_single_eq_member)
  then show ?thesis using assms by (auto simp: vd_release_def vok_def length_remove1)
qed

lemma vd_releases_ok:
  "vok v \<Longrightarrow> mset (v_out v) = mset (map f_pa fs) + M \<Longrightarrow>
   vok (fold vd_release fs v) \<and> mset (v_out (fold vd_release fs v)) = M"
proof (induction fs arbitrary: v)
  case (Cons f fs)
  from vd_release_ok [OF Cons.prems(1), of f "mset (map f_pa fs) + M"] Cons show ?case by simp
qed simp

lemma drain_ok:
  "drain f ns v = Some (f', v') \<Longrightarrow> vok v \<Longrightarrow> mset (v_out v) = add_mset (f_pa f) M \<Longrightarrow>
   vok v' \<and> mset (v_out v') = add_mset (f_pa f') M"
proof (induction f ns v rule: drain.induct)
  case (2 f n ns v)
  then obtain v1 where v1: "vd_take n v = Some v1"
      "drain n ns ((vd_release f v1)\<lparr>g_stale := g_stale (vd_release f v1) + 1\<rparr>) = Some (f', v')"
    by (auto simp: Let_def bind_eq_Some_conv)
  have "vok v1" "mset (v_out v1) = add_mset (f_pa f) (add_mset (f_pa n) M)" using vd_take_ok [OF v1(1)] 2 by (auto simp: add_mset_commute)
  from vd_release_ok [OF this] have "vok ((vd_release f v1)\<lparr>g_stale := g_stale (vd_release f v1) + 1\<rparr>)"
      "mset (v_out ((vd_release f v1)\<lparr>g_stale := g_stale (vd_release f v1) + 1\<rparr>)) = add_mset (f_pa n) M" by (simp_all add: vok_def)
  with 2(1) [OF v1(1) refl v1(2)] show ?case by blast
qed simp

lemma decode_aus_ok:
  "decode_aus as v = Some (r, v') \<Longrightarrow> vok v \<Longrightarrow>
   vok v' \<and> mset (v_out v') = (case r of None \<Rightarrow> {#} | Some f \<Rightarrow> {#f_pa f#}) + mset (v_out v)"
proof (induction as arbitrary: v)
  case (Cons a as)
  let ?first = "case a_first a of Some f \<Rightarrow> Some (f, v) | None \<Rightarrow> map_option (\<lambda>f. (f, v\<lparr>g_late := g_late v + 1\<rparr>)) (a_late a)"
  show ?case
  proof (cases "a_send a \<longrightarrow> ?first = None")
    case True
    then have "decode_aus (a # as) v = Some (None, v)" by (cases "a_send a") simp_all
    then show ?thesis using Cons.prems by simp
  next
    case False
    then obtain f w where fw: "?first = Some (f, w)" by auto
    have w: "vok w" "v_out w = v_out v" using fw Cons.prems(2) by (auto simp: vok_def split: option.splits)
    obtain v1 f2 v2 where v: "vd_take f w = Some v1" "drain f (a_more a) v1 = Some (f2, v2)"
        "(if as \<noteq> [] then decode_aus as (vd_release f2 v2) else Some (Some f2, v2)) = Some (r, v')"
      using Cons.prems(1) False fw by (auto simp: bind_eq_Some_conv)
    have v1: "vok v1" "mset (v_out v1) = add_mset (f_pa f) (mset (v_out v))" using vd_take_ok [OF v(1) w(1)] w(2) by simp_all
    have v2: "vok v2" "mset (v_out v2) = add_mset (f_pa f2) (mset (v_out v))" using drain_ok [OF v(2) v1] by simp_all
    show ?thesis
    proof (cases "as = []")
      case True
      then show ?thesis using v(3) v2 by auto
    next
      case False
      then show ?thesis using Cons.IH [of "vd_release f2 v2"] v(3) vd_release_ok [OF v2] by simp
    qed
  qed
qed simp


subsection \<open>Lists of buffers\<close>

lemma filter_set_mset:
  "i < length xs \<Longrightarrow> \<not> P (xs ! i) \<Longrightarrow> P x \<Longrightarrow> mset (filter P (xs[i := x])) = add_mset x (mset (filter P xs))"
  by (induction xs arbitrary: i) (auto split: nat.splits)

lemma filter_clear_mset:
  "i < length xs \<Longrightarrow> P (xs ! i) \<Longrightarrow> \<not> P x \<Longrightarrow> mset (filter P xs) = add_mset (xs ! i) (mset (filter P (xs[i := x])))"
  by (induction xs arbitrary: i) (auto split: nat.splits)

lemma find_index:
  "List.find (\<lambda>i. P (xs ! i)) [0..<length xs] = Some i \<Longrightarrow> i < length xs \<and> P (xs ! i)"
  "List.find (\<lambda>i. P (xs ! i)) [0..<length xs] = None \<Longrightarrow> x \<in> set xs \<Longrightarrow> \<not> P x"
  by (auto simp: find_Some_iff find_None_iff in_set_conv_nth)

lemma zcs_ok_update:
  assumes "zcs_ok zs" "i < length zs" "z_pa z = z_pa (zs ! i)" "z_busy z \<Longrightarrow> z_pa z = f_pa (z_fi z)"
  shows "zcs_ok (zs[i := z])"
proof -
  have "map z_pa (zs[i := z]) = map z_pa zs" using assms(2,3) by (simp add: map_update list_update_same_conv)
  moreover have "\<forall>y \<in> set (zs[i := z]). z_busy y \<longrightarrow> z_pa y = f_pa (z_fi y)"
    using assms(1,4) by (auto simp: zcs_ok_def dest!: set_update_subset_insert [THEN subsetD])
  ultimately show ?thesis using assms(1) by (simp add: zcs_ok_def)
qed

lemma zc_get_ok:
  assumes "zc_get c ex idx f zs = (zi, zs')" "zcs_ok zs"
  shows "zcs_ok zs' \<and> filter z_busy zs' = filter z_busy zs \<and>
    (\<forall>i. zi = Some i \<longrightarrow> i < length zs' \<and> z_pa (zs' ! i) = f_pa f \<and> \<not> z_busy (zs' ! i))"
proof (cases "List.find (\<lambda>i. z_pa (zs ! i) = f_pa f) [0..<length zs]")
  case None
  have "f_pa f \<notin> z_pa ` set zs" using find_index(2) [OF None] by (metis imageE)
  with assms None show ?thesis
    by (auto simp: zc_get_def Let_def zcs_ok_def split: if_splits option.splits)
next
  case (Some i)
  with assms find_index(1) [OF Some] show ?thesis by (auto simp: zc_get_def Let_def split: if_splits)
qed

lemma db_released_keeps: "\<exists>d. length d = length (g_db s) \<and> fold db_released es s = s\<lparr>g_db := d\<rparr>"
proof (induction es arbitrary: s)
  case (Cons e es)
  from Cons [of "db_released e s"] show ?case by (auto simp: db_released_def)
qed (auto intro: exI [of _ "g_db s"])

lemma db_wait_ok:
  "db_wait ws s = (slot, s') \<Longrightarrow> length (g_db s) = DB_N \<Longrightarrow>
   (\<exists>d n. length d = DB_N \<and> s' = s\<lparr>g_db := d, g_db_next := n\<rparr>) \<and> (\<forall>i. slot = Some i \<longrightarrow> i < DB_N \<and> \<not> g_db s' ! i)"
proof (induction ws s rule: db_wait.induct)
  case (1 ws s)
  show ?case
  proof (cases "db_pick s")
    case None
    show ?thesis
    proof (cases ws)
      case Nil
      with 1 None show ?thesis by (auto intro!: exI [of _ "g_db s"] exI [of _ "g_db_next s"])
    next
      case (Cons es ws')
      obtain d where d: "length d = length (g_db s)" "fold db_released es s = s\<lparr>g_db := d\<rparr>" using db_released_keeps by blast
      from 1(1) [OF None Cons] 1(2,3) None Cons d show ?thesis by auto
    qed
  next
    case (Some i)
    then have "i < DB_N" "\<not> g_db s ! i" by (auto simp: db_pick_def find_Some_iff DB_N_def)
    with 1 Some show ?thesis by (auto intro!: exI [of _ "g_db s"])
  qed
qed

lemma db_get_ok:
  assumes "db_get es ws s = (slot, s')" "length (g_db s) = DB_N"
  shows "\<exists>d n. length d = DB_N \<and> s' = s\<lparr>g_db := d, g_db_next := n\<rparr>" "slot = Some i \<Longrightarrow> i < DB_N \<and> \<not> g_db s' ! i"
proof -
  obtain d where d: "length d = length (g_db s)" "fold db_released es s = s\<lparr>g_db := d\<rparr>" using db_released_keeps by blast
  with db_wait_ok [of ws "s\<lparr>g_db := d\<rparr>" slot s'] assms
  show "\<exists>d n. length d = DB_N \<and> s' = s\<lparr>g_db := d, g_db_next := n\<rparr>" "slot = Some i \<Longrightarrow> i < DB_N \<and> \<not> g_db s' ! i"
    by (auto simp: db_get_def)
qed

subsection \<open>Each operation keeps the owners\<close>

lemma fold_main_release:
  "fold main_release fs s = s\<lparr>pl_v := fold vd_release fs (pl_v s), pl_race := pl_race s \<or> fs \<noteq> [] \<and> wk_busy s\<rparr>"
proof (induction fs arbitrary: s)
  case (Cons f fs)
  then show ?case by (cases "wk_busy s") (simp_all add: main_release_def)
qed simp

lemma rel_flush_eq:
  "rel_flush s = s\<lparr>pl_v := fold vd_release (g_rel s) (pl_v s), pl_race := pl_race s \<or> g_rel s \<noteq> [] \<and> wk_busy s, g_rel := []\<rparr>"
  by (simp add: rel_flush_def fold_main_release)

lemma queue_room:
  assumes "pl_inv c s" "add_mset p (mset (map f_pa (g_rel s))) \<subseteq># owned c s"
  shows "length (g_rel s) < MAX_HELD"
proof -
  have "size (add_mset p (mset (map f_pa (g_rel s)))) \<le> size (mset (v_out (pl_v s)))"
    using assms by (metis pl_inv_def size_mset_mono)
  then show ?thesis using assms(1) by (simp add: pl_inv_def vok_def)
qed

lemmas has_defs = owned_def main_has_def worker_has_def sway_has_def

lemma do_decode_inv:
  assumes "pl_inv c s" "pl_pc s = Top" "\<not> pipeline c" "do_decode as s = Some s'"
  shows "pl_inv c s'"
proof -
  let ?v = "fold vd_release (g_rel s) (pl_v s)"
  have idle: "\<not> wk_busy s" "\<not> wk_ok s" using assms(1,3) by (auto simp: pl_inv_def)
  have "mset (v_out (pl_v s)) = mset (map f_pa (g_rel s)) + mset (map f_pa (sway_has s))"
    using assms(1,2) idle by (simp add: pl_inv_def has_defs)
  from vd_releases_ok [OF _ this] assms(1) have v: "vok ?v" "mset (v_out ?v) = mset (map f_pa (sway_has s))"
    by (simp_all add: pl_inv_def)
  obtain r w where r: "decode_aus as ?v = Some (r, w)" "s' = s\<lparr>pl_v := w, g_rel := [], pl_pc := Got r\<rparr>"
    using assms(1,4) idle by (auto simp: do_decode_def rel_flush_eq pl_inv_def)
  from decode_aus_ok [OF r(1) v(1)] v(2) assms idle r(2) show ?thesis
    by (cases r) (simp_all add: pl_inv_def has_defs pc_ok_def)
qed

lemma do_fetch_inv:
  assumes "pl_inv c s" "pl_pc s = Top" "pipeline c" "\<not> wk_busy s"
  shows "pl_inv c (do_fetch s)"
  using assms by (auto simp: pl_inv_def has_defs pc_ok_def do_fetch_def)

lemma main_release_inv:
  assumes "vok v" "mset (v_out v) = add_mset (f_pa f) M"
  shows "vok (vd_release f v)" "mset (v_out (vd_release f v)) = M"
  using vd_release_ok [OF assms] by simp_all

lemma give_up_inv:
  assumes "pl_inv c s" "pl_pc s = Got (Some f)"
  shows "pl_inv c (give_up c f s)"
proof (cases "pipeline c")
  case True
  then show ?thesis using assms by (auto simp: pl_inv_def has_defs pc_ok_def give_up_def split: if_splits)
next
  case False
  have "mset (v_out (pl_v s)) = add_mset (f_pa f) (mset (map f_pa (worker_has s @ g_rel s @ sway_has s)))"
    using assms by (simp add: pl_inv_def owned_def main_has_def)
  from main_release_inv [OF _ this] False assms show ?thesis
    by (auto simp: pl_inv_def has_defs pc_ok_def give_up_def main_release_def)
qed

lemma pl_inv_g_zc:
  assumes "pl_inv c s" "pl_pc s = Got r" "zero_copy c" "zcs_ok zs" "filter z_busy zs = filter z_busy (g_zc s)"
  shows "pl_inv c (s\<lparr>g_zc := zs\<rparr>)"
  using assms by (auto simp: pl_inv_def has_defs pc_ok_def split: if_splits)

lemma pl_inv_g_db:
  assumes "pl_inv c s" "pl_pc s = Got r" "length d = DB_N"
  shows "pl_inv c (s\<lparr>g_db := d, g_db_next := n\<rparr>)"
  using assms by (auto simp: pl_inv_def has_defs pc_ok_def split: if_splits)

lemma used_inv:
  assumes "pl_inv c s" "pl_pc s = Got (Some f)" "\<not> zero_copy c" "\<forall>i. slot = Some i \<longrightarrow> i < DB_N \<and> \<not> g_db s ! i"
  shows "pl_inv c ((if pipeline c then s else main_release f s)\<lparr>pl_pc := Have (Some f) None slot\<rparr>)"
proof (cases "pipeline c")
  case True
  then show ?thesis using assms by (auto simp: pl_inv_def has_defs pc_ok_def pick_ok_def split: if_splits)
next
  case False
  have "mset (v_out (pl_v s)) = add_mset (f_pa f) (mset (map f_pa (worker_has s @ g_rel s @ sway_has s)))"
    using assms by (simp add: pl_inv_def owned_def main_has_def)
  from main_release_inv [OF _ this] False assms show ?thesis
    by (auto simp: pl_inv_def has_defs pc_ok_def pick_ok_def main_release_def)
qed

lemma do_use_none_inv:
  assumes "pl_inv c s" "pl_pc s = Got None"
  shows "pl_inv c (do_use c u None s)"
  using assms by (auto simp: do_use_def pl_inv_def has_defs pc_ok_def pick_ok_def split: if_splits)

lemma do_use_inv:
  assumes "pl_inv c s" "pl_pc s = Got r"
  shows "pl_inv c (do_use c u r s)"
proof (cases r)
  case None
  then show ?thesis using do_use_none_inv assms by simp
next
  case (Some f)
  let ?s = "s\<lparr>pl_dry := 0\<rparr>"
  have s: "pl_inv c ?s" "pl_pc ?s = Got (Some f)" using assms Some by (auto simp: pl_inv_def has_defs pc_ok_def split: if_splits)
  consider (zc) "zero_copy c" | (db) "\<not> zero_copy c" "u_mapped u" "dmabuf c" | (other) "\<not> zero_copy c" "\<not> (u_mapped u \<and> dmabuf c)" by blast
  then show ?thesis
  proof cases
    case zc
    obtain zi zs where z: "zc_get c (u_export u) (u_idx u) f (g_zc ?s) = (zi, zs)" by (metis surj_pair)
    have "zcs_ok (g_zc ?s)" using s(1) by (simp add: pl_inv_def)
    note zs = zc_get_ok [OF z this]
    have t: "pl_inv c (?s\<lparr>g_zc := zs\<rparr>)" using pl_inv_g_zc [OF s zc] zs by blast
    show ?thesis
    proof (cases zi)
      case None
      with zc z Some give_up_inv [OF t] s(2) show ?thesis by (simp add: do_use_def)
    next
      case (Some i)
      with zc z \<open>r = Some f\<close> t zs s(2) show ?thesis
        by (auto simp: do_use_def pl_inv_def has_defs pc_ok_def pick_ok_def split: if_splits)
    qed
  next
    case db
    obtain slot t where d: "db_get (u_rel0 u) (u_waits u) ?s = (slot, t)" by (metis surj_pair)
    note ok = db_get_ok [OF d]
    have len: "length (g_db ?s) = DB_N" using s(1) by (simp add: pl_inv_def)
    then have t: "pl_inv c t" "pl_pc t = Got (Some f)" using ok(1) pl_inv_g_db [OF s] s(2) by auto
    show ?thesis
    proof (cases slot)
      case None
      with db d Some give_up_inv [OF t] show ?thesis by (simp add: do_use_def)
    next
      case (Some i)
      with ok(2) len have free: "i < DB_N" "\<not> g_db t ! i" by simp_all
      have "t\<lparr>pl_torn := pl_torn t\<rparr> = t" by simp
      with used_inv [OF t db(1), of "Some i"] free db d Some \<open>r = Some f\<close> show ?thesis by (simp add: do_use_def)
    qed
  next
    case other
    with Some give_up_inv [OF s] used_inv [OF s, of None] show ?thesis
      by (cases "u_mapped u"; cases "u_surface u") (simp_all add: do_use_def Let_def)
  qed
qed

lemma do_submit_inv:
  assumes "pl_inv c s" "pl_pc s = Have r zi slot"
  shows "pl_inv c (do_submit c r zi slot s)"
proof (cases "pipeline c \<and> \<not> zero_copy c \<and> r \<noteq> None")
  case True
  then obtain f where f: "r = Some f" by auto
  have "rel_push f s = s\<lparr>g_rel := g_rel s @ [f]\<rparr>"
    using queue_room [OF assms(1), of "f_pa f"] assms(2) True f by (simp add: owned_def main_has_def rel_push_def)
  with assms True f show ?thesis
    by (auto simp: do_submit_def worker_submit_def pl_inv_def has_defs pc_ok_def pick_ok_def split: if_splits)
next
  case False
  with assms show ?thesis
    by (auto simp: do_submit_def worker_submit_def pl_inv_def has_defs pc_ok_def pick_ok_def split: if_splits option.splits)
qed

lemma do_present_inv:
  assumes "pl_inv c s" "pl_pc s = Show r zi slot"
  shows "pl_inv c (do_present r zi slot s)"
proof (cases "zero_copy c \<and> r \<noteq> None")
  case True
  then obtain f i where f: "r = Some f" "zi = Some i" "i < length (g_zc s)" "z_pa (g_zc s ! i) = f_pa f" "\<not> z_busy (g_zc s ! i)"
    using assms by (auto simp: pl_inv_def pc_ok_def pick_ok_def)
  let ?z = "(g_zc s ! i)\<lparr>z_busy := True, z_fi := f\<rparr>"
  have "zcs_ok ((g_zc s)[i := ?z])" using assms(1) f by (intro zcs_ok_update) (simp_all add: pl_inv_def)
  moreover have "mset (filter z_busy ((g_zc s)[i := ?z])) = add_mset ?z (mset (filter z_busy (g_zc s)))"
    using f by (intro filter_set_mset) simp_all
  then have "image_mset (f_pa \<circ> z_fi) (filter_mset z_busy (mset ((g_zc s)[i := ?z]))) =
      add_mset (f_pa f) (image_mset (f_pa \<circ> z_fi) (filter_mset z_busy (mset (g_zc s))))" by simp
  ultimately show ?thesis using assms True f(1,2)
    by (auto simp: do_present_def pl_inv_def has_defs pc_ok_def split: if_splits)
next
  case False
  with assms show ?thesis
    by (auto simp: do_present_def pl_inv_def has_defs pc_ok_def pick_ok_def split: if_splits option.splits)
qed

lemma stop_inv:
  assumes "pl_inv c s" "pl_pc s = Top"
  shows "pl_inv c (s\<lparr>pl_pc := Leave\<rparr>)"
  using assms by (auto simp: pl_inv_def has_defs pc_ok_def split: if_splits)

lemma worker_run_inv:
  assumes "pl_inv c s" "wk_busy s" "worker_run as s = Some s'"
  shows "pl_inv c s'"
proof -
  let ?v = "fold vd_release (wk_rel s) (pl_v s)"
  let ?M = "mset (map f_pa (main_has c s @ g_rel s @ sway_has s))"
  have "mset (v_out (pl_v s)) = mset (map f_pa (wk_rel s)) + ?M"
    using assms(1) [unfolded pl_inv_def, THEN conjunct1, symmetric] assms(2) by (simp add: owned_def worker_has_def ac_simps)
  from vd_releases_ok [OF _ this] assms(1) have v: "vok ?v" "mset (v_out ?v) = ?M" by (simp_all add: pl_inv_def)
  obtain r w where r: "decode_aus as ?v = Some (r, w)"
      "s' = s\<lparr>pl_v := w, wk_busy := False, wk_ok := (r \<noteq> None), wk_fi := (case r of Some f \<Rightarrow> f | None \<Rightarrow> wk_fi s)\<rparr>"
    using assms(3) by (auto simp: worker_run_def)
  have "pick_ok c s' = pick_ok c s" using r(2) by (intro ext) (auto simp: pick_ok_def split: option.split)
  with decode_aus_ok [OF r(1) v(1)] v(2) assms r(2) show ?thesis
    by (cases r; cases "pl_pc s") (auto simp: pl_inv_def has_defs pc_ok_def)
qed

lemma do_leave_inv:
  assumes "pl_inv c s" "pl_pc s = Leave" "\<not> (pipeline c \<and> wk_busy s)"
  shows "pl_inv c (do_leave c s)" "owned c (do_leave c s) = mset (map f_pa (sway_has s))"
proof -
  let ?fs = "(if wk_ok s then [wk_fi s] else []) @ g_rel s"
  have idle: "\<not> wk_busy s" "\<not> pipeline c \<Longrightarrow> \<not> wk_ok s" using assms(1,3) by (auto simp: pl_inv_def)
  have "mset (v_out (pl_v s)) = mset (map f_pa ?fs) + mset (map f_pa (sway_has s))"
    using assms(1,2) idle by (auto simp: pl_inv_def has_defs split: if_splits)
  from vd_releases_ok [OF _ this] assms(1) have v: "vok (fold vd_release ?fs (pl_v s))"
      "mset (v_out (fold vd_release ?fs (pl_v s))) = mset (map f_pa (sway_has s))" by (simp_all add: pl_inv_def)
  have "do_leave c s = s\<lparr>pl_v := fold vd_release ?fs (pl_v s), g_rel := [], pl_pc := Over\<rparr>"
    using assms(1) idle by (auto simp: do_leave_def rel_flush_eq main_release_def pl_inv_def)
  with v assms idle show "pl_inv c (do_leave c s)" "owned c (do_leave c s) = mset (map f_pa (sway_has s))"
    by (auto simp: pl_inv_def has_defs pc_ok_def)
qed

lemma zc_released_inv:
  assumes "pl_inv c s" "pl_pc s \<noteq> Over"
  shows "pl_inv c (zc_released i s)"
proof (cases "i < length (g_zc s) \<and> z_busy (g_zc s ! i)")
  case False
  then have "zc_released i s = s" by (simp only: zc_released_def if_False)
  then show ?thesis using assms by simp
next
  case True
  let ?f = "z_fi (g_zc s ! i)" let ?zs = "(g_zc s)[i := (g_zc s ! i)\<lparr>z_busy := False\<rparr>]"
  have "mset (filter z_busy (g_zc s)) = add_mset (g_zc s ! i) (mset (filter z_busy ?zs))"
    using True by (intro filter_clear_mset) simp_all
  then have sway: "image_mset (f_pa \<circ> z_fi) (filter_mset z_busy (mset (g_zc s))) =
      add_mset (f_pa ?f) (image_mset (f_pa \<circ> z_fi) (filter_mset z_busy (mset ?zs)))" by simp
  then have "add_mset (f_pa ?f) (mset (map f_pa (g_rel s))) \<subseteq># owned c s"
    by (simp add: owned_def sway_has_def subset_mset.add_increasing)
  from queue_room [OF assms(1) this] have eq: "zc_released i s = s\<lparr>g_zc := ?zs, g_rel := g_rel s @ [?f]\<rparr>"
    using True by (simp add: zc_released_def rel_push_def)
  have zs: "zcs_ok ?zs" "g_zc s \<noteq> []" using assms(1) True by (auto intro!: zcs_ok_update simp: pl_inv_def)
  have pick: "pick_ok c (s\<lparr>g_zc := ?zs, g_rel := g_rel s @ [?f]\<rparr>) r zi slot" if "pick_ok c s r zi slot" for r zi slot
    using that True by (auto simp: pick_ok_def nth_list_update split: option.splits if_splits)
  have "pc_ok c (s\<lparr>g_zc := ?zs, g_rel := g_rel s @ [?f]\<rparr>)"
    using assms pick by (auto simp: pl_inv_def pc_ok_def split: phase.splits)
  moreover have "owned c (s\<lparr>g_zc := ?zs, g_rel := g_rel s @ [?f]\<rparr>) = owned c s"
    using sway by (simp add: has_defs)
  ultimately show ?thesis using assms(1) zs eq by (simp add: pl_inv_def)
qed

lemma on_release_inv:
  assumes "pl_inv c s" "pl_pc s \<noteq> Over"
  shows "pl_inv c (on_release c i s)"
proof (cases "zero_copy c")
  case True
  then show ?thesis using zc_released_inv [OF assms] by (simp add: on_release_def)
next
  case False
  let ?t = "s\<lparr>g_db := (g_db s)[i := False]\<rparr>"
  have "pick_ok c ?t r zi slot" if "pick_ok c s r zi slot" for r zi slot
    using that assms(1) False
    by (cases "i < length (g_db s)") (auto simp: pick_ok_def pl_inv_def nth_list_update list_update_beyond split: option.splits)
  then have "pc_ok c ?t" using assms(1) by (auto simp: pl_inv_def pc_ok_def split: phase.splits)
  moreover have "owned c ?t = owned c s" by (simp add: has_defs)
  ultimately show ?thesis using assms(1) False by (auto simp: pl_inv_def on_release_def db_released_def)
qed

lemma pl_step_inv: "pl_step c s t \<Longrightarrow> pl_inv c s \<Longrightarrow> pl_inv c t"
  by (erule pl_stepE)
    (auto intro: do_decode_inv do_fetch_inv do_use_inv do_submit_inv do_present_inv stop_inv do_leave_inv worker_run_inv on_release_inv)

lemma player0_inv: "pl_inv c (player0 c)"
  by (simp add: player0_def pl_inv_def has_defs vok_def zcs_ok_def pc_ok_def)

interpretation pl: step_invariant "player0 c" "pl_step c" "pl_inv c" for c
  by unfold_locales (auto intro: player0_inv pl_step_inv)

section \<open>What holds in every run\<close>

lemma got_not_held:
  assumes "pl_inv c s" "pl_pc s = Got (Some f)" "z \<in> set (g_zc s)" "z_busy z"
  shows "z_pa z \<noteq> f_pa f"
proof
  assume "z_pa z = f_pa f"
  then have "f_pa f \<in># mset (map f_pa (sway_has s))" using assms by (force simp: sway_has_def pl_inv_def zcs_ok_def)
  then have "count (mset (map f_pa (sway_has s))) (f_pa f) \<ge> 1" by (simp only: count_greater_eq_one_iff)
  moreover have "count (owned c s) (f_pa f) \<ge> 1 + count (mset (map f_pa (sway_has s))) (f_pa f)"
    using assms(2) by (simp add: owned_def main_has_def)
  ultimately have "count (owned c s) (f_pa f) \<ge> 2" by linarith
  moreover have "count (owned c s) (f_pa f) \<le> 1" using assms(1) by (metis distinct_count_atmost_1 dual_order.refl le0 pl_inv_def vok_def)
  ultimately show False by simp
qed

text \<open>
  C4. In every run of the player, in each of its modes: no frame is given back to the decoder that is not
  out, so none twice; the release queue never overflows; the main thread makes no decoder call while the
  worker may; no dumb buffer is written while the compositor holds it; each frame that is out has exactly
  one owner among the main thread, the worker, the release queue and the compositor; \<open>zc_get\<close> never meets
  a frame whose buffer the compositor still holds; and once the loop is left, the frames still out are
  exactly those the compositor holds.
\<close>

theorem frames_owned_once:
  assumes "reach (player0 c) (pl_step c) s"
  shows "\<not> v_bad (pl_v s) \<and> \<not> pl_lost s \<and> \<not> pl_race s \<and> \<not> pl_torn s \<and>
    distinct (v_out (pl_v s)) \<and> owned c s = mset (v_out (pl_v s)) \<and>
    (\<forall>f. pl_pc s = Got (Some f) \<longrightarrow> (\<forall>z \<in> set (g_zc s). z_busy z \<longrightarrow> z_pa z \<noteq> f_pa f)) \<and>
    (pl_pc s = Over \<longrightarrow> mset (v_out (pl_v s)) = mset (map (f_pa \<circ> z_fi) (filter z_busy (g_zc s))))"
proof -
  have inv: "pl_inv c s" using assms by (rule pl.reach_inv)
  then have "mset (v_out (pl_v s)) = mset (map (f_pa \<circ> z_fi) (filter z_busy (g_zc s)))" if "pl_pc s = Over"
    using that by (auto simp: pl_inv_def pc_ok_def has_defs)
  with inv got_not_held [OF inv] show ?thesis by (auto simp: pl_inv_def vok_def)
qed

text \<open>A pipelined zero-copy run: one frame decoded, shown, then the player stops with a second one decoded.\<close>

definition demo_cfg :: pcfg where
  "demo_cfg = \<lparr>pipeline = True, zero_copy = True, dmabuf = True, pW = 1280, pH = 720\<rparr>"

definition demo_frame :: "u64 \<Rightarrow> vframe" where
  "demo_frame pa = \<lparr>f_pa = pa, f_pa1 = pa + 942080, f_stride0 = 1280, f_stride1 = 1280, f_width = 1280, f_height = 720\<rparr>"

definition demo_au :: "u64 \<Rightarrow> au_ans" where
  "demo_au pa = \<lparr>a_send = True, a_first = None, a_late = Some (demo_frame pa), a_more = []\<rparr>"

definition demo_use :: use_ans where
  "demo_use = \<lparr>u_export = Some (5, 0, 1413120), u_idx = 0, u_mapped = False, u_surface = False, u_rel0 = [], u_waits = []\<rparr>"

definition demo_shown :: player where
  "demo_shown =
     (let s = the (worker_run [demo_au 4096] (player0 demo_cfg));
          s = do_use demo_cfg demo_use (Some (demo_frame 4096)) (do_fetch s);
          s = do_submit demo_cfg (Some (demo_frame 4096)) (Some 0) None s in
      do_present (Some (demo_frame 4096)) (Some 0) None s)"

definition demo_over :: player where
  "demo_over = do_leave demo_cfg ((the (worker_run [demo_au 8192] demo_shown))\<lparr>pl_pc := Leave\<rparr>)"

lemma demo_shown_reach: "reach (player0 demo_cfg) (pl_step demo_cfg) demo_shown"
proof -
  let ?R = "reach (player0 demo_cfg) (pl_step demo_cfg)"
  let ?f = "demo_frame 4096"
  let ?s = "the (worker_run [demo_au 4096] (player0 demo_cfg))"
  have "worker_run [demo_au 4096] (player0 demo_cfg) = Some ?s" "wk_busy (player0 demo_cfg)" by code_simp+
  then have "?R ?s" by (meson reach.start reach.step pl_step.worker)
  moreover have "pl_pc ?s = Top" "pipeline demo_cfg" "\<not> wk_busy ?s" by code_simp+
  ultimately have "?R (do_fetch ?s)" by (meson reach.step pl_step.fetch)
  moreover have "pl_pc (do_fetch ?s) = Got (Some ?f)" by code_simp
  ultimately have "?R (do_use demo_cfg demo_use (Some ?f) (do_fetch ?s))" by (meson reach.step pl_step.use)
  moreover have "pl_pc (do_use demo_cfg demo_use (Some ?f) (do_fetch ?s)) = Have (Some ?f) (Some 0) None" by code_simp
  ultimately have "?R (do_submit demo_cfg (Some ?f) (Some 0) None (do_use demo_cfg demo_use (Some ?f) (do_fetch ?s)))"
    by (meson reach.step pl_step.submit)
  moreover have "pl_pc (do_submit demo_cfg (Some ?f) (Some 0) None (do_use demo_cfg demo_use (Some ?f) (do_fetch ?s)))
      = Show (Some ?f) (Some 0) None" by code_simp
  ultimately show ?thesis unfolding demo_shown_def Let_def by (meson reach.step pl_step.present)
qed

lemma demo_over_reach: "reach (player0 demo_cfg) (pl_step demo_cfg) demo_over"
proof -
  let ?R = "reach (player0 demo_cfg) (pl_step demo_cfg)"
  let ?t = "the (worker_run [demo_au 8192] demo_shown)"
  have "worker_run [demo_au 8192] demo_shown = Some ?t" "wk_busy demo_shown" by code_simp+
  then have "?R ?t" using demo_shown_reach by (meson reach.step pl_step.worker)
  moreover have "pl_pc ?t = Top" by code_simp
  then have "pl_step demo_cfg ?t (?t\<lparr>pl_pc := Leave\<rparr>)" by (rule pl_step.stop)
  ultimately have "?R (?t\<lparr>pl_pc := Leave\<rparr>)" by (rule reach.step)
  moreover have "pl_pc (?t\<lparr>pl_pc := Leave\<rparr>) = Leave" "\<not> (pipeline demo_cfg \<and> wk_busy (?t\<lparr>pl_pc := Leave\<rparr>))" by (simp, code_simp)
  ultimately show ?thesis unfolding demo_over_def by (meson reach.step pl_step.leave)
qed

theorem frames_owned_once_witness:
  "reach (player0 demo_cfg) (pl_step demo_cfg) demo_over \<and> pl_pc demo_over = Over \<and> \<not> v_bad (pl_v demo_over) \<and>
   mset (v_out (pl_v demo_over)) = {#4096#}"
proof -
  have "mset (map (f_pa \<circ> z_fi) (filter z_busy (g_zc demo_over))) = {#4096#}" by code_simp
  moreover have "pl_pc demo_over = Over" by code_simp
  ultimately show ?thesis using frames_owned_once [OF demo_over_reach] demo_over_reach by simp
qed

end
