(* ===== verification/Badge1.thy ===== *)
theory Badge1
  imports Prelude
begin

text \<open>
  The firmware of the first badge (\<open>pkgs/v1/nix-badge-v1/src/main\<close>): the LED strip encoder, the ping of the main
  loop, the mesh messages and the cache proxy's handlers. What ESP-IDF does is a parameter. Its
  \<open>rmt_encoder_t\<close> interface, which the strip encoder both uses twice and implements, is the locale \<open>rmt_encoder\<close>.
\<close>

section \<open>Symbols\<close>

text \<open>\<open>rmt_symbol_word_t\<close>: two levels with their durations in ticks.\<close>

record symbol =
  level0 :: bool
  duration0 :: nat
  level1 :: bool
  duration1 :: nat

text \<open>
  \<open>rmt_new_led_strip_encoder\<close>: the codes of a 0 and a 1 for the resolution (in Hz), and the reset code. The
  products with 0.3 and 0.9 are truncated to ticks.
\<close>

definition bit0_code :: "nat \<Rightarrow> symbol" where
  "bit0_code resolution = \<lparr>level0 = True, duration0 = 3 * resolution div 10000000, level1 = False, duration1 = 9 * resolution div 10000000\<rparr>"

definition bit1_code :: "nat \<Rightarrow> symbol" where
  "bit1_code resolution = \<lparr>level0 = True, duration0 = 9 * resolution div 10000000, level1 = False, duration1 = 3 * resolution div 10000000\<rparr>"

definition reset_code :: "nat \<Rightarrow> symbol" where
  "reset_code resolution =
     (let reset_ticks = resolution div 1000000 * 50 div 2 in
      \<lparr>level0 = False, duration0 = reset_ticks, level1 = False, duration1 = reset_ticks\<rparr>)"

definition RMT_LED_STRIP_RESOLUTION_HZ :: nat where
  "RMT_LED_STRIP_RESOLUTION_HZ = 10000000"

text \<open>Most significant bit first.\<close>

definition byte_symbols :: "nat \<Rightarrow> u8 \<Rightarrow> symbol list" where
  "byte_symbols resolution b = map (\<lambda>i. if bit b (7 - i) then bit1_code resolution else bit0_code resolution) [0..<8]"

section \<open>The strip encoder\<close>

text \<open>
  The answer of \<open>encode\<close>: the encoder afterwards, the symbols written, and the flags \<open>RMT_ENCODING_COMPLETE\<close> and
  \<open>RMT_ENCODING_MEM_FULL\<close>. An encoder is called with its data and the free symbols of the channel's memory.
\<close>

type_synonym ('e, 'd) encode = "'e \<Rightarrow> 'd \<Rightarrow> nat \<Rightarrow> 'e \<times> symbol list \<times> bool \<times> bool"

record ('b, 'c) strip =
  bytes_encoder :: 'b
  copy_encoder :: 'c
  state :: nat

definition send_reset ::
  "('c, symbol list) encode \<Rightarrow> nat \<Rightarrow> ('b, 'c) strip \<Rightarrow> nat \<Rightarrow> ('b, 'c) strip \<times> symbol list \<times> bool \<times> bool" where
  "send_reset copy res s mem =
     (let (c, out, complete, full) = copy (copy_encoder s) [reset_code res] mem in
      (s\<lparr>copy_encoder := c, state := (if complete then 0 else state s)\<rparr>, out, complete, full))"

definition rmt_encode_led_strip ::
  "('b, u8 list) encode \<Rightarrow> ('c, symbol list) encode \<Rightarrow> nat \<Rightarrow> (('b, 'c) strip, u8 list) encode" where
  "rmt_encode_led_strip bytes copy res s data mem =
     (if state s = 0 then
        let (b, out, complete, full) = bytes (bytes_encoder s) data mem;
            s = s\<lparr>bytes_encoder := b, state := (if complete then 1 else state s)\<rparr> in
        if full then (s, out, False, True)
        else
          let (s, out', complete, full) = send_reset copy res s (mem - length out) in (s, out @ out', complete, full)
      else if state s = 1 then send_reset copy res s mem
      else (s, [], False, False))"

definition rmt_led_strip_encoder_reset :: "('b \<Rightarrow> 'b) \<Rightarrow> ('c \<Rightarrow> 'c) \<Rightarrow> ('b, 'c) strip \<Rightarrow> ('b, 'c) strip" where
  "rmt_led_strip_encoder_reset reset_b reset_c s =
     \<lparr>bytes_encoder = reset_b (bytes_encoder s), copy_encoder = reset_c (copy_encoder s), state = 0\<rparr>"

text \<open>A transmission (\<open>rmt_transmit\<close>): the memory is refilled until the encoder reports that it is done.\<close>

fun transmit :: "('e, 'd) encode \<Rightarrow> 'e \<Rightarrow> 'd \<Rightarrow> nat list \<Rightarrow> 'e \<times> symbol list \<times> bool" where
  "transmit encode e d [] = (e, [], False)"
| "transmit encode e d (m # ms) =
     (case encode e d m of (e', out, complete, full) \<Rightarrow>
        if complete then (e', out, True) else (case transmit encode e' d ms of (e'', out', c) \<Rightarrow> (e'', out @ out', c)))"

text \<open>
  The interface. \<open>idle\<close> is the encoder between transmissions, \<open>ok\<close> holds of the states it can be in, \<open>left e d\<close> is
  what is still to be written of \<open>d\<close>. A call writes a prefix of that; when it reports that all is written, the
  encoder is idle again; it stops early only when the memory is full, and reports full only then.
\<close>

locale rmt_encoder =
  fixes encode :: "('e, 'd) encode" and idle :: 'e and ok :: "'e \<Rightarrow> 'd \<Rightarrow> bool" and left :: "'e \<Rightarrow> 'd \<Rightarrow> symbol list"
  assumes ok_idle: "ok idle d"
    and ok_encode: "ok e d \<Longrightarrow> encode e d m = (e', out, complete, full) \<Longrightarrow> ok e' d"
    and in_order: "ok e d \<Longrightarrow> encode e d m = (e', out, complete, full) \<Longrightarrow> left e d = out @ (if complete then [] else left e' d)"
    and done_idle: "ok e d \<Longrightarrow> encode e d m = (e', out, True, full) \<Longrightarrow> e' = idle"
    and stops_full: "ok e d \<Longrightarrow> encode e d m = (e', out, False, full) \<Longrightarrow> full"
    and fits: "ok e d \<Longrightarrow> encode e d m = (e', out, complete, full) \<Longrightarrow> length out \<le> m"
    and full_used: "ok e d \<Longrightarrow> encode e d m = (e', out, complete, True) \<Longrightarrow> length out = m"
begin

lemma transmit_ends:
  "ok e d \<Longrightarrow> length (left e d) < sum_list ms \<Longrightarrow> transmit encode e d ms = (idle, left e d, True)"
proof (induction ms arbitrary: e)
  case (Cons m ms)
  obtain e' out complete full where e: "encode e d m = (e', out, complete, full)" by (metis prod_cases4)
  show ?case
  proof (cases complete)
    case True
    with e in_order [OF Cons.prems(1) e] done_idle [OF Cons.prems(1)] show ?thesis by simp
  next
    case False
    then have "length out = m" using e stops_full [OF Cons.prems(1)] full_used [OF Cons.prems(1)] by metis
    moreover have "left e d = out @ left e' d" using in_order [OF Cons.prems(1) e] False by simp
    ultimately show ?thesis using Cons.IH [of e'] ok_encode [OF Cons.prems(1) e] Cons.prems(2) e False by simp
  qed
qed simp

end

text \<open>The strip encoder uses the interface twice and implements it.\<close>

definition strip_idle :: "'b \<Rightarrow> 'c \<Rightarrow> ('b, 'c) strip" where
  "strip_idle b c = \<lparr>bytes_encoder = b, copy_encoder = c, state = 0\<rparr>"

definition strip_ok ::
  "'b \<Rightarrow> ('b \<Rightarrow> u8 list \<Rightarrow> bool) \<Rightarrow> 'c \<Rightarrow> ('c \<Rightarrow> symbol list \<Rightarrow> bool) \<Rightarrow> nat \<Rightarrow> ('b, 'c) strip \<Rightarrow> u8 list \<Rightarrow> bool" where
  "strip_ok b0 okb c0 okc res s d \<longleftrightarrow>
     state s = 0 \<and> okb (bytes_encoder s) d \<and> copy_encoder s = c0 \<or> state s = 1 \<and> bytes_encoder s = b0 \<and> okc (copy_encoder s) [reset_code res]"

definition strip_left ::
  "('b \<Rightarrow> u8 list \<Rightarrow> symbol list) \<Rightarrow> ('c \<Rightarrow> symbol list \<Rightarrow> symbol list) \<Rightarrow> nat \<Rightarrow> ('b, 'c) strip \<Rightarrow> u8 list \<Rightarrow> symbol list" where
  "strip_left lb lc res s d = (if state s = 0 then lb (bytes_encoder s) d else []) @ lc (copy_encoder s) [reset_code res]"

locale strip_encoder =
  b: rmt_encoder bytes b0 okb lb + c: rmt_encoder copy c0 okc lc
  for bytes :: "('b, u8 list) encode" and b0 okb lb and copy :: "('c, symbol list) encode" and c0 okc lc +
  fixes res :: nat
begin

lemma send_reset_ok:
  assumes s: "okc (copy_encoder s) [reset_code res]" "bytes_encoder s = b0" "state s = 1"
    and e: "send_reset copy res s m = (s', out, complete, full)"
  shows "lc (copy_encoder s) [reset_code res] = out @ (if complete then [] else strip_left lb lc res s' d)"
    "complete \<Longrightarrow> s' = strip_idle b0 c0" "strip_ok b0 okb c0 okc res s' d" "\<not> complete \<Longrightarrow> full" "length out \<le> m" "full \<Longrightarrow> length out = m"
proof -
  obtain c' where c: "copy (copy_encoder s) [reset_code res] m = (c', out, complete, full)"
      "s' = s\<lparr>copy_encoder := c', state := (if complete then 0 else 1)\<rparr>"
    using e s(3) by (auto simp: send_reset_def split: prod.splits)
  note laws = c.in_order [OF s(1) c(1)] c.ok_encode [OF s(1) c(1)] c.fits [OF s(1) c(1)]
  have idle: "c' = c0" if complete using c.done_idle [OF s(1)] c(1) that by simp
  show "lc (copy_encoder s) [reset_code res] = out @ (if complete then [] else strip_left lb lc res s' d)"
    using laws c(2) by (simp add: strip_left_def)
  show "complete \<Longrightarrow> s' = strip_idle b0 c0" using idle c(2) s(2) by (simp add: strip_idle_def)
  show "strip_ok b0 okb c0 okc res s' d" using laws idle c(2) s(2) b.ok_idle by (simp add: strip_ok_def)
  show "\<not> complete \<Longrightarrow> full" "length out \<le> m" "full \<Longrightarrow> length out = m"
    using c(1) c.stops_full [OF s(1)] c.full_used [OF s(1)] laws(3) by auto
qed

lemma strip_encode_ok:
  assumes s: "strip_ok b0 okb c0 okc res s d" and e: "rmt_encode_led_strip bytes copy res s d m = (s', out, complete, full)"
  shows "strip_left lb lc res s d = out @ (if complete then [] else strip_left lb lc res s' d) \<and> (complete \<longrightarrow> s' = strip_idle b0 c0) \<and>
    strip_ok b0 okb c0 okc res s' d \<and> (complete \<or> full) \<and> length out \<le> m \<and> (full \<longrightarrow> length out = m)"
proof (cases "state s = 0")
  case False
  then have s1: "okc (copy_encoder s) [reset_code res]" "bytes_encoder s = b0" "state s = 1" using s by (auto simp: strip_ok_def)
  then have "send_reset copy res s m = (s', out, complete, full)" using e by (simp add: rmt_encode_led_strip_def)
  from send_reset_ok(1,3) [OF s1 this, of d] send_reset_ok(2,4-6) [OF s1 this] s1(3) show ?thesis by (auto simp: strip_left_def)
next
  case True
  then have s0: "okb (bytes_encoder s) d" "copy_encoder s = c0" using s by (auto simp: strip_ok_def)
  obtain b' o1 c1 f1 where b: "bytes (bytes_encoder s) d m = (b', o1, c1, f1)" by (metis prod_cases4)
  note laws = b.in_order [OF s0(1) b] b.ok_encode [OF s0(1) b] b.fits [OF s0(1) b]
  have idle: "b' = b0" if c1 using b.done_idle [OF s0(1)] b that by simp
  let ?s1 = "s\<lparr>bytes_encoder := b', state := (if c1 then 1 else 0)\<rparr>"
  show ?thesis
  proof (cases f1)
    case f1: True
    then have r: "s' = ?s1" "out = o1" "\<not> complete" "full" using e True b by (auto simp: rmt_encode_led_strip_def)
    have "length o1 = m" using b.full_used [OF s0(1)] b f1 by simp
    with r laws idle s0(2) True c.ok_idle show ?thesis by (auto simp: strip_left_def strip_ok_def)
  next
    case f1: False
    then have c1: c1 using b b.stops_full [OF s0(1)] by (metis (full_types))
    have s1: "okc (copy_encoder ?s1) [reset_code res]" "bytes_encoder ?s1 = b0" "state ?s1 = 1"
      using c1 idle s0(2) c.ok_idle by simp_all
    obtain o2 where o2: "send_reset copy res ?s1 (m - length o1) = (s', o2, complete, full)" "out = o1 @ o2"
      using e True b f1 c1 by (auto simp: rmt_encode_led_strip_def split: prod.splits)
    from send_reset_ok(1,3) [OF s1 o2(1), of d] send_reset_ok(2,4-6) [OF s1 o2(1)] laws c1 o2(2) True s0(2) show ?thesis by (auto simp: strip_left_def)
  qed
qed

end

sublocale strip_encoder \<subseteq> strip: rmt_encoder "rmt_encode_led_strip bytes copy res" "strip_idle b0 c0" "strip_ok b0 okb c0 okc res" "strip_left lb lc res"
proof
  show "strip_ok b0 okb c0 okc res (strip_idle b0 c0) d" for d using b.ok_idle by (simp add: strip_ok_def strip_idle_def)
qed (use strip_encode_ok in \<open>blast+\<close>)

context strip_encoder
begin

lemma strip_rmt: "rmt_encoder (rmt_encode_led_strip bytes copy res) (strip_idle b0 c0) (strip_ok b0 okb c0 okc res) (strip_left lb lc res)"
  by (rule strip.rmt_encoder_axioms)

end

text \<open>An encoder as ESP-IDF describes its own two: it writes what fits and remembers how far it got.\<close>

definition mem_encode :: "('d \<Rightarrow> symbol list) \<Rightarrow> (nat, 'd) encode" where
  "mem_encode syms e d m =
     (let todo = drop e (syms d) in
      if length todo \<le> m then (0, todo, True, length todo = m) else (e + m, take m todo, False, True))"

lemma mem_encode_rmt: "rmt_encoder (mem_encode syms) 0 (\<lambda>_ _. True) (\<lambda>e d. drop e (syms d))"
proof
  fix e d m e' out complete full
  assume e: "mem_encode syms e d m = (e', out, complete, full)"
  show "drop e (syms d) = out @ (if complete then [] else drop e' (syms d))"
    using e append_take_drop_id [of m "drop e (syms d)"] by (auto simp: mem_encode_def Let_def add.commute split: if_splits)
  show "length out \<le> m" using e by (auto simp: mem_encode_def Let_def split: if_splits)
qed (auto simp: mem_encode_def Let_def split: if_splits)

interpretation leds: strip_encoder "mem_encode (\<lambda>d. concat (map (byte_symbols RMT_LED_STRIP_RESOLUTION_HZ) d))" 0 "\<lambda>_ _. True"
    "\<lambda>e d. drop e (concat (map (byte_symbols RMT_LED_STRIP_RESOLUTION_HZ) d))" "mem_encode id" 0 "\<lambda>_ _. True" "\<lambda>e d. drop e (id d)" RMT_LED_STRIP_RESOLUTION_HZ
  unfolding strip_encoder_def by (intro conjI mem_encode_rmt)

text \<open>
  C38. The LED strip. Whatever the two encoders of ESP-IDF are that keep the interface, and however the channel's
  memory is refilled, a transmission writes the code of each bit of each byte, most significant first, then
  the reset code once, and leaves the encoder ready for the next. At the badge's resolution the codes
  take 1.2 us and the reset 50 us.
\<close>

theorem strip_encoder_sends:
  assumes "rmt_encoder bytes b0 okb lb" "rmt_encoder copy c0 okc lc"
    and "lb b0 d = concat (map (byte_symbols res) d)" "lc c0 [reset_code res] = [reset_code res]"
    and "8 * length d + 1 < sum_list ms"
  shows "transmit (rmt_encode_led_strip bytes copy res) (strip_idle b0 c0) d ms =
      (strip_idle b0 c0, concat (map (byte_symbols res) d) @ [reset_code res], True) \<and>
    bit0_code RMT_LED_STRIP_RESOLUTION_HZ = \<lparr>level0 = True, duration0 = 3, level1 = False, duration1 = 9\<rparr> \<and>
    bit1_code RMT_LED_STRIP_RESOLUTION_HZ = \<lparr>level0 = True, duration0 = 9, level1 = False, duration1 = 3\<rparr> \<and>
    reset_code RMT_LED_STRIP_RESOLUTION_HZ = \<lparr>level0 = False, duration0 = 250, level1 = False, duration1 = 250\<rparr>"
proof -
  have strip: "strip_encoder bytes b0 okb lb copy c0 okc lc" using assms(1,2) by (rule strip_encoder.intro)
  have left: "strip_left lb lc res (strip_idle b0 c0) d = concat (map (byte_symbols res) d) @ [reset_code res]"
    using assms(3,4) by (simp add: strip_left_def strip_idle_def)
  have "length (concat (map (byte_symbols res) d)) = 8 * length d" by (induction d) (simp_all add: byte_symbols_def)
  then have "length (strip_left lb lc res (strip_idle b0 c0) d) < sum_list ms" using assms(5) by (simp add: left)
  from rmt_encoder.transmit_ends [OF strip_encoder.strip_rmt [OF strip] rmt_encoder.ok_idle [OF strip_encoder.strip_rmt [OF strip]] this]
  have "transmit (rmt_encode_led_strip bytes copy res) (strip_idle b0 c0) d ms = (strip_idle b0 c0, strip_left lb lc res (strip_idle b0 c0) d, True)" .
  then show ?thesis unfolding left by (simp add: bit0_code_def bit1_code_def reset_code_def RMT_LED_STRIP_RESOLUTION_HZ_def)
qed

theorem strip_encoder_sends_witness:
  "transmit (rmt_encode_led_strip (mem_encode (\<lambda>d. concat (map (byte_symbols 10000000) d))) (mem_encode id) 10000000) (strip_idle 0 0) [0xA5] [4, 4, 2] =
     (strip_idle 0 0, byte_symbols 10000000 0xA5 @ [reset_code 10000000], True) \<and>
   map duration0 (byte_symbols 10000000 0xA5) = [9, 3, 9, 3, 3, 9, 3, 9]"
proof -
  have u: "[0..<8] = [0, 1, 2, 3, 4, 5, 6, 7 :: nat]" by code_simp
  have "map duration0 (byte_symbols 10000000 0xA5) = [9, 3, 9, 3, 3, 9, 3, 9]"
    unfolding byte_symbols_def u by (simp add: bit0_code_def bit1_code_def)
  moreover note strip_encoder_sends [OF mem_encode_rmt [of "\<lambda>d. concat (map (byte_symbols 10000000) d)"] mem_encode_rmt [of id], of "[0xA5]" 10000000 "[4, 4, 2]"]
  ultimately show ?thesis by simp
qed

section \<open>The main loop\<close>

definition nixbadge_timestamp_now :: "int \<Rightarrow> int \<Rightarrow> int" where
  "nixbadge_timestamp_now tv_sec tv_usec = tv_sec * 1000 + cdiv tv_usec 1000"

text \<open>
  A message on the mesh: its packet (built in Zig, a parameter) to the children or to the parent. The
  state is \<open>last_ping_timestamp\<close>, \<open>is_meshing\<close>, the local \<open>last_ping\<close> of \<open>app_main\<close> and the messages sent.
\<close>

datatype 'p mesh_msg = To_children 'p | To_parent 'p

record 'p badge =
  last_ping_timestamp :: int
  is_meshing :: bool
  last_ping :: int
  sent :: "'p mesh_msg list"

definition nixbadge_mesh_broadcast :: "(u8 \<Rightarrow> 'p) \<Rightarrow> bool \<Rightarrow> u8 \<Rightarrow> int \<Rightarrow> 'p badge \<Rightarrow> 'p badge" where
  "nixbadge_mesh_broadcast create_packet root kind now s =
     (let s = (if kind = 0 then s\<lparr>last_ping_timestamp := now\<rparr> else s);
          s = s\<lparr>sent := sent s @ [To_children (create_packet kind)]\<rparr> in
      if \<not> root then s\<lparr>sent := sent s @ [To_parent (create_packet kind)]\<rparr> else s)"

definition wireless_enable :: "u8 \<Rightarrow> bool \<Rightarrow> bool" where
  "wireless_enable boot_mesh level \<longleftrightarrow> boot_mesh \<noteq> 0 \<or> level"

text \<open>The mesh branch of an iteration; \<open>now\<close>, \<open>now'\<close> and \<open>now''\<close> are the three readings of the clock.\<close>

definition ping_due :: "int \<Rightarrow> int \<Rightarrow> bool" where
  "ping_due now lst \<longleftrightarrow> (let q = cdiv (now - lst) 1000 in q - 5 * cdiv q 5 = 0)"

definition frame_mesh :: "(u8 \<Rightarrow> 'p) \<Rightarrow> bool \<Rightarrow> int \<times> int \<times> int \<Rightarrow> 'p badge \<Rightarrow> 'p badge" where
  "frame_mesh create_packet root clock s =
     (case clock of (now, now', now'') \<Rightarrow>
        if is_meshing s \<and> ping_due now (last_ping s)
        then (nixbadge_mesh_broadcast create_packet root 0 now' s)\<lparr>last_ping := now''\<rparr> else s)"

text \<open>Pings are meant to be five seconds apart; with frames shorter than a second every frame sends one.\<close>

lemma ping_due_short: "0 \<le> now - lst \<Longrightarrow> now - lst < 1000 \<Longrightarrow> ping_due now lst"
  by (simp add: ping_due_def cdiv_nonneg Let_def)

fun clock_ok :: "int \<Rightarrow> (int \<times> int \<times> int) list \<Rightarrow> bool" where
  "clock_ok lst [] \<longleftrightarrow> True"
| "clock_ok lst ((now, now', now'') # ts) \<longleftrightarrow> lst \<le> now \<and> now < lst + 1000 \<and> clock_ok now'' ts"

lemma ping_every_frame:
  "is_meshing s \<Longrightarrow> clock_ok (last_ping s) ts \<Longrightarrow>
   length (filter (\<lambda>m. m = To_children (create_packet 0)) (sent (fold (frame_mesh create_packet root) ts s))) =
     length (filter (\<lambda>m. m = To_children (create_packet 0)) (sent s)) + length ts"
proof (induction ts arbitrary: s)
  case (Cons t ts)
  obtain now now' now'' where t: "t = (now, now', now'')" by (metis prod_cases3)
  then have "ping_due now (last_ping s)" using Cons.prems ping_due_short [of now "last_ping s"] by simp
  then have f: "frame_mesh create_packet root t s = (nixbadge_mesh_broadcast create_packet root 0 now' s)\<lparr>last_ping := now''\<rparr>"
    using Cons.prems t by (simp add: frame_mesh_def)
  let ?s = "frame_mesh create_packet root t s"
  have "is_meshing ?s" "clock_ok (last_ping ?s) ts" "length (filter (\<lambda>m. m = To_children (create_packet 0)) (sent ?s)) =
      length (filter (\<lambda>m. m = To_children (create_packet 0)) (sent s)) + 1"
    using Cons.prems t unfolding f by (simp_all add: nixbadge_mesh_broadcast_def Let_def)
  with Cons.IH [of ?s] show ?case by simp
qed simp

section \<open>The cache proxy\<close>

text \<open>
  Values of the badge's flash configuration. A value that a handler needs and that is missing ends in
  \<open>ESP_ERROR_CHECK\<close>'s abort, here \<open>None\<close>.
\<close>

datatype nvs_value = NStr string | NU8 u8 | NU32 u32

type_synonym nvs = "string \<rightharpoonup> nvs_value"

definition nvs_get_str :: "nvs \<Rightarrow> string \<Rightarrow> string option" where
  "nvs_get_str n k = (case n k of Some (NStr v) \<Rightarrow> Some v | _ \<Rightarrow> None)"

definition nvs_get_u8 :: "nvs \<Rightarrow> string \<Rightarrow> u8 option" where
  "nvs_get_u8 n k = (case n k of Some (NU8 v) \<Rightarrow> Some v | _ \<Rightarrow> None)"

definition nvs_get_u32 :: "nvs \<Rightarrow> string \<Rightarrow> u32 option" where
  "nvs_get_u32 n k = (case n k of Some (NU32 v) \<Rightarrow> Some v | _ \<Rightarrow> None)"

record request =
  host :: string
  path :: string
  port :: "nat option"
  buffer_size :: nat
  over_ssl :: bool
  cert_pem :: "string option"
  use_global_ca_store :: bool
  content_type :: string

definition get_cache_host :: "nvs \<Rightarrow> bool \<Rightarrow> string \<Rightarrow> string option" where
  "get_cache_host n root gateway =
     (case nvs_get_u8 n ''cache_p2p'' of
        None \<Rightarrow> None
      | Some cache_p2p \<Rightarrow> if root \<or> cache_p2p \<noteq> 0 then nvs_get_str n ''cache_upstream'' else Some gateway)"

text \<open>\<open>narinfo_get_handler\<close> and \<open>nar_get_handler\<close> differ in the buffer size and the content type.\<close>

definition get_handler :: "nat \<Rightarrow> string \<Rightarrow> nvs \<Rightarrow> bool \<Rightarrow> string \<Rightarrow> string \<Rightarrow> request option" where
  "get_handler size' ctype n root gateway uri =
     (case get_cache_host n root gateway of
        None \<Rightarrow> None
      | Some h \<Rightarrow>
          (case nvs_get_u8 n ''cache_use_https'' of
             None \<Rightarrow> None
           | Some https \<Rightarrow>
               let c = \<lparr>host = h, path = uri, port = None, buffer_size = size', over_ssl = False, cert_pem = None,
                        use_global_ca_store = False, content_type = ctype\<rparr> in
               Some (if https \<noteq> 0 \<and> root then
                       (case nvs_get_str n ''cache_cert'' of
                          Some cert \<Rightarrow> c\<lparr>over_ssl := True, cert_pem := Some cert\<rparr>
                        | None \<Rightarrow> c\<lparr>over_ssl := True, use_global_ca_store := True\<rparr>)
                     else if \<not> root then c\<lparr>port := Some 1008\<rparr>
                     else c)))"

definition narinfo_get_handler :: "nvs \<Rightarrow> bool \<Rightarrow> string \<Rightarrow> string \<Rightarrow> request option" where
  "narinfo_get_handler = get_handler (16 * 1024) ''text/x-nix-narinfo''"

definition nar_get_handler :: "nvs \<Rightarrow> bool \<Rightarrow> string \<Rightarrow> string \<Rightarrow> request option" where
  "nar_get_handler = get_handler (64 * 1024) ''application/x-nix-nar''"

text \<open>The body of \<open>/nix-cache-info\<close>; \<open>show_u32\<close> prints a number.\<close>

definition nix_cache_info_get_handler :: "(u32 \<Rightarrow> string) \<Rightarrow> nvs \<Rightarrow> string option" where
  "nix_cache_info_get_handler show_u32 n =
     (case nvs_get_str n ''cache_store'' of
        None \<Rightarrow> None
      | Some store \<Rightarrow>
          (case nvs_get_u32 n ''cache_priority'' of
             None \<Rightarrow> None
           | Some prio \<Rightarrow>
               Some (''StoreDir: '' @ store @ [CHR 0x0A] @ ''WantMassQuery: 1'' @ [CHR 0x0A] @ ''Priority: '' @ show_u32 prio @ [CHR 0x0A])))"

datatype route = Cache_info | Nar | Narinfo

text \<open>The handlers in the order of their registration; the first whose pattern matches serves the request.\<close>

definition handlers :: "(string \<times> route) list" where
  "handlers = [(''/nix-cache-info'', Cache_info), (''/nar/*'', Nar), (''/*'', Narinfo)]"

definition route_of :: "(string \<Rightarrow> string \<Rightarrow> bool) \<Rightarrow> string \<Rightarrow> route option" where
  "route_of uri_match uri = map_option snd (List.find (\<lambda>h. uri_match (fst h) uri) handlers)"

text \<open>
  A request climbs the mesh: the badge asked, its parent, and so on to the root, each with its address and
  configuration. A badge that asks its gateway on the port of the proxy is served by the gateway's handler;
  any other request leaves the mesh.
\<close>

fun climb :: "(string \<times> nvs) list \<Rightarrow> (nvs \<Rightarrow> bool \<Rightarrow> string \<Rightarrow> string \<Rightarrow> request option) \<Rightarrow> string \<Rightarrow> request list option" where
  "climb [] h uri = None"
| "climb [(a, n)] h uri = map_option (\<lambda>r. [r]) (h n True [] uri)"
| "climb ((a, n) # (a', n') # bs) h uri =
     (case h n False a' uri of
        None \<Rightarrow> None
      | Some r \<Rightarrow> if host r = a' \<and> port r = Some 1008 then map_option (\<lambda>rs. r # rs) (climb ((a', n') # bs) h (path r)) else Some [r])"

definition forwards :: "nvs \<Rightarrow> bool" where
  "forwards n \<longleftrightarrow> nvs_get_u8 n ''cache_p2p'' = Some 0 \<and> nvs_get_u8 n ''cache_use_https'' \<noteq> None"

lemma forwards_get:
  assumes "forwards n" "h = narinfo_get_handler \<or> h = nar_get_handler"
  shows "\<exists>r. h n False a uri = Some r \<and> host r = a \<and> port r = Some 1008 \<and> path r = uri \<and> \<not> over_ssl r"
  using assms by (auto simp: forwards_def narinfo_get_handler_def nar_get_handler_def get_handler_def get_cache_host_def)

lemma bypass_get:
  assumes "nvs_get_u8 n ''cache_p2p'' = Some p" "p \<noteq> 0" "nvs_get_str n ''cache_upstream'' = Some up" "nvs_get_u8 n ''cache_use_https'' \<noteq> None"
    and "h = narinfo_get_handler \<or> h = nar_get_handler"
  shows "\<exists>r. h n False a uri = Some r \<and> host r = up \<and> port r = Some 1008 \<and> path r = uri \<and> \<not> over_ssl r"
  using assms by (auto simp: narinfo_get_handler_def nar_get_handler_def get_handler_def get_cache_host_def)

lemma root_get:
  assumes "nvs_get_u8 n ''cache_p2p'' \<noteq> None" "nvs_get_str n ''cache_upstream'' = Some up" "nvs_get_u8 n ''cache_use_https'' = Some https"
    and "h = narinfo_get_handler \<or> h = nar_get_handler"
  shows "\<exists>r. h n True a uri = Some r \<and> host r = up \<and> port r = None \<and> path r = uri \<and> (over_ssl r \<longleftrightarrow> https \<noteq> 0) \<and>
    (over_ssl r \<longrightarrow> use_global_ca_store r = (cert_pem r = None))"
  using assms by (auto simp: narinfo_get_handler_def nar_get_handler_def get_handler_def get_cache_host_def Let_def split: option.split)

lemma climb_up:
  assumes h: "h = narinfo_get_handler \<or> h = nar_get_handler" and top: "climb ((a, n) # cs) h uri = Some rs"
  shows "\<forall>b \<in> set bs. forwards (snd b) \<Longrightarrow> \<exists>qs. climb (bs @ (a, n) # cs) h uri = Some (qs @ rs) \<and> length qs = length bs \<and>
    (\<forall>q \<in> set qs. path q = uri \<and> port q = Some 1008 \<and> \<not> over_ssl q)"
proof (induction bs)
  case Nil
  show ?case using top by simp
next
  case (Cons b bs)
  obtain c m ms where up: "bs @ (a, n) # cs = (c, m) # ms" by (cases bs) auto
  obtain b1 b2 where b: "b = (b1, b2)" by (cases b)
  obtain r where r: "h b2 False c uri = Some r" "host r = c" "port r = Some 1008" "path r = uri" "\<not> over_ssl r"
    using forwards_get [OF _ h, of b2 c uri] Cons.prems b by auto
  obtain qs where qs: "climb (bs @ (a, n) # cs) h uri = Some (qs @ rs)" "length qs = length bs" "\<forall>q \<in> set qs. path q = uri \<and> port q = Some 1008 \<and> \<not> over_ssl q"
    using Cons by auto
  have "climb ((b # bs) @ (a, n) # cs) h uri = Some ((r # qs) @ rs)" using r b qs(1) up by simp
  moreover have "length (r # qs) = length (b # bs)" "\<forall>q \<in> set (r # qs). path q = uri \<and> port q = Some 1008 \<and> \<not> over_ssl q" using qs r by auto
  ultimately show ?case by blast
qed

text \<open>
  C39. The cache over the mesh. When the badges below the root forward, a request climbs to the root one hop per
  badge with its path unchanged, each hop in the clear on port 1008, and leaves the mesh as one request to
  the root's upstream, over TLS with the configured certificate or the global store exactly when the root
  uses https. A badge below the root with \<open>cache_p2p\<close> set does not forward: it asks the upstream itself, but
  on the mesh's port and in the clear.
\<close>

theorem cache_climbs:
  assumes h: "h = narinfo_get_handler \<or> h = nar_get_handler" and below: "list_all (\<lambda>b. forwards (snd b)) bs"
    and up: "nvs_get_str n ''cache_upstream'' = Some up" and https: "nvs_get_u8 n ''cache_use_https'' = Some https"
    and p2p: "nvs_get_u8 n ''cache_p2p'' = Some p"
  shows "(\<exists>qs r. climb (bs @ [(a, n)]) h uri = Some (qs @ [r]) \<and> length qs = length bs \<and>
      list_all (\<lambda>q. path q = uri \<and> port q = Some 1008 \<and> \<not> over_ssl q) qs \<and> host r = up \<and> path r = uri \<and> port r = None \<and>
      (over_ssl r \<longleftrightarrow> https \<noteq> 0) \<and> (over_ssl r \<longrightarrow> use_global_ca_store r = (cert_pem r = None))) \<and>
    (p \<noteq> 0 \<and> up \<noteq> a' \<longrightarrow> (\<exists>qs r. climb (bs @ (a, n) # (a', n') # cs) h uri = Some (qs @ [r]) \<and> length qs = length bs \<and>
      host r = up \<and> port r = Some 1008 \<and> \<not> over_ssl r))"
proof
  obtain r where r: "h n True [] uri = Some r" "host r = up" "port r = None" "path r = uri" "over_ssl r \<longleftrightarrow> https \<noteq> 0"
      "over_ssl r \<longrightarrow> use_global_ca_store r = (cert_pem r = None)"
    using root_get [OF _ up https h, of "[]" uri] p2p by auto
  then have "climb [(a, n)] h uri = Some [r]" by simp
  from climb_up [OF h this, of bs] below r
  show "\<exists>qs r. climb (bs @ [(a, n)]) h uri = Some (qs @ [r]) \<and> length qs = length bs \<and>
      list_all (\<lambda>q. path q = uri \<and> port q = Some 1008 \<and> \<not> over_ssl q) qs \<and> host r = up \<and> path r = uri \<and> port r = None \<and>
      (over_ssl r \<longleftrightarrow> https \<noteq> 0) \<and> (over_ssl r \<longrightarrow> use_global_ca_store r = (cert_pem r = None))"
    by (auto simp: list_all_iff)
  show "p \<noteq> 0 \<and> up \<noteq> a' \<longrightarrow> (\<exists>qs r. climb (bs @ (a, n) # (a', n') # cs) h uri = Some (qs @ [r]) \<and> length qs = length bs \<and>
      host r = up \<and> port r = Some 1008 \<and> \<not> over_ssl r)"
  proof
    assume p: "p \<noteq> 0 \<and> up \<noteq> a'"
    obtain r where r: "h n False a' uri = Some r" "host r = up" "port r = Some 1008" "\<not> over_ssl r"
      using bypass_get [OF p2p _ up _ h, of a' uri] p https by auto
    then have "climb ((a, n) # (a', n') # cs) h uri = Some [r]" using p by simp
    from climb_up [OF h this, of bs] below r
    show "\<exists>qs r. climb (bs @ (a, n) # (a', n') # cs) h uri = Some (qs @ [r]) \<and> length qs = length bs \<and> host r = up \<and> port r = Some 1008 \<and> \<not> over_ssl r"
      by (auto simp: list_all_iff)
  qed
qed

definition demo_nvs :: "u8 \<Rightarrow> nvs" where
  "demo_nvs p2p = [''cache_p2p'' \<mapsto> NU8 p2p, ''cache_upstream'' \<mapsto> NStr ''cache.nixos.lv'', ''cache_use_https'' \<mapsto> NU8 1]"

theorem cache_climbs_witness:
  "(\<exists>q r. climb [(''192.168.5.2'', demo_nvs 0), (''192.168.5.1'', demo_nvs 1)] nar_get_handler ''/nar/x'' = Some [q, r] \<and>
     port q = Some 1008 \<and> host r = ''cache.nixos.lv'' \<and> over_ssl r \<and> use_global_ca_store r = (cert_pem r = None)) \<and>
   (\<exists>r. climb [(''192.168.5.2'', demo_nvs 1), (''192.168.5.1'', demo_nvs 1)] nar_get_handler ''/nar/x'' = Some [r] \<and>
     host r = ''cache.nixos.lv'' \<and> port r = Some 1008 \<and> \<not> over_ssl r)"
proof -
  have g: "nvs_get_str (demo_nvs p) ''cache_upstream'' = Some ''cache.nixos.lv''" "nvs_get_u8 (demo_nvs p) ''cache_use_https'' = Some 1"
      "nvs_get_u8 (demo_nvs p) ''cache_p2p'' = Some p" for p
    by (simp_all add: demo_nvs_def nvs_get_str_def nvs_get_u8_def)
  have f: "forwards (demo_nvs 0)" by (simp add: forwards_def g)
  note one = cache_climbs [where h = nar_get_handler and bs = "[(''192.168.5.2'', demo_nvs 0)]" and n = "demo_nvs 1" and a = "''192.168.5.1''"
      and uri = "''/nar/x''" and a' = "''192.168.5.1''" and n' = "demo_nvs 1" and cs = "[]", OF _ _ g(1) g(2) g(3)]
  note two = cache_climbs [where h = nar_get_handler and bs = "[]" and n = "demo_nvs 1" and a = "''192.168.5.2''"
      and uri = "''/nar/x''" and a' = "''192.168.5.1''" and n' = "demo_nvs 1" and cs = "[]", OF _ _ g(1) g(2) g(3)]
  show ?thesis using one two f by (auto simp: length_Suc_conv)
qed

end
