(* ===== verification/Spec2Isabelle.thy ===== *)
theory Spec2Isabelle
  imports Ion Delta Dispsrc Sdhci Btnwait Ephy Pll Ltlife Scroll Bitbang Cube Nv12 Player Badge1
begin

text \<open>
  A verification library for the C code of BadgeOS: the kernel modules and tools that make the display,
  the SD card and the video of the badge work. The programs are small, talk to hardware through
  registers, and are hard where hardware is hard: lifetimes and races, polled interrupts, state that
  only takes effect at a frame start, bit-exact formats, and arithmetic at its width.

  \<^bold>\<open>The parts and their theories.\<close>
  \<^item> \<open>Prelude\<close>: C integers, error numbers and macros, and the interfaces \<open>step_invariant\<close> (an invariant that
    every step keeps holds in every reachable state) and \<open>simulation\<close> (a step relation refines another).
  \<^item> \<open>Mmio\<close>: register windows of bytes with 8, 16 and 32-bit access; the interface \<open>rw_cell\<close> (a register reads
    back what was written, others are left alone), interpreted for each width (\<open>mb\<close>, \<open>mw\<close>, \<open>ml\<close>).
  \<^item> \<open>Pixels\<close>: colour bars, byte stores, raster fills and the numbers of \<open>sscanf\<close>.
  \<^item> \<open>Ion\<close>: \<open>soph-display/compat/soph_ion_compat.c\<close>, the allocator behind the display: carve-out and DMA
    buffers with reference counts, the live list, the budget, dma-buf export and the cache operations. The
    state is the record of the module's globals and the heap of buffers; every exported function and file
    operation is one definition. Lifetimes, accounting and the budget race are invariants of the step
    relation, interpreted as \<open>ion\<close>.
  \<^item> \<open>Sophdrm\<close>: \<open>soph-display/sophdrm/sophdrm.c\<close>, the KMS front end: mode reading, the polled vblank, flips,
    the graphics and video planes, enabling and disabling, probing. A flip completes only after the frame
    start that latched it; disabling parks the hardware; programmed addresses match the framebuffer.
  \<^item> \<open>Dispsrc\<close>: \<open>soph-display/dispsrc/dispsrc.c\<close>, the test source with its debugfs files.
  \<^item> \<open>Sdtune\<close>, \<open>Sdhci\<close>: \<open>sdhci-cv181x/sdhci-cv181x.c\<close>, pads, resets, signalling voltage, DMA, probing and the
    sampling-point tuning. The rail refines an abstract switch (interpretations \<open>sd\<close>, \<open>sdv\<close>); tuning ends
    within 6529 commands and picks the middle of the widest window.
  \<^item> \<open>Ltregs\<close>, \<open>Bringup\<close>, \<open>Ltctl\<close>, \<open>Scanout\<close>, \<open>Ltlife\<close>, \<open>Pll\<close>, \<open>Scroll\<close>, \<open>Bitbang\<close>:
    \<open>lt8912b-bringup.c\<close>, the HDMI bring-up: its registers, the sequence, the controls, what the display then
    shows, the life of the module (interpretation \<open>bu\<close>), the PLL arithmetic, the scroller and the
    bit-banged I2C bus.
  \<^item> \<open>Ephy\<close>: \<open>cvi_board_init.c\<close>, the boot-time set-up of the Ethernet PHY.
  \<^item> \<open>Badapple\<close>, \<open>Delta\<close>: the packers of the one-bit video and its delta codec with the player of the badge,
    composed in this theory.
  \<^item> \<open>Btnwait\<close>: \<open>nix-badge-video/btnwait.c\<close>, the button waiter.
  \<^item> \<open>Bitio\<close>, \<open>Nal\<close>, \<open>Pframe\<close>, \<open>Bpic\<close>, \<open>Cube\<close>, \<open>Mc\<close>: \<open>coda-cube.c\<close>, which draws a cube by writing an H.264
    stream whose motion vectors do the drawing: the bit writer, NAL units, the rendered P-picture, the
    smoothing B-pictures, the stream with its parameter sets and pages, and the motion compensation that
    models the decoder. \<open>Mvfield\<close>, \<open>Pdec\<close> and \<open>Pslice\<close> are the other side: a decoder written from the
    standard, with its own motion field, prediction and partition scan, which shares nothing with the
    encoder but the picture size.
  \<^item> \<open>Neon\<close>, \<open>Nv12\<close>: its vector code, each lane a word of its width: motion compensation and weighting, and the
    conversion of decoded pictures to a surface with its portable twin. Both are equivalent to the scalar
    routines, no lane overflows.
  \<^item> \<open>Player\<close>: its frame loop. Main thread, worker and compositor interleave as a step relation; every frame the
    decoder has handed out has one owner (interpretation \<open>pl\<close> of \<open>step_invariant\<close>).

  \<^item> \<open>Badge1\<close>: the firmware of the first badge: the LED strip encoder, which chains two encoders of ESP-IDF and is
    one itself (the interface \<open>rmt_encoder\<close>, its extension \<open>strip_encoder\<close> with a sublocale, interpreted as
    \<open>leds\<close>), the ping of the main loop, and the cache proxy over the mesh.

  \<^bold>\<open>How the model follows the code.\<close> A struct, or the globals of a file, is a record; a function is a
  definition of the same name (with a prefix where HOL has the name); a handler returns an error number
  or the new state; machine integers are words where their width matters and otherwise naturals or
  integers with the wrap written out. What the code calls outside the repository (the kernel, the vendor
  display library, the clock, the GPIO chips, the I2C slave) is an argument; what is relied on is an
  assumption by name (\<open>mac_laws\<close>, a conforming slave, \<open>pack_io_ok\<close>), each with a witness.

  \<^bold>\<open>Codes.\<close> \<open>emits f p x\<close> says that writer \<open>f\<close> appends bits from which reader \<open>p\<close> reads \<open>x\<close>; it composes along
  the syntax, so a header or a macroblock is one chain of rules. The interface \<open>codec\<close> gives lists of codes
  and is interpreted for the codes of the stream (\<open>ue\<close>, \<open>se\<close>, \<open>te\<close>, \<open>fixed\<close>, \<open>flag\<close>). The refinement of the motion
  field (\<open>field_of\<close>, \<open>seen\<close>, \<open>bseen\<close>) shows that the encoder's arrays of cells, packed into 8 and 16 bits, always
  stand for what the decoder knows.

  \<^bold>\<open>Bounds and fuel.\<close> Loops are structural recursion or have a measure. Loops that poll hardware run over the
  list of answers, so that giving up is part of the result; a division by zero is \<open>None\<close> (\<open>cal_pll_reg\<close>), and
  so is an index out of range (\<open>encode_frame\<close>, when more than fifteen pairs of face and page are visible).
  \<open>frame_ok\<close> bounds a picture to 510 by 510 macroblocks and vectors to 16 bits, \<open>pages_ok\<close> the visible pairs to
  fifteen, \<open>hdr_ok\<close> the weights to what the syntax carries.

  \<^bold>\<open>Not modelled.\<close> The geometry, the lights, the textures and the anti-aliasing of the cube are floating
  point: what they decide (face, page and vector of a block) is the argument \<open>scene\<close> of the encoder. The
  demonstration programs (\<open>nix-fixes-this\<close>, \<open>demo\<close>) are floating-point renderers and synthesisers. The hardware
  checks and display scripts drive libraries and devices and print what they find. Of the cube's
  player, opening and closing devices, timing and statistics are left out. Files that only
  print (the dump files of the drivers), log messages, and headers of constants are left out, except for
  the constants used. The rest of the first badge's firmware is calls into ESP-IDF
  and the colours of its LEDs, sines in floating point.
\<close>

section \<open>From gray video to the panel\<close>



end
